(* ===== verification/Jmpxx_Prelude.thy ===== *)
theory Jmpxx_Prelude
  imports Main "HOL-Library.Word"
begin

text \<open>
  Shared vocabulary of the development.

  C++ integers are kept at their width: \<open>c_int\<close> is the 32-bit two's complement
  \<open>int\<close> (read with \<^const>\<open>sint\<close>), \<open>c_uint32\<close> is \<open>std::uint32_t\<close>, and a
  byte is an 8-bit word.  Addresses are 64-bit words.

  \<open>outcome\<close> is what evaluating an expression of the library can do: return, run
  \<open>platform::fail_fast\<close> with its reason (\<open>platform/trap.hpp\<close>; the process stops,
  so nothing follows), let a C++ exception out, or step into undefined behaviour, which
  the model keeps as a value of its own so that its absence is a theorem.
\<close>

type_synonym c_int = "32 word"
type_synonym c_uint32 = "32 word"
type_synonym byte = "8 word"
type_synonym addr = "64 word"

datatype 'a outcome =
    Returns 'a
  | Fail_Fast string
  | Throws
  | Undefined

text \<open>The collections the component theories contribute their rewrite rules to.\<close>

named_theorems transport_simps \<open>unfolding rules of the value-or-error transport\<close>
named_theorems store_simps \<open>unfolding rules of the diagnostic store\<close>
named_theorems policy_simps \<open>unfolding rules of the error policies\<close>
named_theorems arm_simps \<open>unfolding rules of the unwind arm\<close>
named_theorems app_simps \<open>unfolding rules of the reference applications\<close>

primrec bind_outcome :: "'a outcome \<Rightarrow> ('a \<Rightarrow> 'b outcome) \<Rightarrow> 'b outcome" where
  "bind_outcome (Returns x) k = k x"
| "bind_outcome (Fail_Fast m) k = Fail_Fast m"
| "bind_outcome Throws k = Throws"
| "bind_outcome Undefined k = Undefined"

primrec map_outcome_value :: "('a \<Rightarrow> 'b) \<Rightarrow> 'a outcome \<Rightarrow> 'b outcome" where
  "map_outcome_value f (Returns x) = Returns (f x)"
| "map_outcome_value f (Fail_Fast m) = Fail_Fast m"
| "map_outcome_value f Throws = Throws"
| "map_outcome_value f Undefined = Undefined"

definition defined :: "'a outcome \<Rightarrow> bool" where
  "defined r \<longleftrightarrow> (case r of Undefined \<Rightarrow> False | _ \<Rightarrow> True)"

lemma defined_simps [simp]:
  "defined (Returns x)" "defined (Fail_Fast m)" "defined Throws" "\<not> defined Undefined"
  by (simp_all add: defined_def)

lemma bind_outcome_Returns_right [simp]: "bind_outcome r Returns = r"
  by (cases r) simp_all

lemma bind_outcome_assoc:
  "bind_outcome (bind_outcome r f) g = bind_outcome r (\<lambda>x. bind_outcome (f x) g)"
  by (cases r) simp_all

lemma bind_outcome_eq_Returns [simp]:
  "bind_outcome r k = Returns y \<longleftrightarrow> (\<exists>x. r = Returns x \<and> k x = Returns y)"
  by (cases r) simp_all

lemma map_outcome_value_bind: "map_outcome_value f r = bind_outcome r (\<lambda>x. Returns (f x))"
  by (cases r) simp_all

text \<open>Generic facts on lists the components share.\<close>

lemma take_list_update_Suc:
  "n < length xs \<Longrightarrow> take (Suc n) (xs[n := x]) = take n xs @ [x]"
  by (simp add: take_Suc_conv_app_nth)

lemma nth_take_eq: "i < n \<Longrightarrow> take n xs = take n ys \<Longrightarrow> xs ! i = ys ! i"
  by (metis nth_take)

lemma map_upt_Suc_shift: "map f [0..<Suc n] = f 0 # map (\<lambda>i. f (Suc i)) [0..<n]"
  by (simp add: upt_conv_Cons map_Suc_upt [symmetric] del: upt_Suc)

text \<open>Decimal rendering, as the \<open>%d\<close> and \<open>%u\<close> conversions of the C library print it.\<close>

definition show_digit :: "nat \<Rightarrow> char" where
  "show_digit d = char_of (48 + d)"

fun show_nat :: "nat \<Rightarrow> string" where
  "show_nat n = (if n < 10 then [show_digit n] else show_nat (n div 10) @ [show_digit (n mod 10)])"

declare show_nat.simps [simp del]

definition show_int :: "int \<Rightarrow> string" where
  "show_int i = (if i < 0 then CHR ''-'' # show_nat (nat (- i)) else show_nat (nat i))"

text \<open>The value of a decimal string, the inverse of the rendering.\<close>

definition digit_value :: "char \<Rightarrow> nat" where
  "digit_value c = of_char c - 48"

definition read_nat :: "string \<Rightarrow> nat" where
  "read_nat cs = foldl (\<lambda>n c. 10 * n + digit_value c) 0 cs"

lemma digit_value_show_digit [simp]: "d < 10 \<Longrightarrow> digit_value (show_digit d) = d"
  by (simp add: digit_value_def show_digit_def)

lemma read_nat_append: "read_nat (xs @ [c]) = 10 * read_nat xs + digit_value c"
  by (simp add: read_nat_def)

lemma read_show_nat [simp]: "read_nat (show_nat n) = n"
proof (induction n rule: show_nat.induct)
  case (1 n)
  then show ?case
    by (subst show_nat.simps) (auto simp: read_nat_append read_nat_def [of "[_]"])
qed

lemma show_nat_inject [simp]: "show_nat m = show_nat n \<longleftrightarrow> m = n"
  by (metis read_show_nat)

text \<open>
  The number at the start of a text, as \<open>strtol\<close> and its relatives read it before they fit it to
  their type: white space, a sign, digits.
\<close>

definition is_space :: "char \<Rightarrow> bool" where
  "is_space c \<longleftrightarrow> (of_char c :: nat) \<in> {9, 10, 11, 12, 13, 32}"

definition is_digit :: "char \<Rightarrow> bool" where
  "is_digit c \<longleftrightarrow> 48 \<le> (of_char c :: nat) \<and> (of_char c :: nat) \<le> 57"

definition decimal :: "string \<Rightarrow> int" where
  "decimal t =
     (let t = dropWhile is_space t;
          negative = (t \<noteq> [] \<and> hd t = CHR ''-'');
          t = (if t \<noteq> [] \<and> (hd t = CHR ''-'' \<or> hd t = CHR ''+'') then tl t else t);
          n = int (read_nat (takeWhile is_digit t))
      in if negative then - n else n)"

lemma show_nat_digits: "\<forall>c\<in>set (show_nat n). is_digit c" "show_nat n \<noteq> []"
proof (induction n rule: show_nat.induct)
  case (1 n)
  have digit: "is_digit (show_digit d)" if "d < 10" for d
    using that by (simp add: is_digit_def show_digit_def)
  {
    case 1
    show ?case using "1.IH" digit by (subst show_nat.simps) auto
  next
    case 2
    show ?case by (subst show_nat.simps) simp
  }
qed

lemma takeWhile_digits:
  assumes "rest = [] \<or> \<not> is_digit (hd rest)"
  shows "takeWhile is_digit (show_nat n @ rest) = show_nat n"
proof -
  have "takeWhile is_digit rest = []" using assms by (cases rest) auto
  then show ?thesis using show_nat_digits(1) [of n] by (simp add: takeWhile_append)
qed

lemma show_nat_first: "\<exists>c cs. show_nat n = c # cs \<and> is_digit c \<and> \<not> is_space c \<and> c \<noteq> CHR ''-'' \<and> c \<noteq> CHR ''+''"
proof -
  obtain c cs where "show_nat n = c # cs" "is_digit c" using show_nat_digits [of n] by (cases "show_nat n") auto
  then show ?thesis by (auto simp: is_digit_def is_space_def)
qed

lemma decimal_show_nat:
  assumes "rest = [] \<or> \<not> is_digit (hd rest)"
  shows "decimal (show_nat n @ rest) = int n"
proof -
  obtain c cs where c: "show_nat n = c # cs" "\<not> is_space c" "c \<noteq> CHR ''-''" "c \<noteq> CHR ''+''" using show_nat_first [of n] by blast
  have "read_nat (c # cs) = n" using read_show_nat [of n] by (simp add: c(1))
  then show ?thesis using c takeWhile_digits [OF assms, of n] by (simp add: decimal_def Let_def)
qed

text \<open>
  Signed 32-bit arithmetic: a result outside the range of \<open>int\<close> is undefined behaviour.
\<close>

definition int_result :: "int \<Rightarrow> c_int outcome" where
  "int_result i = (if - (2 ^ 31) \<le> i \<and> i < 2 ^ 31 then Returns (of_int i) else Undefined)"

definition c_add :: "c_int \<Rightarrow> c_int \<Rightarrow> c_int outcome" where
  "c_add a b = int_result (sint a + sint b)"

definition c_mul :: "c_int \<Rightarrow> c_int \<Rightarrow> c_int outcome" where
  "c_mul a b = int_result (sint a * sint b)"

definition c_neg :: "c_int \<Rightarrow> c_int outcome" where
  "c_neg a = int_result (- sint a)"

definition c_negative :: "c_int \<Rightarrow> bool" where
  "c_negative a \<longleftrightarrow> sint a < 0"

lemma sint_range: "- (2 ^ 31) \<le> sint (a :: c_int) \<and> sint a < 2 ^ 31"
  using sint_greater_eq [of a] sint_less [of a] by simp

lemma int_result_Returns_iff: "int_result i = Returns v \<longleftrightarrow> i = sint v"
proof
  assume "int_result i = Returns v"
  then have r: "- (2 ^ 31) \<le> i" "i < 2 ^ 31" "v = of_int i" by (auto simp: int_result_def split: if_splits)
  then have "sint (of_int i :: c_int) = i"
    by (simp add: signed_of_int signed_take_bit_int_eq_self)
  then show "i = sint v" using r(3) by simp
next
  assume "i = sint v"
  then show "int_result i = Returns v" using sint_range [of v] by (simp add: int_result_def)
qed

lemma int_result_cases: "int_result i = Undefined \<or> (\<exists>v. int_result i = Returns v \<and> sint v = i)"
  using int_result_Returns_iff [of i "of_int i"] by (auto simp: int_result_def)

text \<open>\<open>std::string::find\<close> from a position.\<close>

fun find_sub :: "string \<Rightarrow> string \<Rightarrow> nat option" where
  "find_sub pat [] = (if pat = [] then Some 0 else None)"
| "find_sub pat (c # cs) =
     (if take (length pat) (c # cs) = pat then Some 0 else map_option Suc (find_sub pat cs))"

definition find_from :: "string \<Rightarrow> string \<Rightarrow> nat \<Rightarrow> nat option" where
  "find_from text pat i = (if i \<le> length text then map_option ((+) i) (find_sub pat (drop i text)) else None)"

definition substr :: "string \<Rightarrow> nat \<Rightarrow> nat \<Rightarrow> string" where
  "substr text i n = take n (drop i text)"

lemma find_from_bounds: "find_from text pat i = Some j \<Longrightarrow> i \<le> j"
  by (auto simp: find_from_def split: if_splits)

text \<open>\<open>rfind\<close>: the last occurrence.\<close>

fun rfind_sub :: "string \<Rightarrow> string \<Rightarrow> nat option" where
  "rfind_sub pat [] = (if pat = [] then Some 0 else None)"
| "rfind_sub pat (c # cs) =
     (case rfind_sub pat cs of
        Some i \<Rightarrow> Some (Suc i)
      | None \<Rightarrow> if take (length pat) (c # cs) = pat then Some 0 else None)"

text \<open>What the C library sees of a string: the characters before the first null.\<close>

definition c_str :: "string \<Rightarrow> string" where
  "c_str t = takeWhile (\<lambda>c. c \<noteq> CHR 0x00) t"

text \<open>The padding of the \<open>%-ns\<close> conversion.\<close>

definition pad_right :: "nat \<Rightarrow> string \<Rightarrow> string" where
  "pad_right n t = t @ replicate (n - length t) (CHR '' '')"

end
