(* ===== verification/Platform_Config.thy ===== *)
theory Platform_Config
  imports Jmpxx_Prelude
begin

text \<open>
  Target detection and build configuration: \<open>platform/detect.hpp\<close>,
  \<open>platform.hpp\<close>, \<open>core/config.hpp\<close>, \<open>platform/trap.hpp\<close>,
  \<open>platform/trace.hpp\<close> and the backend selection of \<open>unwind/backend.hpp\<close>.

  The preprocessor is modelled as a function of the macros a translation unit has
  defined before the header is read: an environment maps a macro name to its integer
  value, and \<open>defined(X)\<close> is membership in its domain.  Every \<open>#if\<close> ladder of the
  headers becomes one definition with the same tests in the same order; an
  \<open>#error\<close> directive is the value \<open>None\<close>.
\<close>

type_synonym macros = "string \<rightharpoonup> int"

definition is_defined :: "macros \<Rightarrow> string \<Rightarrow> bool" where
  "is_defined m x \<longleftrightarrow> m x \<noteq> None"

text \<open>An identifier that is not a macro evaluates to 0 in an \<open>#if\<close> expression.\<close>

definition macro_value :: "macros \<Rightarrow> string \<Rightarrow> int" where
  "macro_value m x = (case m x of None \<Rightarrow> 0 | Some v \<Rightarrow> v)"


subsection \<open>Detection\<close>

definition compiler_clang :: "macros \<Rightarrow> bool" where
  "compiler_clang m \<longleftrightarrow> is_defined m ''__clang__''"

definition compiler_gcc :: "macros \<Rightarrow> bool" where
  "compiler_gcc m \<longleftrightarrow> is_defined m ''__GNUC__'' \<and> \<not> is_defined m ''__clang__''"

definition compiler_msvc :: "macros \<Rightarrow> bool" where
  "compiler_msvc m \<longleftrightarrow> is_defined m ''_MSC_VER'' \<and> \<not> is_defined m ''__clang__''"

definition jmpxx_cplusplus :: "macros \<Rightarrow> int" where
  "jmpxx_cplusplus m =
     (if is_defined m ''_MSVC_LANG'' then macro_value m ''_MSVC_LANG''
      else macro_value m ''__cplusplus'')"

definition has_exceptions :: "macros \<Rightarrow> bool" where
  "has_exceptions m \<longleftrightarrow>
     is_defined m ''__cpp_exceptions'' \<or> is_defined m ''__EXCEPTIONS'' \<or> is_defined m ''_CPPUNWIND''"

definition has_rtti :: "macros \<Rightarrow> bool" where
  "has_rtti m \<longleftrightarrow>
     is_defined m ''__GXX_RTTI'' \<or> is_defined m ''__cpp_rtti'' \<or> is_defined m ''_CPPRTTI''"

definition os_windows :: "macros \<Rightarrow> bool" where
  "os_windows m \<longleftrightarrow> is_defined m ''_WIN32''"

definition os_macos :: "macros \<Rightarrow> bool" where
  "os_macos m \<longleftrightarrow> is_defined m ''__APPLE__'' \<and> is_defined m ''__MACH__''"

definition os_linux :: "macros \<Rightarrow> bool" where
  "os_linux m \<longleftrightarrow> is_defined m ''__linux__''"

definition os_bsd :: "macros \<Rightarrow> bool" where
  "os_bsd m \<longleftrightarrow> is_defined m ''__FreeBSD__'' \<or> is_defined m ''__NetBSD__'' \<or>
     is_defined m ''__OpenBSD__'' \<or> is_defined m ''__DragonFly__''"

definition os_hosted :: "macros \<Rightarrow> bool" where
  "os_hosted m \<longleftrightarrow> os_windows m \<or> os_macos m \<or> os_linux m \<or> os_bsd m"

definition os_none :: "macros \<Rightarrow> bool" where
  "os_none m \<longleftrightarrow> \<not> (os_windows m \<or> os_macos m \<or> os_linux m \<or> os_bsd m)"

definition arch_x86_64 :: "macros \<Rightarrow> bool" where
  "arch_x86_64 m \<longleftrightarrow> is_defined m ''__x86_64__'' \<or> is_defined m ''_M_X64''"

definition arch_arm64 :: "macros \<Rightarrow> bool" where
  "arch_arm64 m \<longleftrightarrow> is_defined m ''__aarch64__'' \<or> is_defined m ''_M_ARM64''"

definition arch_arm32 :: "macros \<Rightarrow> bool" where
  "arch_arm32 m \<longleftrightarrow> is_defined m ''__arm__'' \<or> is_defined m ''_M_ARM''"

definition arch_riscv :: "macros \<Rightarrow> bool" where
  "arch_riscv m \<longleftrightarrow> is_defined m ''__riscv''"

definition arch_wasm :: "macros \<Rightarrow> bool" where
  "arch_wasm m \<longleftrightarrow> is_defined m ''__wasm__'' \<or> is_defined m ''__wasm32__'' \<or>
     is_defined m ''__wasm64__''"


subsection \<open>Queries\<close>

definition compiler_name :: "macros \<Rightarrow> string" where
  "compiler_name m =
     (if compiler_clang m then ''clang''
      else if compiler_gcc m then ''gcc''
      else if compiler_msvc m then ''msvc''
      else ''unknown'')"

definition os_name :: "macros \<Rightarrow> string" where
  "os_name m =
     (if os_windows m then ''windows''
      else if os_macos m then ''macos''
      else if os_linux m then ''linux''
      else if os_bsd m then ''bsd''
      else ''none'')"

definition arch_name :: "macros \<Rightarrow> string" where
  "arch_name m =
     (if arch_x86_64 m then ''x86_64''
      else if arch_arm64 m then ''arm64''
      else if arch_arm32 m then ''arm32''
      else if arch_riscv m then ''riscv''
      else if arch_wasm m then ''wasm''
      else ''other'')"

definition is_hosted :: "macros \<Rightarrow> bool" where
  "is_hosted m \<longleftrightarrow> os_hosted m"


subsection \<open>Version and language gate\<close>

definition version_major :: int where "version_major = 0"
definition version_minor :: int where "version_minor = 1"
definition version_patch :: int where "version_patch = 5"

definition jmpxx_version :: int where
  "jmpxx_version = version_major * 10000 + version_minor * 100 + version_patch"

definition language_gate :: "macros \<Rightarrow> bool" where
  "language_gate m \<longleftrightarrow> \<not> (\<not> is_defined m ''__cplusplus'' \<or> jmpxx_cplusplus m < 202002)"


subsection \<open>Hardening and diagnostics switches\<close>

definition hardening_none :: int where "hardening_none = 0"
definition hardening_fast :: int where "hardening_fast = 1"
definition hardening_extensive :: int where "hardening_extensive = 2"

text \<open>The value \<open>JMPXX_HARDENING_MODE\<close> has after its defaulting ladder.\<close>

definition default_hardening_mode :: "macros \<Rightarrow> int" where
  "default_hardening_mode m =
     (if \<not> is_defined m ''JMPXX_HARDENING_MODE'' then
        (if is_defined m ''JMPXX_HARDENED'' then
           (if macro_value m ''JMPXX_HARDENED'' \<noteq> 0 then hardening_fast else hardening_none)
         else if is_defined m ''NDEBUG'' then hardening_none
         else hardening_fast)
      else macro_value m ''JMPXX_HARDENING_MODE'')"

text \<open>
  The mode and the value \<open>JMPXX_HARDENED\<close> ends up with, or \<open>None\<close> where the header
  stops at one of its two \<open>#error\<close> directives.
\<close>

definition hardening_mode :: "macros \<Rightarrow> (int \<times> int) option" where
  "hardening_mode m =
     (let mode = default_hardening_mode m in
      if mode \<noteq> hardening_none \<and> mode \<noteq> hardening_fast \<and> mode \<noteq> hardening_extensive then None
      else if is_defined m ''JMPXX_HARDENED'' then
        (let hardened = macro_value m ''JMPXX_HARDENED'' in
         if (hardened \<noteq> 0 \<and> mode < hardening_fast) \<or> (hardened = 0 \<and> mode \<ge> hardening_fast)
         then None
         else Some (mode, hardened))
      else Some (mode, if mode \<ge> hardening_fast then 1 else 0))"

definition hardening_fast_enabled :: "int \<Rightarrow> bool" where
  "hardening_fast_enabled mode \<longleftrightarrow> mode \<ge> hardening_fast"

definition hardening_extensive_enabled :: "int \<Rightarrow> bool" where
  "hardening_extensive_enabled mode \<longleftrightarrow> mode \<ge> hardening_extensive"

definition diagnostics_enabled :: "macros \<Rightarrow> int" where
  "diagnostics_enabled m =
     (if \<not> is_defined m ''JMPXX_DIAGNOSTICS_ENABLED'' then
        (if is_defined m ''NDEBUG'' then 0 else 1)
      else macro_value m ''JMPXX_DIAGNOSTICS_ENABLED'')"

definition stacktrace_enabled :: "macros \<Rightarrow> int" where
  "stacktrace_enabled m =
     (if \<not> is_defined m ''JMPXX_STACKTRACE'' then 0 else macro_value m ''JMPXX_STACKTRACE'')"


subsection \<open>Unwind backend selection\<close>

datatype unwind_backend = Backend_Wasm | Backend_Seh | Backend_Itanium | Backend_None

definition unwind_backend_of :: "macros \<Rightarrow> unwind_backend" where
  "unwind_backend_of m =
     (if arch_wasm m then Backend_Wasm
      else if compiler_msvc m then Backend_Seh
      else if (compiler_gcc m \<or> compiler_clang m) \<and> is_defined m ''__SEH__'' then Backend_None
      else if compiler_gcc m \<or> compiler_clang m then Backend_Itanium
      else Backend_None)"

definition unwind_available :: "unwind_backend \<Rightarrow> bool" where
  "unwind_available b \<longleftrightarrow> b \<noteq> Backend_None"

text \<open>
  The opt-in header \<open>jmpxx/unwind.hpp\<close>: refused with \<open>#error\<close> where exceptions are
  disabled, otherwise it exposes the selected backend.
\<close>

definition include_unwind :: "macros \<Rightarrow> unwind_backend option" where
  "include_unwind m = (if \<not> has_exceptions m then None else Some (unwind_backend_of m))"


subsection \<open>Fail-fast\<close>

definition fail_fast :: "string \<Rightarrow> 'a outcome" where
  "fail_fast reason = Fail_Fast reason"


subsection \<open>Trace capture\<close>

text \<open>
  \<open>backtrace\<close> is the C library's: given the buffer size it returns the return
  addresses it stored, at most that many.  It is a parameter of the model.  \<open>backend\<close>
  says whether \<open>JMPXX_TRACE_BACKEND_EXECINFO\<close> is defined.
\<close>

definition trace_max_frames :: nat where "trace_max_frames = 24"

record trace =
  trace_frames :: "addr list"
  trace_count :: nat

definition trace_empty :: "trace \<Rightarrow> bool" where
  "trace_empty t \<longleftrightarrow> trace_count t = 0"

text \<open>The copy loop: \<open>i\<close> runs from \<open>first\<close> while \<open>i < n\<close> and there is room.\<close>

function copy_frames :: "addr list \<Rightarrow> nat \<Rightarrow> nat \<Rightarrow> trace \<Rightarrow> trace" where
  "copy_frames raw i n t =
     (if i < n \<and> trace_count t < trace_max_frames then
        copy_frames raw (Suc i) n
          (t\<lparr>trace_frames := (trace_frames t)[trace_count t := raw ! i],
             trace_count := Suc (trace_count t)\<rparr>)
      else t)"
  by pat_completeness auto
termination
  by (relation "measure (\<lambda>(raw, i, n, t). n - i)") auto

declare copy_frames.simps [simp del]

text \<open>The request passed to \<open>backtrace\<close>: clamped to the 32 entries of the raw buffer.\<close>

definition trace_raw_size :: nat where "trace_raw_size = trace_max_frames + 8"

definition trace_want :: "int \<Rightarrow> nat" where
  "trace_want skip =
     (let want = trace_max_frames + (if skip > 0 then nat skip else 0)
      in if want > trace_raw_size then trace_raw_size else want)"

definition capture :: "bool \<Rightarrow> (nat \<Rightarrow> addr list) \<Rightarrow> int \<Rightarrow> trace" where
  "capture backend backtrace skip =
     (let t = \<lparr>trace_frames = replicate trace_max_frames 0, trace_count = 0\<rparr> in
      if backend then
        (let want = trace_want skip;
             raw = backtrace want;
             n = length raw;
             first = (if skip > 0 then nat skip else 0)
         in copy_frames raw first n t)
      else t)"

definition trace_available :: "bool \<Rightarrow> bool" where
  "trace_available backend \<longleftrightarrow> backend"

lemmas detect_simps =
  is_defined_def macro_value_def
  compiler_clang_def compiler_gcc_def compiler_msvc_def
  os_windows_def os_macos_def os_linux_def os_bsd_def os_hosted_def os_none_def
  arch_x86_64_def arch_arm64_def arch_arm32_def arch_riscv_def arch_wasm_def

lemmas hardening_simps =
  hardening_none_def hardening_fast_def hardening_extensive_def
  hardening_fast_enabled_def hardening_extensive_enabled_def


subsection \<open>Detection is unambiguous\<close>

lemma compilers_exclusive:
  "\<not> (compiler_clang m \<and> compiler_gcc m)" "\<not> (compiler_clang m \<and> compiler_msvc m)"
  by (auto simp: detect_simps)

lemma compiler_name_clang: "compiler_name m = ''clang'' \<longleftrightarrow> compiler_clang m"
  by (simp add: compiler_name_def)

lemma compiler_name_gcc: "compiler_name m = ''gcc'' \<longleftrightarrow> compiler_gcc m"
  using compilers_exclusive [of m] by (auto simp: compiler_name_def)

lemma os_none_iff_not_hosted: "os_none m \<longleftrightarrow> \<not> os_hosted m"
  by (simp add: os_none_def os_hosted_def)

lemma os_name_none: "os_name m = ''none'' \<longleftrightarrow> \<not> is_hosted m"
  by (simp add: os_name_def is_hosted_def os_hosted_def)

lemma jmpxx_version_value: "jmpxx_version = 105"
  by (simp add: jmpxx_version_def version_major_def version_minor_def version_patch_def)


subsection \<open>The hardening ladder\<close>

lemma default_hardening_mode_unset:
  "\<not> is_defined m ''JMPXX_HARDENING_MODE'' \<Longrightarrow>
     default_hardening_mode m = hardening_none \<or> default_hardening_mode m = hardening_fast"
  by (simp add: default_hardening_mode_def)

lemma hardening_mode_unset_accepted:
  assumes "\<not> is_defined m ''JMPXX_HARDENING_MODE''"
  shows "\<exists>mode h. hardening_mode m = Some (mode, h)"
  using assms
  by (simp add: hardening_mode_def default_hardening_mode_def hardening_simps Let_def)

lemma hardening_mode_SomeD:
  assumes "hardening_mode m = Some (mode, h)"
  shows "mode = default_hardening_mode m"
    and "mode \<in> {hardening_none, hardening_fast, hardening_extensive}"
    and "h \<noteq> 0 \<longleftrightarrow> hardening_fast_enabled mode"
  using assms
  by (auto simp: hardening_mode_def hardening_simps Let_def split: if_splits)

text \<open>
  Wherever the configuration header accepts a combination of switches, the legacy
  switch \<open>JMPXX_HARDENED\<close> and the mode agree (nonzero exactly when the fast checks are
  on), the mode is one of the three named ones and the extensive checks imply the fast
  ones; and a translation unit that sets no mode is never rejected and never gets the
  extensive mode by default.
\<close>

theorem hardening_switches_agree:
  "(\<forall>mode h. hardening_mode m = Some (mode, h) \<longrightarrow>
      (h \<noteq> 0 \<longleftrightarrow> hardening_fast_enabled mode) \<and>
      mode \<in> {hardening_none, hardening_fast, hardening_extensive} \<and>
      (hardening_extensive_enabled mode \<longrightarrow> hardening_fast_enabled mode)) \<and>
   (m ''JMPXX_HARDENING_MODE'' = None \<longrightarrow>
      (\<exists>mode h. hardening_mode m = Some (mode, h) \<and> \<not> hardening_extensive_enabled mode))"
proof (intro conjI allI impI)
  fix mode h
  assume "hardening_mode m = Some (mode, h)"
  note facts = hardening_mode_SomeD [OF this]
  show "h \<noteq> 0 \<longleftrightarrow> hardening_fast_enabled mode" by (rule facts)
  show "mode \<in> {hardening_none, hardening_fast, hardening_extensive}" by (rule facts)
  assume "hardening_extensive_enabled mode"
  then show "hardening_fast_enabled mode" by (simp add: hardening_simps)
next
  assume "m ''JMPXX_HARDENING_MODE'' = None"
  then have unset: "\<not> is_defined m ''JMPXX_HARDENING_MODE''" by (simp add: is_defined_def)
  then obtain mode h where eq: "hardening_mode m = Some (mode, h)"
    using hardening_mode_unset_accepted by blast
  moreover have "\<not> hardening_extensive_enabled mode"
    using hardening_mode_SomeD(1) [OF eq] default_hardening_mode_unset [OF unset]
    by (auto simp: hardening_simps)
  ultimately show "\<exists>mode h. hardening_mode m = Some (mode, h) \<and> \<not> hardening_extensive_enabled mode"
    by blast
qed

theorem hardening_switches_agree_witness:
  "hardening_mode [''JMPXX_HARDENING_MODE'' \<mapsto> 2] = Some (2, 1) \<and> hardening_fast_enabled 2"
proof -
  have eq: "hardening_mode [''JMPXX_HARDENING_MODE'' \<mapsto> 2] = Some (2, 1)"
    by (simp add: hardening_mode_def default_hardening_mode_def hardening_simps detect_simps)
  show ?thesis
    using eq hardening_switches_agree [of "[''JMPXX_HARDENING_MODE'' \<mapsto> 2]"] by auto
qed


subsection \<open>Trace capture stays inside its buffers\<close>

lemma copy_frames_spec:
  assumes "trace_count t \<le> trace_max_frames" and "length (trace_frames t) = trace_max_frames"
    and "n \<le> length raw"
  shows "length (trace_frames (copy_frames raw i n t)) = trace_max_frames \<and>
         trace_count (copy_frames raw i n t) = min trace_max_frames (trace_count t + (n - i)) \<and>
         take (trace_count (copy_frames raw i n t)) (trace_frames (copy_frames raw i n t)) =
           take (trace_count t) (trace_frames t) @
           take (trace_max_frames - trace_count t) (drop i (take n raw))"
  using assms
proof (induction raw i n t rule: copy_frames.induct)
  case (1 raw i n t)
  show ?case
  proof (cases "i < n \<and> trace_count t < trace_max_frames")
    case True
    let ?t = "t\<lparr>trace_frames := (trace_frames t)[trace_count t := raw ! i],
                 trace_count := Suc (trace_count t)\<rparr>"
    have unfold: "copy_frames raw i n t = copy_frames raw (Suc i) n ?t"
      using True by (simp add: copy_frames.simps [of raw i n t])
    have "drop i (take n raw) = raw ! i # drop (Suc i) (take n raw)"
      using True "1.prems"(3) by (simp add: Cons_nth_drop_Suc [symmetric])
    then show ?thesis
      using True "1.IH" "1.prems" unfolding unfold
      by (auto simp: take_list_update_Suc take_Cons')
  next
    case False
    then show ?thesis
      using "1.prems" by (auto simp: copy_frames.simps [of raw i n t])
  qed
qed

lemma trace_want_bound: "trace_want skip \<le> trace_raw_size"
  by (simp add: trace_want_def Let_def)

text \<open>
  Whatever the C library's \<open>backtrace\<close> returns, as long as it respects the buffer
  size it is given, a captured trace holds at most \<open>max_frames\<close> addresses in a frame
  array of exactly that size, the raw buffer is never overrun, and they are the returned addresses after the skipped
  ones, in order.
\<close>

theorem capture_bounded:
  assumes "\<And>want. length (backtrace want) \<le> want"
  shows "trace_count (capture backend backtrace skip) \<le> trace_max_frames \<and>
         length (trace_frames (capture backend backtrace skip)) = trace_max_frames \<and>
         length (backtrace (trace_want skip)) \<le> trace_raw_size \<and>
         take (trace_count (capture backend backtrace skip))
              (trace_frames (capture backend backtrace skip)) =
           (if backend then take trace_max_frames (drop (nat skip) (backtrace (trace_want skip)))
            else [])"
proof -
  let ?t = "\<lparr>trace_frames = replicate trace_max_frames 0, trace_count = 0\<rparr>"
  let ?raw = "backtrace (trace_want skip)"
  let ?c = "copy_frames ?raw (nat skip) (length ?raw) ?t"
  have first: "(if skip > 0 then nat skip else 0) = nat skip" by simp
  have cap: "capture backend backtrace skip = (if backend then ?c else ?t)"
    unfolding capture_def Let_def first by simp
  have room: "length ?raw \<le> trace_raw_size"
    using assms [of "trace_want skip"] trace_want_bound [of skip] by simp
  have "length (trace_frames ?c) = trace_max_frames \<and> trace_count ?c \<le> trace_max_frames \<and>
      take (trace_count ?c) (trace_frames ?c) = take trace_max_frames (drop (nat skip) ?raw)"
    using copy_frames_spec [of ?t "length ?raw" ?raw "nat skip"] by auto
  then show ?thesis
    using room unfolding cap by (cases backend) simp_all
qed

theorem capture_bounded_witness:
  "(\<forall>want. length (take want [1, 2, 3 :: addr]) \<le> want) \<and>
   take (trace_count (capture True (\<lambda>want. take want [1, 2, 3]) 2))
        (trace_frames (capture True (\<lambda>want. take want [1, 2, 3]) 2)) = [3]"
proof -
  have h: "\<And>want. length (take want [1, 2, 3 :: addr]) \<le> want" by simp
  show ?thesis
    using capture_bounded [of "\<lambda>want. take want [1, 2, 3]" True 2, OF h]
    by (simp add: trace_want_def trace_max_frames_def trace_raw_size_def)
qed

end
