(* ===== verification/Transport.thy ===== *)
theory Transport
  imports Platform_Config
begin

text \<open>
  \<open>result<T, E>\<close>, the value-or-error transport of \<open>core/transport.hpp\<close>.

  The object is modelled as the source lays it out: a union, of which at most one
  member is alive at a time (\<open>storage\<close>; \<open>Raw\<close> is storage in which no member's lifetime
  has begun or it has ended), beside the discriminant \<open>has_\<close>.  Reading or destroying a
  member that is not alive is undefined behaviour in C++ and the value
  \<^const>\<open>Undefined\<close> here.  \<open>result<void, E>\<close> is the instance whose value type is
  \<open>unit\<close>, the model of \<open>detail::unit\<close>.

  The payload types are template parameters; \<open>payload\<close> is what the transport uses of
  one: its type traits and its copy and move operations, any of which may throw unless a
  trait says otherwise.
\<close>

subsection \<open>Payload types\<close>

record 'a payload =
  copy_constructible :: bool
  move_constructible :: bool
  copy_assignable :: bool
  move_assignable :: bool
  trivially_copy_constructible :: bool
  trivially_move_constructible :: bool
  trivially_destructible :: bool
  trivially_copy_assignable :: bool
  trivially_move_assignable :: bool
  nothrow_move_constructible :: bool
  nothrow_move_assignable :: bool
  copy_construct :: "'a \<Rightarrow> 'a option"
  move_construct :: "'a \<Rightarrow> 'a option \<times> 'a"
  copy_assign :: "'a \<Rightarrow> 'a \<Rightarrow> 'a \<times> bool"
  move_assign :: "'a \<Rightarrow> 'a \<Rightarrow> 'a \<times> 'a \<times> bool"

text \<open>
  \<open>copy_construct x\<close> is the new object, or \<open>None\<close> when the constructor throws.
  \<open>move_construct x\<close> is the new object (or \<open>None\<close>) and what the moved-from source is
  afterwards.  \<open>copy_assign x y\<close> is what \<open>x\<close> is after \<open>x = y\<close> and whether the
  assignment threw; \<open>move_assign x y\<close> also gives what \<open>y\<close> is afterwards.
\<close>

text \<open>What the standard's type traits promise about each other and about the operations.\<close>

definition traits_ok :: "'a payload \<Rightarrow> bool" where
  "traits_ok P \<longleftrightarrow>
     (trivially_copy_constructible P \<longrightarrow> copy_constructible P) \<and>
     (trivially_move_constructible P \<longrightarrow> move_constructible P) \<and>
     (trivially_copy_assignable P \<longrightarrow> copy_assignable P) \<and>
     (trivially_move_assignable P \<longrightarrow> move_assignable P) \<and>
     (nothrow_move_constructible P \<longrightarrow>
        move_constructible P \<and> (\<forall>x. fst (move_construct P x) \<noteq> None)) \<and>
     (nothrow_move_assignable P \<longrightarrow>
        move_assignable P \<and> (\<forall>x y. \<not> snd (snd (move_assign P x y))))"


subsection \<open>Which special members exist\<close>

definition triv_copy_ctor :: "'v payload \<Rightarrow> 'e payload \<Rightarrow> bool" where
  "triv_copy_ctor V E \<longleftrightarrow> trivially_copy_constructible V \<and> trivially_copy_constructible E"

definition triv_move_ctor :: "'v payload \<Rightarrow> 'e payload \<Rightarrow> bool" where
  "triv_move_ctor V E \<longleftrightarrow> trivially_move_constructible V \<and> trivially_move_constructible E"

definition triv_dtor :: "'v payload \<Rightarrow> 'e payload \<Rightarrow> bool" where
  "triv_dtor V E \<longleftrightarrow> trivially_destructible V \<and> trivially_destructible E"

definition triv_copy_assign :: "'v payload \<Rightarrow> 'e payload \<Rightarrow> bool" where
  "triv_copy_assign V E \<longleftrightarrow> triv_copy_ctor V E \<and> triv_dtor V E \<and>
     trivially_copy_assignable V \<and> trivially_copy_assignable E"

definition triv_move_assign :: "'v payload \<Rightarrow> 'e payload \<Rightarrow> bool" where
  "triv_move_assign V E \<longleftrightarrow> triv_move_ctor V E \<and> triv_dtor V E \<and>
     trivially_move_assignable V \<and> trivially_move_assignable E"

definition can_copy_ctor :: "'v payload \<Rightarrow> 'e payload \<Rightarrow> bool" where
  "can_copy_ctor V E \<longleftrightarrow> copy_constructible V \<and> copy_constructible E"

definition can_move_ctor :: "'v payload \<Rightarrow> 'e payload \<Rightarrow> bool" where
  "can_move_ctor V E \<longleftrightarrow> move_constructible V \<and> move_constructible E"

definition can_copy_assign :: "'v payload \<Rightarrow> 'e payload \<Rightarrow> bool" where
  "can_copy_assign V E \<longleftrightarrow> can_copy_ctor V E \<and> copy_assignable V \<and> copy_assignable E \<and>
     nothrow_move_constructible V \<and> nothrow_move_constructible E"

definition can_move_assign :: "'v payload \<Rightarrow> 'e payload \<Rightarrow> bool" where
  "can_move_assign V E \<longleftrightarrow> can_move_ctor V E \<and> move_assignable V \<and> move_assignable E \<and>
     nothrow_move_constructible V \<and> nothrow_move_constructible E"

datatype member_form = Defaulted | Hand_Written | Deleted

text \<open>
  Each special member is declared in up to three constrained forms; the viable ones are
  those whose \<open>requires\<close> clause holds.  Overload resolution needs exactly one.
\<close>

definition viable_forms :: "bool \<Rightarrow> bool \<Rightarrow> member_form list" where
  "viable_forms triv can =
     (if triv then [Defaulted] else []) @
     (if can \<and> \<not> triv then [Hand_Written] else []) @
     (if \<not> can then [Deleted] else [])"

definition copy_ctor_forms :: "'v payload \<Rightarrow> 'e payload \<Rightarrow> member_form list" where
  "copy_ctor_forms V E = viable_forms (triv_copy_ctor V E) (can_copy_ctor V E)"

definition move_ctor_forms :: "'v payload \<Rightarrow> 'e payload \<Rightarrow> member_form list" where
  "move_ctor_forms V E = viable_forms (triv_move_ctor V E) (can_move_ctor V E)"

definition copy_assign_forms :: "'v payload \<Rightarrow> 'e payload \<Rightarrow> member_form list" where
  "copy_assign_forms V E = viable_forms (triv_copy_assign V E) (can_copy_assign V E)"

definition move_assign_forms :: "'v payload \<Rightarrow> 'e payload \<Rightarrow> member_form list" where
  "move_assign_forms V E = viable_forms (triv_move_assign V E) (can_move_assign V E)"


subsection \<open>The object\<close>

datatype ('v, 'e) storage = Val 'v | Err 'e | Raw

record ('v, 'e) result =
  member :: "('v, 'e) storage"
  has :: bool

datatype 'e failure = Failure (failure_error: 'e)

definition fail :: "'e \<Rightarrow> 'e failure" where
  "fail e = Failure e"

text \<open>
  The invariant the header states: exactly one of a value or an error, never a third
  state, and the discriminant says which.
\<close>

definition well_formed :: "('v, 'e) result \<Rightarrow> bool" where
  "well_formed r \<longleftrightarrow> (case member r of Val _ \<Rightarrow> has r | Err _ \<Rightarrow> \<not> has r | Raw \<Rightarrow> False)"

text \<open>What a well-formed object stands for: the error on the left, the value on the right.\<close>

definition abs_result :: "('v, 'e) result \<Rightarrow> 'e + 'v" where
  "abs_result r = (case member r of Val v \<Rightarrow> Inr v | Err e \<Rightarrow> Inl e | Raw \<Rightarrow> undefined)"

text \<open>Construction from a value, in place, from nothing (\<open>T = void\<close>), and from a failure.\<close>

definition result_of_value :: "'v \<Rightarrow> ('v, 'e) result" where
  "result_of_value v = \<lparr>member = Val v, has = True\<rparr>"

definition result_void :: "(unit, 'e) result" where
  "result_void = \<lparr>member = Val (), has = True\<rparr>"

definition result_in_place :: "('a \<Rightarrow> 'v) \<Rightarrow> 'a \<Rightarrow> ('v, 'e) result" where
  "result_in_place construct a = \<lparr>member = Val (construct a), has = True\<rparr>"

definition result_of_failure :: "('e2 \<Rightarrow> 'e) \<Rightarrow> 'e2 failure \<Rightarrow> ('v, 'e) result" where
  "result_of_failure conv f = \<lparr>member = Err (conv (failure_error f)), has = False\<rparr>"

definition has_value :: "('v, 'e) result \<Rightarrow> bool" where
  "has_value r = has r"

definition has_error :: "('v, 'e) result \<Rightarrow> bool" where
  "has_error r = (\<not> has r)"


subsection \<open>Access\<close>

text \<open>Reading a union member is defined only while it is alive.\<close>

definition read_val :: "('v, 'e) result \<Rightarrow> 'v outcome" where
  "read_val r = (case member r of Val v \<Rightarrow> Returns v | _ \<Rightarrow> Undefined)"

definition read_err :: "('v, 'e) result \<Rightarrow> 'e outcome" where
  "read_err r = (case member r of Err e \<Rightarrow> Returns e | _ \<Rightarrow> Undefined)"

definition require_value :: "('v, 'e) result \<Rightarrow> unit outcome" where
  "require_value r =
     (if \<not> has r then fail_fast ''jmpxx::result: value accessed on a failure'' else Returns ())"

definition require_error :: "('v, 'e) result \<Rightarrow> unit outcome" where
  "require_error r =
     (if has r then fail_fast ''jmpxx::result: error accessed on a value'' else Returns ())"

text \<open>\<open>value()\<close>, and \<open>operator*\<close> and \<open>operator->\<close>, which have the same body.\<close>

definition value_checked :: "('v, 'e) result \<Rightarrow> 'v outcome" where
  "value_checked r = bind_outcome (require_value r) (\<lambda>_. read_val r)"

definition error_checked :: "('v, 'e) result \<Rightarrow> 'e outcome" where
  "error_checked r = bind_outcome (require_error r) (\<lambda>_. read_err r)"

definition deref_checked :: "('v, 'e) result \<Rightarrow> 'v outcome" where
  "deref_checked r = bind_outcome (require_value r) (\<lambda>_. read_val r)"

text \<open>Narrow access; the argument is \<open>JMPXX_HARDENING_MODE\<close>.\<close>

definition assume_value :: "int \<Rightarrow> ('v, 'e) result \<Rightarrow> 'v outcome" where
  "assume_value mode r =
     bind_outcome (if hardening_fast_enabled mode then require_value r else Returns ())
       (\<lambda>_. read_val r)"

definition assume_error :: "int \<Rightarrow> ('v, 'e) result \<Rightarrow> 'e outcome" where
  "assume_error mode r =
     bind_outcome (if hardening_fast_enabled mode then require_error r else Returns ())
       (\<lambda>_. read_err r)"

text \<open>\<open>value_or\<close> and \<open>error_or\<close> on a const object: the held member is copied.\<close>

definition copy_out :: "'a payload \<Rightarrow> 'a \<Rightarrow> 'a outcome" where
  "copy_out P x = (case copy_construct P x of None \<Rightarrow> Throws | Some y \<Rightarrow> Returns y)"

definition value_or :: "'v payload \<Rightarrow> ('u \<Rightarrow> 'v) \<Rightarrow> ('v, 'e) result \<Rightarrow> 'u \<Rightarrow> 'v outcome" where
  "value_or V conv r alt =
     (if has r then bind_outcome (read_val r) (copy_out V) else Returns (conv alt))"

definition error_or :: "'e payload \<Rightarrow> ('g \<Rightarrow> 'e) \<Rightarrow> ('v, 'e) result \<Rightarrow> 'g \<Rightarrow> 'e outcome" where
  "error_or E conv r alt =
     (if has r then Returns (conv alt) else bind_outcome (read_err r) (copy_out E))"

text \<open>The rvalue \<open>value_or\<close> moves the held value out; the object is left moved-from.\<close>

definition value_or_rvalue ::
    "'v payload \<Rightarrow> ('u \<Rightarrow> 'v) \<Rightarrow> ('v, 'e) result \<Rightarrow> 'u \<Rightarrow> ('v \<times> ('v, 'e) result) outcome" where
  "value_or_rvalue V conv r alt =
     (if has r then
        bind_outcome (read_val r) (\<lambda>v.
          case move_construct V v of
            (None, v') \<Rightarrow> Throws
          | (Some w, v') \<Rightarrow> Returns (w, r\<lparr>member := Val v'\<rparr>))
      else Returns (conv alt, r))"


subsection \<open>Comparison\<close>

definition result_eq ::
    "('v \<Rightarrow> 'v \<Rightarrow> bool) \<Rightarrow> ('e \<Rightarrow> 'e \<Rightarrow> bool) \<Rightarrow> ('v, 'e) result \<Rightarrow> ('v, 'e) result \<Rightarrow> bool outcome"
where
  "result_eq eqv eqe a b =
     (if has a \<noteq> has b then Returns False
      else if \<not> has a then
        bind_outcome (read_err a) (\<lambda>x. bind_outcome (read_err b) (\<lambda>y. Returns (eqe x y)))
      else
        bind_outcome (read_val a) (\<lambda>x. bind_outcome (read_val b) (\<lambda>y. Returns (eqv x y))))"

definition result_eq_value ::
    "('v \<Rightarrow> 'u \<Rightarrow> bool) \<Rightarrow> ('v, 'e) result \<Rightarrow> 'u \<Rightarrow> bool outcome" where
  "result_eq_value eqv a v =
     (if has a then bind_outcome (read_val a) (\<lambda>x. Returns (eqv x v)) else Returns False)"

definition result_eq_failure ::
    "('e \<Rightarrow> 'e2 \<Rightarrow> bool) \<Rightarrow> ('v, 'e) result \<Rightarrow> 'e2 failure \<Rightarrow> bool outcome" where
  "result_eq_failure eqe a f =
     (if \<not> has a then bind_outcome (read_err a) (\<lambda>x. Returns (eqe x (failure_error f)))
      else Returns False)"


subsection \<open>Special members\<close>

text \<open>
  The hand-written special members are statement sequences over the object, the
  right-hand side, the local \<open>incoming\<close> of a cross-state assignment, and a log of the
  constructor and destructor calls they make.  A statement goes on, throws (and the
  block's automatic object is destroyed on the way out), or is undefined.
\<close>

datatype life_event = Ctor_V | Dtor_V | Ctor_E | Dtor_E

record ('v, 'e) assignment =
  this :: "('v, 'e) result"
  other :: "('v, 'e) result"
  incoming :: "('v, 'e) storage"
  events :: "life_event list"

datatype 's step_result = Next 's | Unwind 's | Undef

fun run_stmts :: "('s \<Rightarrow> 's step_result) list \<Rightarrow> 's \<Rightarrow> 's step_result" where
  "run_stmts [] s = Next s"
| "run_stmts (c # cs) s = (case c s of Next s' \<Rightarrow> run_stmts cs s' | r \<Rightarrow> r)"

definition log_event :: "life_event \<Rightarrow> ('v, 'e) assignment \<Rightarrow> ('v, 'e) assignment" where
  "log_event ev s = s\<lparr>events := events s @ [ev]\<rparr>"

definition set_this :: "('v, 'e) storage \<Rightarrow> ('v, 'e) assignment \<Rightarrow> ('v, 'e) assignment" where
  "set_this m s = s\<lparr>this := (this s)\<lparr>member := m\<rparr>\<rparr>"

definition set_other :: "('v, 'e) storage \<Rightarrow> ('v, 'e) assignment \<Rightarrow> ('v, 'e) assignment" where
  "set_other m s = s\<lparr>other := (other s)\<lparr>member := m\<rparr>\<rparr>"

definition set_has :: "bool \<Rightarrow> ('v, 'e) assignment \<Rightarrow> ('v, 'e) assignment step_result" where
  "set_has b s = Next (s\<lparr>this := (this s)\<lparr>has := b\<rparr>\<rparr>)"

text \<open>Leaving the block destroys \<open>incoming\<close> if it was constructed.\<close>

definition leave_block :: "('v, 'e) assignment \<Rightarrow> ('v, 'e) assignment" where
  "leave_block s =
     (case incoming s of
        Raw \<Rightarrow> s
      | Val _ \<Rightarrow> log_event Dtor_V (s\<lparr>incoming := Raw\<rparr>)
      | Err _ \<Rightarrow> log_event Dtor_E (s\<lparr>incoming := Raw\<rparr>))"

definition run_block ::
    "(('v, 'e) assignment \<Rightarrow> ('v, 'e) assignment step_result) list \<Rightarrow>
     ('v, 'e) assignment \<Rightarrow> ('v, 'e) assignment step_result" where
  "run_block cs s =
     (case run_stmts cs s of
        Next s' \<Rightarrow> Next (leave_block s')
      | Unwind s' \<Rightarrow> Unwind (leave_block s')
      | Undef \<Rightarrow> Undef)"

text \<open>\<open>val_ = o.val_\<close> and \<open>err_ = o.err_\<close>, copying and moving.\<close>

definition assign_val_copy :: "'v payload \<Rightarrow> ('v, 'e) assignment \<Rightarrow> ('v, 'e) assignment step_result" where
  "assign_val_copy V s =
     (case (member (this s), member (other s)) of
        (Val x, Val y) \<Rightarrow>
          (case copy_assign V x y of (z, threw) \<Rightarrow>
             if threw then Unwind (set_this (Val z) s) else Next (set_this (Val z) s))
      | _ \<Rightarrow> Undef)"

definition assign_err_copy :: "'e payload \<Rightarrow> ('v, 'e) assignment \<Rightarrow> ('v, 'e) assignment step_result" where
  "assign_err_copy E s =
     (case (member (this s), member (other s)) of
        (Err x, Err y) \<Rightarrow>
          (case copy_assign E x y of (z, threw) \<Rightarrow>
             if threw then Unwind (set_this (Err z) s) else Next (set_this (Err z) s))
      | _ \<Rightarrow> Undef)"

definition assign_val_move :: "'v payload \<Rightarrow> ('v, 'e) assignment \<Rightarrow> ('v, 'e) assignment step_result" where
  "assign_val_move V s =
     (case (member (this s), member (other s)) of
        (Val x, Val y) \<Rightarrow>
          (case move_assign V x y of (z, y', threw) \<Rightarrow>
             let s' = set_other (Val y') (set_this (Val z) s)
             in if threw then Unwind s' else Next s')
      | _ \<Rightarrow> Undef)"

definition assign_err_move :: "'e payload \<Rightarrow> ('v, 'e) assignment \<Rightarrow> ('v, 'e) assignment step_result" where
  "assign_err_move E s =
     (case (member (this s), member (other s)) of
        (Err x, Err y) \<Rightarrow>
          (case move_assign E x y of (z, y', threw) \<Rightarrow>
             let s' = set_other (Err y') (set_this (Err z) s)
             in if threw then Unwind s' else Next s')
      | _ \<Rightarrow> Undef)"

text \<open>\<open>E incoming(o.err_)\<close>, \<open>V incoming(o.val_)\<close> and their moving forms.\<close>

definition incoming_err_copy :: "'e payload \<Rightarrow> ('v, 'e) assignment \<Rightarrow> ('v, 'e) assignment step_result" where
  "incoming_err_copy E s =
     (case member (other s) of
        Err e \<Rightarrow>
          (case copy_construct E e of
             None \<Rightarrow> Unwind s
           | Some e' \<Rightarrow> Next (log_event Ctor_E (s\<lparr>incoming := Err e'\<rparr>)))
      | _ \<Rightarrow> Undef)"

definition incoming_val_copy :: "'v payload \<Rightarrow> ('v, 'e) assignment \<Rightarrow> ('v, 'e) assignment step_result" where
  "incoming_val_copy V s =
     (case member (other s) of
        Val v \<Rightarrow>
          (case copy_construct V v of
             None \<Rightarrow> Unwind s
           | Some v' \<Rightarrow> Next (log_event Ctor_V (s\<lparr>incoming := Val v'\<rparr>)))
      | _ \<Rightarrow> Undef)"

definition incoming_err_move :: "'e payload \<Rightarrow> ('v, 'e) assignment \<Rightarrow> ('v, 'e) assignment step_result" where
  "incoming_err_move E s =
     (case member (other s) of
        Err e \<Rightarrow>
          (case move_construct E e of
             (None, e') \<Rightarrow> Unwind (set_other (Err e') s)
           | (Some x, e') \<Rightarrow> Next (log_event Ctor_E (set_other (Err e') (s\<lparr>incoming := Err x\<rparr>))))
      | _ \<Rightarrow> Undef)"

definition incoming_val_move :: "'v payload \<Rightarrow> ('v, 'e) assignment \<Rightarrow> ('v, 'e) assignment step_result" where
  "incoming_val_move V s =
     (case member (other s) of
        Val v \<Rightarrow>
          (case move_construct V v of
             (None, v') \<Rightarrow> Unwind (set_other (Val v') s)
           | (Some x, v') \<Rightarrow> Next (log_event Ctor_V (set_other (Val v') (s\<lparr>incoming := Val x\<rparr>))))
      | _ \<Rightarrow> Undef)"

text \<open>\<open>val_.~V()\<close> and \<open>err_.~E()\<close>.\<close>

definition destroy_val :: "('v, 'e) assignment \<Rightarrow> ('v, 'e) assignment step_result" where
  "destroy_val s =
     (case member (this s) of Val _ \<Rightarrow> Next (log_event Dtor_V (set_this Raw s)) | _ \<Rightarrow> Undef)"

definition destroy_err :: "('v, 'e) assignment \<Rightarrow> ('v, 'e) assignment step_result" where
  "destroy_err s =
     (case member (this s) of Err _ \<Rightarrow> Next (log_event Dtor_E (set_this Raw s)) | _ \<Rightarrow> Undef)"

text \<open>\<open>::new (addressof(err_)) E(static_cast<E&&>(incoming))\<close>, into storage with no live member.\<close>

definition place_err :: "'e payload \<Rightarrow> ('v, 'e) assignment \<Rightarrow> ('v, 'e) assignment step_result" where
  "place_err E s =
     (case (member (this s), incoming s) of
        (Raw, Err i) \<Rightarrow>
          (case move_construct E i of
             (None, i') \<Rightarrow> Unwind (s\<lparr>incoming := Err i'\<rparr>)
           | (Some e, i') \<Rightarrow> Next (log_event Ctor_E (set_this (Err e) (s\<lparr>incoming := Err i'\<rparr>))))
      | _ \<Rightarrow> Undef)"

definition place_val :: "'v payload \<Rightarrow> ('v, 'e) assignment \<Rightarrow> ('v, 'e) assignment step_result" where
  "place_val V s =
     (case (member (this s), incoming s) of
        (Raw, Val i) \<Rightarrow>
          (case move_construct V i of
             (None, i') \<Rightarrow> Unwind (s\<lparr>incoming := Val i'\<rparr>)
           | (Some v, i') \<Rightarrow> Next (log_event Ctor_V (set_this (Val v) (s\<lparr>incoming := Val i'\<rparr>))))
      | _ \<Rightarrow> Undef)"

definition assign_from_copy ::
    "'v payload \<Rightarrow> 'e payload \<Rightarrow> ('v, 'e) assignment \<Rightarrow> ('v, 'e) assignment step_result" where
  "assign_from_copy V E s =
     (if has (this s) \<and> has (other s) then assign_val_copy V s
      else if \<not> has (this s) \<and> \<not> has (other s) then assign_err_copy E s
      else if has (this s) then
        run_block [incoming_err_copy E, destroy_val, place_err E, set_has False] s
      else
        run_block [incoming_val_copy V, destroy_err, place_val V, set_has True] s)"

definition assign_from_move ::
    "'v payload \<Rightarrow> 'e payload \<Rightarrow> ('v, 'e) assignment \<Rightarrow> ('v, 'e) assignment step_result" where
  "assign_from_move V E s =
     (if has (this s) \<and> has (other s) then assign_val_move V s
      else if \<not> has (this s) \<and> \<not> has (other s) then assign_err_move E s
      else if has (this s) then
        run_block [incoming_err_move E, destroy_val, place_err E, set_has False] s
      else
        run_block [incoming_val_move V, destroy_err, place_val V, set_has True] s)"

text \<open>
  The assignment operators: the defaulted form copies the bytes of a trivially copyable
  object, the hand-written form is \<open>assign_from\<close>.  \<open>None\<close> is an expression that does
  not compile: the operator is deleted, or two of its forms are viable.
\<close>

definition operator_assign_copy ::
    "'v payload \<Rightarrow> 'e payload \<Rightarrow> ('v, 'e) assignment \<Rightarrow> ('v, 'e) assignment step_result option" where
  "operator_assign_copy V E s =
     (case copy_assign_forms V E of
        [Defaulted] \<Rightarrow> Some (Next (s\<lparr>this := other s\<rparr>))
      | [Hand_Written] \<Rightarrow> Some (assign_from_copy V E s)
      | _ \<Rightarrow> None)"

definition operator_assign_move ::
    "'v payload \<Rightarrow> 'e payload \<Rightarrow> ('v, 'e) assignment \<Rightarrow> ('v, 'e) assignment step_result option" where
  "operator_assign_move V E s =
     (case move_assign_forms V E of
        [Defaulted] \<Rightarrow> Some (Next (s\<lparr>this := other s\<rparr>))
      | [Hand_Written] \<Rightarrow> Some (assign_from_move V E s)
      | _ \<Rightarrow> None)"

text \<open>The destructor, and the hand-written copy and move constructors.\<close>

definition destroy :: "('v, 'e) result \<Rightarrow> (life_event \<times> ('v, 'e) result) outcome" where
  "destroy r =
     (if has r then
        (case member r of Val _ \<Rightarrow> Returns (Dtor_V, r\<lparr>member := Raw\<rparr>) | _ \<Rightarrow> Undefined)
      else
        (case member r of Err _ \<Rightarrow> Returns (Dtor_E, r\<lparr>member := Raw\<rparr>) | _ \<Rightarrow> Undefined))"

definition copy_ctor :: "'v payload \<Rightarrow> 'e payload \<Rightarrow> ('v, 'e) result \<Rightarrow> ('v, 'e) result outcome" where
  "copy_ctor V E r =
     (if has r then
        bind_outcome (read_val r) (\<lambda>v.
          case copy_construct V v of
            None \<Rightarrow> Throws | Some w \<Rightarrow> Returns \<lparr>member = Val w, has = True\<rparr>)
      else
        bind_outcome (read_err r) (\<lambda>e.
          case copy_construct E e of
            None \<Rightarrow> Throws | Some w \<Rightarrow> Returns \<lparr>member = Err w, has = False\<rparr>))"

definition move_ctor ::
    "'v payload \<Rightarrow> 'e payload \<Rightarrow> ('v, 'e) result \<Rightarrow> (('v, 'e) result \<times> ('v, 'e) result) outcome" where
  "move_ctor V E r =
     (if has r then
        bind_outcome (read_val r) (\<lambda>v.
          case move_construct V v of
            (None, v') \<Rightarrow> Throws
          | (Some w, v') \<Rightarrow> Returns (\<lparr>member = Val w, has = True\<rparr>, r\<lparr>member := Val v'\<rparr>))
      else
        bind_outcome (read_err r) (\<lambda>e.
          case move_construct E e of
            (None, e') \<Rightarrow> Throws
          | (Some w, e') \<Rightarrow> Returns (\<lparr>member = Err w, has = False\<rparr>, r\<lparr>member := Err e'\<rparr>)))"

text \<open>
  Assigning a bare value or a failure goes through a temporary, which is move-assigned
  from and destroyed at the end of the full expression.
\<close>

definition destroy_temporary :: "('v, 'e) assignment step_result \<Rightarrow> ('v, 'e) assignment step_result" where
  "destroy_temporary r =
     (let cleanup = (\<lambda>s. case destroy (other s) of
                           Returns (ev, o') \<Rightarrow> Some (log_event ev (s\<lparr>other := o'\<rparr>))
                         | _ \<Rightarrow> None)
      in case r of
           Next s \<Rightarrow> (case cleanup s of Some s' \<Rightarrow> Next s' | None \<Rightarrow> Undef)
         | Unwind s \<Rightarrow> (case cleanup s of Some s' \<Rightarrow> Unwind s' | None \<Rightarrow> Undef)
         | Undef \<Rightarrow> Undef)"

definition assign_value ::
    "'v payload \<Rightarrow> 'e payload \<Rightarrow> ('v, 'e) result \<Rightarrow> 'v \<Rightarrow> ('v, 'e) assignment step_result option" where
  "assign_value V E r v =
     map_option destroy_temporary
       (operator_assign_move V E
          \<lparr>this = r, other = result_in_place id v, incoming = Raw, events = [Ctor_V]\<rparr>)"

definition assign_failure ::
    "'v payload \<Rightarrow> 'e payload \<Rightarrow> ('e2 \<Rightarrow> 'e) \<Rightarrow> ('v, 'e) result \<Rightarrow> 'e2 failure \<Rightarrow>
     ('v, 'e) assignment step_result option" where
  "assign_failure V E conv r f =
     map_option destroy_temporary
       (operator_assign_move V E
          \<lparr>this = r, other = result_of_failure conv f, incoming = Raw, events = [Ctor_E]\<rparr>)"

lemmas [transport_simps] =
  well_formed_def read_val_def read_err_def require_value_def require_error_def fail_fast_def
  result_of_value_def result_void_def result_in_place_def result_of_failure_def fail_def
  has_value_def has_error_def

lemmas statement_defs =
  log_event_def set_this_def set_other_def set_has_def leave_block_def run_block_def
  assign_val_copy_def assign_err_copy_def assign_val_move_def assign_err_move_def
  incoming_err_copy_def incoming_val_copy_def incoming_err_move_def incoming_val_move_def
  destroy_val_def destroy_err_def place_err_def place_val_def


text \<open>
  A trivially copyable payload: every operation is a byte copy, nothing throws and a
  moved-from object keeps its bytes.  The error representations the library ships are
  all of this kind, by the \<open>static_assert\<close>s beside them.
\<close>

definition trivial_payload :: "'a payload" where
  "trivial_payload =
     \<lparr>copy_constructible = True, move_constructible = True, copy_assignable = True,
      move_assignable = True, trivially_copy_constructible = True,
      trivially_move_constructible = True, trivially_destructible = True,
      trivially_copy_assignable = True, trivially_move_assignable = True,
      nothrow_move_constructible = True, nothrow_move_assignable = True,
      copy_construct = Some, move_construct = (\<lambda>x. (Some x, x)),
      copy_assign = (\<lambda>x y. (y, False)), move_assign = (\<lambda>x y. (y, y, False))\<rparr>"

lemmas shipped_simps =
  trivial_payload_def traits_ok_def can_copy_assign_def can_copy_ctor_def can_move_assign_def
  can_move_ctor_def triv_copy_assign_def triv_copy_ctor_def triv_dtor_def triv_move_assign_def
  triv_move_ctor_def copy_assign_forms_def move_assign_forms_def viable_forms_def


subsection \<open>The exactly-one invariant\<close>

lemma well_formed_cases:
  assumes "well_formed r"
  obtains (val) v where "r = \<lparr>member = Val v, has = True\<rparr>"
    | (err) e where "r = \<lparr>member = Err e, has = False\<rparr>"
  using assms by (cases r) (auto simp: well_formed_def split: storage.splits)

lemma well_formed_constructed [simp]:
  "well_formed (result_of_value v)" "well_formed result_void"
  "well_formed (result_in_place c a)" "well_formed (result_of_failure conv f)"
  by (simp_all add: transport_simps)

lemma abs_result_constructed [simp]:
  "abs_result (result_of_value v) = Inr v" "abs_result result_void = Inr ()"
  "abs_result (result_in_place c a) = Inr (c a)"
  "abs_result (result_of_failure conv f) = Inl (conv (failure_error f))"
  by (simp_all add: abs_result_def transport_simps)

lemma well_formed_has: "well_formed r \<Longrightarrow> has r \<longleftrightarrow> (\<exists>v. abs_result r = Inr v)"
  by (erule well_formed_cases) (auto simp: abs_result_def)

lemma abs_result_inject:
  "well_formed a \<Longrightarrow> well_formed b \<Longrightarrow> abs_result a = abs_result b \<Longrightarrow> a = b"
  by (elim well_formed_cases) (auto simp: abs_result_def)

text \<open>
  The ledger of one payload type over an assignment in progress: objects alive, plus
  destructor calls, minus constructor calls.  A statement that keeps it has neither
  leaked an object nor destroyed one twice.
\<close>

definition live_v :: "('v, 'e) storage \<Rightarrow> int" where
  "live_v m = (case m of Val _ \<Rightarrow> 1 | _ \<Rightarrow> 0)"

definition live_e :: "('v, 'e) storage \<Rightarrow> int" where
  "live_e m = (case m of Err _ \<Rightarrow> 1 | _ \<Rightarrow> 0)"

definition ledger_v :: "('v, 'e) assignment \<Rightarrow> int" where
  "ledger_v s = live_v (member (this s)) + live_v (member (other s)) + live_v (incoming s)
     + int (count_list (events s) Dtor_V) - int (count_list (events s) Ctor_V)"

definition ledger_e :: "('v, 'e) assignment \<Rightarrow> int" where
  "ledger_e s = live_e (member (this s)) + live_e (member (other s)) + live_e (incoming s)
     + int (count_list (events s) Dtor_E) - int (count_list (events s) Ctor_E)"

lemmas ledger_defs = live_v_def live_e_def ledger_v_def ledger_e_def

lemma count_list_snoc [simp]:
  "count_list (xs @ [x]) y = count_list xs y + (if x = y then 1 else 0)"
  by (induction xs) auto

text \<open>An assignment about to start: two well-formed objects and no local.\<close>

definition ready :: "('v, 'e) assignment \<Rightarrow> bool" where
  "ready s \<longleftrightarrow> well_formed (this s) \<and> well_formed (other s) \<and> incoming s = Raw"

text \<open>
  What a completed assignment, normal or by exception, owes: both objects still hold
  exactly one alternative, the local is gone, and the ledgers are as before.
\<close>

definition assignment_kept :: "('v, 'e) assignment \<Rightarrow> ('v, 'e) assignment \<Rightarrow> bool" where
  "assignment_kept s s' \<longleftrightarrow> ready s' \<and> ledger_v s' = ledger_v s \<and> ledger_e s' = ledger_e s"

lemma nothrow_moveD:
  assumes "traits_ok P" and "nothrow_move_constructible P"
  shows "\<exists>y x'. move_construct P x = (Some y, x')"
proof -
  have "fst (move_construct P x) \<noteq> None"
    using assms unfolding traits_ok_def by blast
  then show ?thesis by (cases "move_construct P x") auto
qed

lemma ready_cases:
  assumes "ready s"
  obtains
    (vv) x y ev where "s = \<lparr>this = \<lparr>member = Val x, has = True\<rparr>,
        other = \<lparr>member = Val y, has = True\<rparr>, incoming = Raw, events = ev\<rparr>"
  | (ve) x y ev where "s = \<lparr>this = \<lparr>member = Val x, has = True\<rparr>,
        other = \<lparr>member = Err y, has = False\<rparr>, incoming = Raw, events = ev\<rparr>"
  | (ev) x y ev where "s = \<lparr>this = \<lparr>member = Err x, has = False\<rparr>,
        other = \<lparr>member = Val y, has = True\<rparr>, incoming = Raw, events = ev\<rparr>"
  | (ee) x y ev where "s = \<lparr>this = \<lparr>member = Err x, has = False\<rparr>,
        other = \<lparr>member = Err y, has = False\<rparr>, incoming = Raw, events = ev\<rparr>"
  using assms unfolding ready_def
  by (cases s) (auto elim!: well_formed_cases)

lemma assign_from_copy_kept:
  assumes "ready s" and "traits_ok V" and "traits_ok E" and "can_copy_assign V E"
  shows "(\<exists>s'. assign_from_copy V E s = Next s' \<and> assignment_kept s s' \<and>
            other s' = other s \<and> has (this s') = has (other s)) \<or>
         (\<exists>s'. assign_from_copy V E s = Unwind s' \<and> assignment_kept s s' \<and>
            other s' = other s \<and> has (this s') = has (this s) \<and>
            (has (this s) \<noteq> has (other s) \<longrightarrow> this s' = this s))"
  using assms(1)
proof (cases rule: ready_cases)
  case (vv x y ev)
  then show ?thesis
    by (cases "copy_assign V x y")
       (simp add: assign_from_copy_def statement_defs assignment_kept_def ready_def
          transport_simps ledger_defs)
next
  case (ee x y ev)
  then show ?thesis
    by (cases "copy_assign E x y")
       (simp add: assign_from_copy_def statement_defs assignment_kept_def ready_def
          transport_simps ledger_defs)
next
  case (ve x y ev)
  have nt: "nothrow_move_constructible E" using assms(4) by (simp add: can_copy_assign_def)
  show ?thesis
  proof (cases "copy_construct E y")
    case None
    with ve show ?thesis
      by (simp add: assign_from_copy_def statement_defs assignment_kept_def ready_def
          transport_simps ledger_defs)
  next
    case (Some i)
    obtain z i' where "move_construct E i = (Some z, i')"
      using nothrow_moveD [OF assms(3) nt] by blast
    with ve Some show ?thesis
      by (simp add: assign_from_copy_def statement_defs assignment_kept_def ready_def
          transport_simps ledger_defs)
  qed
next
  case (ev x y log)
  have nt: "nothrow_move_constructible V" using assms(4) by (simp add: can_copy_assign_def)
  show ?thesis
  proof (cases "copy_construct V y")
    case None
    with ev show ?thesis
      by (simp add: assign_from_copy_def statement_defs assignment_kept_def ready_def
          transport_simps ledger_defs)
  next
    case (Some i)
    obtain z i' where "move_construct V i = (Some z, i')"
      using nothrow_moveD [OF assms(2) nt] by blast
    with ev Some show ?thesis
      by (simp add: assign_from_copy_def statement_defs assignment_kept_def ready_def
          transport_simps ledger_defs)
  qed
qed

lemma assign_from_move_kept:
  assumes "ready s" and "traits_ok V" and "traits_ok E" and "can_move_assign V E"
  shows "(\<exists>s'. assign_from_move V E s = Next s' \<and> assignment_kept s s' \<and>
            has (other s') = has (other s) \<and> has (this s') = has (other s)) \<or>
         (\<exists>s'. assign_from_move V E s = Unwind s' \<and> assignment_kept s s' \<and>
            has (other s') = has (other s) \<and> has (this s) = has (other s))"
  using assms(1)
proof (cases rule: ready_cases)
  case (vv x y ev)
  obtain z y' t where "move_assign V x y = (z, y', t)" by (cases "move_assign V x y")
  with vv show ?thesis
    by (cases t) (simp_all add: assign_from_move_def statement_defs assignment_kept_def ready_def
          transport_simps ledger_defs)
next
  case (ee x y ev)
  obtain z y' t where "move_assign E x y = (z, y', t)" by (cases "move_assign E x y")
  with ee show ?thesis
    by (cases t) (simp_all add: assign_from_move_def statement_defs assignment_kept_def ready_def
          transport_simps ledger_defs)
next
  case (ve x y ev)
  have nt: "nothrow_move_constructible E" using assms(4) by (simp add: can_move_assign_def)
  obtain i y' where i: "move_construct E y = (Some i, y')"
    using nothrow_moveD [OF assms(3) nt] by blast
  obtain z i' where "move_construct E i = (Some z, i')"
    using nothrow_moveD [OF assms(3) nt] by blast
  with ve i show ?thesis
    by (simp add: assign_from_move_def statement_defs assignment_kept_def ready_def
          transport_simps ledger_defs)
next
  case (ev x y log)
  have nt: "nothrow_move_constructible V" using assms(4) by (simp add: can_move_assign_def)
  obtain i y' where i: "move_construct V y = (Some i, y')"
    using nothrow_moveD [OF assms(2) nt] by blast
  obtain z i' where "move_construct V i = (Some z, i')"
    using nothrow_moveD [OF assms(2) nt] by blast
  with ev i show ?thesis
    by (simp add: assign_from_move_def statement_defs assignment_kept_def ready_def
          transport_simps ledger_defs)
qed


text \<open>
  C1. Whichever form of copy or move assignment overload resolution selects, and whether
  it completes or throws, both objects hold exactly one alternative afterwards and the
  discriminant agrees: there is no valueless state, and no step of the assignment is
  undefined.
\<close>

theorem assignment_never_valueless:
  assumes "well_formed (this s)" and "well_formed (other s)" and "incoming s = Raw"
    and "traits_ok V" and "traits_ok E"
    and "r = operator_assign_copy V E s \<or> r = operator_assign_move V E s" and "r = Some q"
  shows "\<exists>s'. (q = Next s' \<or> q = Unwind s') \<and>
           well_formed (this s') \<and> well_formed (other s') \<and> incoming s' = Raw"
proof -
  have ready: "ready s" using assms(1-3) by (simp add: ready_def)
  consider (copy) "can_copy_assign V E" "q = assign_from_copy V E s"
    | (move) "can_move_assign V E" "q = assign_from_move V E s"
    | (bytes) "q = Next (s\<lparr>this := other s\<rparr>)"
    using assms(6,7)
    by (auto simp: operator_assign_copy_def operator_assign_move_def copy_assign_forms_def
        move_assign_forms_def viable_forms_def split: if_splits)
  then show ?thesis
  proof cases
    case copy
    then show ?thesis
      using assign_from_copy_kept [OF ready assms(4,5) copy(1)]
      by (auto simp: assignment_kept_def ready_def)
  next
    case move
    then show ?thesis
      using assign_from_move_kept [OF ready assms(4,5) move(1)]
      by (auto simp: assignment_kept_def ready_def)
  next
    case bytes
    then show ?thesis using assms(2,3) by simp
  qed
qed

theorem assignment_never_valueless_witness:
  "\<exists>s'. operator_assign_copy trivial_payload trivial_payload
           \<lparr>this = result_of_value (1::nat), other = result_of_failure id (fail (2::nat)),
            incoming = Raw, events = []\<rparr> = Some (Next s') \<and> well_formed (this s')"
proof -
  let ?s = "\<lparr>this = result_of_value (1::nat), other = result_of_failure id (fail (2::nat)),
             incoming = Raw, events = []\<rparr>"
  have eq: "operator_assign_copy trivial_payload trivial_payload ?s = Some (Next (?s\<lparr>this := other ?s\<rparr>))"
    by (simp add: operator_assign_copy_def shipped_simps)
  have ok: "traits_ok (trivial_payload :: nat payload)" by (simp add: shipped_simps)
  have "\<exists>s'. (Next (?s\<lparr>this := other ?s\<rparr>) = Next s' \<or> Next (?s\<lparr>this := other ?s\<rparr>) = Unwind s') \<and>
      well_formed (this s') \<and> well_formed (other s') \<and> incoming s' = Raw"
    by (rule assignment_never_valueless [OF _ _ _ ok ok disjI1 [OF refl] eq]) simp_all
  then show ?thesis using eq by auto
qed

text \<open>
  C9. The hand-written assignments run every constructor and destructor exactly once: for
  the value type and for the error type, objects alive plus destructor calls minus
  constructor calls is the same before and after, on the normal exit and on the
  exceptional one, and the assignment never leaves its local behind.
\<close>

theorem assignment_lifetimes_balance:
  assumes "well_formed (this s)" and "well_formed (other s)" and "incoming s = Raw"
    and "traits_ok V" and "traits_ok E"
    and "(can_copy_assign V E \<and> q = assign_from_copy V E s) \<or>
         (can_move_assign V E \<and> q = assign_from_move V E s)"
  shows "\<exists>s'. (q = Next s' \<or> q = Unwind s') \<and> incoming s' = Raw \<and>
           ledger_v s' = ledger_v s \<and> ledger_e s' = ledger_e s"
proof -
  have ready: "ready s" using assms(1-3) by (simp add: ready_def)
  show ?thesis
    using assms(6) assign_from_copy_kept [OF ready assms(4,5)]
      assign_from_move_kept [OF ready assms(4,5)]
    by (auto simp: assignment_kept_def ready_def)
qed

theorem assignment_lifetimes_balance_witness:
  "\<exists>s'. assign_from_copy trivial_payload trivial_payload
           \<lparr>this = result_of_value (1::nat), other = result_of_failure id (fail (2::nat)),
            incoming = Raw, events = []\<rparr> = Next s' \<and>
         events s' = [Ctor_E, Dtor_V, Ctor_E, Dtor_E] \<and> ledger_e s' = 1 \<and> ledger_v s' = 1"
proof -
  let ?s = "\<lparr>this = result_of_value (1::nat), other = result_of_failure id (fail (2::nat)),
             incoming = Raw, events = []\<rparr>"
  have ok: "traits_ok (trivial_payload :: nat payload)"
    and can: "can_copy_assign (trivial_payload :: nat payload) (trivial_payload :: nat payload)"
    by (simp_all add: shipped_simps)
  have eq: "assign_from_copy trivial_payload trivial_payload ?s =
      Next \<lparr>this = result_of_failure id (fail 2), other = result_of_failure id (fail 2),
            incoming = Raw, events = [Ctor_E, Dtor_V, Ctor_E, Dtor_E]\<rparr>"
    by (simp add: assign_from_copy_def statement_defs transport_simps trivial_payload_def)
  have "ledger_v ?s = 1" "ledger_e ?s = 1"
    by (simp_all add: ledger_defs transport_simps)
  with assignment_lifetimes_balance [OF _ _ _ ok ok disjI1 [OF conjI [OF can refl]], of ?s] eq
  show ?thesis by auto
qed

text \<open>
  When copying the incoming alternative throws during a cross-state assignment the
  target is untouched, and in every case an exception leaves the target holding the
  alternative it held before, with the source unchanged.
\<close>

theorem assignment_throw_keeps_state:
  assumes "well_formed (this s)" and "well_formed (other s)" and "incoming s = Raw"
    and "traits_ok V" and "traits_ok E" and "can_copy_assign V E"
    and "assign_from_copy V E s = Unwind s'"
  shows "has_value (this s') = has_value (this s) \<and> other s' = other s \<and>
         (has_value (this s) \<noteq> has_value (other s) \<longrightarrow> this s' = this s)"
proof -
  have ready: "ready s" using assms(1-3) by (simp add: ready_def)
  show ?thesis
    using assign_from_copy_kept [OF ready assms(4-6)] assms(7) by (auto simp: has_value_def)
qed

theorem assignment_throw_keeps_state_witness:
  "\<exists>s'. assign_from_copy trivial_payload (trivial_payload\<lparr>copy_construct := (\<lambda>_. None)\<rparr>)
           \<lparr>this = result_of_value (1::nat), other = result_of_failure id (fail (2::nat)),
            incoming = Raw, events = []\<rparr> = Unwind s' \<and> this s' = result_of_value 1"
proof -
  let ?E = "trivial_payload\<lparr>copy_construct := (\<lambda>_. None)\<rparr> :: nat payload"
  let ?s = "\<lparr>this = result_of_value (1::nat), other = result_of_failure id (fail (2::nat)),
             incoming = Raw, events = []\<rparr>"
  have ok: "traits_ok (trivial_payload :: nat payload)" "traits_ok ?E"
    and can: "can_copy_assign (trivial_payload :: nat payload) ?E"
    by (simp_all add: shipped_simps)
  have eq: "assign_from_copy trivial_payload ?E ?s = Unwind ?s"
    by (simp add: assign_from_copy_def statement_defs transport_simps trivial_payload_def)
  show ?thesis
    using assignment_throw_keeps_state [OF _ _ _ ok can eq] eq by (simp add: transport_simps)
qed

subsection \<open>Regular payloads\<close>

text \<open>
  A payload is regular when a copy or move that completes yields the source's value.
  This is the contract the transport's clients rely on for value semantics.
\<close>

definition regular :: "'a payload \<Rightarrow> bool" where
  "regular P \<longleftrightarrow> traits_ok P \<and>
     (\<forall>x y. copy_construct P x = Some y \<longrightarrow> y = x) \<and>
     (\<forall>x y x'. move_construct P x = (Some y, x') \<longrightarrow> y = x) \<and>
     (\<forall>x y z. copy_assign P x y = (z, False) \<longrightarrow> z = y) \<and>
     (\<forall>x y z y'. move_assign P x y = (z, y', False) \<longrightarrow> z = y)"

locale regular_transport =
  fixes V :: "'v payload" and E :: "'e payload"
  assumes regular_V: "regular V" and regular_E: "regular E"
begin

lemma traits: "traits_ok V" "traits_ok E"
  using regular_V regular_E by (simp_all add: regular_def)

lemma copy_V: "copy_construct V x = Some y \<Longrightarrow> y = x"
  using regular_V by (simp add: regular_def)

lemma copy_E: "copy_construct E x = Some y \<Longrightarrow> y = x"
  using regular_E by (simp add: regular_def)

lemma move_V: "move_construct V x = (Some y, x') \<Longrightarrow> y = x"
  using regular_V unfolding regular_def by blast

lemma move_E: "move_construct E x = (Some y, x') \<Longrightarrow> y = x"
  using regular_E unfolding regular_def by blast

lemma assign_V: "copy_assign V x y = (z, False) \<Longrightarrow> z = y" "move_assign V x y = (z, y', False) \<Longrightarrow> z = y"
  using regular_V unfolding regular_def by blast+

lemma assign_E: "copy_assign E x y = (z, False) \<Longrightarrow> z = y" "move_assign E x y = (z, y', False) \<Longrightarrow> z = y"
  using regular_E unfolding regular_def by blast+

lemmas value_laws = copy_V copy_E move_V move_E assign_V assign_E

lemma assign_from_copy_value:
  assumes "ready s" and "assign_from_copy V E s = Next s'"
  shows "this s' = other s"
  using assms(1)
proof (cases rule: ready_cases)
  case (vv x y ev)
  then show ?thesis using assms(2)
    by (auto simp: assign_from_copy_def statement_defs split: prod.splits if_splits dest: value_laws)
next
  case (ve x y ev)
  then show ?thesis using assms(2)
    by (auto simp: assign_from_copy_def statement_defs split: prod.splits option.splits dest!: value_laws)
next
  case (ev x y log)
  then show ?thesis using assms(2)
    by (auto simp: assign_from_copy_def statement_defs split: prod.splits option.splits dest!: value_laws)
next
  case (ee x y ev)
  then show ?thesis using assms(2)
    by (auto simp: assign_from_copy_def statement_defs split: prod.splits if_splits dest: value_laws)
qed

lemma assign_from_move_value:
  assumes "ready s" and "assign_from_move V E s = Next s'"
  shows "this s' = other s"
  using assms(1)
proof (cases rule: ready_cases)
  case (vv x y ev)
  then show ?thesis using assms(2)
    by (auto simp: assign_from_move_def statement_defs Let_def split: prod.splits if_splits dest: value_laws)
next
  case (ve x y ev)
  then show ?thesis using assms(2)
    by (auto simp: assign_from_move_def statement_defs split: prod.splits option.splits dest!: value_laws)
next
  case (ev x y log)
  then show ?thesis using assms(2)
    by (auto simp: assign_from_move_def statement_defs split: prod.splits option.splits dest!: value_laws)
next
  case (ee x y ev)
  then show ?thesis using assms(2)
    by (auto simp: assign_from_move_def statement_defs Let_def split: prod.splits if_splits dest: value_laws)
qed

lemma copy_ctor_value:
  "well_formed r \<Longrightarrow> copy_ctor V E r = Returns c \<Longrightarrow> c = r"
  by (erule well_formed_cases)
     (auto simp: copy_ctor_def transport_simps split: option.splits dest: value_laws)

lemma move_ctor_value:
  "well_formed r \<Longrightarrow> move_ctor V E r = Returns (c, r') \<Longrightarrow> c = r \<and> well_formed r'"
  by (erule well_formed_cases)
     (auto simp: move_ctor_def transport_simps split: prod.splits option.splits dest: value_laws)

lemma operator_assign_value:
  assumes "ready s"
  shows "operator_assign_copy V E s = Some (Next s') \<Longrightarrow> this s' = other s"
    and "operator_assign_move V E s = Some (Next s') \<Longrightarrow> this s' = other s"
  by (auto simp: operator_assign_copy_def operator_assign_move_def copy_assign_forms_def
      move_assign_forms_def viable_forms_def split: if_splits
      dest: assign_from_copy_value [OF assms] assign_from_move_value [OF assms])

end

lemma regular_trivial: "regular trivial_payload"
  by (simp add: regular_def traits_ok_def trivial_payload_def)

interpretation shipped: regular_transport trivial_payload trivial_payload
  by unfold_locales (rule regular_trivial)+


text \<open>
  C8. Over regular payloads assignment has value semantics: when copy or move assignment
  completes, the target is the value or the error the source held; so is a copy- or
  move-constructed result, and assigning a bare value or a failure makes the target hold
  exactly that.
\<close>

theorem assignment_value_semantics:
  assumes "regular V" and "regular E"
    and "well_formed (this s)" and "well_formed (other s)" and "incoming s = Raw"
  shows "(\<forall>s'. operator_assign_copy V E s = Some (Next s') \<longrightarrow>
            abs_result (this s') = abs_result (other s)) \<and>
         (\<forall>s'. operator_assign_move V E s = Some (Next s') \<longrightarrow>
            abs_result (this s') = abs_result (other s)) \<and>
         (\<forall>c. copy_ctor V E (other s) = Returns c \<longrightarrow> abs_result c = abs_result (other s)) \<and>
         (\<forall>c o'. move_ctor V E (other s) = Returns (c, o') \<longrightarrow>
            abs_result c = abs_result (other s) \<and> well_formed o')"
proof -
  have t: "regular_transport V E" using assms(1,2) by unfold_locales
  have ready: "ready s" using assms(3-5) by (simp add: ready_def)
  show ?thesis
    by (auto dest!: regular_transport.operator_assign_value [OF t ready]
        regular_transport.copy_ctor_value [OF t assms(4)]
        regular_transport.move_ctor_value [OF t assms(4)])
qed

theorem assignment_value_semantics_witness:
  "\<exists>s'. operator_assign_move trivial_payload trivial_payload
           \<lparr>this = result_of_value (1::nat), other = result_of_failure id (fail (2::nat)),
            incoming = Raw, events = []\<rparr> = Some (Next s') \<and> abs_result (this s') = Inl 2"
proof -
  let ?s = "\<lparr>this = result_of_value (1::nat), other = result_of_failure id (fail (2::nat)),
             incoming = Raw, events = []\<rparr>"
  have "operator_assign_move trivial_payload trivial_payload ?s = Some (Next (?s\<lparr>this := other ?s\<rparr>))"
    by (simp add: operator_assign_move_def shipped_simps)
  with assignment_value_semantics [OF regular_trivial regular_trivial, of ?s]
  show ?thesis by (simp add: fail_def)
qed

lemma destroy_well_formed:
  "well_formed r \<Longrightarrow> destroy r = Returns (if has r then Dtor_V else Dtor_E, r\<lparr>member := Raw\<rparr>)"
  by (erule well_formed_cases) (simp_all add: destroy_def)

lemma destroy_temporary_this:
  "destroy_temporary (Next s) = Next s' \<Longrightarrow> this s' = this s"
  by (auto simp: destroy_temporary_def log_event_def split: option.splits outcome.splits)

lemma destroy_temporary_Next:
  "destroy_temporary q = Next s' \<Longrightarrow> \<exists>s. q = Next s \<and> this s' = this s"
  by (cases q) (auto simp: destroy_temporary_def log_event_def split: option.splits outcome.splits)

text \<open>
  Assigning a bare value, or a failure, to a result over regular payloads leaves it
  holding exactly that value, or exactly that error converted to the result's error type.
\<close>

theorem assign_bare_value_and_failure:
  assumes "regular V" and "regular E" and "well_formed r"
  shows "(\<forall>s'. assign_value V E r v = Some (Next s') \<longrightarrow> abs_result (this s') = Inr v) \<and>
         (\<forall>s'. assign_failure V E conv r (fail e) = Some (Next s') \<longrightarrow>
            abs_result (this s') = Inl (conv e))"
proof (intro conjI allI impI)
  have t: "regular_transport V E" using assms(1,2) by unfold_locales
  note op = regular_transport.operator_assign_value(2) [OF t]
  {
    fix s'
    assume "assign_value V E r v = Some (Next s')"
    then obtain s where
      s: "operator_assign_move V E
            \<lparr>this = r, other = result_in_place id v, incoming = Raw, events = [Ctor_V]\<rparr> = Some (Next s)"
      and "this s' = this s"
      by (auto simp: assign_value_def dest!: destroy_temporary_Next)
    with op [OF _ s] assms(3) show "abs_result (this s') = Inr v"
      by (simp add: ready_def)
  next
    fix s'
    assume "assign_failure V E conv r (fail e) = Some (Next s')"
    then obtain s where
      s: "operator_assign_move V E
            \<lparr>this = r, other = result_of_failure conv (fail e), incoming = Raw, events = [Ctor_E]\<rparr>
          = Some (Next s)"
      and "this s' = this s"
      by (auto simp: assign_failure_def dest!: destroy_temporary_Next)
    with op [OF _ s] assms(3) show "abs_result (this s') = Inl (conv e)"
      by (simp add: ready_def fail_def)
  }
qed

theorem assign_bare_value_and_failure_witness:
  "\<exists>s'. assign_value trivial_payload trivial_payload (result_of_failure id (fail (2::nat))) (7::nat)
          = Some (Next s') \<and> abs_result (this s') = Inr 7"
proof -
  have "\<exists>s'. assign_value trivial_payload trivial_payload (result_of_failure id (fail (2::nat))) (7::nat)
          = Some (Next s')"
    by (simp add: assign_value_def operator_assign_move_def shipped_simps destroy_temporary_def
        destroy_def transport_simps)
  with assign_bare_value_and_failure [OF regular_trivial regular_trivial,
      of "result_of_failure id (fail (2::nat)) :: (nat, nat) result"]
  show ?thesis by fastforce
qed

subsection \<open>Access\<close>

lemma value_checked_cases:
  "well_formed r \<Longrightarrow> value_checked r =
     (case abs_result r of Inr v \<Rightarrow> Returns v
      | Inl _ \<Rightarrow> Fail_Fast ''jmpxx::result: value accessed on a failure'')"
  by (erule well_formed_cases) (simp_all add: value_checked_def abs_result_def transport_simps)

lemma error_checked_cases:
  "well_formed r \<Longrightarrow> error_checked r =
     (case abs_result r of Inl e \<Rightarrow> Returns e
      | Inr _ \<Rightarrow> Fail_Fast ''jmpxx::result: error accessed on a value'')"
  by (erule well_formed_cases) (simp_all add: error_checked_def abs_result_def transport_simps)

lemma assume_hardened:
  "hardening_fast_enabled mode \<Longrightarrow> assume_value mode r = value_checked r"
  "hardening_fast_enabled mode \<Longrightarrow> assume_error mode r = error_checked r"
  by (simp_all add: assume_value_def assume_error_def value_checked_def error_checked_def)

lemma assume_value_val [simp]: "assume_value mode \<lparr>member = Val v, has = True\<rparr> = Returns v"
  by (simp add: assume_value_def transport_simps)

lemma assume_error_err [simp]: "assume_error mode \<lparr>member = Err e, has = False\<rparr> = Returns e"
  by (simp add: assume_error_def transport_simps)

text \<open>
  On a result that holds exactly one alternative the checked accessors are always
  defined: they return the held alternative, or stop the program with their own reason
  exactly when the other one is held.  The narrow accessors are the checked ones when
  fast hardening is on; with hardening off they are defined exactly in the state their
  precondition names, and there they agree with the checked ones.
\<close>

theorem access_is_checked:
  assumes "well_formed r"
  shows "defined (value_checked r) \<and> defined (error_checked r) \<and> deref_checked r = value_checked r \<and>
         (\<forall>v. value_checked r = Returns v \<longleftrightarrow> abs_result r = Inr v) \<and>
         (\<forall>e. error_checked r = Returns e \<longleftrightarrow> abs_result r = Inl e) \<and>
         (hardening_fast_enabled mode \<longrightarrow>
            assume_value mode r = value_checked r \<and> assume_error mode r = error_checked r) \<and>
         (\<not> hardening_fast_enabled mode \<longrightarrow>
            (defined (assume_value mode r) \<longleftrightarrow> has_value r) \<and>
            (defined (assume_error mode r) \<longleftrightarrow> has_error r)) \<and>
         (has_value r \<longrightarrow> assume_value mode r = value_checked r) \<and>
         (has_error r \<longrightarrow> assume_error mode r = error_checked r)"
  using assms
  by (cases rule: well_formed_cases)
     (auto simp: value_checked_def error_checked_def deref_checked_def assume_value_def
        assume_error_def abs_result_def transport_simps)

theorem access_is_checked_witness:
  "value_checked (result_of_value 3 :: (nat, nat) result) = Returns 3 \<and>
   \<not> defined (assume_error 0 (result_of_value 3 :: (nat, nat) result))"
  using access_is_checked [of "result_of_value 3 :: (nat, nat) result" 0]
  by (simp add: hardening_simps transport_simps)

subsection \<open>Comparison\<close>

text \<open>
  Comparing two results that each hold exactly one alternative is always defined and
  is equality of what they hold: same alternative and equal contents.  Comparison against
  a bare value or a failure agrees with it.
\<close>

theorem result_equality:
  assumes "well_formed a" and "well_formed b"
  shows "result_eq (=) (=) a b = Returns (abs_result a = abs_result b) \<and>
         result_eq_value (=) a v = Returns (abs_result a = Inr v) \<and>
         result_eq_failure (=) a (fail e) = Returns (abs_result a = Inl e)"
  using assms
  by (elim well_formed_cases)
     (auto simp: result_eq_def result_eq_value_def result_eq_failure_def abs_result_def transport_simps)

theorem result_equality_witness:
  "result_eq (=) (=) (result_of_value (3::nat)) (result_of_failure id (fail (3::nat))) = Returns False"
  using result_equality [of "result_of_value (3::nat)" "result_of_failure id (fail (3::nat))" 3 3]
  by simp

end
