(* ===== verification/Transport_Monadic.thy ===== *)
theory Transport_Monadic
  imports Transport
begin

text \<open>
  The monadic combinators of \<open>result<T, E>\<close> (\<open>core/transport.hpp\<close>): \<open>and_then\<close>,
  \<open>transform\<close>, \<open>or_else\<close> and \<open>transform_error\<close>, each in its lvalue, const and rvalue
  overload.

  A callable that takes the held alternative by mutable or rvalue reference may change it,
  so in the lvalue and rvalue overloads it returns its result together with what the
  object it was given is afterwards; in the const overload it cannot.  The alternative
  that is passed through is copied by the lvalue and const overloads and moved by the
  rvalue one, with the payload's own copy and move operations.  Where the source has a
  separate \<open>if constexpr (is_void)\<close> branch the callable takes no argument, which is the
  instance of the definition at the value type \<open>unit\<close>; a callable that returns
  \<open>void\<close> is the instance at the result type \<open>unit\<close>.
\<close>

definition move_out :: "'a payload \<Rightarrow> 'a \<Rightarrow> ('a \<times> 'a) outcome" where
  "move_out P x = (case move_construct P x of (None, _) \<Rightarrow> Throws | (Some y, x') \<Rightarrow> Returns (y, x'))"


subsection \<open>and\_then\<close>

definition and_then_lvalue ::
    "'e payload \<Rightarrow> ('e \<Rightarrow> 'e2) \<Rightarrow> ('v \<Rightarrow> (('w, 'e2) result \<times> 'v) outcome) \<Rightarrow> ('v, 'e) result \<Rightarrow>
     (('w, 'e2) result \<times> ('v, 'e) result) outcome" where
  "and_then_lvalue E conv f r =
     (if has r then
        bind_outcome (read_val r) (\<lambda>v.
        bind_outcome (f v) (\<lambda>(q, v'). Returns (q, r\<lparr>member := Val v'\<rparr>)))
      else
        bind_outcome (read_err r) (\<lambda>e.
        bind_outcome (copy_out E e) (\<lambda>e'. Returns (result_of_failure conv (fail e'), r))))"

definition and_then_const ::
    "'e payload \<Rightarrow> ('e \<Rightarrow> 'e2) \<Rightarrow> ('v \<Rightarrow> ('w, 'e2) result outcome) \<Rightarrow> ('v, 'e) result \<Rightarrow>
     ('w, 'e2) result outcome" where
  "and_then_const E conv f r =
     (if has r then bind_outcome (read_val r) f
      else
        bind_outcome (read_err r) (\<lambda>e.
        bind_outcome (copy_out E e) (\<lambda>e'. Returns (result_of_failure conv (fail e')))))"

definition and_then_rvalue ::
    "'e payload \<Rightarrow> ('e \<Rightarrow> 'e2) \<Rightarrow> ('v \<Rightarrow> (('w, 'e2) result \<times> 'v) outcome) \<Rightarrow> ('v, 'e) result \<Rightarrow>
     (('w, 'e2) result \<times> ('v, 'e) result) outcome" where
  "and_then_rvalue E conv f r =
     (if has r then
        bind_outcome (read_val r) (\<lambda>v.
        bind_outcome (f v) (\<lambda>(q, v'). Returns (q, r\<lparr>member := Val v'\<rparr>)))
      else
        bind_outcome (read_err r) (\<lambda>e.
        bind_outcome (move_out E e) (\<lambda>(x, e').
          Returns (result_of_failure conv (fail x), r\<lparr>member := Err e'\<rparr>))))"


subsection \<open>transform\<close>

definition transform_lvalue ::
    "'e payload \<Rightarrow> ('v \<Rightarrow> ('w \<times> 'v) outcome) \<Rightarrow> ('v, 'e) result \<Rightarrow>
     (('w, 'e) result \<times> ('v, 'e) result) outcome" where
  "transform_lvalue E f r =
     (if has r then
        bind_outcome (read_val r) (\<lambda>v.
        bind_outcome (f v) (\<lambda>(w, v'). Returns (result_of_value w, r\<lparr>member := Val v'\<rparr>)))
      else
        bind_outcome (read_err r) (\<lambda>e.
        bind_outcome (copy_out E e) (\<lambda>e'. Returns (result_of_failure id (fail e'), r))))"

definition transform_const ::
    "'e payload \<Rightarrow> ('v \<Rightarrow> 'w outcome) \<Rightarrow> ('v, 'e) result \<Rightarrow> ('w, 'e) result outcome" where
  "transform_const E f r =
     (if has r then
        bind_outcome (read_val r) (\<lambda>v. bind_outcome (f v) (\<lambda>w. Returns (result_of_value w)))
      else
        bind_outcome (read_err r) (\<lambda>e.
        bind_outcome (copy_out E e) (\<lambda>e'. Returns (result_of_failure id (fail e')))))"

definition transform_rvalue ::
    "'e payload \<Rightarrow> ('v \<Rightarrow> ('w \<times> 'v) outcome) \<Rightarrow> ('v, 'e) result \<Rightarrow>
     (('w, 'e) result \<times> ('v, 'e) result) outcome" where
  "transform_rvalue E f r =
     (if has r then
        bind_outcome (read_val r) (\<lambda>v.
        bind_outcome (f v) (\<lambda>(w, v'). Returns (result_of_value w, r\<lparr>member := Val v'\<rparr>)))
      else
        bind_outcome (read_err r) (\<lambda>e.
        bind_outcome (move_out E e) (\<lambda>(x, e').
          Returns (result_of_failure id (fail x), r\<lparr>member := Err e'\<rparr>))))"


subsection \<open>or\_else\<close>

definition or_else_lvalue ::
    "'v payload \<Rightarrow> ('e \<Rightarrow> (('v, 'g) result \<times> 'e) outcome) \<Rightarrow> ('v, 'e) result \<Rightarrow>
     (('v, 'g) result \<times> ('v, 'e) result) outcome" where
  "or_else_lvalue V f r =
     (if has r then
        bind_outcome (read_val r) (\<lambda>v.
        bind_outcome (copy_out V v) (\<lambda>v'. Returns (result_in_place id v', r)))
      else
        bind_outcome (read_err r) (\<lambda>e.
        bind_outcome (f e) (\<lambda>(q, e'). Returns (q, r\<lparr>member := Err e'\<rparr>))))"

definition or_else_const ::
    "'v payload \<Rightarrow> ('e \<Rightarrow> ('v, 'g) result outcome) \<Rightarrow> ('v, 'e) result \<Rightarrow> ('v, 'g) result outcome" where
  "or_else_const V f r =
     (if has r then
        bind_outcome (read_val r) (\<lambda>v.
        bind_outcome (copy_out V v) (\<lambda>v'. Returns (result_in_place id v')))
      else bind_outcome (read_err r) f)"

definition or_else_rvalue ::
    "'v payload \<Rightarrow> ('e \<Rightarrow> (('v, 'g) result \<times> 'e) outcome) \<Rightarrow> ('v, 'e) result \<Rightarrow>
     (('v, 'g) result \<times> ('v, 'e) result) outcome" where
  "or_else_rvalue V f r =
     (if has r then
        bind_outcome (read_val r) (\<lambda>v.
        bind_outcome (move_out V v) (\<lambda>(x, v'). Returns (result_in_place id x, r\<lparr>member := Val v'\<rparr>)))
      else
        bind_outcome (read_err r) (\<lambda>e.
        bind_outcome (f e) (\<lambda>(q, e'). Returns (q, r\<lparr>member := Err e'\<rparr>))))"


subsection \<open>transform\_error\<close>

definition transform_error_lvalue ::
    "'v payload \<Rightarrow> ('e \<Rightarrow> ('g \<times> 'e) outcome) \<Rightarrow> ('v, 'e) result \<Rightarrow>
     (('v, 'g) result \<times> ('v, 'e) result) outcome" where
  "transform_error_lvalue V f r =
     (if has r then
        bind_outcome (read_val r) (\<lambda>v.
        bind_outcome (copy_out V v) (\<lambda>v'. Returns (result_in_place id v', r)))
      else
        bind_outcome (read_err r) (\<lambda>e.
        bind_outcome (f e) (\<lambda>(g, e'). Returns (result_of_failure id (fail g), r\<lparr>member := Err e'\<rparr>))))"

definition transform_error_const ::
    "'v payload \<Rightarrow> ('e \<Rightarrow> 'g outcome) \<Rightarrow> ('v, 'e) result \<Rightarrow> ('v, 'g) result outcome" where
  "transform_error_const V f r =
     (if has r then
        bind_outcome (read_val r) (\<lambda>v.
        bind_outcome (copy_out V v) (\<lambda>v'. Returns (result_in_place id v')))
      else
        bind_outcome (read_err r) (\<lambda>e.
        bind_outcome (f e) (\<lambda>g. Returns (result_of_failure id (fail g)))))"

definition transform_error_rvalue ::
    "'v payload \<Rightarrow> ('e \<Rightarrow> ('g \<times> 'e) outcome) \<Rightarrow> ('v, 'e) result \<Rightarrow>
     (('v, 'g) result \<times> ('v, 'e) result) outcome" where
  "transform_error_rvalue V f r =
     (if has r then
        bind_outcome (read_val r) (\<lambda>v.
        bind_outcome (move_out V v) (\<lambda>(x, v'). Returns (result_in_place id x, r\<lparr>member := Val v'\<rparr>)))
      else
        bind_outcome (read_err r) (\<lambda>e.
        bind_outcome (f e) (\<lambda>(g, e'). Returns (result_of_failure id (fail g), r\<lparr>member := Err e'\<rparr>))))"

lemmas combinator_defs =
  and_then_lvalue_def and_then_const_def and_then_rvalue_def
  transform_lvalue_def transform_const_def transform_rvalue_def
  or_else_lvalue_def or_else_const_def or_else_rvalue_def
  transform_error_lvalue_def transform_error_const_def transform_error_rvalue_def
  move_out_def copy_out_def


subsection \<open>The reference: the same combinators on a sum\<close>

text \<open>What \<open>std::expected\<close> (P2505) specifies, on the abstract value-or-error.\<close>

fun sum_and_then :: "('v \<Rightarrow> 'e2 + 'w) \<Rightarrow> ('e \<Rightarrow> 'e2) \<Rightarrow> 'e + 'v \<Rightarrow> 'e2 + 'w" where
  "sum_and_then f conv (Inr v) = f v"
| "sum_and_then f conv (Inl e) = Inl (conv e)"

fun sum_or_else :: "('e \<Rightarrow> 'g + 'v) \<Rightarrow> 'e + 'v \<Rightarrow> 'g + 'v" where
  "sum_or_else f (Inr v) = Inr v"
| "sum_or_else f (Inl e) = f e"

text \<open>
  A payload whose copies and moves complete, which is the setting of a build with
  exceptions disabled.
\<close>

definition nothrow :: "'a payload \<Rightarrow> bool" where
  "nothrow P \<longleftrightarrow> (\<forall>x. copy_construct P x \<noteq> None \<and> fst (move_construct P x) \<noteq> None)"

lemma regular_copy_out: "regular P \<Longrightarrow> nothrow P \<Longrightarrow> copy_out P x = Returns x"
  by (auto simp: regular_def nothrow_def copy_out_def split: option.splits)

lemma regular_move_out:
  assumes "regular P" and "nothrow P"
  shows "\<exists>x'. move_out P x = Returns (x, x')"
proof -
  obtain y x' where m: "move_construct P x = (Some y, x')"
    using assms(2) by (cases "move_construct P x") (auto simp: nothrow_def, metis fst_conv option.exhaust)
  moreover have "y = x" using assms(1) m unfolding regular_def by blast
  ultimately show ?thesis by (simp add: move_out_def)
qed

lemma trivial_nothrow [simp]: "nothrow trivial_payload"
  by (simp add: nothrow_def trivial_payload_def)

lemma trivial_out [simp]: "copy_out trivial_payload x = Returns x"
  "move_out trivial_payload x = Returns (x, x)"
  by (simp_all add: copy_out_def move_out_def trivial_payload_def)

text \<open>
  C30. \<open>and_then\<close> and \<open>transform\<close>, in every overload, implement the reference on the
  abstract value-or-error: the callable runs on the held value exactly when there is one
  and its outcome is the result, a failure is propagated with its error unchanged up to
  the conversion, and the object itself still holds the same alternative afterwards.
\<close>

theorem value_combinators_refine:
  assumes "regular E" and "nothrow E" and "well_formed r"
    and "\<And>v. well_formed (g v)"
  shows "(\<exists>q. and_then_const E conv (\<lambda>v. Returns (g v)) r = Returns q \<and> well_formed q \<and>
            abs_result q = sum_and_then (\<lambda>v. abs_result (g v)) conv (abs_result r)) \<and>
         (\<exists>q r'. and_then_lvalue E conv (\<lambda>v. Returns (g v, upd v)) r = Returns (q, r') \<and>
            abs_result q = sum_and_then (\<lambda>v. abs_result (g v)) conv (abs_result r) \<and>
            well_formed r' \<and> has_value r' = has_value r) \<and>
         (\<exists>q r'. and_then_rvalue E conv (\<lambda>v. Returns (g v, upd v)) r = Returns (q, r') \<and>
            abs_result q = sum_and_then (\<lambda>v. abs_result (g v)) conv (abs_result r) \<and>
            well_formed r' \<and> has_value r' = has_value r) \<and>
         (\<exists>q. transform_const E (\<lambda>v. Returns (t v)) r = Returns q \<and> well_formed q \<and>
            abs_result q = sum_and_then (\<lambda>v. Inr (t v)) id (abs_result r)) \<and>
         (\<exists>q r'. transform_lvalue E (\<lambda>v. Returns (t v, upd v)) r = Returns (q, r') \<and>
            abs_result q = sum_and_then (\<lambda>v. Inr (t v)) id (abs_result r) \<and>
            well_formed r' \<and> has_value r' = has_value r) \<and>
         (\<exists>q r'. transform_rvalue E (\<lambda>v. Returns (t v, upd v)) r = Returns (q, r') \<and>
            abs_result q = sum_and_then (\<lambda>v. Inr (t v)) id (abs_result r) \<and>
            well_formed r' \<and> has_value r' = has_value r)"
  using assms(3)
proof (cases rule: well_formed_cases)
  case (val v)
  then show ?thesis
    using assms(4) by (simp add: combinator_defs transport_simps abs_result_def)
next
  case (err e)
  obtain e' where m: "move_out E e = Returns (e, e')"
    using regular_move_out [OF assms(1,2)] by blast
  show ?thesis
    unfolding err and_then_lvalue_def and_then_const_def and_then_rvalue_def
      transform_lvalue_def transform_const_def transform_rvalue_def
    by (simp add: regular_copy_out [OF assms(1,2)] m transport_simps abs_result_def)
qed

theorem value_combinators_refine_witness:
  "\<exists>q. and_then_const trivial_payload id (\<lambda>v. Returns (result_of_value (v + 1)))
          (result_of_value (41::nat) :: (nat, string) result) = Returns q \<and> abs_result q = Inr 42"
  using value_combinators_refine [OF regular_trivial trivial_nothrow,
      of "result_of_value (41::nat) :: (nat, string) result"
         "\<lambda>v. result_of_value (v + 1) :: (nat, string) result" id id id]
  by auto

text \<open>
  \<open>or_else\<close> and \<open>transform_error\<close>, in every overload, implement the reference: a
  held value passes through unchanged and the callable is not run, a held error is handed
  to the callable, and the object itself still holds the same alternative afterwards.
\<close>

theorem error_combinators_refine:
  assumes "regular V" and "nothrow V" and "well_formed r"
    and "\<And>e. well_formed (g e)"
  shows "(\<exists>q. or_else_const V (\<lambda>e. Returns (g e)) r = Returns q \<and> well_formed q \<and>
            abs_result q = sum_or_else (\<lambda>e. abs_result (g e)) (abs_result r)) \<and>
         (\<exists>q r'. or_else_lvalue V (\<lambda>e. Returns (g e, upd e)) r = Returns (q, r') \<and>
            abs_result q = sum_or_else (\<lambda>e. abs_result (g e)) (abs_result r) \<and>
            well_formed r' \<and> has_value r' = has_value r) \<and>
         (\<exists>q r'. or_else_rvalue V (\<lambda>e. Returns (g e, upd e)) r = Returns (q, r') \<and>
            abs_result q = sum_or_else (\<lambda>e. abs_result (g e)) (abs_result r) \<and>
            well_formed r' \<and> has_value r' = has_value r) \<and>
         (\<exists>q. transform_error_const V (\<lambda>e. Returns (t e)) r = Returns q \<and> well_formed q \<and>
            abs_result q = sum_or_else (\<lambda>e. Inl (t e)) (abs_result r)) \<and>
         (\<exists>q r'. transform_error_lvalue V (\<lambda>e. Returns (t e, upd e)) r = Returns (q, r') \<and>
            abs_result q = sum_or_else (\<lambda>e. Inl (t e)) (abs_result r) \<and>
            well_formed r' \<and> has_value r' = has_value r) \<and>
         (\<exists>q r'. transform_error_rvalue V (\<lambda>e. Returns (t e, upd e)) r = Returns (q, r') \<and>
            abs_result q = sum_or_else (\<lambda>e. Inl (t e)) (abs_result r) \<and>
            well_formed r' \<and> has_value r' = has_value r)"
  using assms(3)
proof (cases rule: well_formed_cases)
  case (err e)
  then show ?thesis
    using assms(4) by (simp add: combinator_defs transport_simps abs_result_def)
next
  case (val v)
  obtain v' where m: "move_out V v = Returns (v, v')"
    using regular_move_out [OF assms(1,2)] by blast
  show ?thesis
    unfolding val or_else_lvalue_def or_else_const_def or_else_rvalue_def
      transform_error_lvalue_def transform_error_const_def transform_error_rvalue_def
    by (simp add: regular_copy_out [OF assms(1,2)] m transport_simps abs_result_def)
qed

theorem error_combinators_refine_witness:
  "\<exists>q. or_else_const trivial_payload (\<lambda>e. Returns (result_of_value (length e)))
          (result_of_failure id (fail ''abc'') :: (nat, string) result) = Returns q \<and>
        abs_result q = (Inr 3 :: string + nat)"
  using error_combinators_refine [OF regular_trivial trivial_nothrow,
      of "result_of_failure id (fail ''abc'') :: (nat, string) result"
         "\<lambda>e. result_of_value (length e) :: (nat, string) result" id id]
  by (auto simp: fail_def)

text \<open>
  The monad laws hold for \<open>and_then\<close> with the value constructor as unit: left and
  right identity and associativity, for results that hold exactly one alternative and an
  error type whose copies complete.
\<close>

theorem and_then_monad_laws:
  assumes "regular E" and "nothrow E" and "well_formed r"
  shows "and_then_const E id f (result_of_value v) = f v \<and>
         and_then_const E id (\<lambda>v. Returns (result_of_value v)) r = Returns r \<and>
         bind_outcome (and_then_const E id f r) (and_then_const E id g) =
           and_then_const E id (\<lambda>v. bind_outcome (f v) (and_then_const E id g)) r"
  using assms(3)
proof (cases rule: well_formed_cases)
  case (val x)
  then show ?thesis
    by (simp add: and_then_const_def transport_simps)
next
  case (err e)
  then show ?thesis
    by (simp add: and_then_const_def regular_copy_out [OF assms(1,2)] transport_simps)
qed

theorem and_then_monad_laws_witness:
  "and_then_const trivial_payload id (\<lambda>v. Returns (result_of_value v))
     (result_of_failure id (fail (5::nat)) :: (nat, nat) result) =
   Returns (result_of_failure id (fail 5))"
  by (rule and_then_monad_laws [OF regular_trivial trivial_nothrow well_formed_constructed(4),
        THEN conjunct2, THEN conjunct1])

end
