(* ===== verification/Propagation.thy ===== *)
theory Propagation
  imports Transport_Monadic "HOL-Library.Sublist"
begin

text \<open>
  The minimal error (\<open>core/error.hpp\<close>), the propagation hook
  (\<open>core/diagnostic_hook.hpp\<close>) and single-construct propagation
  (\<open>core/propagation.hpp\<close>).

  A function body that may return early is a computation over the thread's state: it maps
  a state to what evaluating it does (\<^typ>\<open>'a outcome\<close>) and the state afterwards.  The
  propagation macros take the rest of the enclosing function as their continuation, which
  they run only on success; on failure they are the function's \<open>return\<close>.  The macros'
  operand is a prvalue, a call, as at every use in the repository, so the bound
  temporary is an rvalue and its held alternative is moved out.
\<close>

subsection \<open>The minimal error\<close>

record error =
  err_code :: c_int
  err_domain :: c_int

definition default_error :: error where
  "default_error = \<lparr>err_code = 0, err_domain = 0\<rparr>"

definition mk_error :: "c_int \<Rightarrow> c_int \<Rightarrow> error" where
  "mk_error c d = \<lparr>err_code = c, err_domain = d\<rparr>"

definition error_eq :: "error \<Rightarrow> error \<Rightarrow> bool" where
  "error_eq a b \<longleftrightarrow> err_code a = err_code b \<and> err_domain a = err_domain b"

lemma error_eq_iff: "error_eq a b \<longleftrightarrow> a = b"
  by (cases a; cases b) (simp add: error_eq_def)


subsection \<open>The propagation hook\<close>

text \<open>The core's template, selected for every error type without an overload of its own.\<close>

definition note_propagation_default :: "'e \<Rightarrow> 'loc \<Rightarrow> 's \<Rightarrow> 's" where
  "note_propagation_default e loc s = s"

text \<open>\<open>JMPXX_DETAIL_HOP\<close>: the call, or nothing where the diagnostic layer is off.\<close>

definition detail_hop :: "bool \<Rightarrow> ('e \<Rightarrow> 'loc \<Rightarrow> 's \<Rightarrow> 's) \<Rightarrow> 'e \<Rightarrow> 'loc \<Rightarrow> 's \<Rightarrow> 's" where
  "detail_hop diagnostics note e loc s = (if diagnostics then note e loc s else s)"


subsection \<open>The macros\<close>

type_synonym ('s, 'a) computation = "'s \<Rightarrow> 'a outcome \<times> 's"

text \<open>What a macro needs of its site: the build's switches, the selected hook, the payloads.\<close>

record ('s, 'v, 'e, 'loc) site =
  hardening :: int
  diagnostics :: bool
  hook :: "'e \<Rightarrow> 'loc \<Rightarrow> 's \<Rightarrow> 's"
  value_payload :: "'v payload"
  error_payload :: "'e payload"

text \<open>
  The failing branch all three macros share: note the hop on the error in place, then
  return a failure built from the error moved out of the temporary.
\<close>

definition return_failure ::
    "('s, 'v, 'e, 'loc) site \<Rightarrow> 'loc \<Rightarrow> ('e \<Rightarrow> 'e2) \<Rightarrow> ('v, 'e) result \<Rightarrow>
     ('s, ('w, 'e2) result) computation" where
  "return_failure st loc conv r s =
     (case assume_error (hardening st) r of
        Returns e \<Rightarrow>
          (let s = detail_hop (diagnostics st) (hook st) e loc s in
           (case assume_error (hardening st) r of
              Returns e \<Rightarrow>
                (map_outcome_value (\<lambda>(x, _). result_of_failure conv (fail x)) (move_out (error_payload st) e), s)
            | Fail_Fast m \<Rightarrow> (Fail_Fast m, s)
            | Throws \<Rightarrow> (Throws, s)
            | Undefined \<Rightarrow> (Undefined, s)))
      | Fail_Fast m \<Rightarrow> (Fail_Fast m, s)
      | Throws \<Rightarrow> (Throws, s)
      | Undefined \<Rightarrow> (Undefined, s))"

definition jmpxx_tryv ::
    "('s, 'v, 'e, 'loc) site \<Rightarrow> 'loc \<Rightarrow> ('e \<Rightarrow> 'e2) \<Rightarrow> ('s, ('v, 'e) result) computation \<Rightarrow>
     ('s, ('w, 'e2) result) computation \<Rightarrow> ('s, ('w, 'e2) result) computation" where
  "jmpxx_tryv st loc conv expr rest s =
     (case expr s of
        (Returns tmp, s) \<Rightarrow>
          (if \<not> has_value tmp then return_failure st loc conv tmp s else rest s)
      | (Fail_Fast m, s) \<Rightarrow> (Fail_Fast m, s)
      | (Throws, s) \<Rightarrow> (Throws, s)
      | (Undefined, s) \<Rightarrow> (Undefined, s))"

definition jmpxx_try ::
    "('s, 'v, 'e, 'loc) site \<Rightarrow> 'loc \<Rightarrow> ('e \<Rightarrow> 'e2) \<Rightarrow> ('s, ('v, 'e) result) computation \<Rightarrow>
     ('v \<Rightarrow> ('s, ('w, 'e2) result) computation) \<Rightarrow> ('s, ('w, 'e2) result) computation" where
  "jmpxx_try st loc conv expr rest s =
     (case expr s of
        (Returns tmp, s) \<Rightarrow>
          (if \<not> has_value tmp then return_failure st loc conv tmp s
           else
             (case bind_outcome (assume_value (hardening st) tmp) (move_out (value_payload st)) of
                Returns (name, _) \<Rightarrow> rest name s
              | Fail_Fast m \<Rightarrow> (Fail_Fast m, s)
              | Throws \<Rightarrow> (Throws, s)
              | Undefined \<Rightarrow> (Undefined, s)))
      | (Fail_Fast m, s) \<Rightarrow> (Fail_Fast m, s)
      | (Throws, s) \<Rightarrow> (Throws, s)
      | (Undefined, s) \<Rightarrow> (Undefined, s))"

text \<open>
  \<open>JMPXX_TRYX\<close> yields the value to the expression around it; the rest of the full
  expression and of the function is its continuation.
\<close>

definition jmpxx_tryx ::
    "('s, 'v, 'e, 'loc) site \<Rightarrow> 'loc \<Rightarrow> ('e \<Rightarrow> 'e2) \<Rightarrow> ('s, ('v, 'e) result) computation \<Rightarrow>
     ('v \<Rightarrow> ('s, ('w, 'e2) result) computation) \<Rightarrow> ('s, ('w, 'e2) result) computation" where
  "jmpxx_tryx st loc conv expr rest s =
     (case expr s of
        (Returns tmp, s) \<Rightarrow>
          (if \<not> has_value tmp then return_failure st loc conv tmp s
           else
             (case bind_outcome (assume_value (hardening st) tmp) (move_out (value_payload st)) of
                Returns (yielded, _) \<Rightarrow> rest yielded s
              | Fail_Fast m \<Rightarrow> (Fail_Fast m, s)
              | Throws \<Rightarrow> (Throws, s)
              | Undefined \<Rightarrow> (Undefined, s)))
      | (Fail_Fast m, s) \<Rightarrow> (Fail_Fast m, s)
      | (Throws, s) \<Rightarrow> (Throws, s)
      | (Undefined, s) \<Rightarrow> (Undefined, s))"

definition try_scope :: "('s, 'a) computation \<Rightarrow> ('s, 'a) computation" where
  "try_scope body = body"

text \<open>The statements after a call, run when it returns; and a step that leaves the state alone.\<close>

definition after :: "('s, 'a) computation \<Rightarrow> ('a \<Rightarrow> ('s, 'b) computation) \<Rightarrow> ('s, 'b) computation" where
  "after expr rest s =
     (case expr s of
        (Returns x, s) \<Rightarrow> rest x s
      | (Fail_Fast m, s) \<Rightarrow> (Fail_Fast m, s)
      | (Throws, s) \<Rightarrow> (Throws, s)
      | (Undefined, s) \<Rightarrow> (Undefined, s))"

definition pure_step :: "'a outcome \<Rightarrow> ('s, 'a) computation" where
  "pure_step r s = (r, s)"

text \<open>
  An automatic object of a function: constructed on entry, destroyed when the function
  returns, whichever \<open>return\<close> it leaves through, and when an exception leaves it.  The
  constructor may keep a token for the destructor (a landing scope's mark).  A fail-fast
  stops the process, so nothing runs after it.
\<close>

definition with_scope ::
    "('s \<Rightarrow> 'm \<times> 's) \<Rightarrow> ('m \<Rightarrow> 's \<Rightarrow> 's) \<Rightarrow> ('s, 'a) computation \<Rightarrow> ('s, 'a) computation" where
  "with_scope enter leave body s =
     (case enter s of (m, s1) \<Rightarrow>
       (case body s1 of
          (Returns x, s2) \<Rightarrow> (Returns x, leave m s2)
        | (Throws, s2) \<Rightarrow> (Throws, leave m s2)
        | (Fail_Fast r, s2) \<Rightarrow> (Fail_Fast r, s2)
        | (Undefined, s2) \<Rightarrow> (Undefined, s2)))"

definition return_value :: "'v \<Rightarrow> ('s, ('v, 'e) result) computation" where
  "return_value v s = (Returns (result_of_value v), s)"

definition return_fail :: "('e2 \<Rightarrow> 'e) \<Rightarrow> 'e2 \<Rightarrow> ('s, ('v, 'e) result) computation" where
  "return_fail conv e s = (Returns (result_of_failure conv (fail e)), s)"


subsection \<open>How the macros behave\<close>

text \<open>Sites whose payloads copy and move without throwing and without changing the value.\<close>

definition plain_site :: "('s, 'v, 'e, 'loc) site \<Rightarrow> bool" where
  "plain_site st \<longleftrightarrow> regular (value_payload st) \<and> nothrow (value_payload st) \<and>
     regular (error_payload st) \<and> nothrow (error_payload st)"

lemma return_failure_err:
  assumes "plain_site st"
  shows "return_failure st loc conv \<lparr>member = Err e, has = False\<rparr> s =
     (Returns (result_of_failure conv (fail e)), detail_hop (diagnostics st) (hook st) e loc s)"
proof -
  from assms have "regular (error_payload st)" "nothrow (error_payload st)"
    by (simp_all add: plain_site_def)
  then obtain e' where "move_out (error_payload st) e = Returns (e, e')"
    using regular_move_out [of "error_payload st" e] by blast
  then show ?thesis by (simp add: return_failure_def Let_def)
qed

lemma jmpxx_try_value:
  assumes "plain_site st" and "expr s = (Returns (result_of_value v), s')"
  shows "jmpxx_try st loc conv expr rest s = rest v s'"
    and "jmpxx_tryx st loc conv expr rest s = rest v s'"
    and "jmpxx_tryv st loc conv expr rest' s = rest' s'"
proof -
  from assms(1) have "regular (value_payload st)" "nothrow (value_payload st)"
    by (simp_all add: plain_site_def)
  then obtain v' where "move_out (value_payload st) v = Returns (v, v')"
    using regular_move_out [of "value_payload st" v] by blast
  then show "jmpxx_try st loc conv expr rest s = rest v s'"
    and "jmpxx_tryx st loc conv expr rest s = rest v s'"
    and "jmpxx_tryv st loc conv expr rest' s = rest' s'"
    using assms(2)
    by (simp_all add: jmpxx_try_def jmpxx_tryx_def jmpxx_tryv_def transport_simps)
qed

lemma jmpxx_try_failure:
  assumes "plain_site st" and "expr s = (Returns (result_of_failure c (fail e)), s')"
  shows "jmpxx_try st loc conv expr rest s =
           (Returns (result_of_failure conv (fail (c e))), detail_hop (diagnostics st) (hook st) (c e) loc s')"
    and "jmpxx_tryx st loc conv expr rest s =
           (Returns (result_of_failure conv (fail (c e))), detail_hop (diagnostics st) (hook st) (c e) loc s')"
    and "jmpxx_tryv st loc conv expr rest' s =
           (Returns (result_of_failure conv (fail (c e))), detail_hop (diagnostics st) (hook st) (c e) loc s')"
  using assms(2)
  by (simp_all add: jmpxx_try_def jmpxx_tryx_def jmpxx_tryv_def transport_simps
      return_failure_err [OF assms(1)])

text \<open>
  C3. \<open>JMPXX_TRY\<close>, \<open>JMPXX_TRYX\<close> and \<open>JMPXX_TRYV\<close> are one conditional branch: on a
  value the rest of the function runs with it and the state is as the expression left it;
  on a failure the rest never runs, the enclosing function returns that failure with its
  error converted, and the only effect is one call of the propagation hook on that error,
  which is absent when the diagnostic layer is off.  Neither path is ever undefined, in
  any hardening mode.
\<close>

theorem propagation_is_one_branch:
  assumes "plain_site st" and "expr s = (Returns r, s')" and "well_formed r"
  shows "jmpxx_try st loc conv expr rest s =
           (case abs_result r of
              Inr v \<Rightarrow> rest v s'
            | Inl e \<Rightarrow> (Returns (result_of_failure conv (fail e)),
                        if diagnostics st then hook st e loc s' else s')) \<and>
         jmpxx_tryx st loc conv expr rest s = jmpxx_try st loc conv expr rest s \<and>
         jmpxx_tryv st loc conv expr rest' s = jmpxx_try st loc conv expr (\<lambda>_. rest') s"
  using assms(3)
proof (cases rule: well_formed_cases)
  case (val v)
  then have r: "r = result_of_value v" by (simp add: transport_simps)
  have x: "expr s = (Returns (result_of_value v), s')" using assms(2) r by simp
  show ?thesis
    by (simp add: jmpxx_try_value [of st expr s v s', OF assms(1) x] r)
next
  case (err e)
  then have r: "r = result_of_failure (\<lambda>x. x) (fail e)" by (simp add: transport_simps)
  have x: "expr s = (Returns (result_of_failure (\<lambda>x. x) (fail e)), s')" using assms(2) r by simp
  show ?thesis
    by (simp add: jmpxx_try_failure [of st expr s "\<lambda>x. x" e s', OF assms(1) x] r detail_hop_def fail_def)
qed

text \<open>The site of a function over trivially copyable payloads.\<close>

definition shipped_site :: "int \<Rightarrow> bool \<Rightarrow> ('e \<Rightarrow> 'loc \<Rightarrow> 's \<Rightarrow> 's) \<Rightarrow> ('s, 'v, 'e, 'loc) site" where
  "shipped_site mode diag note =
     \<lparr>hardening = mode, diagnostics = diag, hook = note,
      value_payload = trivial_payload, error_payload = trivial_payload\<rparr>"

lemma plain_shipped_site [simp]: "plain_site (shipped_site mode diag note)"
  by (simp add: plain_site_def shipped_site_def regular_trivial)

lemma shipped_site_sel [simp]:
  "diagnostics (shipped_site mode diag note) = diag" "hook (shipped_site mode diag note) = note"
  by (simp_all add: shipped_site_def)

theorem propagation_is_one_branch_witness:
  "jmpxx_try (shipped_site 0 True (\<lambda>e loc s. loc # s)) (5::nat) id
     (\<lambda>s. (Returns (result_of_failure id (fail (mk_error 42 7))), s))
     (\<lambda>v s. (Returns (result_of_value (v + 1 :: nat)), s)) [] =
   (Returns (result_of_failure id (fail (mk_error 42 7))), [5])"
proof -
  let ?st = "shipped_site 0 True (\<lambda>e loc s. loc # s) :: (nat list, nat, error, nat) site"
  let ?x = "(\<lambda>s. (Returns (result_of_failure id (fail (mk_error 42 7))), s))
      :: (nat list, (nat, error) result) computation"
  have "?x [] = (Returns (result_of_failure id (fail (mk_error 42 7))), [])" by simp
  from propagation_is_one_branch [of ?st ?x "[]" _ "[]", OF plain_shipped_site this well_formed_constructed(4),
      THEN conjunct1, of 5 id "\<lambda>v s. (Returns (result_of_value (v + 1)), s)"]
  show ?thesis by (simp add: fail_def)
qed


subsection \<open>The contract of a scoped resource\<close>

text \<open>
  The interface every guard object of the repository offers to the code in its scope: the
  diagnostic landing, the reference applications' path guards.  What the resource shows
  of its state is a stack; entering may push, code in the scope may push more, and
  leaving restores exactly what was there at entry.
\<close>

locale scoped_resource =
  fixes inv :: "'s \<Rightarrow> bool"
    and shown :: "'s \<Rightarrow> 'x list"
    and enter :: "'s \<Rightarrow> 'm \<times> 's"
    and leave :: "'m \<Rightarrow> 's \<Rightarrow> 's"
  assumes enter_grows: "inv s \<Longrightarrow> enter s = (m, s1) \<Longrightarrow> inv s1 \<and> prefix (shown s) (shown s1)"
    and leave_restores:
      "inv s \<Longrightarrow> enter s = (m, s1) \<Longrightarrow> inv s2 \<Longrightarrow> prefix (shown s1) (shown s2) \<Longrightarrow>
         inv (leave m s2) \<and> shown (leave m s2) = shown s"
begin

definition grows :: "('s, 'a) computation \<Rightarrow> bool" where
  "grows body \<longleftrightarrow> (\<forall>s. inv s \<longrightarrow> inv (snd (body s)) \<and> prefix (shown s) (shown (snd (body s))))"

lemma growsD: "grows body \<Longrightarrow> inv s \<Longrightarrow> inv (snd (body s)) \<and> prefix (shown s) (shown (snd (body s)))"
  by (simp add: grows_def)

lemma scope_restores:
  assumes "grows body" and "inv s" and "with_scope enter leave body s = (r, s')"
    and "r \<noteq> Undefined" and "\<And>m. r \<noteq> Fail_Fast m"
  shows "inv s' \<and> shown s' = shown s"
proof -
  obtain m s1 where e: "enter s = (m, s1)" by (cases "enter s")
  obtain q s2 where b: "body s1 = (q, s2)" by (cases "body s1")
  have s1: "inv s1" using enter_grows [OF assms(2) e] by blast
  have s2: "inv s2" "prefix (shown s1) (shown s2)" using growsD [OF assms(1) s1] b by simp_all
  have "s' = leave m s2" using assms(3-5) e b by (cases q) (auto simp: with_scope_def)
  then show ?thesis using leave_restores [OF assms(2) e s2] by simp
qed

lemma grows_scope:
  assumes "grows body"
  shows "grows (with_scope enter leave body)"
  unfolding grows_def
proof (intro allI impI)
  fix s assume "inv s"
  obtain m s1 where e: "enter s = (m, s1)" by (cases "enter s")
  obtain q s2 where b: "body s1 = (q, s2)" by (cases "body s1")
  have s1: "inv s1" "prefix (shown s) (shown s1)" using enter_grows [OF \<open>inv s\<close> e] by simp_all
  have s2: "inv s2" "prefix (shown s1) (shown s2)" using growsD [OF assms s1(1)] b by simp_all
  then show "inv (snd (with_scope enter leave body s)) \<and>
      prefix (shown s) (shown (snd (with_scope enter leave body s)))"
    using e b leave_restores [OF \<open>inv s\<close> e s2] prefix_order.trans [OF s1(2) s2(2)]
    by (cases q) (simp_all add: with_scope_def)
qed

lemma grows_return: "grows (\<lambda>s. (r, s))"
  by (simp add: grows_def)

lemma grows_update:
  assumes "\<And>s. inv s \<Longrightarrow> inv (f s) \<and> prefix (shown s) (shown (f s))" and "grows body"
  shows "grows (\<lambda>s. body (f s))"
  using assms unfolding grows_def by (meson prefix_order.trans)

lemma grows_try:
  assumes "plain_site st" and "grows expr" and "\<And>v. grows (rest v)"
    and "\<And>s r s'. inv s \<Longrightarrow> expr s = (Returns r, s') \<Longrightarrow> well_formed r"
    and "\<And>e s. inv s \<Longrightarrow> inv (hook st e loc s) \<and> prefix (shown s) (shown (hook st e loc s))"
  shows "grows (jmpxx_try st loc conv expr rest)"
  unfolding grows_def
proof (intro allI impI)
  fix s assume s: "inv s"
  obtain r s1 where x: "expr s = (r, s1)" by (cases "expr s")
  have s1: "inv s1" "prefix (shown s) (shown s1)" using growsD [OF assms(2) s] x by simp_all
  show "inv (snd (jmpxx_try st loc conv expr rest s)) \<and>
      prefix (shown s) (shown (snd (jmpxx_try st loc conv expr rest s)))"
  proof (cases r)
    case (Returns q)
    then have x: "expr s = (Returns q, s1)" using x by simp
    from assms(4) [OF s x] show ?thesis
    proof (cases rule: well_formed_cases)
      case (val v)
      then have y: "expr s = (Returns (result_of_value v), s1)" using x by (simp add: transport_simps)
      show ?thesis
        using growsD [OF assms(3) s1(1), of v] s1(2)
        by (auto simp: jmpxx_try_value(1) [of st expr s v s1, OF assms(1) y] intro: prefix_order.trans)
    next
      case (err e)
      then have y: "expr s = (Returns (result_of_failure (\<lambda>x. x) (fail e)), s1)"
        using x by (simp add: transport_simps)
      show ?thesis
        using assms(5) [OF s1(1)] s1
        by (auto simp: jmpxx_try_failure(1) [of st expr s "\<lambda>x. x" e s1, OF assms(1) y] detail_hop_def
            intro: prefix_order.trans)
    qed
  qed (use x s1 in \<open>simp_all add: jmpxx_try_def\<close>)
qed

end

end
