(* ===== verification/Diag_Store.thy ===== *)
theory Diag_Store
  imports Platform_Config
begin

text \<open>
  The out-of-band diagnostic store of \<open>diagnostic/store.hpp\<close>: one fixed-capacity arena
  per thread, with a stack discipline.

  The arena is modelled as the source lays it out, an array of \<open>max_inflight\<close> records of
  which the first \<open>depth\<close> are live; a record keeps an array of \<open>max_chain\<close> hops of which
  the first \<open>hop_count\<close> are valid.  Opening a record reuses the slot's storage, so what a
  released record held stays in the array above \<open>depth\<close> and its absence from every answer
  is a theorem.  A pointer into the arena is the index of its record.  Source locations
  are a type parameter.
\<close>

definition max_chain :: nat where "max_chain = 16"
definition max_inflight :: nat where "max_inflight = 16"

record 'loc diag_record =
  rec_id :: c_uint32
  origin :: 'loc
  hops :: "'loc list"
  hop_count :: "16 word"
  hops_truncated :: bool
  rec_trace :: trace

record 'loc store =
  records :: "'loc diag_record list"
  depth :: nat
  next_id :: c_uint32

text \<open>
  A thread's arena on first use: no live record, the counter at 1, the record array
  whatever the storage holds.
\<close>

definition initial_store :: "'loc diag_record list \<Rightarrow> 'loc store" where
  "initial_store rs = \<lparr>records = rs, depth = 0, next_id = 1\<rparr>"

text \<open>
  \<open>open\<close>; the first argument is \<open>JMPXX_STACKTRACE\<close> and the second what
  \<open>platform::capture(2)\<close> returns.
\<close>

definition store_open :: "bool \<Rightarrow> trace \<Rightarrow> 'loc \<Rightarrow> 'loc store \<Rightarrow> c_uint32 \<times> 'loc store" where
  "store_open stacktrace captured loc s =
     (let h = next_id s;
          n = next_id s + 1;
          s = s\<lparr>next_id := (if n = 0 then 1 else n)\<rparr>
      in if depth s \<ge> max_inflight then (h, s)
         else
           (let r = (records s ! depth s)
                      \<lparr>rec_id := h, origin := loc, hop_count := 0, hops_truncated := False\<rparr>;
                r = (if stacktrace then r\<lparr>rec_trace := captured\<rparr> else r)
            in (h, s\<lparr>records := (records s)[depth s := r], depth := Suc (depth s)\<rparr>)))"

text \<open>\<open>find\<close>: newest first, over the live records only.\<close>

fun find_below :: "'loc diag_record list \<Rightarrow> c_uint32 \<Rightarrow> nat \<Rightarrow> nat option" where
  "find_below rs h 0 = None"
| "find_below rs h (Suc i) = (if rec_id (rs ! i) = h then Some i else find_below rs h i)"

definition store_find :: "c_uint32 \<Rightarrow> 'loc store \<Rightarrow> nat option" where
  "store_find h s = (if h = 0 then None else find_below (records s) h (depth s))"

definition add_hop :: "c_uint32 \<Rightarrow> 'loc \<Rightarrow> 'loc store \<Rightarrow> 'loc store" where
  "add_hop h loc s =
     (case store_find h s of
        None \<Rightarrow> s
      | Some i \<Rightarrow>
          (let r = records s ! i in
           if unat (hop_count r) \<ge> max_chain then
             s\<lparr>records := (records s)[i := r\<lparr>hops_truncated := True\<rparr>]\<rparr>
           else
             s\<lparr>records := (records s)
                 [i := r\<lparr>hops := (hops r)[unat (hop_count r) := loc],
                         hop_count := hop_count r + 1\<rparr>]\<rparr>))"

definition store_mark :: "'loc store \<Rightarrow> int" where
  "store_mark s = int (depth s)"

definition store_truncate :: "int \<Rightarrow> 'loc store \<Rightarrow> 'loc store" where
  "store_truncate m s = (if m \<ge> 0 \<and> m < int (depth s) then s\<lparr>depth := nat m\<rparr> else s)"


subsection \<open>The arena's invariant\<close>

definition record_ok :: "'loc diag_record \<Rightarrow> bool" where
  "record_ok r \<longleftrightarrow> length (hops r) = max_chain"

definition store_ok :: "'loc store \<Rightarrow> bool" where
  "store_ok s \<longleftrightarrow>
     length (records s) = max_inflight \<and> depth s \<le> max_inflight \<and> next_id s \<noteq> 0 \<and>
     (\<forall>r \<in> set (records s). record_ok r) \<and>
     (\<forall>i < depth s. rec_id (records s ! i) \<noteq> 0 \<and> unat (hop_count (records s ! i)) \<le> max_chain)"

text \<open>The three ways a thread's arena changes, and a run of them.\<close>

datatype 'loc store_op = Open trace 'loc | Hop c_uint32 'loc | Truncate int

fun apply_op :: "bool \<Rightarrow> 'loc store_op \<Rightarrow> 'loc store \<Rightarrow> 'loc store" where
  "apply_op st (Open t loc) s = snd (store_open st t loc s)"
| "apply_op st (Hop h loc) s = add_hop h loc s"
| "apply_op st (Truncate m) s = store_truncate m s"

fun run_ops :: "bool \<Rightarrow> 'loc store_op list \<Rightarrow> 'loc store \<Rightarrow> 'loc store" where
  "run_ops st [] s = s"
| "run_ops st (x # xs) s = run_ops st xs (apply_op st x s)"

fun opens :: "'loc store_op list \<Rightarrow> nat" where
  "opens [] = 0"
| "opens (Open t loc # xs) = Suc (opens xs)"
| "opens (x # xs) = opens xs"

lemma find_below_SomeD:
  "find_below rs h n = Some i \<Longrightarrow> i < n \<and> rec_id (rs ! i) = h \<and> (\<forall>j < n. i < j \<longrightarrow> rec_id (rs ! j) \<noteq> h)"
  by (induction n) (auto split: if_splits simp: less_Suc_eq)

lemma find_below_None_iff: "find_below rs h n = None \<longleftrightarrow> (\<forall>j < n. rec_id (rs ! j) \<noteq> h)"
  by (induction n) (auto simp: less_Suc_eq)

lemma find_below_cong:
  "(\<And>i. i < n \<Longrightarrow> rec_id (rs ! i) = rec_id (qs ! i)) \<Longrightarrow> find_below rs h n = find_below qs h n"
  by (induction n) simp_all

lemma store_find_SomeD:
  "store_find h s = Some i \<Longrightarrow> i < depth s \<and> rec_id (records s ! i) = h \<and> h \<noteq> 0"
  by (auto simp: store_find_def split: if_splits dest: find_below_SomeD)

lemma next_id_wraps: "(if (n::c_uint32) + 1 = 0 then 1 else n + 1) \<noteq> 0"
  by simp

lemma store_open_ok: "store_ok s \<Longrightarrow> store_ok (snd (store_open st t loc s))"
  by (auto simp: store_ok_def store_open_def Let_def record_ok_def nth_list_update less_Suc_eq
      max_inflight_def set_update_memI dest!: set_update_subset_insert [THEN subsetD])

lemma add_hop_ok:
  assumes "store_ok s"
  shows "store_ok (add_hop h loc s)"
proof (cases "store_find h s")
  case None
  then show ?thesis using assms by (simp add: add_hop_def)
next
  case (Some i)
  let ?r = "records s ! i"
  have i: "i < depth s" "i < length (records s)"
    using Some assms by (auto dest: store_find_SomeD simp: store_ok_def)
  then have r: "record_ok ?r" "unat (hop_count ?r) \<le> max_chain" "rec_id ?r \<noteq> 0"
    using assms by (auto simp: store_ok_def)
  have bump: "unat (hop_count ?r) < max_chain \<Longrightarrow> unat (hop_count ?r + 1) = Suc (unat (hop_count ?r))"
    by (simp add: max_chain_def unat_word_ariths)
  show ?thesis
    using assms i r bump Some
    by (auto simp: add_hop_def Let_def store_ok_def record_ok_def nth_list_update not_le
        dest!: set_update_subset_insert [THEN subsetD])
qed

lemma store_truncate_ok: "store_ok s \<Longrightarrow> store_ok (store_truncate m s)"
  by (auto simp: store_ok_def store_truncate_def)

lemma apply_op_ok: "store_ok s \<Longrightarrow> store_ok (apply_op st x s)"
  by (cases x) (simp_all add: store_open_ok add_hop_ok store_truncate_ok)

lemma run_ops_ok: "store_ok s \<Longrightarrow> store_ok (run_ops st xs s)"
  by (induction xs arbitrary: s) (simp_all add: apply_op_ok)


text \<open>
  Every operation keeps the arena's invariant, so after any run of opens, hops and
  truncations from a fresh arena the depth stays within \<open>max_inflight\<close>, every live record
  has a nonzero handle and at most \<open>max_chain\<close> hops in a hop array that never changes
  size, and the handle counter is never 0.
\<close>

theorem arena_stays_within_bounds:
  assumes "length rs = max_inflight" and "\<And>r. r \<in> set rs \<Longrightarrow> length (hops r) = max_chain"
  shows "depth (run_ops st xs (initial_store rs)) \<le> max_inflight \<and>
         store_ok (run_ops st xs (initial_store rs))"
proof -
  have "store_ok (initial_store rs)"
    using assms by (simp add: store_ok_def initial_store_def record_ok_def)
  then show ?thesis
    using run_ops_ok [of "initial_store rs" st xs] by (simp add: store_ok_def)
qed

text \<open>A record array as it may be before first use, for concrete runs.\<close>

definition blank_record :: "nat diag_record" where
  "blank_record = \<lparr>rec_id = 0, origin = 0, hops = replicate max_chain 0, hop_count = 0,
     hops_truncated = False, rec_trace = \<lparr>trace_frames = [], trace_count = 0\<rparr>\<rparr>"

definition blank_store :: "nat store" where
  "blank_store = initial_store (replicate max_inflight blank_record)"

theorem arena_stays_within_bounds_witness:
  "depth (run_ops False [Truncate 3] (initial_store (replicate max_inflight blank_record)))
     \<le> max_inflight"
  using arena_stays_within_bounds [of "replicate max_inflight blank_record" False "[Truncate 3]"]
  by (simp add: blank_record_def)


subsection \<open>What the arena means: a bounded stack of chains\<close>

record 'loc chain =
  chain_id :: c_uint32
  chain_origin :: 'loc
  chain_hops :: "'loc list"
  chain_truncated :: bool

definition view :: "'loc diag_record \<Rightarrow> 'loc chain" where
  "view r = \<lparr>chain_id = rec_id r, chain_origin = origin r,
     chain_hops = take (unat (hop_count r)) (hops r), chain_truncated = hops_truncated r\<rparr>"

text \<open>The live chains, oldest first.\<close>

definition live :: "'loc store \<Rightarrow> 'loc chain list" where
  "live s = map view (take (depth s) (records s))"

definition extend_chain :: "'loc \<Rightarrow> 'loc chain \<Rightarrow> 'loc chain" where
  "extend_chain loc c =
     (if length (chain_hops c) < max_chain then c\<lparr>chain_hops := chain_hops c @ [loc]\<rparr>
      else c\<lparr>chain_truncated := True\<rparr>)"

text \<open>Update of the newest chain with a given handle.\<close>

fun update_newest :: "c_uint32 \<Rightarrow> ('loc chain \<Rightarrow> 'loc chain) \<Rightarrow> 'loc chain list \<Rightarrow> 'loc chain list" where
  "update_newest h f [] = []"
| "update_newest h f (c # cs) =
     (if (\<exists>d \<in> set cs. chain_id d = h) \<or> chain_id c \<noteq> h then c # update_newest h f cs
      else f c # cs)"

lemma length_live [simp]: "store_ok s \<Longrightarrow> length (live s) = depth s"
  by (simp add: live_def store_ok_def)

lemma live_nth: "store_ok s \<Longrightarrow> i < depth s \<Longrightarrow> live s ! i = view (records s ! i)"
  by (simp add: live_def store_ok_def)

lemma view_id [simp]: "chain_id (view r) = rec_id r"
  by (simp add: view_def)

lemma live_open:
  assumes "store_ok s"
  shows "live (snd (store_open st t loc s)) =
    (if length (live s) < max_inflight then
       live s @ [\<lparr>chain_id = next_id s, chain_origin = loc, chain_hops = [], chain_truncated = False\<rparr>]
     else live s)"
  using assms
  by (auto simp: live_def store_open_def Let_def store_ok_def take_list_update_Suc view_def
      take_Suc_conv_app_nth)

lemma live_truncate:
  "store_ok s \<Longrightarrow> live (store_truncate m s) = (if m \<ge> 0 then take (nat m) (live s) else live s)"
proof -
  assume ok: "store_ok s"
  have "m \<ge> int (depth s) \<Longrightarrow> min (nat m) (depth s) = depth s" by linarith
  then show "live (store_truncate m s) = (if m \<ge> 0 then take (nat m) (live s) else live s)"
    using ok by (auto simp: live_def store_truncate_def take_map)
qed

lemma update_newest_nth:
  assumes "i < length cs" and "chain_id (cs ! i) = h" and "\<forall>j < length cs. i < j \<longrightarrow> chain_id (cs ! j) \<noteq> h"
  shows "update_newest h f cs = cs[i := f (cs ! i)]"
  using assms
proof (induction cs arbitrary: i)
  case Nil
  then show ?case by simp
next
  case (Cons c cs)
  show ?case
  proof (cases i)
    case 0
    then have "\<forall>d \<in> set cs. chain_id d \<noteq> h"
      using Cons.prems(3) by (fastforce simp: in_set_conv_nth)
    then show ?thesis using Cons.prems 0 by auto
  next
    case (Suc j)
    have "\<exists>d \<in> set cs. chain_id d = h"
      using Cons.prems(1,2) Suc by (auto intro!: bexI [of _ "cs ! j"])
    moreover have "update_newest h f cs = cs[j := f (cs ! j)]"
    proof (rule Cons.IH)
      show "\<forall>k < length cs. j < k \<longrightarrow> chain_id (cs ! k) \<noteq> h"
        using Cons.prems(3) Suc by (metis Suc_less_eq length_Cons nth_Cons_Suc)
    qed (use Cons.prems Suc in auto)
    ultimately show ?thesis using Suc by simp
  qed
qed

lemma update_newest_absent: "\<forall>c \<in> set cs. chain_id c \<noteq> h \<Longrightarrow> update_newest h f cs = cs"
  by (induction cs) auto

lemma store_find_None_live:
  "store_ok s \<Longrightarrow> store_find h s = None \<longleftrightarrow> (\<forall>c \<in> set (live s). chain_id c \<noteq> h)"
  by (fastforce simp: store_find_def find_below_None_iff store_ok_def live_def in_set_conv_nth
      split: if_splits)

lemma view_extend:
  assumes "record_ok r" and "unat (hop_count r) \<le> max_chain"
  shows "view (if unat (hop_count r) \<ge> max_chain then r\<lparr>hops_truncated := True\<rparr>
         else r\<lparr>hops := (hops r)[unat (hop_count r) := loc], hop_count := hop_count r + 1\<rparr>) =
         extend_chain loc (view r)"
proof (cases "unat (hop_count r) \<ge> max_chain")
  case True
  then show ?thesis using assms by (simp add: view_def extend_chain_def record_ok_def)
next
  case False
  then have "unat (hop_count r + 1) = Suc (unat (hop_count r))"
    by (simp add: max_chain_def unat_word_ariths)
  then show ?thesis using False assms
    by (simp add: view_def extend_chain_def record_ok_def take_list_update_Suc)
qed

lemma live_add_hop:
  assumes "store_ok s"
  shows "live (add_hop h loc s) =
    (if h = 0 then live s else update_newest h (extend_chain loc) (live s))"
proof (cases "store_find h s")
  case None
  then have "add_hop h loc s = s" by (simp add: add_hop_def)
  moreover have "\<forall>c \<in> set (live s). chain_id c \<noteq> h"
    using None store_find_None_live [OF assms] by simp
  ultimately show ?thesis by (simp add: update_newest_absent)
next
  case (Some i)
  let ?r = "records s ! i"
  have h: "h \<noteq> 0" and i: "i < depth s" "i < length (records s)" "rec_id ?r = h"
    using Some assms by (auto dest: store_find_SomeD simp: store_ok_def)
  have newest: "\<forall>j < depth s. i < j \<longrightarrow> rec_id (records s ! j) \<noteq> h"
    using Some h by (auto simp: store_find_def dest: find_below_SomeD)
  have r: "record_ok ?r" "unat (hop_count ?r) \<le> max_chain"
    using assms i by (auto simp: store_ok_def)
  have "live (add_hop h loc s) = (live s)[i := extend_chain loc (live s ! i)]"
    using assms i Some
    by (simp add: add_hop_def Let_def live_def take_update_swap map_update view_extend [OF r, symmetric]
        store_ok_def split: if_splits)
  moreover have "update_newest h (extend_chain loc) (live s) =
      (live s)[i := extend_chain loc (live s ! i)]"
    using assms i newest by (intro update_newest_nth) (auto simp: live_nth)
  ultimately show ?thesis using h by simp
qed

text \<open>
  C4. The arena refines a bounded stack of failure chains: opening pushes a fresh chain
  with the issued handle unless \<open>max_inflight\<close> are live, in which case it changes no
  chain; a hop extends the newest live chain with its handle by the hop's site, or marks
  it truncated at \<open>max_chain\<close>, and touches no other; truncating to a mark pops exactly the
  chains above it; the mark is the number of live chains.
\<close>

theorem arena_refines_chain_stack:
  assumes "store_ok s"
  shows "live (snd (store_open st t loc s)) =
           (if length (live s) < max_inflight then
              live s @ [\<lparr>chain_id = fst (store_open st t loc s), chain_origin = loc,
                         chain_hops = [], chain_truncated = False\<rparr>]
            else live s) \<and>
         live (add_hop h loc s) =
           (if h = 0 then live s else update_newest h (extend_chain loc) (live s)) \<and>
         live (store_truncate m s) = (if m \<ge> 0 then take (nat m) (live s) else live s) \<and>
         store_mark s = int (length (live s))"
proof -
  have "fst (store_open st t loc s) = next_id s" by (simp add: store_open_def Let_def)
  then show ?thesis
    using assms by (simp add: live_open live_add_hop live_truncate store_mark_def)
qed

theorem arena_refines_chain_stack_witness:
  "live (snd (store_open False \<lparr>trace_frames = [], trace_count = 0\<rparr> 7 blank_store)) =
     [\<lparr>chain_id = 1, chain_origin = 7, chain_hops = [], chain_truncated = False\<rparr>]"
proof -
  have ok: "store_ok blank_store"
    by (simp add: store_ok_def blank_store_def initial_store_def blank_record_def record_ok_def)
  have "live blank_store = []" by (simp add: live_def blank_store_def initial_store_def)
  then show ?thesis
    using arena_refines_chain_stack [OF ok, of False "\<lparr>trace_frames = [], trace_count = 0\<rparr>" 7 1 0]
    by (simp add: max_inflight_def store_open_def Let_def blank_store_def initial_store_def)
qed


subsection \<open>Handles\<close>

text \<open>
  Handles are issued in increasing order until the 32-bit counter wraps, so the live ones
  are strictly increasing and below the counter.
\<close>

definition handles_fresh :: "'loc store \<Rightarrow> bool" where
  "handles_fresh s \<longleftrightarrow>
     sorted_wrt (<) (map (\<lambda>c. unat (chain_id c)) (live s)) \<and>
     (\<forall>c \<in> set (live s). unat (chain_id c) < unat (next_id s))"

lemma next_id_ops [simp]:
  "next_id (add_hop h loc s) = next_id s" "next_id (store_truncate m s) = next_id s"
  by (simp_all add: add_hop_def store_truncate_def Let_def split: option.split)

lemma next_id_open:
  "next_id (snd (store_open st t loc s)) = (if next_id s + 1 = 0 then 1 else next_id s + 1)"
  by (simp add: store_open_def Let_def)

lemma unat_next_id_open:
  assumes "unat (next_id s) + 1 < 2 ^ 32"
  shows "unat (next_id (snd (store_open st t loc s))) = Suc (unat (next_id s))"
proof -
  have "unat (next_id s + 1) = Suc (unat (next_id s))"
    using assms by (simp add: unat_word_ariths)
  moreover from this have "next_id s + 1 \<noteq> 0"
    by (metis unat_0 Zero_not_Suc)
  ultimately show ?thesis by (simp add: next_id_open)
qed

lemma update_newest_ids:
  assumes "\<And>c. chain_id (f c) = chain_id c" and "\<And>c. chain_origin (f c) = chain_origin c"
  shows "map chain_id (update_newest h f cs) = map chain_id cs"
    and "map chain_origin (update_newest h f cs) = map chain_origin cs"
  by (induction cs) (simp_all add: assms)

lemma extend_chain_id [simp]: "chain_id (extend_chain loc c) = chain_id c"
  "chain_origin (extend_chain loc c) = chain_origin c"
  by (simp_all add: extend_chain_def)

lemma live_add_hop_ids:
  assumes "store_ok s"
  shows "map chain_id (live (add_hop h loc s)) = map chain_id (live s)"
    and "map chain_origin (live (add_hop h loc s)) = map chain_origin (live s)"
  by (simp_all add: live_add_hop [OF assms] update_newest_ids)

lemma fresh_by_ids:
  "handles_fresh s \<longleftrightarrow> sorted_wrt (<) (map unat (map chain_id (live s))) \<and>
     (\<forall>h \<in> set (map chain_id (live s)). unat h < unat (next_id s))"
  by (simp add: handles_fresh_def comp_def)

lemma apply_op_fresh:
  assumes "store_ok s" and "handles_fresh s" and "unat (next_id s) + opens [x] < 2 ^ 32"
  shows "handles_fresh (apply_op st x s)"
    and "unat (next_id (apply_op st x s)) = unat (next_id s) + opens [x]"
proof -
  show "unat (next_id (apply_op st x s)) = unat (next_id s) + opens [x]"
    using assms(3) by (cases x) (simp_all add: unat_next_id_open)
  show "handles_fresh (apply_op st x s)"
  proof (cases x)
    case (Open t loc)
    then show ?thesis
      using assms live_open [OF assms(1), of st t loc] unat_next_id_open [of s st t loc]
      by (auto simp: handles_fresh_def sorted_wrt_append less_Suc_eq)
  next
    case (Hop h loc)
    then show ?thesis
      using assms(2) by (simp add: fresh_by_ids live_add_hop_ids [OF assms(1)] del: map_map)
  next
    case (Truncate m)
    have "sorted_wrt (<) (take (nat m) (map (\<lambda>c. unat (chain_id c)) (live s)))"
      using assms(2) by (simp add: handles_fresh_def sorted_wrt_take)
    then show ?thesis
      using assms(2) Truncate
      by (auto simp: handles_fresh_def live_truncate [OF assms(1)] take_map dest: in_set_takeD)
  qed
qed

lemma opens_Cons: "opens (x # xs) = opens [x] + opens xs"
  by (cases x) simp_all

lemma run_ops_fresh:
  "store_ok s \<Longrightarrow> handles_fresh s \<Longrightarrow> unat (next_id s) + opens xs < 2 ^ 32 \<Longrightarrow>
     handles_fresh (run_ops st xs s) \<and> unat (next_id (run_ops st xs s)) = unat (next_id s) + opens xs"
proof (induction xs arbitrary: s)
  case Nil
  then show ?case by simp
next
  case (Cons x xs)
  have b: "unat (next_id s) + opens [x] < 2 ^ 32"
    using Cons.prems(3) by (simp add: opens_Cons [of x xs])
  note step = apply_op_fresh [OF Cons.prems(1,2) b, of st]
  have "unat (next_id (apply_op st x s)) + opens xs < 2 ^ 32"
    using Cons.prems(3) step(2) by (simp add: opens_Cons [of x xs])
  from Cons.IH [OF apply_op_ok [OF Cons.prems(1)] step(1) this] step(2)
  show ?case by (simp add: opens_Cons [of x xs])
qed

lemma apply_op_retired:
  assumes "store_ok s" and "unat h < unat (next_id s)" and "unat (next_id s) + opens [x] < 2 ^ 32"
    and "\<forall>c \<in> set (live s). chain_id c \<noteq> h"
  shows "\<forall>c \<in> set (live (apply_op st x s)). chain_id c \<noteq> h"
proof (cases x)
  case (Open t loc)
  then show ?thesis
    using assms live_open [OF assms(1), of st t loc] by auto
next
  case (Hop h' loc)
  have "h \<notin> set (map chain_id (live s))" using assms(4) by auto
  then have "h \<notin> set (map chain_id (live (add_hop h' loc s)))"
    unfolding live_add_hop_ids(1) [OF assms(1)] .
  then show ?thesis using Hop by auto
next
  case (Truncate m)
  then show ?thesis
    using assms(4) by (auto simp: live_truncate [OF assms(1)] dest: in_set_takeD)
qed

text \<open>
  A handle whose record was dropped on overflow or released by a truncation never
  resolves again, whatever is opened, hopped or truncated afterwards, as long as the
  32-bit counter does not wrap in between: a stale handle reads no context rather than
  another failure's.
\<close>

theorem released_handle_never_resolves:
  assumes "store_ok s" and "unat h < unat (next_id s)" and "store_find h s = None"
    and "unat (next_id s) + opens xs < 2 ^ 32"
  shows "store_find h (run_ops st xs s) = None"
proof -
  have "\<forall>c \<in> set (live (run_ops st xs s)). chain_id c \<noteq> h"
    using assms(1,2,4) store_find_None_live [OF assms(1), THEN iffD1, OF assms(3)]
  proof (induction xs arbitrary: s)
    case Nil
    then show ?case by simp
  next
    case (Cons x xs)
    have b: "unat (next_id s) + opens [x] < 2 ^ 32"
      using Cons.prems(3) by (simp add: opens_Cons [of x xs])
    have n: "unat (next_id (apply_op st x s)) = unat (next_id s) + opens [x]"
      using b by (cases x) (simp_all add: unat_next_id_open)
    show ?case
      using Cons.IH [OF apply_op_ok [OF Cons.prems(1)] _ _
          apply_op_retired [OF Cons.prems(1,2) b Cons.prems(4), of st]] Cons.prems(2,3) n
      by (simp add: opens_Cons [of x xs])
  qed
  then show ?thesis
    using store_find_None_live [OF run_ops_ok [OF assms(1)]] by blast
qed

text \<open>Facts about the arena a concrete run starts from.\<close>

lemma blank_store_ok: "store_ok blank_store"
  by (simp add: store_ok_def blank_store_def initial_store_def blank_record_def record_ok_def)

lemma blank_store_fresh: "handles_fresh blank_store"
  by (simp add: handles_fresh_def live_def blank_store_def initial_store_def)

theorem released_handle_never_resolves_witness:
  "store_find 1 (run_ops False [Open \<lparr>trace_frames = [], trace_count = 0\<rparr> 8]
     (run_ops False [Open \<lparr>trace_frames = [], trace_count = 0\<rparr> 7, Truncate 0] blank_store)) = None"
proof -
  let ?t = "\<lparr>trace_frames = [], trace_count = 0\<rparr>"
  let ?s = "run_ops False [Open ?t 7, Truncate 0] blank_store"
  have ok: "store_ok ?s" by (rule run_ops_ok [OF blank_store_ok])
  have n: "next_id ?s = 2"
    by (simp add: store_open_def Let_def blank_store_def initial_store_def)
  have gone: "store_find 1 ?s = None"
    by (simp add: store_find_def store_truncate_def store_open_def Let_def blank_store_def
        initial_store_def max_inflight_def)
  show ?thesis
    by (rule released_handle_never_resolves [OF ok _ gone]; (unfold n)?) simp_all
qed


lemma store_find_fresh:
  assumes "store_ok s" and "handles_fresh s" and "i < depth s" and "chain_id (live s ! i) = h"
  shows "store_find h s = Some i"
proof -
  have h: "rec_id (records s ! i) = h" "h \<noteq> 0"
    using assms by (auto simp: live_nth store_ok_def)
  have less: "\<And>a b. a < b \<Longrightarrow> b < depth s \<Longrightarrow> unat (rec_id (records s ! a)) < unat (rec_id (records s ! b))"
    using assms(1,2) by (auto simp: handles_fresh_def sorted_wrt_iff_nth_less live_nth)
  have "store_find h s \<noteq> None"
    using h assms(3) by (auto simp: store_find_def find_below_None_iff)
  then obtain j where j: "store_find h s = Some j" by blast
  then have "j < depth s" "rec_id (records s ! j) = h" by (auto dest: store_find_SomeD)
  with h(1) less [of i j] less [of j i] assms(3) have "j = i"
    by (metis less_irrefl linorder_neqE_nat)
  with j show ?thesis by simp
qed

text \<open>A live chain at a given position keeps its handle and origin while nothing truncates to it or below.\<close>

definition chain_at :: "nat \<Rightarrow> c_uint32 \<Rightarrow> 'loc \<Rightarrow> 'loc store \<Rightarrow> bool" where
  "chain_at d h loc s \<longleftrightarrow> d < depth s \<and> map chain_id (live s) ! d = h \<and> map chain_origin (live s) ! d = loc"

lemma chain_at_apply_op:
  assumes "store_ok s" and "chain_at d h loc s" and "\<And>m. x = Truncate m \<Longrightarrow> m < 0 \<or> int d < m"
  shows "chain_at d h loc (apply_op st x s)"
proof (cases x)
  case (Open t l)
  have "depth s \<le> depth (snd (store_open st t l s))" by (simp add: store_open_def Let_def)
  then show ?thesis
    using Open assms(1,2) live_open [OF assms(1), of st t l]
    by (auto simp: chain_at_def nth_append)
next
  case (Hop h' l)
  have "depth (add_hop h' l s) = depth s"
    by (simp add: add_hop_def Let_def split: option.split)
  then show ?thesis
    using Hop assms(2) by (simp add: chain_at_def live_add_hop_ids [OF assms(1)] del: nth_map)
next
  case (Truncate m)
  have "m < 0 \<or> int d < m" using assms(3) [OF Truncate] .
  then have "depth (store_truncate m s) > d" using assms(2)
    by (auto simp: store_truncate_def chain_at_def)
  then show ?thesis
    using Truncate assms(1,2) \<open>m < 0 \<or> int d < m\<close> length_live [OF store_truncate_ok [OF assms(1)], of m]
    by (auto simp: chain_at_def live_truncate [OF assms(1)])
qed

lemma chain_at_run_ops:
  assumes "store_ok s" and "chain_at d h loc s" and "\<And>m. Truncate m \<in> set xs \<Longrightarrow> m < 0 \<or> int d < m"
  shows "chain_at d h loc (run_ops st xs s)"
  using assms
proof (induction xs arbitrary: s)
  case Nil
  then show ?case by simp
next
  case (Cons x xs)
  have "chain_at d h loc (apply_op st x s)"
    using Cons.prems by (intro chain_at_apply_op) auto
  then show ?case
    using Cons.IH [OF apply_op_ok [OF Cons.prems(1)]] Cons.prems(3) by simp
qed

lemma handle_resolves_after_ops:
  assumes "store_ok s" and "handles_fresh s" and "depth s < max_inflight"
    and "unat (next_id s) + Suc (opens xs) < 2 ^ 32"
    and "store_open st t loc s = (h, s1)"
    and "\<And>m. Truncate m \<in> set xs \<Longrightarrow> m < 0 \<or> int (depth s) < m"
  shows "store_find h (run_ops st xs s1) = Some (depth s) \<and>
         origin (records (run_ops st xs s1) ! depth s) = loc"
proof -
  let ?e = "run_ops st xs s1"
  have s1: "s1 = apply_op st (Open t loc) s" and h: "h = next_id s"
    using assms(5) by (simp, simp add: store_open_def Let_def split: if_splits)
  have ok1: "store_ok s1" using apply_op_ok [OF assms(1)] s1 by metis
  have fresh1: "handles_fresh s1" "unat (next_id s1) = Suc (unat (next_id s))"
    using apply_op_fresh [OF assms(1,2), of "Open t loc" st] assms(4) s1 by simp_all
  have "chain_at (depth s) h loc s1"
    using live_open [OF assms(1), of st t loc] assms(1,3) length_live [OF ok1] s1 h
    by (simp add: chain_at_def nth_append)
  then have at: "chain_at (depth s) h loc ?e"
    by (rule chain_at_run_ops [OF ok1 _ assms(6)])
  have ok: "store_ok ?e" by (rule run_ops_ok [OF ok1])
  have "handles_fresh ?e"
    using run_ops_fresh [OF ok1 fresh1(1), of xs st] fresh1(2) assms(4) by simp
  with ok at have "store_find h ?e = Some (depth s)"
    by (intro store_find_fresh) (auto simp: chain_at_def)
  moreover have "origin (records ?e ! depth s) = loc"
    using at ok by (auto simp: chain_at_def live_nth view_def)
  ultimately show ?thesis by blast
qed

lemma live_handle_opened:
  assumes "store_ok s" and "handles_fresh s" and "depth s < max_inflight"
    and "store_open st t loc s = (h, s1)" and "unat (next_id s) + 1 < 2 ^ 32"
  shows "\<exists>i. store_find h s1 = Some i \<and> origin (records s1 ! i) = loc"
  using handle_resolves_after_ops [OF assms(1-3) _ assms(4), of "[]"] assms(5) by simp

text \<open>
  C10. While the landing scope that owns it is alive, a captured failure resolves to its
  own record: after opening with room in the arena, and after any later opens, hops and
  truncations to marks taken since, the handle still finds a record whose origin is the
  failure's own, as long as the counter does not wrap.
\<close>

theorem live_handle_resolves_to_its_origin:
  assumes "store_ok s" and "handles_fresh s" and "depth s < max_inflight"
    and "unat (next_id s) + Suc (opens xs) < 2 ^ 32"
    and "store_open st t loc s = (h, s1)"
    and "\<And>m. Truncate m \<in> set xs \<Longrightarrow> m < 0 \<or> int (depth s) < m"
  shows "\<exists>i. store_find h (run_ops st xs s1) = Some i \<and>
             origin (records (run_ops st xs s1) ! i) = loc"
  using handle_resolves_after_ops [OF assms] by blast

theorem live_handle_resolves_to_its_origin_witness:
  "\<exists>i. store_find 1 (run_ops False [Hop 1 9, Open \<lparr>trace_frames = [], trace_count = 0\<rparr> 8, Truncate 1]
          (snd (store_open False \<lparr>trace_frames = [], trace_count = 0\<rparr> 7 blank_store))) = Some i \<and>
       origin (records (run_ops False [Hop 1 9, Open \<lparr>trace_frames = [], trace_count = 0\<rparr> 8, Truncate 1]
          (snd (store_open False \<lparr>trace_frames = [], trace_count = 0\<rparr> 7 blank_store))) ! i) = 7"
proof -
  let ?t = "\<lparr>trace_frames = [], trace_count = 0\<rparr>"
  have o: "store_open False ?t 7 blank_store = (1, snd (store_open False ?t 7 blank_store))"
    by (simp add: store_open_def Let_def blank_store_def initial_store_def max_inflight_def)
  show ?thesis
    by (rule live_handle_resolves_to_its_origin [OF blank_store_ok blank_store_fresh _ _ o])
       (auto simp: blank_store_def initial_store_def max_inflight_def)
qed

text \<open>
  C38. Handles are per-thread counters that every thread starts at 1, so a handle carried
  to another thread is not told apart from that thread's own: whenever the two threads
  have issued the same number of handles before, a failure created on one resolves, on
  the other, to the other thread's unrelated record.  The documentation states that a
  \<open>rich_error\<close> moved to another thread resolves to no context.
\<close>

theorem handle_collides_across_threads:
  assumes "store_ok b" and "handles_fresh b" and "depth b < max_inflight"
    and "next_id a = next_id b" and "unat (next_id b) + 1 < 2 ^ 32"
    and "store_open st t loc_a a = (h, a')" and "store_open st t loc_b b = (h_b, b')"
  shows "\<exists>i. store_find h b' = Some i \<and> origin (records b' ! i) = loc_b"
proof -
  have "h = h_b"
    using assms(4,6,7) by (auto simp: store_open_def Let_def split: if_splits)
  then show ?thesis
    using live_handle_opened [OF assms(1-3) assms(7,5)] by simp
qed

theorem handle_collides_across_threads_witness:
  "\<exists>i. store_find (fst (store_open False \<lparr>trace_frames = [], trace_count = 0\<rparr> 7 blank_store))
          (snd (store_open False \<lparr>trace_frames = [], trace_count = 0\<rparr> 9 blank_store)) = Some i \<and>
       origin (records (snd (store_open False \<lparr>trace_frames = [], trace_count = 0\<rparr> 9 blank_store)) ! i) = 9"
  by (rule handle_collides_across_threads [OF blank_store_ok blank_store_fresh _ refl _
        surjective_pairing surjective_pairing])
     (simp_all add: blank_store_def initial_store_def max_inflight_def)

end
