(* ===== verification/Rich_Error.thy ===== *)
theory Rich_Error
  imports Propagation Diag_Store
begin

text \<open>
  The rich error policy and its debug-only diagnostic layer (\<open>diagnostics.hpp\<close>).

  The state of a thread is its arena (\<open>diagnostic::detail::tls()\<close>), threaded through every
  operation that reaches it.  In debug a \<open>rich_error\<close> carries a handle into the arena; in
  release it is exactly the minimal error, so the release representation is a record of
  its own with the same two fields and the release operations touch no state.  The source
  location a constructor or a hop captures through its defaulted argument is an explicit
  argument here.
\<close>

record source_location =
  file_name :: string
  loc_line :: c_uint32
  function_name :: string


text \<open>The value-initialised location of a context that is not available.\<close>

definition no_location :: source_location where
  "no_location = \<lparr>file_name = [], loc_line = 0, function_name = []\<rparr>"


subsection \<open>The error\<close>

record rich_error =
  rich_code :: c_int
  rich_domain :: c_int
  rich_origin :: c_uint32

record rich_release =
  rel_code :: c_int
  rel_domain :: c_int

definition rich_default :: rich_error where
  "rich_default = \<lparr>rich_code = 0, rich_domain = 0, rich_origin = 0\<rparr>"

text \<open>
  The capturing constructors; \<open>st\<close> is \<open>JMPXX_STACKTRACE\<close> and \<open>t\<close> the trace
  \<open>platform::capture\<close> takes inside \<open>open\<close>.
\<close>

definition mk_rich :: "bool \<Rightarrow> trace \<Rightarrow> 'loc \<Rightarrow> c_int \<Rightarrow> c_int \<Rightarrow> 'loc store \<Rightarrow> rich_error \<times> 'loc store" where
  "mk_rich st t loc c d s =
     (let (h, s) = store_open st t loc s
      in (\<lparr>rich_code = c, rich_domain = d, rich_origin = h\<rparr>, s))"

definition rich_of_error :: "bool \<Rightarrow> trace \<Rightarrow> 'loc \<Rightarrow> error \<Rightarrow> 'loc store \<Rightarrow> rich_error \<times> 'loc store" where
  "rich_of_error st t loc e s =
     (let (h, s) = store_open st t loc s
      in (\<lparr>rich_code = err_code e, rich_domain = err_domain e, rich_origin = h\<rparr>, s))"

definition rich_handle :: "rich_error \<Rightarrow> c_uint32" where
  "rich_handle e = rich_origin e"

definition mk_rich_release :: "c_int \<Rightarrow> c_int \<Rightarrow> rich_release" where
  "mk_rich_release c d = \<lparr>rel_code = c, rel_domain = d\<rparr>"

definition rich_release_of_error :: "error \<Rightarrow> rich_release" where
  "rich_release_of_error e = \<lparr>rel_code = err_code e, rel_domain = err_domain e\<rparr>"

definition rich_base :: "rich_error \<Rightarrow> error" where
  "rich_base e = mk_error (rich_code e) (rich_domain e)"

definition rich_release_base :: "rich_release \<Rightarrow> error" where
  "rich_release_base e = mk_error (rel_code e) (rel_domain e)"

definition rich_eq :: "rich_error \<Rightarrow> rich_error \<Rightarrow> bool" where
  "rich_eq a b \<longleftrightarrow> rich_code a = rich_code b \<and> rich_domain a = rich_domain b"


subsection \<open>The landing scope and the hook\<close>

definition landing_ctor :: "'loc store \<Rightarrow> int \<times> 'loc store" where
  "landing_ctor s = (store_mark s, s)"

definition landing_dtor :: "int \<Rightarrow> 'loc store \<Rightarrow> 'loc store" where
  "landing_dtor m s = store_truncate m s"

definition with_landing :: "('loc store, 'a) computation \<Rightarrow> ('loc store, 'a) computation" where
  "with_landing body = with_scope landing_ctor landing_dtor body"

definition note_propagation_rich :: "rich_error \<Rightarrow> 'loc \<Rightarrow> 'loc store \<Rightarrow> 'loc store" where
  "note_propagation_rich e loc s = add_hop (rich_handle e) loc s"


subsection \<open>Inspection\<close>

text \<open>\<open>hops\<close> is a borrowed pointer to the record's array; \<^const>\<open>None\<close> is the null pointer.\<close>

record 'loc ctx =
  available :: bool
  ctx_origin :: 'loc
  ctx_hops :: "'loc list option"
  ctx_hop_count :: nat
  ctx_hops_truncated :: bool
  ctx_trace :: trace
  trace_captured :: bool

definition empty_trace :: trace where
  "empty_trace = \<lparr>trace_frames = replicate trace_max_frames 0, trace_count = 0\<rparr>"

text \<open>\<open>loc0\<close> is the value-initialised location of \<open>context c{}\<close>.\<close>

definition inspect :: "bool \<Rightarrow> 'loc \<Rightarrow> rich_error \<Rightarrow> 'loc store \<Rightarrow> 'loc ctx" where
  "inspect st loc0 e s =
     (case store_find (rich_handle e) s of
        None \<Rightarrow> \<lparr>available = False, ctx_origin = loc0, ctx_hops = None, ctx_hop_count = 0,
                 ctx_hops_truncated = False, ctx_trace = empty_trace, trace_captured = False\<rparr>
      | Some i \<Rightarrow>
          (let r = records s ! i in
           \<lparr>available = True, ctx_origin = origin r, ctx_hops = Some (hops r),
            ctx_hop_count = unat (hop_count r), ctx_hops_truncated = hops_truncated r,
            ctx_trace = (if st then rec_trace r else empty_trace),
            trace_captured = (if st then \<not> trace_empty (rec_trace r) else False)\<rparr>))"

definition chain_length :: "rich_error \<Rightarrow> 'loc store \<Rightarrow> nat" where
  "chain_length e s =
     (case store_find (rich_handle e) s of None \<Rightarrow> 0 | Some i \<Rightarrow> unat (hop_count (records s ! i)))"

definition show_location :: "source_location \<Rightarrow> string" where
  "show_location l = file_name l @ '':'' @ show_nat (unat (loc_line l)) @ ''  '' @ function_name l @ ''\<newline>''"

text \<open>
  \<open>print\<close>: the text written to the stream.  The hop loop reads \<open>hops[i]\<close>; a read outside
  the array is kept as its own outcome.
\<close>

fun print_hops :: "source_location list \<Rightarrow> nat \<Rightarrow> nat \<Rightarrow> string outcome" where
  "print_hops hs i 0 = Returns ''''"
| "print_hops hs i (Suc n) =
     (if i < length hs then
        map_outcome_value (\<lambda>rest. ''  via:    '' @ show_location (hs ! i) @ rest) (print_hops hs (Suc i) n)
      else Undefined)"

definition print_rich :: "bool \<Rightarrow> bool \<Rightarrow> source_location \<Rightarrow> rich_error \<Rightarrow> source_location store \<Rightarrow> string outcome" where
  "print_rich diag st loc0 e s =
     (if \<not> diag then Returns ''''
      else
        (let c = inspect st loc0 e s in
         if \<not> available c then
           Returns (''  (no diagnostic context: code='' @ show_int (sint (rich_code e)) @
             '' domain='' @ show_int (sint (rich_domain e)) @ '')\<newline>'')
         else
           map_outcome_value
             (\<lambda>via. ''  origin: '' @ show_location (ctx_origin c) @ via @
                (if ctx_hops_truncated c then ''  ... (chain truncated)\<newline>'' else '''') @
                (if trace_captured c then
                   ''  trace:  '' @ show_int (int (trace_count (ctx_trace c))) @ '' raw frame'' @
                   (if trace_count (ctx_trace c) = 1 then '''' else ''s'') @ ''\<newline>''
                 else ''''))
             (case ctx_hops c of None \<Rightarrow> Undefined | Some hs \<Rightarrow> print_hops hs 0 (ctx_hop_count c))))"

lemmas [policy_simps] = mk_rich_def rich_of_error_def rich_handle_def mk_rich_release_def
  rich_release_of_error_def rich_base_def rich_release_base_def rich_eq_def note_propagation_rich_def


subsection \<open>A landing owns what is opened in it\<close>

definition names :: "'loc store \<Rightarrow> (c_uint32 \<times> 'loc) list" where
  "names s = map (\<lambda>c. (chain_id c, chain_origin c)) (live s)"

lemma names_zip: "names s = zip (map chain_id (live s)) (map chain_origin (live s))"
  by (simp add: names_def zip_map_map zip_same_conv_map)

lemma names_add_hop: "store_ok s \<Longrightarrow> names (add_hop h loc s) = names s"
  by (simp add: names_zip live_add_hop_ids)

lemma names_open: "store_ok s \<Longrightarrow> prefix (names s) (names (snd (store_open st t loc s)))"
  by (simp add: names_def live_open)

lemma length_names: "store_ok s \<Longrightarrow> length (names s) = depth s"
  by (simp add: names_def)

lemma landing_restores_names:
  assumes "store_ok s" and "landing_ctor s = (m, s1)" and "store_ok s2" and "prefix (names s1) (names s2)"
  shows "store_ok (landing_dtor m s2) \<and> names (landing_dtor m s2) = names s"
proof -
  have m: "m = int (depth s)" "s1 = s" using assms(2) by (auto simp: landing_ctor_def store_mark_def)
  have "names (landing_dtor m s2) = take (depth s) (names s2)"
    using live_truncate [OF assms(3), of m] m by (simp add: names_def landing_dtor_def take_map)
  also have "\<dots> = names s"
    using assms(4) m length_names [OF assms(1)] by (auto simp: prefix_def)
  finally show ?thesis by (simp add: landing_dtor_def store_truncate_ok [OF assms(3)])
qed

interpretation landing: scoped_resource store_ok names landing_ctor landing_dtor
proof (unfold_locales, goal_cases)
  case (1 s m s1)
  then show ?case by (simp add: landing_ctor_def)
next
  case (2 s m s1 s2)
  then show ?case by (rule landing_restores_names)
qed

lemma grows_mk_rich:
  assumes "\<And>e. landing.grows (k e)"
  shows "landing.grows (\<lambda>s. let (e, s) = mk_rich st t loc c d s in k e s)"
  unfolding landing.grows_def
proof (intro allI impI)
  fix s :: "'a store" assume s: "store_ok s"
  obtain h s1 where o: "store_open st t loc s = (h, s1)" by (cases "store_open st t loc s")
  have "store_ok s1" "prefix (names s) (names s1)"
    using store_open_ok [OF s, of st t loc] names_open [OF s, of st t loc] o by simp_all
  then show "store_ok (snd (let (e, s) = mk_rich st t loc c d s in k e s)) \<and>
      prefix (names s) (names (snd (let (e, s) = mk_rich st t loc c d s in k e s)))"
    using landing.growsD [OF assms, of s1] by (auto simp: mk_rich_def o intro: prefix_order.trans)
qed

lemma grows_rich_try:
  fixes st :: "('loc store, 'v, rich_error, 'loc) site"
  assumes "plain_site st" and "landing.grows expr" and "\<And>v. landing.grows (rest v)"
    and "\<And>s r s'. store_ok s \<Longrightarrow> expr s = (Returns r, s') \<Longrightarrow> well_formed r"
    and "hook st = note_propagation_rich"
  shows "landing.grows (jmpxx_try st loc conv expr rest)"
  by (rule landing.grows_try [OF assms(1-4)])
     (simp_all add: assms(5) note_propagation_rich_def add_hop_ok names_add_hop)

lemma names_fresh_unresolved:
  assumes "store_ok s'" and "names s' = names s" and "handles_fresh s" and "unat (next_id s) \<le> unat h"
  shows "store_find h s' = None"
proof -
  have "map fst (names s') = map fst (names s)" using assms(2) by simp
  then have "map chain_id (live s') = map chain_id (live s)" by (simp add: names_def comp_def)
  then have "h \<notin> set (map chain_id (live s'))"
    using assms(3,4) by (auto simp: handles_fresh_def)
  then show ?thesis using store_find_None_live [OF assms(1), of h] by auto
qed

text \<open>
  C11. A landing scope releases exactly the context of the failures created under it: for
  any body that only adds to the arena (creates rich errors, propagates them, runs nested
  landing scopes), the handles and origins that resolve after the scope are those that
  resolved before it, and every handle issued inside resolves to nothing afterwards.
\<close>

theorem landing_releases_exactly_its_own:
  assumes "store_ok s" and "handles_fresh s" and "landing.grows body"
    and "with_landing body s = (Returns x, s')"
    and "unat (next_id s) \<le> unat h"
  shows "store_ok s' \<and> names s' = names s \<and> store_find h s' = None"
proof -
  have "store_ok s' \<and> names s' = names s"
    using assms(4) by (intro landing.scope_restores [OF assms(3,1), of "Returns x"]) (simp_all add: with_landing_def)
  then show ?thesis
    using names_fresh_unresolved [OF _ _ assms(2,5)] by blast
qed

theorem landing_releases_exactly_its_own_witness:
  "names (snd (with_landing (\<lambda>s. let (e, s) = mk_rich False empty_trace 7 42 0 s
       in (Returns e, note_propagation_rich e 8 s)) blank_store)) = [] \<and>
   store_find 1 (snd (with_landing (\<lambda>s. let (e, s) = mk_rich False empty_trace 7 42 0 s
       in (Returns e, note_propagation_rich e 8 s)) blank_store)) = None"
proof -
  let ?k = "\<lambda>e s. (Returns e, note_propagation_rich e 8 s) :: rich_error outcome \<times> nat store"
  let ?b = "\<lambda>s. let (e, s) = mk_rich False empty_trace (7::nat) 42 0 s in ?k e s"
  have k: "landing.grows (?k e)" for e
    by (simp add: landing.grows_def note_propagation_rich_def add_hop_ok names_add_hop)
  have b: "landing.grows ?b" by (rule grows_mk_rich) (rule k)
  obtain h s1 where "store_open False empty_trace 7 blank_store = (h, s1)"
    by (cases "store_open False empty_trace 7 blank_store")
  then obtain x s' where r: "with_landing ?b blank_store = (Returns x, s')"
    by (simp add: with_landing_def with_scope_def landing_ctor_def mk_rich_def)
  have "names blank_store = []" by (simp add: names_def live_def blank_store_def initial_store_def)
  then show ?thesis
    using landing_releases_exactly_its_own [OF blank_store_ok blank_store_fresh b r, of 1] r
    by (simp add: blank_store_def initial_store_def)
qed


subsection \<open>The captured context is the causal chain\<close>

lemma update_newest_snoc: "chain_id c = h \<Longrightarrow> update_newest h f (cs @ [c]) = cs @ [f c]"
  by (induction cs) auto

fun propagate_rich :: "rich_error \<Rightarrow> 'loc list \<Rightarrow> 'loc store \<Rightarrow> 'loc store" where
  "propagate_rich e [] s = s"
| "propagate_rich e (loc # locs) s = propagate_rich e locs (note_propagation_rich e loc s)"

lemma propagate_rich_ok: "store_ok s \<Longrightarrow> store_ok (propagate_rich e locs s)"
  by (induction locs arbitrary: s) (simp_all add: note_propagation_rich_def add_hop_ok)

lemma propagate_rich_live:
  assumes "store_ok s" and "live s = cs @ [c]" and "chain_id c = rich_handle e" and "rich_handle e \<noteq> 0"
  shows "live (propagate_rich e locs s) = cs @ [fold extend_chain locs c]"
  using assms
proof (induction locs arbitrary: s c)
  case Nil
  then show ?case by simp
next
  case (Cons l locs)
  have "live (add_hop (rich_handle e) l s) = cs @ [extend_chain l c]"
    using Cons.prems by (simp add: live_add_hop update_newest_snoc)
  then show ?case
    using Cons.IH [of "add_hop (rich_handle e) l s" "extend_chain l c"] Cons.prems
    by (simp add: note_propagation_rich_def add_hop_ok)
qed

lemma fold_extend_chain:
  assumes "length (chain_hops c) \<le> max_chain" and "\<not> chain_truncated c"
  shows "chain_hops (fold extend_chain locs c) = take max_chain (chain_hops c @ locs)"
    and "chain_truncated (fold extend_chain locs c) \<longleftrightarrow> length (chain_hops c) + length locs > max_chain"
    and "chain_origin (fold extend_chain locs c) = chain_origin c"
    and "chain_id (fold extend_chain locs c) = chain_id c"
  using assms
  by (induction locs rule: rev_induct) (auto simp: extend_chain_def)

lemma store_find_newest:
  assumes "store_ok s" and "live s = cs @ [c]" and "chain_id c = h" and "h \<noteq> 0"
  shows "store_find h s = Some (length cs) \<and> view (records s ! length cs) = c \<and> length cs < depth s"
proof -
  have d: "depth s = Suc (length cs)" using length_live [OF assms(1)] assms(2) by simp
  have "view (records s ! length cs) = c"
    using live_nth [OF assms(1), of "length cs"] assms(2) d by simp
  then show ?thesis using assms(3,4) d by (auto simp: store_find_def)
qed

lemma print_hops_eq:
  "i + n \<le> length hs \<Longrightarrow>
   print_hops hs i n = Returns (concat (map (\<lambda>l. ''  via:    '' @ show_location l) (take n (drop i hs))))"
proof (induction n arbitrary: i)
  case 0
  then show ?case by simp
next
  case (Suc n)
  then show ?case
    by (simp add: Cons_nth_drop_Suc [symmetric])
qed

lemma inspect_newest:
  assumes "store_ok s" and "live s = cs @ [c]" and "chain_id c = rich_handle e" and "rich_handle e \<noteq> 0"
  shows "\<exists>hs. inspect st loc0 e s = \<lparr>available = True, ctx_origin = chain_origin c, ctx_hops = Some hs,
           ctx_hop_count = length (chain_hops c), ctx_hops_truncated = chain_truncated c,
           ctx_trace = (if st then rec_trace (records s ! length cs) else empty_trace),
           trace_captured = (st \<and> \<not> trace_empty (rec_trace (records s ! length cs)))\<rparr> \<and>
         length hs = max_chain \<and> take (length (chain_hops c)) hs = chain_hops c \<and>
         length (chain_hops c) \<le> max_chain \<and> chain_length e s = length (chain_hops c)"
proof -
  let ?r = "records s ! length cs"
  have f: "store_find (rich_handle e) s = Some (length cs)" "view ?r = c" "length cs < depth s"
    using store_find_newest [OF assms] by simp_all
  have r: "length (hops ?r) = max_chain" "unat (hop_count ?r) \<le> max_chain"
    using assms(1) f(3) by (auto simp: store_ok_def record_ok_def)
  have c: "chain_origin c = origin ?r" "chain_hops c = take (unat (hop_count ?r)) (hops ?r)"
    "chain_truncated c = hops_truncated ?r"
    using f(2) by (auto simp: view_def)
  show ?thesis
    using f(1) r by (auto simp: inspect_def chain_length_def Let_def c)
qed

lemma mk_rich_chain:
  assumes "store_ok s" and "depth s < max_inflight" and "mk_rich st t loc c d s = (e, s1)"
    and "propagate_rich e locs s1 = s2"
  obtains hs where "rich_code e = c" "rich_domain e = d" "rich_handle e = next_id s" "store_ok s2"
    "names s2 = names s @ [(next_id s, loc)]"
    "inspect st loc0 e s2 = \<lparr>available = True, ctx_origin = loc, ctx_hops = Some hs,
      ctx_hop_count = min (length locs) max_chain, ctx_hops_truncated = (max_chain < length locs),
      ctx_trace = (if st then rec_trace (records s2 ! depth s) else empty_trace),
      trace_captured = (st \<and> \<not> trace_empty (rec_trace (records s2 ! depth s)))\<rparr>"
    "length hs = max_chain" "take (min (length locs) max_chain) hs = take max_chain locs"
    "chain_length e s2 = min (length locs) max_chain"
proof -
  let ?c = "\<lparr>chain_id = rich_handle e, chain_origin = loc, chain_hops = [], chain_truncated = False\<rparr>"
  have e: "rich_code e = c" "rich_domain e = d" "rich_handle e = next_id s" "s1 = snd (store_open st t loc s)"
    using assms(3) by (auto simp: policy_simps store_open_def Let_def split: prod.splits if_splits)
  have ok1: "store_ok s1" using store_open_ok [OF assms(1)] e(4) by metis
  have h: "rich_handle e \<noteq> 0" using assms(1) e(3) by (simp add: store_ok_def)
  have l1: "live s1 = live s @ [?c]"
    using live_open [OF assms(1), of st t loc] assms(1,2) e(3,4) by simp
  have l2: "live s2 = live s @ [fold extend_chain locs ?c]"
    using propagate_rich_live [OF ok1 l1 _ h, of locs] assms(4) by simp
  have ok2: "store_ok s2" using propagate_rich_ok [OF ok1] assms(4) by metis
  note fec = fold_extend_chain [of ?c locs, simplified]
  have "names s2 = names s @ [(next_id s, loc)]" using l2 e(3) fec by (simp add: names_def)
  then show ?thesis
    using inspect_newest [OF ok2 l2, of e st loc0] h fec e ok2 assms(1) that by auto
qed

text \<open>
  C12. In a debug build a captured failure's context is its causal chain: a rich error
  created with room in the arena and then propagated through the sites \<open>locs\<close> resolves
  to its own creation site, to the first sixteen of those sites in the order the failure
  passed them, and to a truncation mark exactly when there were more; \<open>chain_length\<close> counts
  them.  The in-band code and domain are the ones given.
\<close>

theorem rich_context_is_causal_chain:
  assumes "store_ok s" and "depth s < max_inflight" and "mk_rich st t loc c d s = (e, s1)"
    and "propagate_rich e locs s1 = s2"
  shows "rich_code e = c \<and> rich_domain e = d \<and>
         available (inspect st loc0 e s2) \<and> ctx_origin (inspect st loc0 e s2) = loc \<and>
         map_option (take (ctx_hop_count (inspect st loc0 e s2))) (ctx_hops (inspect st loc0 e s2)) =
           Some (take max_chain locs) \<and>
         (ctx_hops_truncated (inspect st loc0 e s2) \<longleftrightarrow> length locs > max_chain) \<and>
         chain_length e s2 = min max_chain (length locs)"
  by (rule mk_rich_chain [OF assms, of loc0]) (simp add: min.commute)

theorem rich_context_is_causal_chain_witness:
  "chain_length (fst (mk_rich False empty_trace 7 42 0 blank_store))
     (propagate_rich (fst (mk_rich False empty_trace 7 42 0 blank_store)) [1..<21]
        (snd (mk_rich False empty_trace 7 42 0 blank_store))) = 16"
proof -
  have room: "depth blank_store < max_inflight"
    by (simp add: blank_store_def initial_store_def max_inflight_def)
  show ?thesis
    using rich_context_is_causal_chain [OF blank_store_ok room surjective_pairing refl,
        where st = False and t = empty_trace and loc = 7 and c = 42 and d = 0 and locs = "[1..<21]"]
    by (simp add: max_chain_def)
qed

text \<open>
  \<open>print\<close> never reads outside a record's hop array.  In release it writes nothing; in
  debug it writes, for a failure captured with room in the arena and propagated through
  \<open>locs\<close>, the origin line, one line per recorded hop in order and the truncation line when
  hops were dropped, and once the landing scope around the failure has ended, the one line
  that carries its code and domain.
\<close>

theorem print_writes_the_chain:
  assumes "store_ok s" and "handles_fresh s" and "depth s < max_inflight"
    and "mk_rich False t loc c d s = (e, s1)" and "propagate_rich e locs s1 = s2"
  shows "print_rich True False loc0 e s2 =
           Returns (''  origin: '' @ show_location loc @
             concat (map (\<lambda>l. ''  via:    '' @ show_location l) (take max_chain locs)) @
             (if length locs > max_chain then ''  ... (chain truncated)\<newline>'' else '''')) \<and>
         print_rich False st' loc0 e s2 = Returns '''' \<and>
         print_rich True False loc0 e (landing_dtor (store_mark s) s2) =
           Returns (''  (no diagnostic context: code='' @ show_int (sint c) @
             '' domain='' @ show_int (sint d) @ '')\<newline>'')"
proof -
  obtain hs where m: "rich_code e = c" "rich_domain e = d" "rich_handle e = next_id s" "store_ok s2"
    "names s2 = names s @ [(next_id s, loc)]" "length hs = max_chain"
    "take (min (length locs) max_chain) hs = take max_chain locs"
    and i: "inspect False loc0 e s2 = \<lparr>available = True, ctx_origin = loc, ctx_hops = Some hs,
      ctx_hop_count = min (length locs) max_chain, ctx_hops_truncated = (max_chain < length locs),
      ctx_trace = empty_trace, trace_captured = False\<rparr>"
    using mk_rich_chain [OF assms(1,3,4,5), of loc0] by auto
  have r: "names (landing_dtor (store_mark s) s2) = names s" "store_ok (landing_dtor (store_mark s) s2)"
    using landing_restores_names [OF assms(1) landing_ctor_def m(4)] m(5) by simp_all
  then have "store_find (rich_handle e) (landing_dtor (store_mark s) s2) = None"
    using names_fresh_unresolved [OF r(2,1) assms(2)] m(3) by simp
  moreover have "print_hops hs 0 (min (length locs) max_chain) =
      Returns (concat (map (\<lambda>l. ''  via:    '' @ show_location l) (take max_chain locs)))"
    using m(6,7) print_hops_eq [of 0 "min (length locs) max_chain" hs] by simp
  ultimately show ?thesis
    using m(1,2) by (simp add: print_rich_def i) (simp add: inspect_def)
qed

definition here :: "nat \<Rightarrow> source_location" where
  "here n = \<lparr>file_name = ''a.cpp'', loc_line = of_nat n, function_name = ''f''\<rparr>"

definition blank_location_store :: "source_location store" where
  "blank_location_store = initial_store (replicate max_inflight
     \<lparr>rec_id = 0, origin = here 0, hops = replicate max_chain (here 0), hop_count = 0,
      hops_truncated = False, rec_trace = empty_trace\<rparr>)"

theorem print_writes_the_chain_witness:
  "print_rich True False (here 0) (fst (mk_rich False empty_trace (here 7) 42 0 blank_location_store))
     (propagate_rich (fst (mk_rich False empty_trace (here 7) 42 0 blank_location_store)) [here 9]
        (snd (mk_rich False empty_trace (here 7) 42 0 blank_location_store))) =
   Returns (''  origin: a.cpp:7  f\<newline>  via:    a.cpp:9  f\<newline>'')"
proof -
  have ok: "store_ok blank_location_store" "handles_fresh blank_location_store"
    "depth blank_location_store < max_inflight"
    by (simp_all add: store_ok_def blank_location_store_def initial_store_def record_ok_def
        handles_fresh_def live_def max_inflight_def)
  have l: "show_location (here 7) = ''a.cpp:7  f\<newline>''" "show_location (here 9) = ''a.cpp:9  f\<newline>''"
    by (code_simp, code_simp)
  show ?thesis
    using print_writes_the_chain [OF ok surjective_pairing refl, where t = empty_trace and
        loc = "here 7" and c = 42 and d = 0 and locs = "[here 9]" and loc0 = "here 0"]
    by (simp add: max_chain_def l)
qed

end
