(* ===== verification/Erased_Error.thy ===== *)
theory Erased_Error
  imports Propagation
begin

text \<open>
  The type-erased boundary policy (\<open>erased.hpp\<close>).

  A domain descriptor is an object with static storage duration reached through its
  address, which is its identity.  The program's descriptors are a map from addresses to
  what their virtual methods return; the null pointer is address 0 and holds no object.
  The address of \<open>generic_domain_instance\<close> is the linker's choice and a parameter.
\<close>

unbundle bit_operations_syntax

record error_domain =
  dom_name :: string
  dom_message :: "c_int \<Rightarrow> string"

type_synonym domains = "addr \<rightharpoonup> error_domain"

definition fold_generic_error :: "c_int \<Rightarrow> c_int \<Rightarrow> c_int" where
  "fold_generic_error code domain_tag = code XOR push_bit 16 domain_tag"

definition generic_error_domain :: error_domain where
  "generic_error_domain = \<lparr>dom_name = ''jmpxx.generic'', dom_message = (\<lambda>_. ''unspecified error'')\<rparr>"

record erased_error =
  erased_val :: c_int
  erased_dom :: addr

definition erased_default :: "addr \<Rightarrow> erased_error" where
  "erased_default generic = \<lparr>erased_val = 0, erased_dom = generic\<rparr>"

definition erased_of_code :: "addr \<Rightarrow> c_int \<Rightarrow> c_int \<Rightarrow> erased_error" where
  "erased_of_code generic code domain_tag =
     \<lparr>erased_val = fold_generic_error code domain_tag, erased_dom = generic\<rparr>"

definition erased_of_value :: "c_int \<Rightarrow> addr \<Rightarrow> erased_error" where
  "erased_of_value v descr = \<lparr>erased_val = v, erased_dom = descr\<rparr>"

definition erased_of_error :: "error \<Rightarrow> addr \<Rightarrow> erased_error" where
  "erased_of_error e descr = \<lparr>erased_val = err_code e, erased_dom = descr\<rparr>"

definition checked_domain :: "int \<Rightarrow> erased_error \<Rightarrow> addr outcome" where
  "checked_domain mode e =
     (if hardening_extensive_enabled mode \<and> erased_dom e = 0
      then fail_fast ''jmpxx::erased_error: null error domain''
      else Returns (erased_dom e))"

definition erased_value :: "erased_error \<Rightarrow> c_int" where
  "erased_value e = erased_val e"

text \<open>Using the object behind a descriptor pointer; there must be one.\<close>

definition deref_domain :: "domains \<Rightarrow> addr \<Rightarrow> error_domain outcome" where
  "deref_domain ds p = (case ds p of None \<Rightarrow> Undefined | Some d \<Rightarrow> Returns d)"

definition erased_domain :: "int \<Rightarrow> domains \<Rightarrow> erased_error \<Rightarrow> addr outcome" where
  "erased_domain mode ds e =
     bind_outcome (checked_domain mode e) (\<lambda>p.
     bind_outcome (deref_domain ds p) (\<lambda>_. Returns p))"

definition in_domain :: "int \<Rightarrow> erased_error \<Rightarrow> addr \<Rightarrow> bool outcome" where
  "in_domain mode e descr = map_outcome_value (\<lambda>p. p = descr) (checked_domain mode e)"

definition erased_domain_name :: "int \<Rightarrow> domains \<Rightarrow> erased_error \<Rightarrow> string outcome" where
  "erased_domain_name mode ds e =
     bind_outcome (checked_domain mode e) (\<lambda>p. map_outcome_value dom_name (deref_domain ds p))"

definition erased_message :: "int \<Rightarrow> domains \<Rightarrow> erased_error \<Rightarrow> string outcome" where
  "erased_message mode ds e =
     bind_outcome (checked_domain mode e) (\<lambda>p.
       map_outcome_value (\<lambda>d. dom_message d (erased_val e)) (deref_domain ds p))"

definition erased_eq :: "erased_error \<Rightarrow> erased_error \<Rightarrow> bool" where
  "erased_eq a b \<longleftrightarrow> erased_dom a = erased_dom b \<and> erased_val a = erased_val b"

lemmas [policy_simps] = erased_of_code_def erased_of_value_def erased_of_error_def
  checked_domain_def erased_value_def deref_domain_def erased_domain_def in_domain_def
  erased_domain_name_def erased_message_def erased_eq_def fail_fast_def

lemma push_bit_16_low: "take_bit 16 (push_bit 16 (t :: c_int)) = 0"
  by (rule bit_eqI) (auto simp: bit_simps)

lemma low16_iff: "unat (c :: c_int) < 65536 \<longleftrightarrow> take_bit 16 c = c"
proof -
  have "unat (take_bit 16 c) = unat c mod 65536"
    by (simp add: unsigned_take_bit_eq) (simp add: take_bit_eq_mod)
  then show ?thesis by (auto simp: word_unat_eq_iff)
qed

lemma fold_low: "take_bit 16 (fold_generic_error c t) = take_bit 16 c"
  by (simp add: fold_generic_error_def take_bit_xor push_bit_16_low)

lemma fold_high: "drop_bit 16 (fold_generic_error c t) = drop_bit 16 c XOR take_bit 16 t"
  by (rule bit_eqI) (auto simp: fold_generic_error_def bit_simps)

text \<open>
  C35. The fold of a code and a domain tag into an erased value: for a code and a tag that
  each fit in sixteen bits it is lossless, the code is the low half and the tag the high
  half; in general two pairs collide exactly when their codes agree on the low half and
  the exclusive or of code high half and tag low half agree, for example \<open>(0, 1)\<close> and
  \<open>(65536, 0)\<close>, which both hold 65536.
\<close>

theorem generic_fold_round_trip:
  assumes "unat c < 2 ^ 16" and "unat t < 2 ^ 16"
  shows "take_bit 16 (erased_val (erased_of_code g c t)) = c \<and>
         drop_bit 16 (erased_val (erased_of_code g c t)) = t \<and>
         (fold_generic_error a x = fold_generic_error b y \<longleftrightarrow>
            take_bit 16 a = take_bit 16 b \<and>
            drop_bit 16 a XOR take_bit 16 x = drop_bit 16 b XOR take_bit 16 y) \<and>
         erased_eq (erased_of_code g 0 1) (erased_of_code g 65536 0) \<and>
         erased_val (erased_of_code g 0 1) = 65536"
proof -
  have d: "drop_bit 16 c = 0"
    using assms(1) by (simp add: low16_iff flip: take_bit_eq_self_iff_drop_bit_eq_0)
  have "fold_generic_error a x = fold_generic_error b y \<longleftrightarrow>
      take_bit 16 (fold_generic_error a x) = take_bit 16 (fold_generic_error b y) \<and>
      drop_bit 16 (fold_generic_error a x) = drop_bit 16 (fold_generic_error b y)"
    by (metis bits_ident)
  moreover have "fold_generic_error 0 1 = 65536" "fold_generic_error 65536 0 = 65536"
    by (simp_all add: fold_generic_error_def push_bit_eq_mult)
  ultimately show ?thesis
    using assms d by (simp add: policy_simps fold_low fold_high low16_iff)
qed

theorem generic_fold_round_trip_witness:
  "take_bit 16 (erased_val (erased_of_code 4096 42 7)) = 42 \<and>
   drop_bit 16 (erased_val (erased_of_code 4096 42 7)) = 7"
  using generic_fold_round_trip [of 42 7 4096 0 0 0 0] by simp

end
