(* ===== verification/Policy_Chains.thy ===== *)
theory Policy_Chains
  imports Rich_Error Erased_Error
begin

text \<open>
  One source, several error policies: the propagation chains of the verification harness
  (\<open>verify/main.cpp\<close>), and the interface through which call sites use an error policy.

  A policy is how \<open>E(code, domain)\<close> makes an error at a site and what the landing can
  observe of it.  The locale states what a policy promises; its client is any
  policy-neutral body, and its instances are the four shipped representations: the minimal
  error, the rich error in debug and in release, and the erased error.
\<close>

subsection \<open>Policy-neutral bodies\<close>

type_synonym ('s, 'e, 'loc) maker = "'loc \<Rightarrow> c_int \<Rightarrow> c_int \<Rightarrow> 's \<Rightarrow> 'e \<times> 's"

text \<open>
  What a function over \<open>result<int, E>\<close> that names no error type can do: return a value,
  fail with \<open>E(c, d)\<close>, propagate with \<open>JMPXX_TRY\<close> and go on with the value, or step into
  undefined behaviour of its own arithmetic.
\<close>

datatype 'loc body =
    Ret c_int
  | Raise 'loc c_int c_int
  | Try_Bind 'loc "'loc body" "c_int \<Rightarrow> 'loc body"
  | Wrong

primrec run_body ::
    "('s, 'e, 'loc) maker \<Rightarrow> ('s, c_int, 'e, 'loc) site \<Rightarrow> 'loc body \<Rightarrow> ('s, (c_int, 'e) result) computation" where
  "run_body mk st (Ret v) = return_value v"
| "run_body mk st (Raise loc c d) = (\<lambda>s. let (e, s) = mk loc c d s in return_fail id e s)"
| "run_body mk st (Try_Bind loc b k) =
     jmpxx_try st loc id (run_body mk st b) (\<lambda>v. run_body mk st (k v))"
| "run_body mk st Wrong = (\<lambda>s. (Undefined, s))"

text \<open>What such a body means, with no transport and no policy.\<close>

primrec ref_body :: "'loc body \<Rightarrow> ((c_int \<times> c_int) + c_int) outcome" where
  "ref_body (Ret v) = Returns (Inr v)"
| "ref_body (Raise loc c d) = Returns (Inl (c, d))"
| "ref_body (Try_Bind loc b k) =
     (case ref_body b of
        Returns (Inr v) \<Rightarrow> ref_body (k v)
      | Returns (Inl f) \<Rightarrow> Returns (Inl f)
      | Fail_Fast m \<Rightarrow> Fail_Fast m
      | Throws \<Rightarrow> Throws
      | Undefined \<Rightarrow> Undefined)"
| "ref_body Wrong = Undefined"

text \<open>What a landing sees of a returned result: the value, or what the policy shows of the error.\<close>

definition landed :: "('e \<Rightarrow> 'o) \<Rightarrow> ('v, 'e) result outcome \<Rightarrow> ('o + 'v) outcome" where
  "landed observe r = map_outcome_value (\<lambda>r. map_sum observe id (abs_result r)) r"

locale error_policy =
  fixes mk :: "('s, 'e, 'loc) maker"
    and note_hop :: "'e \<Rightarrow> 'loc \<Rightarrow> 's \<Rightarrow> 's"
    and observe :: "'e \<Rightarrow> 'o"
    and expected :: "c_int \<Rightarrow> c_int \<Rightarrow> 'o"
  assumes make_observed: "observe (fst (mk loc c d s)) = expected c d"
begin

lemma run_body_landed:
  assumes "plain_site st" and "hook st = note_hop"
  shows "\<exists>r s'. run_body mk st b s = (r, s') \<and> (\<forall>q. r = Returns q \<longrightarrow> well_formed q) \<and>
           landed observe r = map_outcome_value (map_sum (\<lambda>(c, d). expected c d) id) (ref_body b)"
proof (induction b arbitrary: s)
  case (Ret v)
  show ?case by (simp add: return_value_def landed_def)
next
  case (Raise loc c d)
  obtain e s1 where "mk loc c d s = (e, s1)" by (cases "mk loc c d s")
  then show ?case
    using make_observed [of loc c d s] by (simp add: return_fail_def landed_def fail_def)
next
  case (Try_Bind loc b k)
  obtain r s1 where b: "run_body mk st b s = (r, s1)" "\<forall>q. r = Returns q \<longrightarrow> well_formed q"
    "landed observe r = map_outcome_value (map_sum (\<lambda>(c, d). expected c d) id) (ref_body b)"
    using Try_Bind.IH(1) by blast
  show ?case
  proof (cases r)
    case (Returns q)
    then have "well_formed q" using b(2) by blast
    then show ?thesis
    proof (cases rule: well_formed_cases)
      case (val v)
      then have x: "run_body mk st b s = (Returns (result_of_value v), s1)"
        using b(1) Returns by (simp add: transport_simps)
      have "ref_body b = Returns (Inr v)"
        using b(3) Returns val
        by (cases "ref_body b") (auto simp: landed_def abs_result_def map_sum_def split: sum.splits)
      then show ?thesis
        using Try_Bind.IH(2) [of "k v" s1]
        by (simp add: jmpxx_try_value(1) [of st "run_body mk st b" s v s1, OF assms(1) x])
    next
      case (err e)
      then have x: "run_body mk st b s = (Returns (result_of_failure (\<lambda>x. x) (fail e)), s1)"
        using b(1) Returns by (simp add: transport_simps)
      have "\<exists>c d. ref_body b = Returns (Inl (c, d)) \<and> observe e = expected c d"
        using b(3) Returns err
        by (cases "ref_body b") (auto simp: landed_def abs_result_def map_sum_def split: sum.splits)
      then show ?thesis
        by (auto simp: jmpxx_try_failure(1) [of st "run_body mk st b" s "\<lambda>x. x" e s1, OF assms(1) x]
            landed_def fail_def)
    qed
  qed (use b in \<open>(cases "ref_body b"; simp add: jmpxx_try_def landed_def)+\<close>)
qed (simp add: landed_def)

lemma run_body_keeps_state:
  assumes "plain_site st" and "hook st = note_hop"
    and "\<And>loc c d s. snd (mk loc c d s) = s" and "\<And>e loc s. note_hop e loc s = s"
  shows "snd (run_body mk st b s) = s"
proof (induction b arbitrary: s)
  case (Raise loc c d)
  then show ?case
    using assms(3) [of loc c d s] by (cases "mk loc c d s") (simp add: return_fail_def)
next
  case (Try_Bind loc b k)
  obtain r where b: "run_body mk st b s = (r, s)" "\<forall>q. r = Returns q \<longrightarrow> well_formed q"
    using run_body_landed [OF assms(1,2), of b s] Try_Bind.IH(1) [of s] by (metis snd_conv)
  show ?case
  proof (cases r)
    case (Returns q)
    then have "well_formed q" using b(2) by blast
    then show ?thesis
    proof (cases rule: well_formed_cases)
      case (val v)
      then have x: "run_body mk st b s = (Returns (result_of_value v), s)"
        using b(1) Returns by (simp add: transport_simps)
      show ?thesis
        using Try_Bind.IH(2)
        by (simp add: jmpxx_try_value(1) [of st "run_body mk st b" s v s, OF assms(1) x])
    next
      case (err e)
      then have x: "run_body mk st b s = (Returns (result_of_failure (\<lambda>x. x) (fail e)), s)"
        using b(1) Returns by (simp add: transport_simps)
      show ?thesis
        by (simp add: jmpxx_try_failure(1) [of st "run_body mk st b" s "\<lambda>x. x" e s, OF assms(1) x]
            detail_hop_def assms(2,4))
    qed
  qed (use b in \<open>simp_all add: jmpxx_try_def\<close>)
qed (simp_all add: return_value_def)

end


subsection \<open>The shipped policies\<close>

definition make_minimal :: "('s, error, 'loc) maker" where
  "make_minimal loc c d s = (mk_error c d, s)"

definition make_rich :: "bool \<Rightarrow> trace \<Rightarrow> ('loc store, rich_error, 'loc) maker" where
  "make_rich st t loc c d s = mk_rich st t loc c d s"

definition make_rich_release :: "('s, rich_release, 'loc) maker" where
  "make_rich_release loc c d s = (mk_rich_release c d, s)"

definition make_erased :: "addr \<Rightarrow> ('s, erased_error, 'loc) maker" where
  "make_erased generic loc c d s = (erased_of_code generic c d, s)"

interpretation minimal: error_policy make_minimal note_propagation_default
    "\<lambda>e. (err_code e, err_domain e)" "\<lambda>c d. (c, d)"
  by unfold_locales (simp add: make_minimal_def mk_error_def)

interpretation rich: error_policy "make_rich st t" note_propagation_rich
    "\<lambda>e. (rich_code e, rich_domain e)" "\<lambda>c d. (c, d)"
  by unfold_locales (simp add: make_rich_def mk_rich_def split: prod.split)

interpretation release: error_policy make_rich_release note_propagation_default
    "\<lambda>e. (rel_code e, rel_domain e)" "\<lambda>c d. (c, d)"
  by unfold_locales (simp add: make_rich_release_def mk_rich_release_def)

interpretation erased: error_policy "make_erased g" note_propagation_default erased_value fold_generic_error
  by unfold_locales (simp add: make_erased_def policy_simps)

text \<open>
  C13. The error policy is not observable in band: for any policy-neutral body, in any
  hardening mode, with the diagnostic layer on or off, the minimal error, the rich error
  in debug and the rich error in release land the same value, or a failure with the same
  code and domain.  The erased error lands the same value too, or a failure that keeps only
  the number code and domain fold to, from which the two cannot be recovered in general.
  The minimal, release and erased policies leave the thread's state untouched.
\<close>

theorem policy_choice_is_unobservable:
  shows "landed (\<lambda>e. (err_code e, err_domain e))
           (fst (run_body make_minimal (shipped_site mode diag note_propagation_default) b s)) = ref_body b \<and>
         landed (\<lambda>e. (rich_code e, rich_domain e))
           (fst (run_body (make_rich st t) (shipped_site mode diag note_propagation_rich) b a)) = ref_body b \<and>
         landed (\<lambda>e. (rel_code e, rel_domain e))
           (fst (run_body make_rich_release (shipped_site mode diag note_propagation_default) b s)) = ref_body b \<and>
         landed erased_value
           (fst (run_body (make_erased g) (shipped_site mode diag note_propagation_default) b s)) =
           map_outcome_value (map_sum (\<lambda>(c, d). fold_generic_error c d) id) (ref_body b) \<and>
         snd (run_body make_minimal (shipped_site mode diag note_propagation_default) b s) = s \<and>
         snd (run_body make_rich_release (shipped_site mode diag note_propagation_default) b s) = s \<and>
         snd (run_body (make_erased g) (shipped_site mode diag note_propagation_default) b s) = s"
proof -
  have i: "map_outcome_value (map_sum id id) q = q" for q :: "((c_int \<times> c_int) + c_int) outcome"
    by (cases q) (simp_all add: sum.map_id0)
  note h = note_propagation_default_def
  let ?d = "shipped_site mode diag note_propagation_default"
  have "landed (\<lambda>e. (err_code e, err_domain e)) (fst (run_body make_minimal ?d b s)) = ref_body b"
    using minimal.run_body_landed [of ?d b s] by (auto simp: i)
  moreover have "landed (\<lambda>e. (rich_code e, rich_domain e))
      (fst (run_body (make_rich st t) (shipped_site mode diag note_propagation_rich) b a)) = ref_body b"
    using rich.run_body_landed [of "shipped_site mode diag note_propagation_rich" st t b a] by (auto simp: i)
  moreover have "landed (\<lambda>e. (rel_code e, rel_domain e)) (fst (run_body make_rich_release ?d b s)) = ref_body b"
    using release.run_body_landed [of ?d b s] by (auto simp: i)
  moreover have "landed erased_value (fst (run_body (make_erased g) ?d b s)) =
      map_outcome_value (map_sum (\<lambda>(c, d). fold_generic_error c d) id) (ref_body b)"
    using erased.run_body_landed [of ?d g b s] by auto
  moreover have "snd (run_body make_minimal ?d b s) = s"
    by (rule minimal.run_body_keeps_state) (simp_all add: h make_minimal_def)
  moreover have "snd (run_body make_rich_release ?d b s) = s"
    by (rule release.run_body_keeps_state) (simp_all add: h make_rich_release_def)
  moreover have "snd (run_body (make_erased g) ?d b s) = s"
    by (rule erased.run_body_keeps_state) (simp_all add: h make_erased_def)
  ultimately show ?thesis by blast
qed


subsection \<open>The harness chains\<close>

text \<open>
  \<open>leaf\<close>, \<open>w1\<close> to \<open>w6\<close> and \<open>chain8\<close>, and the same shape over each policy: a leaf that fails
  on a negative argument and doubles it otherwise, and wrappers that propagate and add
  one.  \<open>at n\<close> is the source location captured in the \<open>n\<close>th function, the leaf being 0.
\<close>

definition leaf_of ::
    "('s, 'e, 'loc) maker \<Rightarrow> 'loc \<Rightarrow> c_int \<Rightarrow> c_int \<Rightarrow> c_int \<Rightarrow> ('s, (c_int, 'e) result) computation" where
  "leaf_of mk loc c d x s =
     (if c_negative x then (let (e, s) = mk loc c d s in return_fail id e s)
      else (map_outcome_value result_of_value (c_mul x 2), s))"

fun wrappers ::
    "('s, c_int, 'e, 'loc) site \<Rightarrow> (nat \<Rightarrow> 'loc) \<Rightarrow> ('s, (c_int, 'e) result) computation \<Rightarrow> nat \<Rightarrow>
     ('s, (c_int, 'e) result) computation" where
  "wrappers st at expr 0 = expr"
| "wrappers st at expr (Suc n) =
     jmpxx_try st (at (Suc n)) id (wrappers st at expr n)
       (\<lambda>v s. (map_outcome_value result_of_value (c_add v 1), s))"

definition leaf :: "(nat \<Rightarrow> 'loc) \<Rightarrow> c_int \<Rightarrow> ('s, (c_int, error) result) computation" where
  "leaf at x = leaf_of make_minimal (at 0) 42 0 x"

definition chain8 ::
    "('s, c_int, error, 'loc) site \<Rightarrow> (nat \<Rightarrow> 'loc) \<Rightarrow> c_int \<Rightarrow> ('s, (c_int, error) result) computation" where
  "chain8 st at x = wrappers st at (leaf at x) 7"

definition pol_leaf ::
    "('s, 'e, 'loc) maker \<Rightarrow> (nat \<Rightarrow> 'loc) \<Rightarrow> c_int \<Rightarrow> ('s, (c_int, 'e) result) computation" where
  "pol_leaf mk at x = leaf_of mk (at 0) 42 7 x"

definition pol_w1 ::
    "('s, 'e, 'loc) maker \<Rightarrow> ('s, c_int, 'e, 'loc) site \<Rightarrow> (nat \<Rightarrow> 'loc) \<Rightarrow> c_int \<Rightarrow>
     ('s, (c_int, 'e) result) computation" where
  "pol_w1 mk st at x =
     jmpxx_try st (at 1) id (pol_leaf mk at x) (\<lambda>v s. (map_outcome_value result_of_value (c_add v 1), s))"

definition pol_chain ::
    "('s, 'e, 'loc) maker \<Rightarrow> ('s, c_int, 'e, 'loc) site \<Rightarrow> (nat \<Rightarrow> 'loc) \<Rightarrow> c_int \<Rightarrow>
     ('s, (c_int, 'e) result) computation" where
  "pol_chain mk st at x =
     jmpxx_try st (at 2) id (pol_w1 mk st at x) (\<lambda>v s. (map_outcome_value result_of_value (c_add v 1), s))"

definition di_leaf ::
    "bool \<Rightarrow> trace \<Rightarrow> (nat \<Rightarrow> 'loc) \<Rightarrow> c_int \<Rightarrow> ('loc store, (c_int, rich_error) result) computation" where
  "di_leaf trc t at x = leaf_of (make_rich trc t) (at 0) 7 3 x"

definition di_chain ::
    "bool \<Rightarrow> trace \<Rightarrow> ('loc store, c_int, rich_error, 'loc) site \<Rightarrow> (nat \<Rightarrow> 'loc) \<Rightarrow> c_int \<Rightarrow>
     ('loc store, (c_int, rich_error) result) computation" where
  "di_chain trc t st at x = wrappers st at (di_leaf trc t at x) 7"

lemma pol_chain_wrappers: "pol_chain mk st at x = wrappers st at (pol_leaf mk at x) 2"
  by (simp add: pol_chain_def pol_w1_def numeral_2_eq_2)

lemma int_result_Undefined_mono: "0 \<le> i \<Longrightarrow> i \<le> j \<Longrightarrow> int_result i = Undefined \<Longrightarrow> int_result j = Undefined"
  by (auto simp: int_result_def split: if_splits)

lemma wrappers_value:
  assumes "plain_site st" and "expr s = (map_outcome_value result_of_value (int_result i), s1)" and "0 \<le> i"
  shows "wrappers st at expr n s = (map_outcome_value result_of_value (int_result (i + int n)), s1)"
proof (induction n)
  case 0
  then show ?case using assms(2) by simp
next
  case (Suc n)
  let ?w = "wrappers st at expr n"
  from int_result_cases [of "i + int n"] show ?case
  proof
    assume u: "int_result (i + int n) = Undefined"
    then have "int_result (i + int (Suc n)) = Undefined"
      using int_result_Undefined_mono [OF _ _ u] assms(3) by simp
    then show ?thesis using Suc u by (simp add: jmpxx_try_def)
  next
    assume "\<exists>v. int_result (i + int n) = Returns v \<and> sint v = i + int n"
    then obtain v where v: "int_result (i + int n) = Returns v" "sint v = i + int n" by blast
    then have w: "?w s = (Returns (result_of_value v), s1)" using Suc by simp
    show ?thesis
      using v(2) by (simp add: jmpxx_try_value(1) [of st ?w s v s1, OF assms(1) w] c_add_def add_ac)
  qed
qed

lemma wrappers_failure:
  assumes "plain_site st" and "expr s = (Returns (result_of_failure id (fail e)), s1)"
  shows "wrappers st at expr n s =
    (Returns (result_of_failure id (fail e)),
     fold (detail_hop (diagnostics st) (hook st) e) (map at [1..<Suc n]) s1)"
proof (induction n)
  case 0
  then show ?case using assms(2) by (simp add: id_def)
next
  case (Suc n)
  let ?w = "wrappers st at expr n"
  show ?case
    by (simp add: jmpxx_try_failure(1) [of st ?w s id e _, OF assms(1) Suc]) (simp add: id_def)
qed

lemma leaf_of_value:
  "\<not> c_negative x \<Longrightarrow> leaf_of mk loc c d x s = (map_outcome_value result_of_value (int_result (sint x * 2)), s)"
  by (simp add: leaf_of_def c_mul_def)

lemma leaf_of_failure:
  "c_negative x \<Longrightarrow> mk loc c d s = (e, s1) \<Longrightarrow> leaf_of mk loc c d x s = (Returns (result_of_failure id (fail e)), s1)"
  by (simp add: leaf_of_def return_fail_def)

text \<open>
  The harness's eight-function chain over the minimal error delivers to its caller
  exactly the leaf's failure, error 42 in domain 0, for a negative argument, and
  \<open>2x + 7\<close> otherwise, undefined precisely where that exceeds the range of \<open>int\<close>; the
  policy chain lands error 42 in domain 7 or \<open>2x + 2\<close> under whatever policy it is
  instantiated with, the error being the one the policy makes at the leaf.
\<close>

theorem harness_chains_deliver:
  assumes "plain_site st" and "plain_site st'" and "hook st = note_propagation_default"
  shows "chain8 st at x s =
           (if c_negative x then (Returns (result_of_failure id (fail (mk_error 42 0))), s)
            else (map_outcome_value result_of_value (int_result (2 * sint x + 7)), s)) \<and>
         fst (pol_chain mk st' at x s') =
           (if c_negative x then Returns (result_of_failure id (fail (fst (mk (at 0) 42 7 s'))))
            else map_outcome_value result_of_value (int_result (2 * sint x + 2)))"
proof (cases "c_negative x")
  case True
  have "leaf at x s = (Returns (result_of_failure id (fail (mk_error 42 0))), s)"
    unfolding leaf_def by (rule leaf_of_failure [OF True]) (simp add: make_minimal_def)
  note l = wrappers_failure [of st "leaf at x" s _ s, OF assms(1) this, of at 7]
  have h: "fold (detail_hop (diagnostics st) (hook st) e) ls s = s" for e ls
    by (induction ls) (simp_all add: detail_hop_def assms(3) note_propagation_default_def)
  have "pol_leaf mk at x s' = (Returns (result_of_failure id (fail (fst (mk (at 0) 42 7 s')))), snd (mk (at 0) 42 7 s'))"
    unfolding pol_leaf_def by (rule leaf_of_failure [OF True]) simp
  from wrappers_failure [of st' "pol_leaf mk at x" s', OF assms(2) this, of at 2] show ?thesis
    using True l by (simp add: chain8_def pol_chain_wrappers h del: upt_Suc)
next
  case False
  then have nn: "0 \<le> sint x * 2" by (simp add: c_negative_def)
  have "leaf at x s = (map_outcome_value result_of_value (int_result (sint x * 2)), s)"
    unfolding leaf_def by (rule leaf_of_value [OF False])
  note l = wrappers_value [of st "leaf at x" s _ s, OF assms(1) this nn, of at 7]
  have "pol_leaf mk at x s' = (map_outcome_value result_of_value (int_result (sint x * 2)), s')"
    unfolding pol_leaf_def by (rule leaf_of_value [OF False])
  from wrappers_value [of st' "pol_leaf mk at x" s' _ s', OF assms(2) this nn, of at 2] show ?thesis
    using False l by (simp add: chain8_def pol_chain_wrappers mult.commute)
qed

theorem harness_chains_deliver_witness:
  "chain8 (shipped_site 1 True note_propagation_default) (\<lambda>n. n) 5 () =
     (Returns (result_of_value 17), ()) \<and>
   fst (pol_chain make_minimal (shipped_site 1 True note_propagation_default) (\<lambda>n. n) (- 1) ()) =
     Returns (result_of_failure id (fail (mk_error 42 7)))"
proof -
  let ?st = "shipped_site 1 True note_propagation_default :: (unit, c_int, error, nat) site"
  have "hook ?st = note_propagation_default" by simp
  note h = harness_chains_deliver [OF plain_shipped_site plain_shipped_site this,
      of "\<lambda>n. n" _ "()" make_minimal 1 True note_propagation_default "()"]
  show ?thesis
    using h [of 5] h [of "- 1"] by (simp add: c_negative_def make_minimal_def int_result_def)
qed

lemma fold_detail_hop_rich: "fold (detail_hop True note_propagation_rich e) ls s = propagate_rich e ls s"
  by (induction ls arbitrary: s) (simp_all add: detail_hop_def)

text \<open>
  In a debug build, a rich failure created at a leaf and propagated by \<open>JMPXX_TRY\<close>
  through any number of functions reaches the caller with its code and domain and, as
  long as the arena had room, with a context that names the leaf's site as origin and the
  propagation sites in order, the first sixteen of them, truncated exactly when there
  were more.  The harness's \<open>di_chain\<close> reports seven hops and decays to error 7 in domain 3.
\<close>

theorem rich_chain_reports_every_hop:
  assumes "store_ok s" and "depth s < max_inflight" and "c_negative x"
  shows "(\<exists>e s'. wrappers (shipped_site mode True note_propagation_rich) at
              (leaf_of (make_rich trc t) (at 0) c d x) n s = (Returns (result_of_failure id (fail e)), s') \<and>
            rich_base e = mk_error c d \<and>
            available (inspect trc loc0 e s') \<and> ctx_origin (inspect trc loc0 e s') = at 0 \<and>
            map_option (take (ctx_hop_count (inspect trc loc0 e s'))) (ctx_hops (inspect trc loc0 e s')) =
              Some (take max_chain (map at [1..<Suc n])) \<and>
            (ctx_hops_truncated (inspect trc loc0 e s') \<longleftrightarrow> n > max_chain)) \<and>
         (\<exists>e s'. di_chain trc t (shipped_site mode True note_propagation_rich) at x s =
              (Returns (result_of_failure id (fail e)), s') \<and>
            rich_base e = mk_error 7 3 \<and> ctx_hop_count (inspect trc loc0 e s') = 7 \<and>
            \<not> ctx_hops_truncated (inspect trc loc0 e s'))"
proof -
  let ?st = "shipped_site mode True note_propagation_rich"
  have chain: "\<exists>e s' hs. wrappers ?st at (leaf_of (make_rich trc t) (at 0) c d x) n s =
        (Returns (result_of_failure id (fail e)), s') \<and> rich_base e = mk_error c d \<and>
      available (inspect trc loc0 e s') \<and> ctx_origin (inspect trc loc0 e s') = at 0 \<and>
      ctx_hops (inspect trc loc0 e s') = Some hs \<and>
      take (ctx_hop_count (inspect trc loc0 e s')) hs = take max_chain (map at [1..<Suc n]) \<and>
      ctx_hop_count (inspect trc loc0 e s') = min n max_chain \<and>
      (ctx_hops_truncated (inspect trc loc0 e s') \<longleftrightarrow> n > max_chain)" for c d n
  proof -
    let ?l = "leaf_of (make_rich trc t) (at 0) c d x"
    obtain e s1 where m: "mk_rich trc t (at 0) c d s = (e, s1)" by (cases "mk_rich trc t (at 0) c d s")
    then have l: "?l s = (Returns (result_of_failure id (fail e)), s1)"
      by (intro leaf_of_failure [OF assms(3)]) (simp add: make_rich_def)
    let ?s' = "propagate_rich e (map at [1..<Suc n]) s1"
    have w: "wrappers ?st at ?l n s = (Returns (result_of_failure id (fail e)), ?s')"
      using wrappers_failure [of ?st ?l s e s1, OF plain_shipped_site l, of at n]
      by (simp only: shipped_site_sel fold_detail_hop_rich)
    show ?thesis
      by (rule mk_rich_chain [OF assms(1,2) m refl, of "map at [1..<Suc n]" loc0])
         (use w in \<open>auto simp: rich_base_def simp del: upt_Suc\<close>)
  qed
  show ?thesis
    using chain [of c d n] chain [of 7 3 7]
    by (auto simp: di_chain_def di_leaf_def max_chain_def simp del: upt_Suc)
qed

theorem rich_chain_reports_every_hop_witness:
  "\<exists>e s'. di_chain False empty_trace (shipped_site 0 True note_propagation_rich) (\<lambda>n. n) (- 1) blank_store =
       (Returns (result_of_failure id (fail e)), s') \<and>
     rich_base e = mk_error 7 3 \<and> ctx_hop_count (inspect False 0 e s') = 7"
proof -
  have "depth blank_store < max_inflight" "c_negative (- 1)"
    by (simp_all add: blank_store_def initial_store_def max_inflight_def c_negative_def)
  from rich_chain_reports_every_hop [OF blank_store_ok this, of 0 "\<lambda>n. n" False empty_trace 1 1 1 0]
  show ?thesis by blast
qed


subsection \<open>Destructors on the propagation path\<close>

text \<open>\<open>Counted\<close>: an object that counts its constructions and destructions.\<close>

record counted =
  ctor :: int
  dtor :: int

definition with_counted :: "(counted, 'a) computation \<Rightarrow> (counted, 'a) computation" where
  "with_counted body =
     with_scope (\<lambda>s. ((), s\<lparr>ctor := ctor s + 1\<rparr>)) (\<lambda>_ s. s\<lparr>dtor := dtor s + 1\<rparr>) body"

definition d_leaf :: "c_int \<Rightarrow> (counted, (c_int, error) result) computation" where
  "d_leaf x =
     with_counted (\<lambda>s.
       if c_negative x then return_fail id (mk_error 7 0) s
       else (map_outcome_value result_of_value (c_mul x 2), s))"

text \<open>\<open>d1\<close> to \<open>d6\<close> and \<open>d_chain\<close>: each holds a \<open>Counted\<close> while it propagates, then adds its value.\<close>

fun d_frames ::
    "(counted, c_int, error, 'loc) site \<Rightarrow> (nat \<Rightarrow> 'loc) \<Rightarrow> c_int \<Rightarrow> nat \<Rightarrow>
     (counted, (c_int, error) result) computation" where
  "d_frames st at x 0 = d_leaf x"
| "d_frames st at x (Suc n) =
     with_counted
       (jmpxx_try st (at (Suc n)) id (d_frames st at x n)
          (\<lambda>v s. (map_outcome_value result_of_value (c_add v x), s)))"

definition d_chain ::
    "(counted, c_int, error, 'loc) site \<Rightarrow> (nat \<Rightarrow> 'loc) \<Rightarrow> c_int \<Rightarrow>
     (counted, (c_int, error) result) computation" where
  "d_chain st at x = d_frames st at x 7"

definition bump :: "int \<Rightarrow> counted \<Rightarrow> counted" where
  "bump k s = s\<lparr>ctor := ctor s + k, dtor := dtor s + k\<rparr>"

lemma with_counted_Returns:
  assumes "\<And>s. body s = (Returns r, bump k s)"
  shows "with_counted body s = (Returns r, bump (k + 1) s)"
  by (simp add: with_counted_def with_scope_def assms bump_def add_ac)

lemma d_frames_failure:
  assumes "plain_site st" and "hook st = note_propagation_default" and "c_negative x"
  shows "d_frames st at x n s = (Returns (result_of_failure id (fail (mk_error 7 0))), bump (int n + 1) s)"
proof (induction n arbitrary: s)
  case 0
  have "with_counted (\<lambda>s. if c_negative x then return_fail id (mk_error 7 0) s
       else (map_outcome_value result_of_value (c_mul x 2), s)) s =
     (Returns (result_of_failure id (fail (mk_error 7 0))), bump (0 + 1) s)"
    by (rule with_counted_Returns) (simp add: assms(3) return_fail_def bump_def)
  then show ?case by (simp add: d_leaf_def id_def)
next
  case (Suc n)
  let ?d = "d_frames st at x n"
  let ?e = "mk_error 7 0"
  have "jmpxx_try st (at (Suc n)) id ?d (\<lambda>v s. (map_outcome_value result_of_value (c_add v x), s)) s =
      (Returns (result_of_failure id (fail ?e)), bump (int n + 1) s)" for s
    by (simp add: jmpxx_try_failure(1) [of st ?d s id ?e _, OF assms(1) Suc] detail_hop_def assms(2)
        note_propagation_default_def)
  from with_counted_Returns [OF this] show ?case by (simp add: add_ac id_def)
qed

lemma d_frames_value:
  assumes "plain_site st" and "\<not> c_negative x" and "sint x * (2 + int n) < 2 ^ 31"
  shows "\<exists>v. sint v = sint x * (2 + int n) \<and>
     (\<forall>s. d_frames st at x n s = (Returns (result_of_value v), bump (int n + 1) s))"
  using assms(3)
proof (induction n)
  case 0
  have nn: "0 \<le> sint x" using assms(2) by (simp add: c_negative_def)
  obtain v where v: "int_result (sint x * 2) = Returns v" "sint v = sint x * 2"
    using int_result_cases [of "sint x * 2"] 0 nn by (auto simp: int_result_def)
  have "with_counted (\<lambda>s. if c_negative x then return_fail id (mk_error 7 0) s
       else (map_outcome_value result_of_value (c_mul x 2), s)) s =
     (Returns (result_of_value v), bump (0 + 1) s)" for s
    by (rule with_counted_Returns) (simp add: assms(2) bump_def c_mul_def v)
  then show ?case using v(2) by (auto simp: d_leaf_def)
next
  case (Suc n)
  have nn: "0 \<le> sint x" using assms(2) by (simp add: c_negative_def)
  let ?d = "d_frames st at x n"
  have "sint x * (2 + int n) < 2 ^ 31" using Suc.prems nn by (simp add: algebra_simps)
  then obtain v where v: "sint v = sint x * (2 + int n)"
    "\<And>s. ?d s = (Returns (result_of_value v), bump (int n + 1) s)"
    using Suc.IH by blast
  have sum: "sint v + sint x = sint x * (2 + int (Suc n))" using v(1) by (simp add: algebra_simps)
  have "0 \<le> sint x * (2 + int (Suc n))" using nn by simp
  then obtain u where u: "int_result (sint v + sint x) = Returns u" "sint u = sint v + sint x"
    using int_result_cases [of "sint v + sint x"] Suc.prems sum by (auto simp: int_result_def)
  have "jmpxx_try st (at (Suc n)) id ?d (\<lambda>v s. (map_outcome_value result_of_value (c_add v x), s)) s =
      (Returns (result_of_value u), bump (int n + 1) s)" for s
    by (simp add: jmpxx_try_value(1) [of st ?d s v _, OF assms(1) v(2)] c_add_def u)
  from with_counted_Returns [OF this] u(2) sum show ?case by (auto simp: add_ac)
qed

text \<open>
  A failure propagated through a chain of functions that each hold an object with a
  destructor runs every destructor exactly once: on the failing path and on the
  successful one alike, one construction and one destruction per function are counted
  (eight in \<open>d_chain\<close>), whatever the depth, and the originating error 7 or the value is
  what reaches the caller.
\<close>

theorem propagation_runs_every_destructor_once:
  assumes "plain_site st" and "hook st = note_propagation_default"
    and "c_negative x \<or> sint x * (2 + int n) < 2 ^ 31"
  shows "\<exists>r. d_frames st at x n s = (Returns r, s\<lparr>ctor := ctor s + (int n + 1), dtor := dtor s + (int n + 1)\<rparr>) \<and>
         (if c_negative x then abs_result r = Inl (mk_error 7 0)
          else \<exists>v. abs_result r = Inr v \<and> sint v = sint x * (2 + int n)) \<and>
         d_chain st at x = d_frames st at x 7"
proof (cases "c_negative x")
  case True
  then show ?thesis
    using d_frames_failure [OF assms(1,2) True, of at n s]
    by (simp add: bump_def d_chain_def) (simp add: fail_def)
next
  case False
  then show ?thesis
    using d_frames_value [OF assms(1) False, of n at] assms(3) by (auto simp: bump_def d_chain_def)
qed

theorem propagation_runs_every_destructor_once_witness:
  "\<exists>r. d_frames (shipped_site 0 False note_propagation_default) (\<lambda>n. n) (- 1) 7 \<lparr>ctor = 0, dtor = 0\<rparr> =
     (Returns r, \<lparr>ctor = 8, dtor = 8\<rparr>) \<and> abs_result r = Inl (mk_error 7 0)"
proof -
  let ?st = "shipped_site 0 False note_propagation_default :: (counted, c_int, error, nat) site"
  have h: "hook ?st = note_propagation_default" and n: "c_negative (- 1)"
    by (simp_all add: c_negative_def)
  then show ?thesis
    using propagation_runs_every_destructor_once [OF plain_shipped_site h, of "- 1" 7 "\<lambda>n. n"
        "\<lparr>ctor = 0, dtor = 0\<rparr>"] by auto
qed

end
