(* ===== verification/Interop_Bridges.thy ===== *)
theory Interop_Bridges
  imports Propagation
begin

text \<open>
  The interoperability bridges (\<open>interop/expected.hpp\<close>, \<open>interop/error_code.hpp\<close>,
  \<open>interop/exception.hpp\<close>, \<open>interop/adapt.hpp\<close>).

  Payloads are copied and moved with their own operations, as in the transport.  Of the
  standard library the model has what the bridges use: \<open>std::expected\<close> as a sum, a
  \<open>std::error_code\<close> as a value with the address of its category, and a C++ call that may
  throw as a value of its own.
\<close>

subsection \<open>std::expected\<close>

datatype ('v, 'e) std_expected = Expected 'v | Unexpected 'e

primrec abs_expected :: "('v, 'e) std_expected \<Rightarrow> 'e + 'v" where
  "abs_expected (Expected v) = Inr v"
| "abs_expected (Unexpected e) = Inl e"

definition to_expected_const ::
    "int \<Rightarrow> 'v payload \<Rightarrow> 'e payload \<Rightarrow> ('v, 'e) result \<Rightarrow> ('v, 'e) std_expected outcome" where
  "to_expected_const mode V E r =
     (if has_value r then
        bind_outcome (assume_value mode r) (\<lambda>v. map_outcome_value Expected (copy_out V v))
      else
        bind_outcome (assume_error mode r) (\<lambda>e. map_outcome_value Unexpected (copy_out E e)))"

definition to_expected_rvalue ::
    "int \<Rightarrow> 'v payload \<Rightarrow> 'e payload \<Rightarrow> ('v, 'e) result \<Rightarrow>
     (('v, 'e) std_expected \<times> ('v, 'e) result) outcome" where
  "to_expected_rvalue mode V E r =
     (if has_value r then
        bind_outcome (assume_value mode r) (\<lambda>v.
        map_outcome_value (\<lambda>(x, v'). (Expected x, r\<lparr>member := Val v'\<rparr>)) (move_out V v))
      else
        bind_outcome (assume_error mode r) (\<lambda>e.
        map_outcome_value (\<lambda>(x, e'). (Unexpected x, r\<lparr>member := Err e'\<rparr>)) (move_out E e)))"

definition from_expected_const ::
    "'v payload \<Rightarrow> 'e payload \<Rightarrow> ('v, 'e) std_expected \<Rightarrow> ('v, 'e) result outcome" where
  "from_expected_const V E x =
     (case x of
        Expected v \<Rightarrow> map_outcome_value (result_in_place id) (copy_out V v)
      | Unexpected e \<Rightarrow> map_outcome_value (\<lambda>e. result_of_failure id (fail e)) (copy_out E e))"

definition from_expected_rvalue ::
    "'v payload \<Rightarrow> 'e payload \<Rightarrow> ('v, 'e) std_expected \<Rightarrow>
     (('v, 'e) result \<times> ('v, 'e) std_expected) outcome" where
  "from_expected_rvalue V E x =
     (case x of
        Expected v \<Rightarrow> map_outcome_value (\<lambda>(y, v'). (result_in_place id y, Expected v')) (move_out V v)
      | Unexpected e \<Rightarrow>
          map_outcome_value (\<lambda>(y, e'). (result_of_failure id (fail y), Unexpected e')) (move_out E e))"

text \<open>
  The \<open>std::expected\<close> bridge is lossless: in both directions and both overloads the
  conversion keeps which alternative is held and its contents, so a result that crosses
  the bridge and comes back is the original, as is an expected; the narrow accessors the
  conversion uses never trap, in any hardening mode.
\<close>

theorem expected_round_trip:
  assumes "regular V" and "nothrow V" and "regular E" and "nothrow E" and "well_formed r"
  shows "bind_outcome (to_expected_const mode V E r) (from_expected_const V E) = Returns r \<and>
         bind_outcome (from_expected_const V E x) (to_expected_const mode V E) = Returns x \<and>
         (\<exists>y r'. to_expected_rvalue mode V E r = Returns (y, r') \<and> abs_expected y = abs_result r \<and>
            (\<exists>q y'. from_expected_rvalue V E y = Returns (q, y') \<and> q = r))"
proof -
  note c = regular_copy_out [OF assms(1,2)] regular_copy_out [OF assms(3,4)]
  obtain mv where mv: "\<And>v. move_out V v = Returns (v, mv v)"
    using regular_move_out [OF assms(1,2)] by metis
  obtain me where me: "\<And>e. move_out E e = Returns (e, me e)"
    using regular_move_out [OF assms(3,4)] by metis
  note m = mv me
  have inverse: "bind_outcome (from_expected_const V E x) (to_expected_const mode V E) = Returns x"
    by (cases x) (simp_all add: from_expected_const_def to_expected_const_def c transport_simps)
  from assms(5) have "bind_outcome (to_expected_const mode V E r) (from_expected_const V E) = Returns r \<and>
      (\<exists>y r'. to_expected_rvalue mode V E r = Returns (y, r') \<and> abs_expected y = abs_result r \<and>
         (\<exists>q y'. from_expected_rvalue V E y = Returns (q, y') \<and> q = r))"
    by (cases rule: well_formed_cases)
       (simp_all add: to_expected_const_def from_expected_const_def to_expected_rvalue_def
          from_expected_rvalue_def c m transport_simps abs_result_def)
  with inverse show ?thesis by blast
qed

theorem expected_round_trip_witness:
  "bind_outcome (to_expected_const 1 trivial_payload trivial_payload
      (result_of_failure id (fail ''bad'') :: (nat, string) result))
      (from_expected_const trivial_payload trivial_payload) = Returns (result_of_failure id (fail ''bad''))"
  by (rule expected_round_trip [OF regular_trivial trivial_nothrow regular_trivial trivial_nothrow
        well_formed_constructed(4), THEN conjunct1])


subsection \<open>std::error\_code\<close>

record error_code =
  ec_value :: c_int
  ec_category :: addr

text \<open>
  The process-wide table.  \<open>make_unique\<close> places a new category at an address of the
  allocator's choice, which is an argument; every operation holds the table's mutex
  throughout, so operations are atomic.
\<close>

record category_table =
  by_domain :: "c_int \<rightharpoonup> addr"
  by_address :: "addr \<rightharpoonup> c_int"

definition empty_table :: category_table where
  "empty_table = \<lparr>by_domain = Map.empty, by_address = Map.empty\<rparr>"

text \<open>\<open>std::map::emplace\<close> leaves an existing entry as it is.\<close>

definition emplace :: "'k \<Rightarrow> 'v \<Rightarrow> ('k \<rightharpoonup> 'v) \<Rightarrow> ('k \<rightharpoonup> 'v)" where
  "emplace k v m = (if m k = None then m(k \<mapsto> v) else m)"

definition category_get :: "addr \<Rightarrow> c_int \<Rightarrow> category_table \<Rightarrow> addr \<times> category_table" where
  "category_get new_addr d t =
     (case by_domain t d of
        Some p \<Rightarrow> (p, t)
      | None \<Rightarrow>
          (new_addr, t\<lparr>by_domain := emplace d new_addr (by_domain t),
                      by_address := emplace new_addr d (by_address t)\<rparr>))"

definition domain_of :: "addr \<Rightarrow> category_table \<Rightarrow> c_int" where
  "domain_of cat t = (case by_address t cat of None \<Rightarrow> - 1 | Some d \<Rightarrow> d)"

definition category_name :: string where
  "category_name = ''jmpxx''"

definition category_message :: "c_int \<Rightarrow> c_int \<Rightarrow> string" where
  "category_message d v =
     ''jmpxx error '' @ show_int (sint v) @ '' (domain '' @ show_int (sint d) @ '')''"

definition to_error_code :: "addr \<Rightarrow> error \<Rightarrow> category_table \<Rightarrow> error_code \<times> category_table" where
  "to_error_code new_addr e t =
     (let (p, t) = category_get new_addr (err_domain e) t
      in (\<lparr>ec_value = err_code e, ec_category = p\<rparr>, t))"

definition is_jmpxx :: "error_code \<Rightarrow> category_table \<Rightarrow> bool" where
  "is_jmpxx ec t \<longleftrightarrow> sint (domain_of (ec_category ec) t) \<ge> 0"

definition from_error_code :: "error_code \<Rightarrow> category_table \<Rightarrow> error" where
  "from_error_code ec t =
     (let d = domain_of (ec_category ec) t
      in if sint d \<ge> 0 then mk_error (ec_value ec) d else mk_error (ec_value ec) 0)"

text \<open>The table is a bijection between the domains asked for and their categories.\<close>

definition table_ok :: "category_table \<Rightarrow> bool" where
  "table_ok t \<longleftrightarrow> (\<forall>d p. by_domain t d = Some p \<longleftrightarrow> by_address t p = Some d)"

fun convert_all :: "(addr \<times> error) list \<Rightarrow> category_table \<Rightarrow> category_table" where
  "convert_all [] t = t"
| "convert_all ((a, e) # xs) t = convert_all xs (snd (to_error_code a e t))"

text \<open>The allocator never hands out an address that a live category or \<open>p\<close> occupies.\<close>

fun allocs_fresh :: "addr \<Rightarrow> (addr \<times> error) list \<Rightarrow> category_table \<Rightarrow> bool" where
  "allocs_fresh p [] t \<longleftrightarrow> True"
| "allocs_fresh p ((a, e) # xs) t \<longleftrightarrow>
     by_address t a = None \<and> a \<noteq> p \<and> allocs_fresh p xs (snd (to_error_code a e t))"

lemma category_get_ok:
  assumes "table_ok t" and "by_address t a = None"
  shows "table_ok (snd (category_get a d t))"
proof (cases "by_domain t d")
  case None
  have ok: "\<And>d p. by_domain t d = Some p \<longleftrightarrow> by_address t p = Some d"
    using assms(1) by (simp add: table_ok_def)
  have "\<And>p. by_address t p \<noteq> Some d" "\<And>d. by_domain t d \<noteq> Some a"
    using None ok [of d] ok [of _ a] assms(2) by auto
  then show ?thesis
    using None assms(2) ok by (auto simp: table_ok_def category_get_def emplace_def)
qed (use assms in \<open>simp add: category_get_def\<close>)

lemma category_get_entry:
  "table_ok t \<Longrightarrow> by_address t a = None \<Longrightarrow> category_get a d t = (p, t') \<Longrightarrow> by_address t' p = Some d"
  by (auto simp: table_ok_def category_get_def emplace_def split: option.splits)

lemma category_get_keeps:
  "by_address t q = Some d' \<Longrightarrow> by_address t a = None \<Longrightarrow> by_address (snd (category_get a d t)) q = Some d'"
  by (auto simp: category_get_def emplace_def split: option.splits)

lemma category_get_absent:
  "by_address t q = None \<Longrightarrow> a \<noteq> q \<Longrightarrow> by_address (snd (category_get a d t)) q = None"
  by (auto simp: category_get_def emplace_def split: option.splits)

lemma to_error_code_table: "snd (to_error_code a e t) = snd (category_get a (err_domain e) t)"
  by (simp add: to_error_code_def split: prod.split)

lemma convert_all_keeps:
  "table_ok t \<Longrightarrow> allocs_fresh p xs t \<Longrightarrow>
     table_ok (convert_all xs t) \<and>
     (by_address t q = Some d \<longrightarrow> by_address (convert_all xs t) q = Some d) \<and>
     (by_address t p = None \<longrightarrow> by_address (convert_all xs t) p = None)"
proof (induction xs arbitrary: t)
  case Nil
  then show ?case by simp
next
  case (Cons x xs)
  obtain a e where x: "x = (a, e)" by (cases x)
  let ?t = "snd (category_get a (err_domain e) t)"
  have f: "by_address t a = None" "a \<noteq> p" "allocs_fresh p xs ?t"
    using Cons.prems(2) by (simp_all add: x to_error_code_table)
  show ?case
    using Cons.IH [OF category_get_ok [OF Cons.prems(1) f(1)] f(3)]
      category_get_keeps [OF _ f(1), of q d] category_get_absent [of t p a, OF _ f(2)]
    by (simp add: x to_error_code_table)
qed

text \<open>
  C34. Exposing a jmpxx error as a \<open>std::error_code\<close> and recovering it is lossless for
  every domain that is not negative, however many other errors are converted in between:
  the code and the domain come back, \<open>is_jmpxx\<close> holds, and converting an error of the
  same domain again gives the same category, while a foreign category is reported foreign
  and keeps only its value.  For a negative domain the recovery loses the domain: the code
  is reported foreign and comes back tagged with domain 0, although the table has an entry
  for it and the documentation states the pair round-trips.
\<close>

theorem error_code_round_trip:
  assumes "table_ok t" and "by_address t a = None" and "to_error_code a e t = (ec, t1)"
    and "by_address t1 p = None" and "allocs_fresh p xs t1" and "convert_all xs t1 = t2"
  shows "from_error_code ec t2 =
           (if sint (err_domain e) \<ge> 0 then e else mk_error (err_code e) 0) \<and>
         (is_jmpxx ec t2 \<longleftrightarrow> sint (err_domain e) \<ge> 0) \<and>
         by_address t2 (ec_category ec) = Some (err_domain e) \<and>
         ec_category (fst (to_error_code b (mk_error c (err_domain e)) t2)) = ec_category ec \<and>
         \<not> is_jmpxx \<lparr>ec_value = v, ec_category = p\<rparr> t2 \<and>
         from_error_code \<lparr>ec_value = v, ec_category = p\<rparr> t2 = mk_error v 0"
proof -
  obtain q where g: "category_get a (err_domain e) t = (q, t1)" and ec: "ec = \<lparr>ec_value = err_code e, ec_category = q\<rparr>"
    using assms(3) by (auto simp: to_error_code_def split: prod.splits)
  have q: "by_address t1 q = Some (err_domain e)" by (rule category_get_entry [OF assms(1,2) g])
  have ok1: "table_ok t1" using category_get_ok [OF assms(1,2), of "err_domain e"] g by simp
  have two: "table_ok t2" "by_address t2 q = Some (err_domain e)" "by_address t2 p = None"
    using convert_all_keeps [OF ok1 assms(5), of q "err_domain e"] q assms(4,6) by auto
  then have "by_domain t2 (err_domain e) = Some q" by (simp add: table_ok_def)
  then have "ec_category (fst (to_error_code b (mk_error c (err_domain e)) t2)) = q"
    by (simp add: to_error_code_def category_get_def mk_error_def)
  moreover have "domain_of q t2 = err_domain e" "domain_of p t2 = - 1"
    using two by (simp_all add: domain_of_def)
  moreover have "mk_error (err_code e) (err_domain e) = e" by (simp add: mk_error_def)
  ultimately show ?thesis
    using two by (simp add: ec from_error_code_def is_jmpxx_def)
qed

theorem error_code_round_trip_witness:
  "from_error_code (fst (to_error_code 4096 (mk_error 42 7) empty_table))
     (snd (to_error_code 4096 (mk_error 42 7) empty_table)) = mk_error 42 7 \<and>
   from_error_code (fst (to_error_code 4096 (mk_error 42 (- 5)) empty_table))
     (snd (to_error_code 4096 (mk_error 42 (- 5)) empty_table)) = mk_error 42 0"
proof -
  have ok: "table_ok empty_table" "by_address empty_table 4096 = None"
    by (simp_all add: table_ok_def empty_table_def)
  have absent: "by_address (snd (to_error_code 4096 e empty_table)) 8192 = None" for e
    by (simp add: to_error_code_def category_get_def empty_table_def emplace_def)
  note rt = error_code_round_trip [OF ok surjective_pairing absent, of "[]"]
  show ?thesis
    using rt [of "mk_error 42 7"] rt [of "mk_error 42 (- 5)"] by (simp add: mk_error_def)
qed


subsection \<open>Language exceptions\<close>

text \<open>
  What a C++ call may do: return, or leave by an exception, which is either the bridge's
  own carrier \<open>error_exception<E>\<close> or any other object.
\<close>

datatype 'e exn = Error_Exception 'e | Foreign_Exception

datatype ('v, 'x) call = Normal 'v | Thrown 'x

definition error_exception_what :: string where
  "error_exception_what = ''jmpxx::error_exception''"

text \<open>\<open>value_or_throw\<close> takes the result by value, so the alternative it reads is its own.\<close>

definition value_or_throw ::
    "int \<Rightarrow> 'v payload \<Rightarrow> 'e payload \<Rightarrow> ('v, 'e) result \<Rightarrow> ('v, 'e exn) call outcome" where
  "value_or_throw mode V E r =
     (if has_value r then
        bind_outcome (assume_value mode r) (\<lambda>v. map_outcome_value (\<lambda>(x, _). Normal x) (move_out V v))
      else
        bind_outcome (assume_error mode r) (\<lambda>e.
          map_outcome_value (\<lambda>(x, _). Thrown (Error_Exception x)) (move_out E e)))"

text \<open>
  \<open>catch_into_result\<close> is \<open>noexcept\<close>: an exception that leaves a handler, from copying the
  error or from \<open>make_error\<close>, ends in \<open>std::terminate\<close>.  Moving the returned value into
  the result happens inside the \<open>try\<close>, so an exception there reaches the second handler.
\<close>

definition terminate_noexcept :: "'a outcome \<Rightarrow> 'a outcome" where
  "terminate_noexcept r = (case r of Throws \<Rightarrow> Fail_Fast ''std::terminate'' | _ \<Rightarrow> r)"

definition handle_foreign :: "'e outcome \<Rightarrow> ('v, 'e) result outcome" where
  "handle_foreign make_error =
     terminate_noexcept (map_outcome_value (\<lambda>e. result_of_failure id (fail e)) make_error)"

definition catch_into_result ::
    "'v payload \<Rightarrow> 'e payload \<Rightarrow> ('v, 'e exn) call \<Rightarrow> 'e outcome \<Rightarrow> ('v, 'e) result outcome" where
  "catch_into_result V E f make_error =
     (case f of
        Normal v \<Rightarrow>
          (case move_out V v of
             Returns (x, _) \<Rightarrow> Returns (result_in_place id x)
           | Throws \<Rightarrow> handle_foreign make_error
           | Fail_Fast m \<Rightarrow> Fail_Fast m
           | Undefined \<Rightarrow> Undefined)
      | Thrown (Error_Exception e) \<Rightarrow>
          terminate_noexcept (map_outcome_value (\<lambda>e. result_of_failure id (fail e)) (copy_out E e))
      | Thrown Foreign_Exception \<Rightarrow> handle_foreign make_error)"

text \<open>
  The exception bridge round-trips: a result turned into a return or a throw by
  \<open>value_or_throw\<close> and caught by \<open>catch_into_result\<close> is the original result, with
  \<open>make_error\<close> not consulted; any other exception becomes the failure \<open>make_error\<close> makes;
  and \<open>catch_into_result\<close> lets no exception out whatever its callables do.
\<close>

theorem exception_round_trip:
  assumes "regular V" and "nothrow V" and "regular E" and "nothrow E" and "well_formed r"
  shows "(\<exists>f. value_or_throw mode V E r = Returns f \<and> catch_into_result V E f make_error = Returns r) \<and>
         catch_into_result V E (Thrown Foreign_Exception) (Returns e) = Returns (result_of_failure id (fail e)) \<and>
         catch_into_result W F g make_error' \<noteq> Throws"
proof -
  obtain mv where mv: "\<And>v. move_out V v = Returns (v, mv v)"
    using regular_move_out [OF assms(1,2)] by metis
  obtain me where me: "\<And>e. move_out E e = Returns (e, me e)"
    using regular_move_out [OF assms(3,4)] by metis
  note c = regular_copy_out [OF assms(3,4)]
  have t: "terminate_noexcept q \<noteq> Throws" for q :: "('x, 'y) result outcome"
    by (simp add: terminate_noexcept_def split: outcome.split)
  have "catch_into_result W F g make_error' \<noteq> Throws"
    by (simp add: catch_into_result_def handle_foreign_def t split: call.split exn.split outcome.split)
  moreover from assms(5) have "\<exists>f. value_or_throw mode V E r = Returns f \<and> catch_into_result V E f make_error = Returns r"
    by (cases rule: well_formed_cases)
       (simp_all add: value_or_throw_def catch_into_result_def terminate_noexcept_def mv me c transport_simps)
  ultimately show ?thesis
    by (simp add: catch_into_result_def handle_foreign_def terminate_noexcept_def)
qed

theorem exception_round_trip_witness:
  "\<exists>f. value_or_throw 0 trivial_payload trivial_payload (result_of_failure id (fail (mk_error 42 7)) :: (nat, error) result) =
         Returns f \<and>
       catch_into_result trivial_payload trivial_payload f (Returns (mk_error 1 1)) =
         Returns (result_of_failure id (fail (mk_error 42 7)))"
  by (rule exception_round_trip [OF regular_trivial trivial_nothrow regular_trivial trivial_nothrow
        well_formed_constructed(4), THEN conjunct1])


subsection \<open>Adapters\<close>

text \<open>
  An optional-like argument tests as true exactly when \<open>operator*\<close> may be applied to it;
  what it yields is copied from an lvalue (and from any pointer) and moved from an rvalue.
  The callables are calls of the caller's, run only in the branch that needs them.
\<close>

definition from_optional_lvalue :: "'v payload \<Rightarrow> 'v option \<Rightarrow> 'e outcome \<Rightarrow> ('v, 'e) result outcome" where
  "from_optional_lvalue V opt on_empty =
     (case opt of
        Some v \<Rightarrow> map_outcome_value (result_in_place id) (copy_out V v)
      | None \<Rightarrow> map_outcome_value (\<lambda>e. result_of_failure id (fail e)) on_empty)"

definition from_optional_rvalue :: "'v payload \<Rightarrow> 'v option \<Rightarrow> 'e outcome \<Rightarrow> ('v, 'e) result outcome" where
  "from_optional_rvalue V opt on_empty =
     (case opt of
        Some v \<Rightarrow> map_outcome_value (\<lambda>(x, _). result_in_place id x) (move_out V v)
      | None \<Rightarrow> map_outcome_value (\<lambda>e. result_of_failure id (fail e)) on_empty)"

definition from_condition :: "'v payload \<Rightarrow> bool \<Rightarrow> 'v outcome \<Rightarrow> 'e outcome \<Rightarrow> ('v, 'e) result outcome" where
  "from_condition V present taken on_absent =
     (if present then
        bind_outcome taken (\<lambda>v. map_outcome_value (\<lambda>(x, _). result_in_place id x) (move_out V v))
      else map_outcome_value (\<lambda>e. result_of_failure id (fail e)) on_absent)"

text \<open>
  The adapters build exactly what the foreign value says: the value when it is
  present, without running the error maker, and the maker's error when it is absent,
  without running the value producer, whatever the callable that is not run would do.
\<close>

theorem adapters_follow_the_flag:
  assumes "regular V" and "nothrow V"
  shows "from_optional_lvalue V (Some v) on_empty = Returns (result_of_value v) \<and>
         from_optional_rvalue V (Some v) on_empty = Returns (result_of_value v) \<and>
         from_optional_lvalue V None (Returns e) = Returns (result_of_failure id (fail e)) \<and>
         from_optional_rvalue V None (Returns e) = Returns (result_of_failure id (fail e)) \<and>
         from_condition V True (Returns v) on_absent = Returns (result_of_value v) \<and>
         from_condition V False taken (Returns e) = Returns (result_of_failure id (fail e))"
proof -
  obtain v' where "move_out V v = Returns (v, v')" using regular_move_out [OF assms] by blast
  then show ?thesis
    using regular_copy_out [OF assms, of v]
    by (simp add: from_optional_lvalue_def from_optional_rvalue_def from_condition_def transport_simps)
qed

theorem adapters_follow_the_flag_witness:
  "from_optional_rvalue trivial_payload (Some (5::nat)) (Undefined :: error outcome) = Returns (result_of_value 5)"
  by (rule adapters_follow_the_flag [OF regular_trivial trivial_nothrow, THEN conjunct2, THEN conjunct1])

end
