(* ===== verification/Bench_Kernels.thy ===== *)
theory Bench_Kernels
  imports Policy_Chains Interop_Bridges
begin

text \<open>
  The benchmark kernels (\<open>benchmarks/kernels\<close>): one chain of frames, written with five
  error-handling mechanisms that need no third-party library.  The suite's fairness rests
  on the kernels doing the same work, so the theorem here is that they compute the same
  function.  The Boost.Outcome, Boost.LEAF and tl::expected kernels are left out, because
  their mechanisms are third-party code.

  Template recursion over the depth is recursion on a natural number.  Exceptions and
  \<open>std::expected\<close> are the types of the interoperability bridges.
\<close>

definition jxb_depth :: nat where "jxb_depth = 8"
definition jxb_depth_deep :: nat where "jxb_depth_deep = 32"
definition jxb_fail_code :: c_int where "jxb_fail_code = 42"
definition jxb_fail_domain :: c_int where "jxb_fail_domain = 7"
definition jxb_frame_step :: c_int where "jxb_frame_step = 1"

text \<open>Every entry point selects its instantiation the same way.\<close>

definition chain_depth :: "c_int \<Rightarrow> nat" where
  "chain_depth dep = (if sint dep \<ge> int jxb_depth_deep then jxb_depth_deep else jxb_depth)"


subsection \<open>The hand-written branch\<close>

datatype hw_member = Hw_Value c_int | Hw_Err c_int c_int

record hw_result =
  hw_union :: hw_member
  hw_ok :: bool

definition hw_value :: "hw_result \<Rightarrow> c_int outcome" where
  "hw_value r = (case hw_union r of Hw_Value v \<Rightarrow> Returns v | Hw_Err _ _ \<Rightarrow> Undefined)"

definition hw_code :: "hw_result \<Rightarrow> c_int outcome" where
  "hw_code r = (case hw_union r of Hw_Err c _ \<Rightarrow> Returns c | Hw_Value _ \<Rightarrow> Undefined)"

fun hw_frame :: "nat \<Rightarrow> c_int \<Rightarrow> hw_result outcome" where
  "hw_frame 0 x =
     (if c_negative x then Returns \<lparr>hw_union = Hw_Err jxb_fail_code jxb_fail_domain, hw_ok = False\<rparr>
      else map_outcome_value (\<lambda>v. \<lparr>hw_union = Hw_Value v, hw_ok = True\<rparr>) (c_mul x 2))"
| "hw_frame (Suc d) x =
     bind_outcome (hw_frame d x) (\<lambda>r.
       if \<not> hw_ok r then Returns r
       else bind_outcome (hw_value r) (\<lambda>v.
         map_outcome_value (\<lambda>w. \<lparr>hw_union = Hw_Value w, hw_ok = True\<rparr>) (c_add v jxb_frame_step)))"

definition hw_run :: "nat \<Rightarrow> c_int \<Rightarrow> c_int outcome" where
  "hw_run d x =
     bind_outcome (hw_frame d x) (\<lambda>r. if hw_ok r then hw_value r else bind_outcome (hw_code r) c_neg)"

definition handwritten_chain :: "c_int \<Rightarrow> c_int \<Rightarrow> c_int outcome" where
  "handwritten_chain x dep = hw_run (chain_depth dep) x"


subsection \<open>jmpxx\<close>

fun jmpxx_frame ::
    "('s, c_int, error, 'loc) site \<Rightarrow> (nat \<Rightarrow> 'loc) \<Rightarrow> nat \<Rightarrow> c_int \<Rightarrow> ('s, (c_int, error) result) computation" where
  "jmpxx_frame st at 0 x =
     (\<lambda>s. if c_negative x then return_fail id (mk_error jxb_fail_code jxb_fail_domain) s
          else (map_outcome_value result_of_value (c_mul x 2), s))"
| "jmpxx_frame st at (Suc d) x =
     jmpxx_try st (at (Suc d)) id (jmpxx_frame st at d x)
       (\<lambda>v s. (map_outcome_value result_of_value (c_add v jxb_frame_step), s))"

definition landed_code :: "(c_int, error) result \<Rightarrow> c_int outcome" where
  "landed_code r =
     (if has_value r then value_checked r
      else bind_outcome (error_checked r) (\<lambda>e. c_neg (err_code e)))"

definition jmpxx_run ::
    "('s, c_int, error, 'loc) site \<Rightarrow> (nat \<Rightarrow> 'loc) \<Rightarrow> nat \<Rightarrow> c_int \<Rightarrow> 's \<Rightarrow> c_int outcome" where
  "jmpxx_run st at d x s = bind_outcome (fst (jmpxx_frame st at d x s)) landed_code"

definition jmpxx_chain ::
    "('s, c_int, error, 'loc) site \<Rightarrow> (nat \<Rightarrow> 'loc) \<Rightarrow> c_int \<Rightarrow> c_int \<Rightarrow> 's \<Rightarrow> c_int outcome" where
  "jmpxx_chain st at x dep s = jmpxx_run st at (chain_depth dep) x s"


subsection \<open>std::error\_code\<close>

text \<open>
  The categories' addresses are the standard library's; \<open>invalid_argument\<close> is \<open>EINVAL\<close>.  The
  out-parameter is threaded: a frame returns the code and what \<open>out\<close> holds afterwards.
\<close>

definition einval :: c_int where "einval = 22"

definition ec_true :: "error_code \<Rightarrow> bool" where
  "ec_true ec \<longleftrightarrow> ec_value ec \<noteq> 0"

fun ec_frame :: "addr \<Rightarrow> addr \<Rightarrow> nat \<Rightarrow> c_int \<Rightarrow> c_int \<Rightarrow> (error_code \<times> c_int) outcome" where
  "ec_frame gen sys 0 x out_param =
     (if c_negative x then Returns (\<lparr>ec_value = einval, ec_category = gen\<rparr>, out_param)
      else map_outcome_value (\<lambda>v. (\<lparr>ec_value = 0, ec_category = sys\<rparr>, v)) (c_mul x 2))"
| "ec_frame gen sys (Suc d) x out_param =
     bind_outcome (ec_frame gen sys d x 0) (\<lambda>(ec, v).
       if ec_true ec then Returns (ec, out_param)
       else map_outcome_value (\<lambda>w. (\<lparr>ec_value = 0, ec_category = sys\<rparr>, w)) (c_add v jxb_frame_step))"

definition ec_run :: "addr \<Rightarrow> addr \<Rightarrow> nat \<Rightarrow> c_int \<Rightarrow> c_int outcome" where
  "ec_run gen sys d x =
     bind_outcome (ec_frame gen sys d x 0) (\<lambda>(ec, v). if ec_true ec then c_neg jxb_fail_code else Returns v)"

definition errorcode_chain :: "addr \<Rightarrow> addr \<Rightarrow> c_int \<Rightarrow> c_int \<Rightarrow> c_int outcome" where
  "errorcode_chain gen sys x dep = ec_run gen sys (chain_depth dep) x"


subsection \<open>Exceptions\<close>

fun ex_frame :: "nat \<Rightarrow> c_int \<Rightarrow> (c_int, c_int \<times> c_int) call outcome" where
  "ex_frame 0 x =
     (if c_negative x then Returns (Thrown (jxb_fail_code, jxb_fail_domain))
      else map_outcome_value Normal (c_mul x 2))"
| "ex_frame (Suc d) x =
     bind_outcome (ex_frame d x) (\<lambda>r.
       case r of Thrown e \<Rightarrow> Returns (Thrown e)
       | Normal v \<Rightarrow> map_outcome_value Normal (c_add v jxb_frame_step))"

definition ex_run :: "nat \<Rightarrow> c_int \<Rightarrow> c_int outcome" where
  "ex_run d x =
     bind_outcome (ex_frame d x) (\<lambda>r. case r of Normal v \<Rightarrow> Returns v | Thrown (c, _) \<Rightarrow> c_neg c)"

definition exceptions_chain :: "c_int \<Rightarrow> c_int \<Rightarrow> c_int outcome" where
  "exceptions_chain x dep = ex_run (chain_depth dep) x"


subsection \<open>std::expected\<close>

fun exp_frame :: "nat \<Rightarrow> c_int \<Rightarrow> (c_int, c_int \<times> c_int) std_expected outcome" where
  "exp_frame 0 x =
     (if c_negative x then Returns (Unexpected (jxb_fail_code, jxb_fail_domain))
      else map_outcome_value Expected (c_mul x 2))"
| "exp_frame (Suc d) x =
     bind_outcome (exp_frame d x) (\<lambda>r.
       case r of Unexpected e \<Rightarrow> Returns (Unexpected e)
       | Expected v \<Rightarrow> map_outcome_value Expected (c_add v jxb_frame_step))"

definition exp_run :: "nat \<Rightarrow> c_int \<Rightarrow> c_int outcome" where
  "exp_run d x =
     bind_outcome (exp_frame d x) (\<lambda>r. case r of Expected v \<Rightarrow> Returns v | Unexpected (c, _) \<Rightarrow> c_neg c)"

definition expected_chain :: "c_int \<Rightarrow> c_int \<Rightarrow> c_int outcome" where
  "expected_chain x dep = exp_run (chain_depth dep) x"


subsection \<open>The slowed kernel\<close>

text \<open>
  \<open>slow_frame\<close> is \<open>jmpxx_frame\<close> again; \<open>run\<close> then mixes the result 96 times.  \<open>v >> 3\<close> on a
  negative \<open>int\<close> is the arithmetic shift.
\<close>

unbundle bit_operations_syntax

definition slow_mix :: "c_int \<Rightarrow> c_int outcome" where
  "slow_mix v =
     bind_outcome (c_mul v 1103515245) (\<lambda>p.
     bind_outcome (c_add p 12345) (\<lambda>q.
       Returns (q XOR of_int (sint v div 8))))"

fun slow_work :: "nat \<Rightarrow> c_int \<Rightarrow> c_int outcome" where
  "slow_work 0 v = Returns v"
| "slow_work (Suc n) v = bind_outcome (slow_mix v) (slow_work n)"

definition slow_run ::
    "('s, c_int, error, 'loc) site \<Rightarrow> (nat \<Rightarrow> 'loc) \<Rightarrow> nat \<Rightarrow> c_int \<Rightarrow> 's \<Rightarrow> c_int outcome" where
  "slow_run st at d x s =
     bind_outcome (bind_outcome (fst (jmpxx_frame st at d x s)) landed_code) (slow_work 96)"

definition jmpxx_slow_chain ::
    "('s, c_int, error, 'loc) site \<Rightarrow> (nat \<Rightarrow> 'loc) \<Rightarrow> c_int \<Rightarrow> c_int \<Rightarrow> 's \<Rightarrow> c_int outcome" where
  "jmpxx_slow_chain st at x dep s = slow_run st at (chain_depth dep) x s"


subsection \<open>The kernels do the same work\<close>

definition kernel_ref :: "nat \<Rightarrow> c_int \<Rightarrow> c_int outcome" where
  "kernel_ref d x = (if c_negative x then Returns (- 42) else int_result (2 * sint x + int d))"

lemma c_neg_fail_code [simp]: "c_neg jxb_fail_code = Returns (- 42)"
  by (simp add: c_neg_def jxb_fail_code_def int_result_def)

lemma int_result_step:
  assumes "0 \<le> i"
  shows "bind_outcome (int_result i) (\<lambda>v. c_add v jxb_frame_step) = int_result (i + 1)"
  using int_result_cases [of i]
proof
  assume u: "int_result i = Undefined"
  then show ?thesis using int_result_Undefined_mono [OF assms _ u, of "i + 1"] by simp
next
  assume "\<exists>v. int_result i = Returns v \<and> sint v = i"
  then show ?thesis by (auto simp: c_add_def jxb_frame_step_def)
qed

lemma map_bind_outcome:
  "bind_outcome (map_outcome_value f r) k = bind_outcome r (\<lambda>x. k (f x))"
  "map_outcome_value f (bind_outcome r g) = bind_outcome r (\<lambda>x. map_outcome_value f (g x))"
  by (cases r; simp)+

lemma not_negative_double: "\<not> c_negative x \<Longrightarrow> 0 \<le> 2 * sint x + int d"
  by (simp add: c_negative_def)

lemma hw_frame_eq:
  "hw_frame d x =
     (if c_negative x then Returns \<lparr>hw_union = Hw_Err jxb_fail_code jxb_fail_domain, hw_ok = False\<rparr>
      else map_outcome_value (\<lambda>v. \<lparr>hw_union = Hw_Value v, hw_ok = True\<rparr>) (int_result (2 * sint x + int d)))"
proof (induction d)
  case 0
  then show ?case by (simp add: c_mul_def mult.commute)
next
  case (Suc d)
  have e: "2 * sint x + int (Suc d) = (2 * sint x + int d) + 1" by simp
  show ?case
    using Suc not_negative_double [of x d] unfolding e
    by (simp add: map_bind_outcome hw_value_def int_result_step [symmetric])
qed

lemma ex_frame_eq:
  "ex_frame d x =
     (if c_negative x then Returns (Thrown (jxb_fail_code, jxb_fail_domain))
      else map_outcome_value Normal (int_result (2 * sint x + int d)))"
proof (induction d)
  case 0
  then show ?case by (simp add: c_mul_def mult.commute)
next
  case (Suc d)
  have e: "2 * sint x + int (Suc d) = (2 * sint x + int d) + 1" by simp
  show ?case
    using Suc not_negative_double [of x d] unfolding e
    by (simp add: map_bind_outcome int_result_step [symmetric])
qed

lemma exp_frame_eq:
  "exp_frame d x =
     (if c_negative x then Returns (Unexpected (jxb_fail_code, jxb_fail_domain))
      else map_outcome_value Expected (int_result (2 * sint x + int d)))"
proof (induction d)
  case 0
  then show ?case by (simp add: c_mul_def mult.commute)
next
  case (Suc d)
  have e: "2 * sint x + int (Suc d) = (2 * sint x + int d) + 1" by simp
  show ?case
    using Suc not_negative_double [of x d] unfolding e
    by (simp add: map_bind_outcome int_result_step [symmetric])
qed

lemma ec_frame_eq:
  "ec_frame gen sys d x out_param =
     (if c_negative x then Returns (\<lparr>ec_value = einval, ec_category = gen\<rparr>, out_param)
      else map_outcome_value (\<lambda>v. (\<lparr>ec_value = 0, ec_category = sys\<rparr>, v)) (int_result (2 * sint x + int d)))"
proof (induction d arbitrary: out_param)
  case 0
  then show ?case by (simp add: c_mul_def mult.commute)
next
  case (Suc d)
  have e: "2 * sint x + int (Suc d) = (2 * sint x + int d) + 1" by simp
  show ?case
    using Suc not_negative_double [of x d] unfolding e
    by (simp add: map_bind_outcome int_result_step [symmetric] ec_true_def einval_def)
qed

lemma jmpxx_frame_wrappers:
  "jmpxx_frame st at d x = wrappers st at (leaf_of make_minimal (at 0) jxb_fail_code jxb_fail_domain x) d"
  by (induction d) (auto simp: leaf_of_def make_minimal_def jxb_frame_step_def)

lemma jmpxx_run_eq:
  assumes "plain_site st"
  shows "jmpxx_run st at d x s = kernel_ref d x"
proof (cases "c_negative x")
  case True
  let ?e = "mk_error jxb_fail_code jxb_fail_domain"
  let ?l = "leaf_of make_minimal (at 0) jxb_fail_code jxb_fail_domain x"
  have "?l s = (Returns (result_of_failure id (fail ?e)), s)"
    by (rule leaf_of_failure [OF True]) (simp add: make_minimal_def)
  from wrappers_failure [of st ?l s ?e s, OF assms this, of at d] show ?thesis
    using True
    by (simp add: jmpxx_run_def jmpxx_frame_wrappers kernel_ref_def landed_code_def transport_simps
        mk_error_def error_checked_def require_error_def read_err_def)
next
  case False
  let ?l = "leaf_of make_minimal (at 0) jxb_fail_code jxb_fail_domain x"
  have "?l s = (map_outcome_value result_of_value (int_result (sint x * 2)), s)"
    by (rule leaf_of_value [OF False])
  from wrappers_value [of st ?l s _ s, OF assms this, of at d] show ?thesis
    using False int_result_cases [of "2 * sint x + int d"]
    by (auto simp: jmpxx_run_def jmpxx_frame_wrappers kernel_ref_def landed_code_def transport_simps
        mult.commute c_negative_def value_checked_def require_value_def read_val_def)
qed

text \<open>
  The five kernels compute the same function at every depth: for a negative input the
  negated failure code, otherwise twice the input plus one step per frame, and undefined
  exactly when that leaves the range of \<open>int\<close>.  So a measured difference between them is
  the mechanism's.
\<close>

theorem kernels_do_the_same_work:
  assumes "plain_site st"
  shows "jmpxx_chain st at x dep s = handwritten_chain x dep \<and>
         errorcode_chain gen sys x dep = handwritten_chain x dep \<and>
         exceptions_chain x dep = handwritten_chain x dep \<and>
         expected_chain x dep = handwritten_chain x dep \<and>
         handwritten_chain x dep =
           (if c_negative x then Returns (- 42) else int_result (2 * sint x + int (chain_depth dep)))"
proof -
  have "hw_run (chain_depth dep) x = kernel_ref (chain_depth dep) x"
    "ec_run gen sys (chain_depth dep) x = kernel_ref (chain_depth dep) x"
    "ex_run (chain_depth dep) x = kernel_ref (chain_depth dep) x"
    "exp_run (chain_depth dep) x = kernel_ref (chain_depth dep) x"
    by (simp_all add: hw_run_def hw_frame_eq ec_run_def ec_frame_eq ex_run_def ex_frame_eq
        exp_run_def exp_frame_eq kernel_ref_def map_bind_outcome hw_value_def hw_code_def ec_true_def einval_def)
  then show ?thesis
    by (simp add: jmpxx_chain_def handwritten_chain_def errorcode_chain_def exceptions_chain_def
        expected_chain_def jmpxx_run_eq [OF assms] kernel_ref_def)
qed

theorem kernels_do_the_same_work_witness:
  "jmpxx_chain (shipped_site 0 False note_propagation_default) (\<lambda>n. n) 5 8 () = Returns 18"
  using kernels_do_the_same_work [OF plain_shipped_site, of 0 False note_propagation_default "\<lambda>n. n" 5 8 "()" 0 0]
  by (simp add: c_negative_def int_result_def chain_depth_def jxb_depth_def jxb_depth_deep_def)

text \<open>
  The slowed kernel of the perf gate's self-test has no defined result: the injected
  mixing multiplies a signed \<open>int\<close> by 1103515245, and every value the chain delivers (the
  negated failure code or at least the depth) overflows in the first step, for every input
  and depth.  The comment there describes the work as depending on the runtime result so
  that it is not folded away.
\<close>

theorem slowed_kernel_always_overflows:
  assumes "plain_site st"
  shows "jmpxx_slow_chain st at x dep s = Undefined"
proof -
  let ?d = "chain_depth dep"
  have mix: "slow_mix v = Undefined" if "sint v \<ge> 8 \<or> sint v \<le> - 42" for v
  proof -
    have "int_result (sint v * 1103515245) = Undefined"
      using that by (auto simp: int_result_def)
    then show ?thesis by (simp add: slow_mix_def c_mul_def)
  qed
  have big: "sint v \<ge> 8 \<or> sint v \<le> - 42" if "kernel_ref ?d x = Returns v" for v
    using that by (auto simp: kernel_ref_def int_result_Returns_iff c_negative_def chain_depth_def
        jxb_depth_def jxb_depth_deep_def split: if_splits)
  have work: "slow_work 96 v = Undefined" if "slow_mix v = Undefined" for v
    using that slow_work.simps(2) [of 95 v] by simp
  have "kernel_ref ?d x = Undefined \<or> (\<exists>v. kernel_ref ?d x = Returns v)"
    by (simp add: kernel_ref_def int_result_def)
  then have "bind_outcome (kernel_ref ?d x) (slow_work 96) = Undefined"
    using work [OF mix [OF big]] by auto
  then show ?thesis
    using jmpxx_run_eq [OF assms, of at ?d x s]
    by (simp add: jmpxx_slow_chain_def slow_run_def jmpxx_run_def)
qed

theorem slowed_kernel_always_overflows_witness:
  "jmpxx_slow_chain (shipped_site 0 False note_propagation_default) (\<lambda>n. n) 5 8 () = Undefined"
  by (rule slowed_kernel_always_overflows [OF plain_shipped_site])

end
