(* ===== verification/Unwind_Arm.thy ===== *)
theory Unwind_Arm
  imports Propagation
begin

text \<open>
  The non-local unwind arm (\<open>unwind/escape.hpp\<close> and the carrier of
  \<open>unwind/backend.hpp\<close>).

  The landing scopes of a thread are automatic objects, so the carriers that exist at a
  moment form a stack; a pointer to a carrier is its position in that stack, counted from
  the oldest, and 0 is the null pointer.  A pointer beyond the stack dangles, and using it
  is a value of its own.  \<open>active\<close>, \<open>prev\<close>, \<open>error_tag\<close>, \<open>ejected\<close> and the byte buffer are
  the carrier's fields, \<open>active()\<close> and \<open>escape_in_flight()\<close> the thread's two variables, and
  \<open>world\<close> everything else the program touches.

  A C++ function that may escape is a map from the thread's state to how it ends: it
  returns, it is being unwound toward a landing, or the process has stopped.  That the
  platform's unwinder carries an escape to the frame the backend designates is the subject
  of the theory of the backend; here an escape in flight names the carrier it is aimed at.
\<close>

definition payload_capacity :: nat where "payload_capacity = 32"
definition payload_align :: nat where "payload_align = 16"

record carrier =
  prev :: nat
  error_tag :: nat
  ejected :: bool
  error_buf :: "byte list"

record 'w arm =
  carriers :: "carrier list"
  active :: nat
  in_flight :: bool
  world :: 'w

datatype 'a flow =
    Normal_Flow 'a
  | Unwinding nat
  | Trapped string
  | Broken

definition initial_arm :: "'w \<Rightarrow> 'w arm" where
  "initial_arm w = \<lparr>carriers = [], active = 0, in_flight = False, world = w\<rparr>"

definition car_at :: "nat \<Rightarrow> 'w arm \<Rightarrow> carrier option" where
  "car_at p s = (if 0 < p \<and> p \<le> length (carriers s) then Some (carriers s ! (p - 1)) else None)"

definition put_car :: "nat \<Rightarrow> carrier \<Rightarrow> 'w arm \<Rightarrow> 'w arm" where
  "put_car p c s = s\<lparr>carriers := (carriers s)[p - 1 := c]\<rparr>"


subsection \<open>The payload\<close>

text \<open>\<open>copy_bytes\<close> into the start of the carrier's buffer, and the read back out of it.\<close>

definition copy_bytes :: "byte list \<Rightarrow> byte list \<Rightarrow> nat \<Rightarrow> byte list" where
  "copy_bytes dst src n = take n src @ drop n dst"

text \<open>What is known of an error type: its size, its alignment, whether it is trivially copyable.\<close>

record error_type =
  size_of :: nat
  align_of :: nat
  trivially_copyable :: bool

definition valid_error_type :: "error_type \<Rightarrow> bool" where
  "valid_error_type t \<longleftrightarrow>
     trivially_copyable t \<and> size_of t \<le> payload_capacity \<and> align_of t \<le> payload_align"

definition read_error :: "error_type \<Rightarrow> carrier \<Rightarrow> byte list" where
  "read_error t car = take (size_of t) (error_buf car)"


subsection \<open>Ejecting\<close>

definition no_scope_reason :: string where
  "no_scope_reason = ''jmpxx::unwind::eject: no active escape_scope on this thread''"

definition mismatch_reason :: string where
  "mismatch_reason = ''jmpxx::unwind::eject: error type does not match the active escape_scope''"

definition second_escape_reason :: string where
  "second_escape_reason =
     ''jmpxx::unwind::eject: an escape is already unwinding on this thread; a destructor running as its cleanup cannot start a second escape''"

definition swallowed_reason :: string where
  "swallowed_reason =
     ''jmpxx::unwind: a non-local escape was swallowed by a catch(...) that did not rethrow; it never reached its landing''"

definition no_unwind_reason :: string where
  "no_unwind_reason =
     ''jmpxx::unwind: the platform forced unwind did not reach a landing; the configuration is missing unwind cleanup tables''"

definition report_swallowed_escape :: "'a flow" where
  "report_swallowed_escape = Trapped swallowed_reason"

text \<open>
  The backends' ways to start the transfer: a forced unwind, which traps where the platform
  cannot unwind (\<open>tables\<close> says whether it can), an unwinding \<open>longjmp\<close>, or a throw.
\<close>

definition drive_unwind :: "unwind_backend \<Rightarrow> bool \<Rightarrow> nat \<Rightarrow> 'a flow" where
  "drive_unwind backend tables p =
     (case backend of
        Backend_Itanium \<Rightarrow> (if tables then Unwinding p else Trapped no_unwind_reason)
      | Backend_Seh \<Rightarrow> Unwinding p
      | Backend_Wasm \<Rightarrow> Unwinding p
      | Backend_None \<Rightarrow> Trapped ''jmpxx::unwind::eject returned to its caller'')"

definition eject ::
    "unwind_backend \<Rightarrow> bool \<Rightarrow> (nat \<Rightarrow> error_type) \<Rightarrow> nat \<Rightarrow> byte list \<Rightarrow> 'w arm \<Rightarrow> 'a flow \<times> 'w arm" where
  "eject backend tables types tag err s =
     (let p = active s in
      if p = 0 then (Trapped no_scope_reason, s)
      else
        (case car_at p s of
           None \<Rightarrow> (Broken, s)
         | Some car \<Rightarrow>
             if error_tag car \<noteq> tag then (Trapped mismatch_reason, s)
             else if in_flight s then (Trapped second_escape_reason, s)
             else
               (let car = car\<lparr>error_buf := copy_bytes (error_buf car) err (size_of (types tag)),
                              ejected := True\<rparr>;
                    s = (put_car p car s)\<lparr>in_flight := True\<rparr>
                in (drive_unwind backend tables p, s))))"


subsection \<open>The landing scope\<close>

text \<open>
  Entering registers the new carrier, whose buffer is uninitialised storage, as the
  innermost landing; the guard's destructor restores the previous one, and the carrier's
  lifetime ends with the frame.
\<close>

definition scope_enter :: "nat \<Rightarrow> byte list \<Rightarrow> 'w arm \<Rightarrow> 'w arm" where
  "scope_enter tag junk s =
     s\<lparr>carriers := carriers s @ [\<lparr>prev = active s, error_tag = tag, ejected = False, error_buf = junk\<rparr>],
       active := Suc (length (carriers s))\<rparr>"

definition scope_leave :: "nat \<Rightarrow> 'w arm \<Rightarrow> 'w arm" where
  "scope_leave p s =
     (case car_at p s of
        None \<Rightarrow> s
      | Some car \<Rightarrow> s\<lparr>carriers := take (p - 1) (carriers s), active := prev car\<rparr>)"

text \<open>
  \<open>escape_scope\<close>.  An escape aimed at this scope's carrier lands here; on WebAssembly the
  landing catches the signal whichever carrier it was aimed at.  Any other escape passes,
  running the guard's destructor.
\<close>

definition escape_scope ::
    "unwind_backend \<Rightarrow> (nat \<Rightarrow> error_type) \<Rightarrow> nat \<Rightarrow> byte list \<Rightarrow> ('w arm \<Rightarrow> 'v flow \<times> 'w arm) \<Rightarrow>
     'w arm \<Rightarrow> ('v, byte list) result flow \<times> 'w arm" where
  "escape_scope backend types tag junk body s =
     (let p = Suc (length (carriers s)) in
      case body (scope_enter tag junk s) of
        (Normal_Flow v, s) \<Rightarrow>
          (case car_at p s of
             None \<Rightarrow> (Broken, s)
           | Some car \<Rightarrow>
               if ejected car then (report_swallowed_escape, s)
               else (Normal_Flow (result_in_place id v), scope_leave p s))
      | (Unwinding q, s) \<Rightarrow>
          if q = p \<or> backend = Backend_Wasm then
            (case car_at p s of
               None \<Rightarrow> (Broken, s)
             | Some car \<Rightarrow>
                 (Normal_Flow (result_of_failure id (fail (read_error (types tag) car))),
                  scope_leave p (s\<lparr>in_flight := False\<rparr>)))
          else (Unwinding q, scope_leave p s)
      | (Trapped m, s) \<Rightarrow> (Trapped m, s)
      | (Broken, s) \<Rightarrow> (Broken, s))"


subsection \<open>The frames in between\<close>

text \<open>
  An automatic object of a frame on the path: its destructor runs when the frame returns
  and, as a cleanup, when an escape unwinds the frame.  A destructor is \<open>noexcept\<close>, so an
  escape that starts in it and does not land in it ends the program.
\<close>

definition finish_destructor :: "unit flow \<times> 'w arm \<Rightarrow> 'a flow \<Rightarrow> 'a flow \<times> 'w arm" where
  "finish_destructor d r =
     (case d of
        (Normal_Flow _, s) \<Rightarrow> (r, s)
      | (Unwinding _, s) \<Rightarrow> (Trapped ''std::terminate'', s)
      | (Trapped m, s) \<Rightarrow> (Trapped m, s)
      | (Broken, s) \<Rightarrow> (Broken, s))"

definition with_object ::
    "('w arm \<Rightarrow> unit flow \<times> 'w arm) \<Rightarrow> ('w arm \<Rightarrow> 'a flow \<times> 'w arm) \<Rightarrow> 'w arm \<Rightarrow> 'a flow \<times> 'w arm" where
  "with_object dtor body s =
     (case body s of
        (Normal_Flow v, s) \<Rightarrow> finish_destructor (dtor s) (Normal_Flow v)
      | (Unwinding p, s) \<Rightarrow> finish_destructor (dtor s) (Unwinding p)
      | (Trapped m, s) \<Rightarrow> (Trapped m, s)
      | (Broken, s) \<Rightarrow> (Broken, s))"

text \<open>
  A frame with a \<open>catch (...)\<close>.  What the handler does to an escape under a forced unwind is
  the decision of the C++ runtime (\<open>docs/reference/unwind.md\<close>, \<open>docs/design/unwind-arm.md\<close>),
  which is not code of the repository, so it is a parameter.  A runtime runs the handler, or
  lets the escape pass the frame as if there were no handler, or skips the frame, its own
  automatic objects included.  Where it runs the handler it may or may not be able to resume
  the escape at a \<open>throw;\<close>, and terminates where it cannot.  The three runtimes the
  documentation measures are instances.

  On WebAssembly the escape is an ordinary exception: the handler runs and a rethrow resumes
  it.  A \<open>longjmp\<close> is no exception and passes.
\<close>

datatype catch_behaviour = Runs_Handler | Passes_By | Skips_Frame

record cxx_runtime =
  on_forced_unwind :: catch_behaviour
  resumes_rethrow :: bool

definition libstdcxx :: cxx_runtime where
  "libstdcxx = \<lparr>on_forced_unwind = Runs_Handler, resumes_rethrow = True\<rparr>"

definition libcxxabi :: cxx_runtime where
  "libcxxabi = \<lparr>on_forced_unwind = Runs_Handler, resumes_rethrow = False\<rparr>"

definition libcxxrt :: cxx_runtime where
  "libcxxrt = \<lparr>on_forced_unwind = Skips_Frame, resumes_rethrow = False\<rparr>"

definition on_escape :: "cxx_runtime \<Rightarrow> unwind_backend \<Rightarrow> catch_behaviour" where
  "on_escape R backend =
     (case backend of
        Backend_Wasm \<Rightarrow> Runs_Handler
      | Backend_Seh \<Rightarrow> Passes_By
      | _ \<Rightarrow> on_forced_unwind R)"

definition rethrow_resumes :: "cxx_runtime \<Rightarrow> unwind_backend \<Rightarrow> bool" where
  "rethrow_resumes R backend \<longleftrightarrow> backend = Backend_Wasm \<or> resumes_rethrow R"

text \<open>
  The cleanup callback of the exception object of a forced unwind: it fires when a handler
  that ran to its end without rethrowing has consumed the object.  A signal thrown on
  WebAssembly has no such callback; there the landing scope finds the carrier marked.
\<close>

definition escape_cleanup :: "'a flow" where
  "escape_cleanup = report_swallowed_escape"

definition leave_handler ::
    "cxx_runtime \<Rightarrow> unwind_backend \<Rightarrow> bool \<Rightarrow> nat \<Rightarrow> ('w arm \<Rightarrow> unit flow \<times> 'w arm) \<Rightarrow>
     'a flow \<times> 'w arm \<Rightarrow> 'a flow \<times> 'w arm" where
  "leave_handler R backend rethrows p dtor h =
     (case h of
        (Normal_Flow v, s) \<Rightarrow>
          if rethrows then
            (if rethrow_resumes R backend then finish_destructor (dtor s) (Unwinding p)
             else (Trapped ''std::terminate'', s))
          else if backend = Backend_Wasm then finish_destructor (dtor s) (Normal_Flow v)
          else (escape_cleanup, s)
      | (Unwinding q, s) \<Rightarrow>
          if backend = Backend_Wasm then finish_destructor (dtor s) (Unwinding q) else (escape_cleanup, s)
      | (Trapped m, s) \<Rightarrow> (Trapped m, s)
      | (Broken, s) \<Rightarrow> (Broken, s))"

definition catch_all ::
    "cxx_runtime \<Rightarrow> unwind_backend \<Rightarrow> bool \<Rightarrow> ('w arm \<Rightarrow> unit flow \<times> 'w arm) \<Rightarrow>
     ('w arm \<Rightarrow> 'a flow \<times> 'w arm) \<Rightarrow> ('w arm \<Rightarrow> 'a flow \<times> 'w arm) \<Rightarrow> 'w arm \<Rightarrow> 'a flow \<times> 'w arm" where
  "catch_all R backend rethrows dtor body handler s =
     (case body s of
        (Normal_Flow v, s) \<Rightarrow> finish_destructor (dtor s) (Normal_Flow v)
      | (Unwinding p, s) \<Rightarrow>
          (case on_escape R backend of
             Runs_Handler \<Rightarrow> leave_handler R backend rethrows p dtor (handler s)
           | Passes_By \<Rightarrow> finish_destructor (dtor s) (Unwinding p)
           | Skips_Frame \<Rightarrow> (Unwinding p, s))
      | (Trapped m, s) \<Rightarrow> (Trapped m, s)
      | (Broken, s) \<Rightarrow> (Broken, s))"

lemmas [arm_simps] = eject_def drive_unwind_def escape_scope_def scope_enter_def scope_leave_def
  with_object_def finish_destructor_def catch_all_def leave_handler_def escape_cleanup_def report_swallowed_escape_def read_error_def
  copy_bytes_def put_car_def car_at_def


subsection \<open>Programs over the arm\<close>

text \<open>
  What code compiled against the arm can do, as a datatype: work on the world, call and go
  on with the value, hold an automatic object, eject, open a landing scope and go on with
  its result, or run under a catch-all, which may rethrow, in a frame that holds an object
  of its own.  \<open>exec\<close> runs it on the arm.
\<close>

datatype 'w client =
    Value c_int
  | Work "'w \<Rightarrow> 'w" "'w client"
  | Call "'w client" "c_int \<Rightarrow> 'w client"
  | Object "'w \<Rightarrow> 'w" "'w client" "'w client"
  | Eject nat "byte list"
  | Scope nat "byte list" "'w client" "(c_int, byte list) result \<Rightarrow> 'w client"
  | Catch_All bool "'w \<Rightarrow> 'w" "'w client" "'w client" "'w client"

definition discard :: "'a flow \<times> 'w arm \<Rightarrow> unit flow \<times> 'w arm" where
  "discard r =
     (case r of
        (Normal_Flow _, s) \<Rightarrow> (Normal_Flow (), s)
      | (Unwinding p, s) \<Rightarrow> (Unwinding p, s)
      | (Trapped m, s) \<Rightarrow> (Trapped m, s)
      | (Broken, s) \<Rightarrow> (Broken, s))"

definition bind_flow ::
    "'a flow \<times> 'w arm \<Rightarrow> ('a \<Rightarrow> 'w arm \<Rightarrow> 'b flow \<times> 'w arm) \<Rightarrow> 'b flow \<times> 'w arm" where
  "bind_flow r k =
     (case r of
        (Normal_Flow v, s) \<Rightarrow> k v s
      | (Unwinding p, s) \<Rightarrow> (Unwinding p, s)
      | (Trapped m, s) \<Rightarrow> (Trapped m, s)
      | (Broken, s) \<Rightarrow> (Broken, s))"

primrec exec ::
    "cxx_runtime \<Rightarrow> unwind_backend \<Rightarrow> bool \<Rightarrow> (nat \<Rightarrow> error_type) \<Rightarrow> 'w client \<Rightarrow> 'w arm \<Rightarrow> c_int flow \<times> 'w arm" where
  "exec R B T types (Value v) = (\<lambda>s. (Normal_Flow v, s))"
| "exec R B T types (Work f c) = (\<lambda>s. exec R B T types c (s\<lparr>world := f (world s)\<rparr>))"
| "exec R B T types (Call c k) = (\<lambda>s. bind_flow (exec R B T types c s) (\<lambda>v. exec R B T types (k v)))"
| "exec R B T types (Object ctor dtor body) =
     (\<lambda>s. with_object (\<lambda>s. discard (exec R B T types dtor s)) (exec R B T types body)
            (s\<lparr>world := ctor (world s)\<rparr>))"
| "exec R B T types (Eject tag e) = eject B T types tag e"
| "exec R B T types (Scope tag junk body k) =
     (\<lambda>s. bind_flow (escape_scope B types tag junk (exec R B T types body) s) (\<lambda>r. exec R B T types (k r)))"
| "exec R B T types (Catch_All rethrows ctor dtor body handler) =
     (\<lambda>s. catch_all R B rethrows (\<lambda>s. discard (exec R B T types dtor s)) (exec R B T types body)
            (exec R B T types handler) (s\<lparr>world := ctor (world s)\<rparr>))"

text \<open>
  The static facts about such a program: every error type an eject or a scope names passes
  the \<open>static_assert\<close>s, an ejected object has the bytes of its type, and a carrier's buffer
  is \<open>payload_capacity\<close> bytes.
\<close>

primrec typed :: "(nat \<Rightarrow> error_type) \<Rightarrow> 'w client \<Rightarrow> bool" where
  "typed types (Value v) \<longleftrightarrow> True"
| "typed types (Work f c) \<longleftrightarrow> typed types c"
| "typed types (Call c k) \<longleftrightarrow> typed types c \<and> (\<forall>v. typed types (k v))"
| "typed types (Object ctor dtor body) \<longleftrightarrow> typed types dtor \<and> typed types body"
| "typed types (Eject tag e) \<longleftrightarrow> valid_error_type (types tag) \<and> length e = size_of (types tag)"
| "typed types (Scope tag junk body k) \<longleftrightarrow>
     valid_error_type (types tag) \<and> length junk = payload_capacity \<and> typed types body \<and> (\<forall>r. typed types (k r))"
| "typed types (Catch_All rethrows ctor dtor body handler) \<longleftrightarrow>
     typed types dtor \<and> typed types body \<and> typed types handler"


subsection \<open>The reference: structured escapes\<close>

text \<open>
  What the arm promises, with no carriers, pointers, flags or buffers: an escape is an
  exception that the innermost scope catches, provided there is one, it receives that
  error type and no cleanup is running.  A catch-all does to the escape what the runtime
  decides.  \<open>R_Lost\<close> is an escape a catch-all swallowed where the platform lets it.
\<close>

datatype ref_end =
    R_Value c_int
  | R_Escape "byte list"
  | R_Trap string
  | R_Lost

definition ref_bind :: "ref_end \<times> 'w \<Rightarrow> (c_int \<Rightarrow> 'w \<Rightarrow> ref_end \<times> 'w) \<Rightarrow> ref_end \<times> 'w" where
  "ref_bind r k = (case r of (R_Value v, w) \<Rightarrow> k v w | (x, w) \<Rightarrow> (x, w))"

definition ref_destroy :: "ref_end \<times> 'w \<Rightarrow> ref_end \<Rightarrow> ref_end \<times> 'w" where
  "ref_destroy d r =
     (case d of
        (R_Value _, w) \<Rightarrow> (r, w)
      | (R_Escape _, w) \<Rightarrow> (R_Trap ''std::terminate'', w)
      | (R_Trap m, w) \<Rightarrow> (R_Trap m, w)
      | (R_Lost, w) \<Rightarrow> (R_Lost, w))"

primrec ref ::
    "cxx_runtime \<Rightarrow> unwind_backend \<Rightarrow> bool \<Rightarrow> 'w client \<Rightarrow> nat option \<Rightarrow> bool \<Rightarrow> 'w \<Rightarrow> ref_end \<times> 'w" where
  "ref R B T (Value v) = (\<lambda>scp cleanup w. (R_Value v, w))"
| "ref R B T (Work f c) = (\<lambda>scp cleanup w. ref R B T c scp cleanup (f w))"
| "ref R B T (Call c k) = (\<lambda>scp cleanup w. ref_bind (ref R B T c scp cleanup w) (\<lambda>v. ref R B T (k v) scp cleanup))"
| "ref R B T (Object ctor dtor body) =
     (\<lambda>scp cleanup w.
        case ref R B T body scp cleanup (ctor w) of
          (R_Value v, w) \<Rightarrow> ref_destroy (ref R B T dtor scp cleanup w) (R_Value v)
        | (R_Escape e, w) \<Rightarrow> ref_destroy (ref R B T dtor scp True w) (R_Escape e)
        | (R_Trap m, w) \<Rightarrow> (R_Trap m, w)
        | (R_Lost, w) \<Rightarrow> (R_Lost, w))"
| "ref R B T (Eject tag e) =
     (\<lambda>scp cleanup w.
        if scp = None then (R_Trap no_scope_reason, w)
        else if scp \<noteq> Some tag then (R_Trap mismatch_reason, w)
        else if cleanup then (R_Trap second_escape_reason, w)
        else if B = Backend_Itanium \<and> \<not> T then (R_Trap no_unwind_reason, w)
        else if B = Backend_None then (R_Trap ''jmpxx::unwind::eject returned to its caller'', w)
        else (R_Escape e, w))"
| "ref R B T (Scope tag junk body k) =
     (\<lambda>scp cleanup w.
        case ref R B T body (Some tag) cleanup w of
          (R_Value v, w) \<Rightarrow> ref R B T (k (result_in_place id v)) scp cleanup w
        | (R_Escape e, w) \<Rightarrow> ref R B T (k (result_of_failure id (fail e))) scp cleanup w
        | (R_Trap m, w) \<Rightarrow> (R_Trap m, w)
        | (R_Lost, w) \<Rightarrow> (R_Lost, w))"
| "ref R B T (Catch_All rethrows ctor dtor body handler) =
     (\<lambda>scp cleanup w.
        case ref R B T body scp cleanup (ctor w) of
          (R_Value v, w) \<Rightarrow> ref_destroy (ref R B T dtor scp cleanup w) (R_Value v)
        | (R_Escape e, w) \<Rightarrow>
            (case on_escape R B of
               Runs_Handler \<Rightarrow>
                 (case ref R B T handler scp True w of
                    (R_Value v, w) \<Rightarrow>
                      if rethrows then
                        (if rethrow_resumes R B then ref_destroy (ref R B T dtor scp True w) (R_Escape e)
                         else (R_Trap ''std::terminate'', w))
                      else if B = Backend_Wasm then (R_Lost, w)
                      else (R_Trap swallowed_reason, w)
                  | (x, w) \<Rightarrow> (x, w))
             | Passes_By \<Rightarrow> ref_destroy (ref R B T dtor scp True w) (R_Escape e)
             | Skips_Frame \<Rightarrow> (R_Escape e, w))
        | (R_Trap m, w) \<Rightarrow> (R_Trap m, w)
        | (R_Lost, w) \<Rightarrow> (R_Lost, w))"


subsection \<open>The arm implements structured escapes\<close>

text \<open>The carriers form one chain, in stack order, that \<open>active\<close> heads, with full buffers.\<close>

definition arm_ok :: "'w arm \<Rightarrow> bool" where
  "arm_ok s \<longleftrightarrow> active s = length (carriers s) \<and>
     (\<forall>i < length (carriers s). prev (carriers s ! i) = i \<and> length (error_buf (carriers s ! i)) = payload_capacity)"

definition innermost :: "'w arm \<Rightarrow> nat option" where
  "innermost s = (if active s = 0 then None else Some (error_tag (last (carriers s))))"

text \<open>The state with \<open>e\<close> stored in the innermost carrier and the escape in flight.\<close>

definition ejected_to :: "byte list \<Rightarrow> 'w arm \<Rightarrow> 'w arm" where
  "ejected_to e s =
     s\<lparr>carriers := butlast (carriers s) @
        [(last (carriers s))\<lparr>error_buf := copy_bytes (error_buf (last (carriers s))) e (length e), ejected := True\<rparr>],
       in_flight := True\<rparr>"

definition agree :: "(nat \<Rightarrow> error_type) \<Rightarrow> 'w arm \<Rightarrow> ref_end \<times> 'w \<Rightarrow> c_int flow \<times> 'w arm \<Rightarrow> bool" where
  "agree types s q x \<longleftrightarrow>
     (case q of
        (R_Value v, w) \<Rightarrow> x = (Normal_Flow v, s\<lparr>world := w\<rparr>)
      | (R_Escape e, w) \<Rightarrow>
          \<not> in_flight s \<and> active s \<noteq> 0 \<and> length e = size_of (types (error_tag (last (carriers s)))) \<and>
          length e \<le> payload_capacity \<and>
          x = (Unwinding (active s), (ejected_to e s)\<lparr>world := w\<rparr>)
      | (R_Trap m, w) \<Rightarrow> fst x = Trapped m \<and> world (snd x) = w
      | (R_Lost, w) \<Rightarrow>
          (\<exists>m. fst x = Trapped m) \<or>
          (\<not> in_flight s \<and> active s \<noteq> 0 \<and>
           (\<exists>v e w'. length e \<le> payload_capacity \<and> x = (Normal_Flow v, (ejected_to e s)\<lparr>world := w'\<rparr>))))"

lemma arm_ok_world [simp]: "arm_ok (s\<lparr>world := w\<rparr>) \<longleftrightarrow> arm_ok s"
  by (simp add: arm_ok_def)

lemma innermost_world [simp]: "innermost (s\<lparr>world := w\<rparr>) = innermost s"
  by (simp add: innermost_def)

lemma ejected_to_world: "ejected_to e (s\<lparr>world := w\<rparr>) = (ejected_to e s)\<lparr>world := w\<rparr>"
  by (simp add: ejected_to_def)

lemma ejected_to_sel [simp]:
  "in_flight (ejected_to e s)" "active (ejected_to e s) = active s" "world (ejected_to e s) = world s"
  by (simp_all add: ejected_to_def)

lemma length_copy_bytes: "n \<le> length dst \<Longrightarrow> length src = n \<Longrightarrow> length (copy_bytes dst src n) = length dst"
  by (simp add: copy_bytes_def)

lemma last_carrier:
  assumes "arm_ok s" and "active s \<noteq> 0"
  shows "carriers s \<noteq> []" and "prev (last (carriers s)) = length (carriers s) - 1"
    and "length (error_buf (last (carriers s))) = payload_capacity"
  using assms by (auto simp: arm_ok_def last_conv_nth)

lemma ejected_to_ok:
  assumes "arm_ok s" and "active s \<noteq> 0" and "length e \<le> payload_capacity"
  shows "arm_ok (ejected_to e s)" and "innermost (ejected_to e s) = innermost s"
proof -
  note l = last_carrier [OF assms(1,2)]
  show "arm_ok (ejected_to e s)"
    using assms l
    by (auto simp: arm_ok_def ejected_to_def nth_append nth_butlast length_copy_bytes less_Suc_eq)
  show "innermost (ejected_to e s) = innermost s"
    by (simp add: innermost_def ejected_to_def)
qed

lemma scope_enter_ok:
  assumes "arm_ok s" and "length junk = payload_capacity"
  shows "arm_ok (scope_enter tag junk s)" and "innermost (scope_enter tag junk s) = Some tag"
    and "in_flight (scope_enter tag junk s) = in_flight s" and "world (scope_enter tag junk s) = world s"
    and "active (scope_enter tag junk s) = Suc (length (carriers s))"
  using assms by (auto simp: arm_ok_def innermost_def scope_enter_def nth_append less_Suc_eq)

text \<open>Leaving a scope whose body did or did not escape restores the state it was entered in.\<close>

lemma scope_leave_normal:
  "car_at (Suc (length (carriers s))) ((scope_enter tag junk s)\<lparr>world := w\<rparr>) =
     Some \<lparr>prev = active s, error_tag = tag, ejected = False, error_buf = junk\<rparr>"
  "scope_leave (Suc (length (carriers s))) ((scope_enter tag junk s)\<lparr>world := w\<rparr>) = s\<lparr>world := w\<rparr>"
  by (simp_all add: car_at_def scope_enter_def scope_leave_def)

lemma scope_leave_ejected:
  "car_at (Suc (length (carriers s))) ((ejected_to e (scope_enter tag junk s))\<lparr>world := w\<rparr>) =
     Some \<lparr>prev = active s, error_tag = tag, ejected = True, error_buf = copy_bytes junk e (length e)\<rparr>"
  "scope_leave (Suc (length (carriers s))) ((ejected_to e (scope_enter tag junk s))\<lparr>world := w, in_flight := False\<rparr>) =
     s\<lparr>world := w, in_flight := False\<rparr>"
  by (simp_all add: car_at_def scope_enter_def scope_leave_def ejected_to_def nth_append)

lemma update_last: "xs \<noteq> [] \<Longrightarrow> xs[length xs - 1 := y] = butlast xs @ [y]"
  by (cases xs rule: rev_cases) simp_all

lemma eject_in_scope:
  assumes "arm_ok s" and "active s \<noteq> 0" and "length e = size_of (types tag)"
  shows "eject B T types tag e s =
    (if error_tag (last (carriers s)) \<noteq> tag then (Trapped mismatch_reason, s)
     else if in_flight s then (Trapped second_escape_reason, s)
     else (drive_unwind B T (active s), ejected_to e s))"
proof -
  note l = last_carrier [OF assms(1,2)]
  have a: "active s = length (carriers s)" using assms(1) by (simp add: arm_ok_def)
  have car: "car_at (active s) s = Some (last (carriers s))"
    using assms(2) l(1) a by (simp add: car_at_def last_conv_nth)
  have put: "put_car (active s) ((last (carriers s))\<lparr>error_buf := b, ejected := True\<rparr>) s =
      s\<lparr>carriers := butlast (carriers s) @ [(last (carriers s))\<lparr>error_buf := b, ejected := True\<rparr>]\<rparr>" for b
    using update_last [OF l(1)] a by (simp add: put_car_def)
  show ?thesis
    using assms(2,3) by (simp add: eject_def car put Let_def ejected_to_def)
qed

lemma eject_ok:
  assumes "arm_ok s" and "valid_error_type (types tag)" and "length e = size_of (types tag)"
  shows "agree types s (ref R B T (Eject tag e) (innermost s) (in_flight s) (world s)) (eject B T types tag e s)"
proof (cases "active s = 0")
  case True
  then show ?thesis by (simp add: agree_def eject_def innermost_def)
next
  case False
  have "ejected_to e s\<lparr>world := world s\<rparr> = ejected_to e s" by (simp add: ejected_to_def)
  then show ?thesis
    using False assms(2,3)
    by (auto simp: eject_in_scope [of s e types tag B T, OF assms(1) False assms(3)] agree_def innermost_def drive_unwind_def valid_error_type_def split: unwind_backend.split)
qed

text \<open>While an escape is in flight no second one starts, so none can be lost either.\<close>

lemma ref_cleanup: "fst (ref R B T c scp True w) \<noteq> R_Lost \<and> (\<forall>e. fst (ref R B T c scp True w) \<noteq> R_Escape e)"
proof (induction c arbitrary: scp w)
  case (Call c k)
  obtain q w1 where c: "ref R B T c scp True w = (q, w1)" by (cases "ref R B T c scp True w")
  with Call.IH(1) [of scp w] show ?case
    using Call.IH(2) by (cases q) (auto simp: ref_bind_def)
next
  case (Object ctor dtor body)
  obtain q w1 where b: "ref R B T body scp True (ctor w) = (q, w1)" by (cases "ref R B T body scp True (ctor w)")
  obtain q' w2 where d: "ref R B T dtor scp True w1 = (q', w2)" by (cases "ref R B T dtor scp True w1")
  show ?case
    using b d Object.IH(1) [of scp w1] Object.IH(2) [of scp "ctor w"]
    by (cases q; cases q') (auto simp: ref_destroy_def)
next
  case (Scope tag junk body k)
  obtain q w1 where b: "ref R B T body (Some tag) True w = (q, w1)" by (cases "ref R B T body (Some tag) True w")
  show ?case
    using b Scope.IH(1) [of "Some tag" w] Scope.IH(2) by (cases q) auto
next
  case (Catch_All rethrows ctor dtor body handler)
  obtain q w1 where b: "ref R B T body scp True (ctor w) = (q, w1)" by (cases "ref R B T body scp True (ctor w)")
  obtain q' w2 where d: "ref R B T dtor scp True w1 = (q', w2)" by (cases "ref R B T dtor scp True w1")
  show ?case
    using b d Catch_All.IH(1) [of scp w1] Catch_All.IH(2) [of scp "ctor w"]
    by (cases q; cases q') (auto simp: ref_destroy_def)
qed simp_all

lemma agree_cases:
  assumes "agree types s (q, w) x"
  obtains (value_end) v where "q = R_Value v" "x = (Normal_Flow v, s\<lparr>world := w\<rparr>)"
    | (escape_end) e where "q = R_Escape e" "\<not> in_flight s" "active s \<noteq> 0"
        "length e = size_of (types (error_tag (last (carriers s))))" "length e \<le> payload_capacity"
        "x = (Unwinding (active s), (ejected_to e s)\<lparr>world := w\<rparr>)"
    | (trap_end) m s' where "q = R_Trap m" "x = (Trapped m, s')" "world s' = w"
    | (lost_trap) m s' where "q = R_Lost" "x = (Trapped m, s')"
    | (lost_end) v e w' where "q = R_Lost" "\<not> in_flight s" "active s \<noteq> 0" "length e \<le> payload_capacity"
        "x = (Normal_Flow v, (ejected_to e s)\<lparr>world := w'\<rparr>)"
  using assms by (cases q; cases x) (auto simp: agree_def)

lemma agree_lost:
  "\<not> in_flight s \<Longrightarrow> active s \<noteq> 0 \<Longrightarrow> length e \<le> payload_capacity \<Longrightarrow>
     agree types s (R_Lost, w) (Normal_Flow v, (ejected_to e s)\<lparr>world := w'\<rparr>)"
  by (auto simp: agree_def)

lemma agree_lost_trap: "agree types s (R_Lost, w) (Trapped m, s')"
  by (simp add: agree_def)

text \<open>
  A program started while an escape is in flight (a cleanup, or code after a swallowed
  escape) ends by returning with the arm as it was, or stops the process.
\<close>

lemma agree_in_flight:
  assumes "agree types s (ref R B T c scp True w) x" and "in_flight s"
  shows "(\<exists>v w'. x = (Normal_Flow v, s\<lparr>world := w'\<rparr>)) \<or> (\<exists>m s'. x = (Trapped m, s'))"
proof -
  obtain q w1 where q: "ref R B T c scp True w = (q, w1)" by (cases "ref R B T c scp True w")
  from assms(1) [unfolded q] show ?thesis
    by (cases rule: agree_cases) (use assms(2) ref_cleanup [of R B T c scp w] q in auto)
qed

definition simulates :: "cxx_runtime \<Rightarrow> unwind_backend \<Rightarrow> bool \<Rightarrow> (nat \<Rightarrow> error_type) \<Rightarrow> 'w client \<Rightarrow> bool" where
  "simulates R B T types c \<longleftrightarrow>
     (\<forall>s. arm_ok s \<longrightarrow> agree types s (ref R B T c (innermost s) (in_flight s) (world s)) (exec R B T types c s))"

lemma simulatesD:
  "simulates R B T types c \<Longrightarrow> arm_ok s \<Longrightarrow>
     agree types s (ref R B T c (innermost s) (in_flight s) (world s)) (exec R B T types c s)"
  by (simp add: simulates_def)

lemma simulates_poisoned:
  assumes "simulates R B T types c" and "arm_ok s" and "active s \<noteq> 0" and "length e \<le> payload_capacity"
  shows "(\<exists>v w'. exec R B T types c ((ejected_to e s)\<lparr>world := w\<rparr>) = (Normal_Flow v, (ejected_to e s)\<lparr>world := w'\<rparr>)) \<or>
         (\<exists>m s'. exec R B T types c ((ejected_to e s)\<lparr>world := w\<rparr>) = (Trapped m, s'))"
proof -
  let ?s = "(ejected_to e s)\<lparr>world := w\<rparr>"
  have "arm_ok ?s" using ejected_to_ok [OF assms(2-4)] by simp
  from simulatesD [OF assms(1) this] show ?thesis
    using agree_in_flight [of types ?s R B T c "innermost ?s" "world ?s"] by simp
qed

lemma simulates_Call:
  fixes c :: "'w client"
  assumes "simulates R B T types c" and "\<And>v. simulates R B T types (k v)"
  shows "simulates R B T types (Call c k)"
  unfolding simulates_def
proof (intro allI impI)
  fix s :: "'w arm" assume s: "arm_ok s"
  obtain q w where q: "ref R B T c (innermost s) (in_flight s) (world s) = (q, w)"
    by (cases "ref R B T c (innermost s) (in_flight s) (world s)")
  from simulatesD [OF assms(1) s, unfolded q]
  show "agree types s (ref R B T (Call c k) (innermost s) (in_flight s) (world s)) (exec R B T types (Call c k) s)"
  proof (cases rule: agree_cases)
    case (value_end v)
    then show ?thesis
      using simulatesD [OF assms(2), of "s\<lparr>world := w\<rparr>" v] s q
      by (auto simp: ref_bind_def bind_flow_def agree_def ejected_to_world split: prod.splits ref_end.splits)
  next
    case (lost_end v e w')
    then show ?thesis
      using simulates_poisoned [OF assms(2) s lost_end(3,4), of v w'] q
      by (auto simp: ref_bind_def bind_flow_def agree_def)
  qed (use q in \<open>auto simp: ref_bind_def bind_flow_def agree_def\<close>)
qed

lemma discard_simps:
  "discard (Normal_Flow v, s) = (Normal_Flow (), s)" "discard (Unwinding p, s) = (Unwinding p, s)"
  "discard (Trapped m, s) = (Trapped m, s)" "discard (Broken, s) = (Broken, s)"
  by (simp_all add: discard_def)

text \<open>
  The destructor of a frame's object after the frame's body returned, during the escape that
  unwinds it, and after its body returned past a swallowed escape.
\<close>

lemma destroy_value:
  assumes "simulates R B T types dtor" and "arm_ok s"
  shows "agree types s (ref_destroy (ref R B T dtor (innermost s) (in_flight s) w) (R_Value v))
           (finish_destructor (discard (exec R B T types dtor (s\<lparr>world := w\<rparr>))) (Normal_Flow v))"
proof -
  let ?s = "s\<lparr>world := w\<rparr>"
  obtain q w' where d: "ref R B T dtor (innermost s) (in_flight s) w = (q, w')"
    by (cases "ref R B T dtor (innermost s) (in_flight s) w")
  from simulatesD [OF assms(1), of ?s] assms(2) have "agree types ?s (q, w') (exec R B T types dtor ?s)"
    by (simp add: d)
  then show ?thesis
    using d
    by (cases rule: agree_cases)
       (auto simp: agree_def finish_destructor_def discard_simps ref_destroy_def ejected_to_world)
qed

lemma destroy_escape:
  assumes "simulates R B T types dtor" and "arm_ok s" and "\<not> in_flight s" and "active s \<noteq> 0"
    and "length e = size_of (types (error_tag (last (carriers s))))" and "length e \<le> payload_capacity"
  shows "agree types s (ref_destroy (ref R B T dtor (innermost s) True w) (R_Escape e))
           (finish_destructor (discard (exec R B T types dtor ((ejected_to e s)\<lparr>world := w\<rparr>))) (Unwinding (active s)))"
proof -
  let ?s = "(ejected_to e s)\<lparr>world := w\<rparr>"
  have s: "arm_ok ?s" "innermost ?s = innermost s"
    using ejected_to_ok [OF assms(2,4,6)] by simp_all
  obtain q w' where d: "ref R B T dtor (innermost s) True w = (q, w')"
    by (cases "ref R B T dtor (innermost s) True w")
  from simulatesD [OF assms(1) s(1)] have "agree types ?s (q, w') (exec R B T types dtor ?s)"
    using s(2) d by simp
  then show ?thesis
    using d assms ref_cleanup [of R B T dtor "innermost s" w]
    by (cases rule: agree_cases)
       (auto simp: agree_def finish_destructor_def discard_simps ref_destroy_def ejected_to_world)
qed

lemma destroy_lost:
  assumes "simulates R B T types dtor" and "arm_ok s" and "\<not> in_flight s" and "active s \<noteq> 0"
    and "length e \<le> payload_capacity"
  shows "agree types s (R_Lost, w0)
           (finish_destructor (discard (exec R B T types dtor ((ejected_to e s)\<lparr>world := w\<rparr>))) (Normal_Flow v))"
  using simulates_poisoned [OF assms(1,2,4,5), of w] assms(3-5)
  by (auto simp: agree_lost agree_lost_trap finish_destructor_def discard_simps)

lemma simulates_Object:
  fixes body :: "'w client"
  assumes "simulates R B T types dtor" and "simulates R B T types body"
  shows "simulates R B T types (Object ctor dtor body)"
  unfolding simulates_def
proof (intro allI impI)
  fix s :: "'w arm" assume s: "arm_ok s"
  let ?s0 = "s\<lparr>world := ctor (world s)\<rparr>"
  have s0: "arm_ok ?s0" using s by simp
  obtain q w where q: "ref R B T body (innermost s) (in_flight s) (ctor (world s)) = (q, w)"
    by (cases "ref R B T body (innermost s) (in_flight s) (ctor (world s))")
  from simulatesD [OF assms(2) s0] have "agree types ?s0 (q, w) (exec R B T types body ?s0)"
    by (simp add: q)
  then show "agree types s (ref R B T (Object ctor dtor body) (innermost s) (in_flight s) (world s))
      (exec R B T types (Object ctor dtor body) s)"
  proof (cases rule: agree_cases)
    case (value_end v)
    then show ?thesis
      using q destroy_value [OF assms(1) s, of w v] by (simp add: with_object_def)
  next
    case (escape_end e)
    then show ?thesis
      using q destroy_escape [OF assms(1) s, of e w] by (simp add: with_object_def ejected_to_world)
  next
    case (lost_end v e w')
    then show ?thesis
      using q destroy_lost [OF assms(1) s, of e w w' v] by (simp add: with_object_def ejected_to_world)
  qed (use q in \<open>auto simp: agree_def with_object_def\<close>)
qed

lemma simulates_Scope:
  fixes body :: "'w client"
  assumes "valid_error_type (types tag)" and "length junk = payload_capacity"
    and "simulates R B T types body" and "\<And>r. simulates R B T types (k r)"
  shows "simulates R B T types (Scope tag junk body k)"
  unfolding simulates_def
proof (intro allI impI)
  fix s :: "'w arm" assume s: "arm_ok s"
  let ?s1 = "scope_enter tag junk s"
  note en = scope_enter_ok [OF s assms(2), of tag]
  obtain q w where q: "ref R B T body (Some tag) (in_flight s) (world s) = (q, w)"
    by (cases "ref R B T body (Some tag) (in_flight s) (world s)")
  from simulatesD [OF assms(3) en(1)] have "agree types ?s1 (q, w) (exec R B T types body ?s1)"
    by (simp add: en q)
  then show "agree types s (ref R B T (Scope tag junk body k) (innermost s) (in_flight s) (world s))
      (exec R B T types (Scope tag junk body k) s)"
  proof (cases rule: agree_cases)
    case (value_end v)
    have "escape_scope B types tag junk (exec R B T types body) s = (Normal_Flow (result_in_place id v), s\<lparr>world := w\<rparr>)"
      using value_end by (simp add: escape_scope_def scope_leave_normal)
    moreover have "agree types (s\<lparr>world := w\<rparr>) (ref R B T (k (result_in_place id v)) (innermost s) (in_flight s) w)
        (exec R B T types (k (result_in_place id v)) (s\<lparr>world := w\<rparr>))"
      using simulatesD [OF assms(4), of "s\<lparr>world := w\<rparr>"] s by simp
    ultimately show ?thesis
      using value_end(1) q
      by (auto simp: bind_flow_def agree_def ejected_to_world split: prod.splits ref_end.splits)
  next
    case (escape_end e)
    let ?r = "result_of_failure id (fail e)"
    have f: "\<not> in_flight s" using escape_end(2) en(3) by simp
    have "length e = size_of (types tag)"
      using escape_end(4) by (simp add: scope_enter_def)
    then have "escape_scope B types tag junk (exec R B T types body) s = (Normal_Flow ?r, s\<lparr>world := w\<rparr>)"
      using escape_end(6) en(5) f scope_leave_ejected [where e = e and tag = tag and junk = junk and s = s and w = w]
      by (simp add: escape_scope_def read_error_def copy_bytes_def)
    moreover have "agree types (s\<lparr>world := w\<rparr>) (ref R B T (k ?r) (innermost s) (in_flight s) w)
        (exec R B T types (k ?r) (s\<lparr>world := w\<rparr>))"
      using simulatesD [OF assms(4), of "s\<lparr>world := w\<rparr>"] s by simp
    ultimately show ?thesis
      using escape_end(1) q
      by (auto simp: bind_flow_def agree_def ejected_to_world split: prod.splits ref_end.splits)
  next
    case (lost_end v e w')
    then show ?thesis
      using q by (auto simp: agree_def bind_flow_def escape_scope_def scope_leave_ejected report_swallowed_escape_def)
  qed (use q in \<open>auto simp: agree_def bind_flow_def escape_scope_def\<close>)
qed

text \<open>
  A handler runs with the escape still in flight: a second escape from it is refused, so it
  returns with the arm as it was or stops the process; then the escape goes on, is reported
  as swallowed or, on WebAssembly, is lost.
\<close>

lemma handler_agrees:
  assumes "simulates R B T types dtor" and "simulates R B T types handler" and "arm_ok s"
    and "\<not> in_flight s" and "active s \<noteq> 0"
    and "length e = size_of (types (error_tag (last (carriers s))))" and "length e \<le> payload_capacity"
  shows "agree types s
           (case ref R B T handler (innermost s) True w of
              (R_Value v, w) \<Rightarrow>
                if rethrows then
                  (if rethrow_resumes R B then ref_destroy (ref R B T dtor (innermost s) True w) (R_Escape e)
                   else (R_Trap ''std::terminate'', w))
                else if B = Backend_Wasm then (R_Lost, w)
                else (R_Trap swallowed_reason, w)
            | (x, w) \<Rightarrow> (x, w))
           (leave_handler R B rethrows (active s) (\<lambda>s. discard (exec R B T types dtor s))
              (exec R B T types handler ((ejected_to e s)\<lparr>world := w\<rparr>)))"
proof -
  let ?s = "(ejected_to e s)\<lparr>world := w\<rparr>"
  have s: "arm_ok ?s" "innermost ?s = innermost s"
    using ejected_to_ok [OF assms(3,5,7)] by simp_all
  obtain q w' where h: "ref R B T handler (innermost s) True w = (q, w')"
    by (cases "ref R B T handler (innermost s) True w")
  from simulatesD [OF assms(2) s(1)] have "agree types ?s (q, w') (exec R B T types handler ?s)"
    using s(2) h by simp
  then show ?thesis
  proof (cases rule: agree_cases)
    case (value_end v)
    then show ?thesis
      using h destroy_escape [OF assms(1,3-7), of w'] destroy_lost [OF assms(1,3-5,7), of w' w' v]
      by (auto simp: leave_handler_def agree_def escape_cleanup_def report_swallowed_escape_def)
  qed (use h ref_cleanup [of R B T handler "innermost s" w] in \<open>auto simp: leave_handler_def agree_def\<close>)
qed

lemma simulates_Catch_All:
  fixes body :: "'w client"
  assumes "simulates R B T types dtor" and "simulates R B T types body" and "simulates R B T types handler"
  shows "simulates R B T types (Catch_All rethrows ctor dtor body handler)"
  unfolding simulates_def
proof (intro allI impI)
  fix s :: "'w arm" assume s: "arm_ok s"
  let ?s0 = "s\<lparr>world := ctor (world s)\<rparr>"
  have s0: "arm_ok ?s0" using s by simp
  obtain q w where q: "ref R B T body (innermost s) (in_flight s) (ctor (world s)) = (q, w)"
    by (cases "ref R B T body (innermost s) (in_flight s) (ctor (world s))")
  from simulatesD [OF assms(2) s0] have "agree types ?s0 (q, w) (exec R B T types body ?s0)"
    by (simp add: q)
  then show "agree types s (ref R B T (Catch_All rethrows ctor dtor body handler) (innermost s) (in_flight s) (world s))
      (exec R B T types (Catch_All rethrows ctor dtor body handler) s)"
  proof (cases rule: agree_cases)
    case (value_end v)
    then show ?thesis
      using q destroy_value [OF assms(1) s, of w v] by (simp add: catch_all_def)
  next
    case (escape_end e)
    then have e: "\<not> in_flight s" "active s \<noteq> 0" "length e = size_of (types (error_tag (last (carriers s))))"
      "length e \<le> payload_capacity" by simp_all
    show ?thesis
    proof (cases "on_escape R B")
      case Runs_Handler
      then show ?thesis
        using escape_end q handler_agrees [OF assms(1,3) s e, where w = w and rethrows = rethrows]
        by (simp add: catch_all_def ejected_to_world)
    next
      case Passes_By
      then show ?thesis
        using escape_end q destroy_escape [OF assms(1) s e, of w] by (simp add: catch_all_def ejected_to_world)
    next
      case Skips_Frame
      then show ?thesis
        using escape_end q e by (simp add: catch_all_def agree_def ejected_to_world)
    qed
  next
    case (lost_end v e w')
    then show ?thesis
      using q destroy_lost [OF assms(1) s, of e w w' v] by (simp add: catch_all_def ejected_to_world)
  qed (use q in \<open>auto simp: agree_def catch_all_def\<close>)
qed

lemma simulates_client: "typed types c \<Longrightarrow> simulates R B T types c"
proof (induction c)
  case (Eject tag e)
  then show ?case
    unfolding simulates_def exec.simps by (auto simp only: typed.simps intro: eject_ok)
next
  case (Work f c)
  then have c: "simulates R B T types c" by simp
  show ?case
    unfolding simulates_def
  proof (intro allI impI)
    fix s :: "'a arm" assume "arm_ok s"
    then show "agree types s (ref R B T (Work f c) (innermost s) (in_flight s) (world s)) (exec R B T types (Work f c) s)"
      using simulatesD [OF c, of "s\<lparr>world := f (world s)\<rparr>"]
      by (auto simp: agree_def ejected_to_world split: prod.splits ref_end.splits)
  qed
qed (simp_all add: simulates_Call simulates_Object simulates_Scope simulates_Catch_All,
     simp add: simulates_def agree_def)


text \<open>
  Two error types, and a program that ejects through frames with objects, one of them with a
  catch-all, into the outer of two scopes.
\<close>

definition demo_types :: "nat \<Rightarrow> error_type" where
  "demo_types tag = \<lparr>size_of = (if tag = 0 then 2 else 4), align_of = 4, trivially_copyable = True\<rparr>"

definition demo_client :: "bool \<Rightarrow> string list client" where
  "demo_client rethrows =
     Scope 0 (replicate 32 0)
       (Object (\<lambda>w. ''ctor a'' # w) (Work (\<lambda>w. ''dtor a'' # w) (Value 0))
         (Call
           (Scope 1 (replicate 32 0) (Value 5) (\<lambda>r. Value 6))
           (\<lambda>v. Catch_All rethrows (\<lambda>w. ''ctor b'' # w) (Work (\<lambda>w. ''dtor b'' # w) (Value 0))
                  (Eject 0 [7, 9]) (Work (\<lambda>w. ''handler'' # w) (Value 1)))))
       (\<lambda>r. Work (\<lambda>w. ''landed'' # w) (Value 42))"


end
