(* ===== verification/Unwind_Backend.thy ===== *)
theory Unwind_Backend
  imports Unwind_Arm Rich_Error Erased_Error
begin

text \<open>
  The Itanium backend of the unwind arm (\<open>unwind/backend.hpp\<close>), and the byte
  representation in which the shipped error types cross it.

  The platform's \<open>_Unwind_ForcedUnwind\<close> is not part of the repository.  It is a parameter,
  a function of the stop function, the frames above the escape and the program's state,
  and \<open>forced_unwind_abi\<close> states what the Itanium C++ ABI documents of it: it calls the stop
  function for each frame, innermost first, before that frame's cleanup; a frame whose
  catch-all consumes the exception ends the unwind and deletes the exception object, which
  calls its cleanup callback; at the end of the stack it calls the stop function once more
  with the end-of-stack action.
\<close>

unbundle bit_operations_syntax

subsection \<open>The unwind object\<close>

definition escape_class :: "64 word" where
  "escape_class = 0x6a6d707878457363"

record unwind_exception =
  exception_class :: "64 word"
  exception_cleanup :: bool
  private_1 :: "64 word"
  private_2 :: "64 word"

definition prepare_exception :: "unwind_exception \<Rightarrow> unwind_exception" where
  "prepare_exception x =
     (let x = x\<lparr>exception_class := 0, exception_cleanup := False, private_1 := 0, private_2 := 0\<rparr>
      in x\<lparr>exception_class := escape_class, exception_cleanup := True\<rparr>)"


subsection \<open>The stop function and the forced unwind\<close>

record 's frame =
  frame_cfa :: addr
  frame_cleanup :: "'s \<Rightarrow> 's"
  frame_swallows :: bool

datatype reason = No_Reason | Longjmp

definition stop_function :: "addr \<Rightarrow> addr \<Rightarrow> bool \<Rightarrow> reason" where
  "stop_function marker cfa end_of_stack =
     (if cfa > marker \<or> end_of_stack then Longjmp else No_Reason)"

text \<open>How the platform call ends: control was taken by the \<open>longjmp\<close>, a handler consumed it, or it returned.\<close>

datatype unwind_end = Landed | Consumed | Returned

type_synonym 's unwinder = "(addr \<Rightarrow> bool \<Rightarrow> reason) \<Rightarrow> 's frame list \<Rightarrow> 's \<Rightarrow> unwind_end \<times> 's"

definition forced_unwind_abi :: "'s unwinder \<Rightarrow> bool" where
  "forced_unwind_abi fu \<longleftrightarrow>
     (\<forall>stop s. \<exists>cfa. fu stop [] s = (if stop cfa True = Longjmp then (Landed, s) else (Returned, s))) \<and>
     (\<forall>stop f fs s. fu stop (f # fs) s =
        (if stop (frame_cfa f) False = Longjmp then (Landed, s)
         else if frame_swallows f then (Consumed, s)
         else fu stop fs (frame_cleanup f s)))"

text \<open>
  \<open>drive_unwind\<close> on this backend: \<open>car\<close> is the carrier's address and \<open>frames\<close> the stack above
  the escape.  The result is where control goes: into the landing (\<open>Unwinding\<close> has arrived
  there), or into a fail-fast.
\<close>

definition drive_forced_unwind ::
    "'s unwinder \<Rightarrow> addr \<Rightarrow> 's frame list \<Rightarrow> 's \<Rightarrow> unit flow \<times> 's" where
  "drive_forced_unwind fu car frames s =
     (case fu (stop_function car) frames s of
        (Landed, s) \<Rightarrow> (Normal_Flow (), s)
      | (Consumed, s) \<Rightarrow> (report_swallowed_escape, s)
      | (Returned, s) \<Rightarrow> (Trapped no_unwind_reason, s))"

text \<open>
  The stack of an escape: the frames below the landing have their canonical frame address
  at or below the carrier, which lies in the landing's frame, and the landing's own is above it.
\<close>

definition below_landing :: "addr \<Rightarrow> 's frame list \<Rightarrow> bool" where
  "below_landing car fs \<longleftrightarrow> (\<forall>f \<in> set fs. frame_cfa f \<le> car)"

lemma unwinder_runs_cleanups:
  assumes "forced_unwind_abi fu" and "below_landing car fs" and "\<forall>f \<in> set fs. \<not> frame_swallows f"
  shows "fu (stop_function car) (fs @ rest) s =
     fu (stop_function car) rest (fold (\<lambda>f s. frame_cleanup f s) fs s)"
  using assms(2,3)
proof (induction fs arbitrary: s)
  case Nil
  then show ?case by simp
next
  case (Cons f fs)
  have "fu (stop_function car) ((f # fs) @ rest) s = fu (stop_function car) (fs @ rest) (frame_cleanup f s)"
    using assms(1) Cons.prems
    by (auto simp: forced_unwind_abi_def stop_function_def below_landing_def not_less [symmetric])
  then show ?case using Cons by (simp add: below_landing_def)
qed

text \<open>
  C14. Identifying the landing by the carrier's address is exact: given an unwinder that
  behaves as the ABI documents and a stack in which the intermediate frames lie below the
  carrier and the landing above it, the forced unwind runs the cleanup of every
  intermediate frame exactly once, innermost first, runs no cleanup of the landing or of
  any frame outside it, and resumes in the landing; a frame whose catch-all consumes the
  escape turns it into the diagnosed fail-fast, after the cleanups below that frame.
\<close>

theorem forced_unwind_reaches_landing:
  assumes "forced_unwind_abi fu" and "below_landing car inner" and "\<forall>f \<in> set inner. \<not> frame_swallows f"
    and "frame_cfa landing > car" and "frame_cfa eater \<le> car" and "frame_swallows eater"
  shows "drive_forced_unwind fu car (inner @ landing # outer) s =
           (Normal_Flow (), fold (\<lambda>f s. frame_cleanup f s) inner s) \<and>
         drive_forced_unwind fu car (inner @ eater # outer) s =
           (Trapped swallowed_reason, fold (\<lambda>f s. frame_cleanup f s) inner s)"
proof -
  have step: "fu stop (f # fs) s =
        (if stop (frame_cfa f) False = Longjmp then (Landed, s)
         else if frame_swallows f then (Consumed, s)
         else fu stop fs (frame_cleanup f s))" for stop f fs s
    using assms(1) by (simp add: forced_unwind_abi_def)
  show ?thesis
    unfolding drive_forced_unwind_def unwinder_runs_cleanups [OF assms(1-3)] step
    using assms(4-6) by (auto simp: stop_function_def report_swallowed_escape_def)
qed

text \<open>An unwinder that behaves as documented, for a concrete run.\<close>

fun documented_unwinder :: "'s unwinder" where
  "documented_unwinder stop [] s = (if stop 0 True = Longjmp then (Landed, s) else (Returned, s))"
| "documented_unwinder stop (f # fs) s =
     (if stop (frame_cfa f) False = Longjmp then (Landed, s)
      else if frame_swallows f then (Consumed, s)
      else documented_unwinder stop fs (frame_cleanup f s))"

definition demo_frame :: "addr \<Rightarrow> nat \<Rightarrow> bool \<Rightarrow> nat list frame" where
  "demo_frame a n sw = \<lparr>frame_cfa = a, frame_cleanup = (\<lambda>s. s @ [n]), frame_swallows = sw\<rparr>"

theorem forced_unwind_reaches_landing_witness:
  "drive_forced_unwind documented_unwinder 4096
     ([demo_frame 1000 1 False, demo_frame 2000 2 False] @ demo_frame 5000 3 False # [demo_frame 6000 4 False]) [] =
   (Normal_Flow (), [1, 2])"
proof -
  have abi: "forced_unwind_abi documented_unwinder" by (auto simp: forced_unwind_abi_def)
  have "below_landing 4096 [demo_frame 1000 1 False, demo_frame 2000 2 False]"
    "\<forall>f \<in> set [demo_frame 1000 1 False, demo_frame 2000 2 False]. \<not> frame_swallows f"
    "frame_cfa (demo_frame 5000 3 False) > 4096" "frame_cfa (demo_frame 0 9 True) \<le> 4096"
    "frame_swallows (demo_frame 0 9 True)"
    by (simp_all add: below_landing_def demo_frame_def)
  from forced_unwind_reaches_landing [OF abi this, of "[demo_frame 6000 4 False]" "[]"]
  show ?thesis by (simp add: demo_frame_def)
qed


subsection \<open>The bytes of an error\<close>

text \<open>Object representations on a little-endian target; \<open>pad\<close> is what padding bytes hold.\<close>

definition bytes_of_word32 :: "32 word \<Rightarrow> byte list" where
  "bytes_of_word32 w = map (\<lambda>i. ucast (drop_bit (8 * i) w)) [0..<4]"

definition word32_of_bytes :: "byte list \<Rightarrow> 32 word" where
  "word32_of_bytes bs =
     ucast (bs ! 0) OR push_bit 8 (ucast (bs ! 1)) OR push_bit 16 (ucast (bs ! 2)) OR push_bit 24 (ucast (bs ! 3))"

definition bytes_of_word64 :: "64 word \<Rightarrow> byte list" where
  "bytes_of_word64 w = bytes_of_word32 (ucast w) @ bytes_of_word32 (ucast (drop_bit 32 w))"

definition word64_of_bytes :: "byte list \<Rightarrow> 64 word" where
  "word64_of_bytes bs =
     ucast (word32_of_bytes (take 4 bs)) OR push_bit 32 (ucast (word32_of_bytes (drop 4 bs)))"

lemma length_bytes [simp]: "length (bytes_of_word32 w) = 4" "length (bytes_of_word64 v) = 8"
  by (simp_all add: bytes_of_word32_def bytes_of_word64_def)

lemma word32_bytes_id [simp]: "word32_of_bytes (bytes_of_word32 w) = w"
proof (rule bit_word_eqI)
  fix n assume "n < LENGTH(32)"
  then have n: "n < 32" by simp
  have "n < 8 \<or> (8 \<le> n \<and> n < 16) \<or> (16 \<le> n \<and> n < 24) \<or> (24 \<le> n \<and> n < 32)" using n by linarith
  then show "bit (word32_of_bytes (bytes_of_word32 w)) n = bit w n"
    by (elim disjE) (auto simp: word32_of_bytes_def bytes_of_word32_def bit_simps upt_rec nth_Cons')
qed

lemma word64_bytes_id [simp]: "word64_of_bytes (bytes_of_word64 w) = w"
proof (rule bit_word_eqI)
  fix n assume "n < LENGTH(64)"
  then have n: "n < 64" by simp
  show "bit (word64_of_bytes (bytes_of_word64 w)) n = bit w n"
    using n by (cases "n < 32") (auto simp: word64_of_bytes_def bytes_of_word64_def bit_simps)
qed

text \<open>
  What the arm asks of an error type, and what it gives back: a type with a byte
  representation that determines the value, no larger than the carrier's buffer.
\<close>

locale trivially_copyable_error =
  fixes bytes_of :: "'e \<Rightarrow> byte list" and of_bytes :: "byte list \<Rightarrow> 'e" and width :: nat
  assumes width_fits: "width \<le> payload_capacity"
    and length_bytes_of: "length (bytes_of e) = width"
    and bit_cast: "of_bytes (bytes_of e) = e"
begin

lemma eject_lands:
  assumes "arm_ok s" and "\<not> in_flight s" and "B \<noteq> Backend_None" and "length junk = payload_capacity"
    and "types tag = \<lparr>size_of = width, align_of = a, trivially_copyable = True\<rparr>" and "a \<le> payload_align"
  shows "\<exists>bs. escape_scope B types tag junk (eject B True types tag (bytes_of e)) s =
                (Normal_Flow (result_of_failure id (fail bs) :: (c_int, byte list) result), s) \<and> of_bytes bs = e"
proof -
  let ?s = "scope_enter tag junk s"
  note en = scope_enter_ok [OF assms(1,4), of tag]
  have "agree types ?s (ref R B True (Eject tag (bytes_of e)) (innermost ?s) (in_flight ?s) (world ?s))
      (eject B True types tag (bytes_of e) ?s)"
    by (rule eject_ok [OF en(1)]) (simp_all add: valid_error_type_def assms(5,6) width_fits length_bytes_of)
  then have "eject B True types tag (bytes_of e) ?s =
      (Unwinding (Suc (length (carriers s))) :: c_int flow, (ejected_to (bytes_of e) ?s)\<lparr>world := world s\<rparr>)"
    using assms(2,3) en by (simp add: agree_def)
  then have "escape_scope B types tag junk (eject B True types tag (bytes_of e)) s =
      (Normal_Flow (result_of_failure id (fail (bytes_of e)) :: (c_int, byte list) result), s)"
    using scope_leave_ejected [where e = "bytes_of e" and tag = tag and junk = junk and s = s and w = "world s"]
      assms(2,5) length_bytes_of
    by (simp add: escape_scope_def read_error_def copy_bytes_def)
  then show ?thesis using bit_cast by blast
qed

end

definition error_bytes :: "error \<Rightarrow> byte list" where
  "error_bytes e = bytes_of_word32 (err_code e) @ bytes_of_word32 (err_domain e)"

definition error_of_bytes :: "byte list \<Rightarrow> error" where
  "error_of_bytes bs = mk_error (word32_of_bytes (take 4 bs)) (word32_of_bytes (drop 4 bs))"

definition rich_bytes :: "rich_error \<Rightarrow> byte list" where
  "rich_bytes e =
     bytes_of_word32 (rich_code e) @ bytes_of_word32 (rich_domain e) @ bytes_of_word32 (rich_origin e)"

definition rich_of_bytes :: "byte list \<Rightarrow> rich_error" where
  "rich_of_bytes bs =
     \<lparr>rich_code = word32_of_bytes (take 4 bs), rich_domain = word32_of_bytes (take 4 (drop 4 bs)),
      rich_origin = word32_of_bytes (drop 8 bs)\<rparr>"

definition erased_bytes :: "32 word \<Rightarrow> erased_error \<Rightarrow> byte list" where
  "erased_bytes pad e =
     bytes_of_word32 (erased_val e) @ bytes_of_word32 pad @ bytes_of_word64 (erased_dom e)"

definition erased_of_bytes :: "byte list \<Rightarrow> erased_error" where
  "erased_of_bytes bs =
     \<lparr>erased_val = word32_of_bytes (take 4 bs), erased_dom = word64_of_bytes (drop 8 bs)\<rparr>"

interpretation error_copy: trivially_copyable_error error_bytes error_of_bytes 8
  by unfold_locales (simp_all add: error_bytes_def error_of_bytes_def mk_error_def payload_capacity_def)

interpretation rich_copy: trivially_copyable_error rich_bytes rich_of_bytes 12
  by unfold_locales (simp_all add: rich_bytes_def rich_of_bytes_def payload_capacity_def)

interpretation erased_copy: trivially_copyable_error "erased_bytes pad" erased_of_bytes 16
  by unfold_locales (simp_all add: erased_bytes_def erased_of_bytes_def payload_capacity_def)

text \<open>
  C15. An ejected error of any shipped representation arrives at its landing unchanged: the
  minimal error, the rich error with its handle and the erased error with its domain
  pointer (whatever its padding bytes hold) are copied into the carrier, read back as the
  same value, and the arm is left as the scope found it, on every backend and at any
  nesting depth.
\<close>

theorem ejected_error_arrives_unchanged:
  assumes "arm_ok s" and "\<not> in_flight s" and "B \<noteq> Backend_None" and "length junk = payload_capacity"
    and "types te = \<lparr>size_of = 8, align_of = 4, trivially_copyable = True\<rparr>"
    and "types tr = \<lparr>size_of = 12, align_of = 4, trivially_copyable = True\<rparr>"
    and "types ts = \<lparr>size_of = 16, align_of = 8, trivially_copyable = True\<rparr>"
  shows "(\<exists>bs. escape_scope B types te junk (eject B True types te (error_bytes e)) s =
                 (Normal_Flow (result_of_failure id (fail bs) :: (c_int, byte list) result), s) \<and> error_of_bytes bs = e) \<and>
         (\<exists>bs. escape_scope B types tr junk (eject B True types tr (rich_bytes r)) s =
                 (Normal_Flow (result_of_failure id (fail bs) :: (c_int, byte list) result), s) \<and> rich_of_bytes bs = r) \<and>
         (\<exists>bs. escape_scope B types ts junk (eject B True types ts (erased_bytes pad x)) s =
                 (Normal_Flow (result_of_failure id (fail bs) :: (c_int, byte list) result), s) \<and> erased_of_bytes bs = x)"
  using error_copy.eject_lands [of s B junk types te, OF assms(1-5)]
    rich_copy.eject_lands [of s B junk types tr, OF assms(1-4,6)]
    erased_copy.eject_lands [of s B junk types ts, OF assms(1-4,7)]
  by (simp add: payload_align_def)

theorem ejected_error_arrives_unchanged_witness:
  "\<exists>bs. escape_scope Backend_Itanium
      ((\<lambda>_. \<lparr>size_of = 8, align_of = 4, trivially_copyable = True\<rparr>)
         (1 := \<lparr>size_of = 12, align_of = 4, trivially_copyable = True\<rparr>,
          2 := \<lparr>size_of = 16, align_of = 8, trivially_copyable = True\<rparr>)) 0 (replicate 32 0)
      (eject Backend_Itanium True
         ((\<lambda>_. \<lparr>size_of = 8, align_of = 4, trivially_copyable = True\<rparr>)
            (1 := \<lparr>size_of = 12, align_of = 4, trivially_copyable = True\<rparr>,
             2 := \<lparr>size_of = 16, align_of = 8, trivially_copyable = True\<rparr>)) 0 (error_bytes (mk_error 42 7)))
      (initial_arm ()) = (Normal_Flow (result_of_failure id (fail bs) :: (c_int, byte list) result), initial_arm ()) \<and>
    error_of_bytes bs = mk_error 42 7"
proof -
  have "arm_ok (initial_arm ())" "\<not> in_flight (initial_arm ())" "Backend_Itanium \<noteq> Backend_None"
    "length (replicate 32 0 :: byte list) = payload_capacity"
    by (simp_all add: arm_ok_def initial_arm_def payload_capacity_def)
  from ejected_error_arrives_unchanged [OF this, of "(\<lambda>_. \<lparr>size_of = 8, align_of = 4, trivially_copyable = True\<rparr>)
         (1 := \<lparr>size_of = 12, align_of = 4, trivially_copyable = True\<rparr>,
          2 := \<lparr>size_of = 16, align_of = 8, trivially_copyable = True\<rparr>)" 0 1 2]
  show ?thesis by simp
qed

end
