(* ===== verification/App_Escape.thy ===== *)
theory App_Escape
  imports Unwind_Backend
begin

text \<open>
  Programs that use the unwind arm as their error spine: the vocabulary the reference
  applications are written in, and the interface through which they are verified.

  The applications run on the arm itself: they eject minimal errors, hold guard objects
  whose destructors restore their state, and land in one \<open>escape_scope\<close>.  Each is shown to
  compute a plain function from the application's state to a value or an error and a new
  state; the two locales at the end state what an application owes for the landing to serve any
  sequence of requests, and each application interprets one.
\<close>

type_synonym ('w, 'a) code = "'w arm \<Rightarrow> 'a flow \<times> 'w arm"
type_synonym ('w, 'a) plain = "'w \<Rightarrow> (error + 'a) \<times> 'w"

text \<open>The target: the backend, and the tag, layout and buffer of the scope that lands.\<close>

record escape_env =
  env_backend :: unwind_backend
  env_types :: "nat \<Rightarrow> error_type"
  env_tag :: nat
  env_junk :: "byte list"

definition env_ok :: "escape_env \<Rightarrow> bool" where
  "env_ok E \<longleftrightarrow> env_backend E \<noteq> Backend_None \<and> length (env_junk E) = payload_capacity \<and>
     size_of (env_types E (env_tag E)) = 8"

text \<open>A hosted build: forced unwinding, and \<open>jmpxx::error\<close> as the only error type.\<close>

definition hosted_env :: escape_env where
  "hosted_env =
     \<lparr>env_backend = Backend_Itanium,
      env_types = (\<lambda>_. \<lparr>size_of = 8, align_of = 4, trivially_copyable = True\<rparr>),
      env_tag = 0, env_junk = replicate payload_capacity 0\<rparr>"

lemma env_ok_hosted [simp]: "env_ok hosted_env"
  by (simp add: env_ok_def hosted_env_def)

lemma initial_arm_ok [simp]:
  "arm_ok (initial_arm w)" "\<not> in_flight (initial_arm w)" "world (initial_arm w) = w"
  by (simp_all add: arm_ok_def initial_arm_def)

definition ret :: "'a \<Rightarrow> ('w, 'a) code" where
  "ret v s = (Normal_Flow v, s)"

definition seq :: "('w, 'a) code \<Rightarrow> ('a \<Rightarrow> ('w, 'b) code) \<Rightarrow> ('w, 'b) code" where
  "seq c k s = bind_flow (c s) k"

definition look :: "('w \<Rightarrow> 'x) \<Rightarrow> ('x \<Rightarrow> ('w, 'a) code) \<Rightarrow> ('w, 'a) code" where
  "look f k s = k (f (world s)) s"

definition upd :: "('w \<Rightarrow> 'w) \<Rightarrow> ('w, unit) code" where
  "upd f s = (Normal_Flow (), s\<lparr>world := f (world s)\<rparr>)"

definition branch :: "bool \<Rightarrow> ('w, 'a) code \<Rightarrow> ('w, 'a) code \<Rightarrow> ('w, 'a) code" where
  "branch b c c' s = (if b then c s else c' s)"

text \<open>
  Undefined behaviour, and going on with the value of an access that is defined only
  within bounds.
\<close>

definition undefined_behaviour :: "('w, 'a) code" where
  "undefined_behaviour s = (Broken, s)"

definition checked :: "'x option \<Rightarrow> ('x \<Rightarrow> ('w, 'a) code) \<Rightarrow> ('w, 'a) code" where
  "checked x k s = (case x of None \<Rightarrow> undefined_behaviour s | Some v \<Rightarrow> k v s)"

text \<open>A guard object whose destructor applies \<open>f\<close> to the application's state.\<close>

definition guarded :: "('w \<Rightarrow> 'w) \<Rightarrow> ('w, 'a) code \<Rightarrow> ('w, 'a) code" where
  "guarded f body s = with_object (upd f) body s"

definition eject_error :: "escape_env \<Rightarrow> error \<Rightarrow> ('w, 'a) code" where
  "eject_error E e s = eject (env_backend E) True (env_types E) (env_tag E) (error_bytes e) s"

definition map_flow :: "('a \<Rightarrow> 'b) \<Rightarrow> 'a flow \<times> 's \<Rightarrow> 'b flow \<times> 's" where
  "map_flow f x =
     (case x of
        (Normal_Flow v, s) \<Rightarrow> (Normal_Flow (f v), s)
      | (Unwinding p, s) \<Rightarrow> (Unwinding p, s)
      | (Trapped m, s) \<Rightarrow> (Trapped m, s)
      | (Broken, s) \<Rightarrow> (Broken, s))"

definition landing_scope :: "escape_env \<Rightarrow> ('w, 'a) code \<Rightarrow> ('w, error + 'a) code" where
  "landing_scope E body s =
     map_flow (\<lambda>r. map_sum error_of_bytes id (abs_result r))
       (escape_scope (env_backend E) (env_types E) (env_tag E) (env_junk E) body s)"

text \<open>Congruence rules, so that recursive definitions may go through these combinators.\<close>

lemma seq_cong [fundef_cong]:
  assumes "s = s'" and "c s' = c' s'" and "\<And>v t. c' s' = (Normal_Flow v, t) \<Longrightarrow> k v t = k' v t"
  shows "seq c k s = seq c' k' s'"
  using assms by (auto simp: seq_def bind_flow_def split: prod.split flow.split)

lemma look_cong [fundef_cong]:
  "s = s' \<Longrightarrow> (\<And>x. x = f (world s') \<Longrightarrow> k x s' = k' x s') \<Longrightarrow> look f k s = look f k' s'"
  by (simp add: look_def)

lemma checked_cong [fundef_cong]:
  "x = x' \<Longrightarrow> s = s' \<Longrightarrow> (\<And>v. x' = Some v \<Longrightarrow> k v s' = k' v s') \<Longrightarrow> checked x k s = checked x' k' s'"
  by (simp add: checked_def split: option.split)

lemma checked_Some [simp]: "checked (Some v) k s = k v s"
  by (simp add: checked_def)

lemma branch_cong [fundef_cong]:
  "b = b' \<Longrightarrow> s = s' \<Longrightarrow> (b' \<Longrightarrow> c s' = d s') \<Longrightarrow> (\<not> b' \<Longrightarrow> c' s' = d' s') \<Longrightarrow>
     branch b c c' s = branch b' d d' s'"
  by (simp add: branch_def)

lemma branch_simps [simp]: "branch True c c' s = c s" "branch False c c' s = c' s"
  by (simp_all add: branch_def)

lemma guarded_cong [fundef_cong]:
  "s = s' \<Longrightarrow> body s' = body' s' \<Longrightarrow> guarded f body s = guarded f body' s'"
  by (simp add: guarded_def with_object_def)


subsection \<open>What code on the arm computes\<close>

definition embed :: "'w arm \<Rightarrow> (error + 'a) \<times> 'w \<Rightarrow> 'a flow \<times> 'w arm" where
  "embed s x =
     (case x of
        (Inr v, w) \<Rightarrow> (Normal_Flow v, s\<lparr>world := w\<rparr>)
      | (Inl e, w) \<Rightarrow> (Unwinding (active s), (ejected_to (error_bytes e) s)\<lparr>world := w\<rparr>))"

definition in_scope :: "escape_env \<Rightarrow> 'w arm \<Rightarrow> bool" where
  "in_scope E s \<longleftrightarrow> arm_ok s \<and> \<not> in_flight s \<and> innermost s = Some (env_tag E)"

lemma in_scope_world [simp]: "in_scope E (s\<lparr>world := w\<rparr>) \<longleftrightarrow> in_scope E s"
  by (simp add: in_scope_def)

lemma world_unchanged [simp]: "s\<lparr>world := world s\<rparr> = s"
  by (cases s) simp

lemma embed_world [simp]: "embed (s\<lparr>world := w\<rparr>) x = embed s x"
  by (simp add: embed_def ejected_to_def split: prod.split sum.split)

text \<open>One equation per combinator: what it computes, given what its parts compute.\<close>

lemma ret_embed: "ret v s = embed s (Inr v, world s)"
  by (simp add: ret_def embed_def)

lemma upd_embed: "upd f s = embed s (Inr (), f (world s))"
  by (simp add: upd_def embed_def)

lemma seq_value: "c s = embed s (Inr v, w) \<Longrightarrow> seq c k s = k v (s\<lparr>world := w\<rparr>)"
  by (simp add: seq_def bind_flow_def embed_def)

lemma seq_escape: "c s = embed s (Inl e, w) \<Longrightarrow> seq c k s = embed s (Inl e, w)"
  by (simp add: seq_def bind_flow_def embed_def)

lemma seq_returns: "seq c k s = (Normal_Flow v, t) \<longleftrightarrow> (\<exists>u x. c s = (Normal_Flow u, x) \<and> k u x = (Normal_Flow v, t))"
  by (auto simp: seq_def bind_flow_def split: prod.splits flow.splits)

lemma seq_assoc: "seq (seq c k) k' s = seq c (\<lambda>v. seq (k v) k') s"
  by (auto simp: seq_def bind_flow_def split: prod.split flow.split)

lemma seq_ret [simp]: "seq (ret v) k s = k v s"
  by (simp add: seq_value [OF ret_embed])

lemma seq_upd [simp]: "seq (upd f) k s = k () (s\<lparr>world := f (world s)\<rparr>)"
  by (simp add: seq_value [OF upd_embed])

lemma look_apply [simp]: "look f k s = k (f (world s)) s"
  by (simp add: look_def)

lemma guarded_embed:
  assumes "body s = embed s (r, w)"
  shows "guarded f body s = embed s (r, f w)"
  using assms
  by (cases r) (simp_all add: guarded_def with_object_def finish_destructor_def upd_def embed_def)

lemma length_error_bytes [simp]: "length (error_bytes e) = 8"
  by (simp add: error_bytes_def)

lemma eject_embed:
  assumes "env_ok E" and "in_scope E s"
  shows "eject_error E e s = embed s (Inl e, world s)"
proof -
  have ok: "arm_ok s" "\<not> in_flight s" "active s \<noteq> 0" "error_tag (last (carriers s)) = env_tag E"
    using assms(2) by (auto simp: in_scope_def innermost_def split: if_splits)
  have "length (error_bytes e) = size_of (env_types E (env_tag E))"
    using assms by (simp add: env_ok_def)
  note ej = eject_in_scope [of s "error_bytes e" "env_types E" "env_tag E" "env_backend E" True, OF ok(1,3) this]
  show ?thesis
    using ok assms
    by (auto simp: ej eject_error_def embed_def drive_unwind_def env_ok_def ejected_to_def split: unwind_backend.split)
qed

text \<open>An eject does not come back, whatever the state.\<close>

lemma eject_never_returns [simp]: "eject_error E e s \<noteq> (Normal_Flow v, t)"
  by (auto simp: eject_error_def eject_def drive_unwind_def Let_def split: if_splits option.splits unwind_backend.splits)

lemma landing_embed:
  assumes "env_ok E" and "arm_ok s" and "\<not> in_flight s"
    and body: "\<And>t. in_scope E t \<Longrightarrow> world t = world s \<Longrightarrow> body t = embed t x"
  shows "landing_scope E body s = (Normal_Flow (fst x), s\<lparr>world := snd x\<rparr>)"
proof -
  let ?s = "scope_enter (env_tag E) (env_junk E) s"
  have junk: "length (env_junk E) = payload_capacity" and sz: "size_of (env_types E (env_tag E)) = 8"
    using assms(1) by (simp_all add: env_ok_def)
  note en = scope_enter_ok [OF assms(2) junk, of "env_tag E"]
  have "in_scope E ?s" using en assms(3) by (simp add: in_scope_def)
  from body [OF this] have b: "body ?s = embed ?s x" using en by simp
  obtain r w where p: "x = (r, w)" by (cases x)
  show ?thesis
  proof (cases r)
    case (Inr v)
    then show ?thesis
      using b p by (simp add: landing_scope_def escape_scope_def embed_def scope_leave_normal map_flow_def)
  next
    case (Inl e)
    have "escape_scope (env_backend E) (env_types E) (env_tag E) (env_junk E) body s =
        (Normal_Flow (result_of_failure id (fail (error_bytes e))), s\<lparr>world := w\<rparr>)"
      using b p Inl en assms(3) sz
        scope_leave_ejected [where e = "error_bytes e" and tag = "env_tag E" and junk = "env_junk E" and s = s and w = w]
      by (simp add: escape_scope_def embed_def read_error_def copy_bytes_def)
    then show ?thesis
      using p Inl error_copy.bit_cast [of e] by (simp add: landing_scope_def map_flow_def fail_def)
  qed
qed


subsection \<open>The interface of an application on the arm\<close>

text \<open>
  A request is served by running the application's recursion in a landing scope and
  reporting from its result and the state it left.
\<close>

definition serve_one ::
    "('k \<Rightarrow> ('w, error + 'a) code) \<Rightarrow> ('k \<Rightarrow> (error + 'a) \<times> 'w \<Rightarrow> 'r) \<Rightarrow> 'k \<Rightarrow> ('w, 'r) code" where
  "serve_one request report k = seq (request k) (\<lambda>r. look id (\<lambda>w. ret (report k (r, w))))"

primrec serve ::
    "('k \<Rightarrow> ('w, error + 'a) code) \<Rightarrow> ('k \<Rightarrow> (error + 'a) \<times> 'w \<Rightarrow> 'r) \<Rightarrow> 'k list \<Rightarrow> ('w, 'r list) code" where
  "serve request report [] = ret []"
| "serve request report (k # ks) =
     seq (serve_one request report k) (\<lambda>x. seq (serve request report ks) (\<lambda>xs. ret (x # xs)))"

text \<open>
  A service takes requests one after another.  It promises that a valid request to a clean
  state is answered by \<open>plain\<close>, that the state is clean again whether the request succeeded
  or escaped, and that what is reported does not depend on which clean state it met.  Its
  client may then send any sequence of requests and gets each answered as if it were the
  first.
\<close>

locale landing_service =
  fixes valid :: "'k \<Rightarrow> bool"
    and clean :: "'w \<Rightarrow> bool"
    and request :: "'k \<Rightarrow> ('w, error + 'a) code"
    and plain :: "'k \<Rightarrow> ('w, 'a) plain"
    and report :: "'k \<Rightarrow> (error + 'a) \<times> 'w \<Rightarrow> 'r"
  assumes lands: "valid k \<Longrightarrow> arm_ok s \<Longrightarrow> \<not> in_flight s \<Longrightarrow> clean (world s) \<Longrightarrow>
      request k s = (Normal_Flow (fst (plain k (world s))), s\<lparr>world := snd (plain k (world s))\<rparr>)"
    and stays_clean: "valid k \<Longrightarrow> clean w \<Longrightarrow> clean (snd (plain k w))"
    and same_report: "valid k \<Longrightarrow> clean w \<Longrightarrow> clean w' \<Longrightarrow> report k (plain k w) = report k (plain k w')"
begin

lemma serves_one:
  assumes "valid k" and "arm_ok s" and "\<not> in_flight s" and "clean (world s)"
  shows "serve_one request report k s =
    (Normal_Flow (report k (plain k (world s))), s\<lparr>world := snd (plain k (world s))\<rparr>)"
  using assms by (simp add: serve_one_def seq_def [of "request k"] lands bind_flow_def ret_def)

lemma serves:
  assumes "\<forall>k\<in>set ks. valid k" and "arm_ok s" and "\<not> in_flight s" and "clean (world s)" and "clean w0"
  shows "\<exists>w. clean w \<and>
    serve request report ks s = (Normal_Flow (map (\<lambda>k. report k (plain k w0)) ks), s\<lparr>world := w\<rparr>)"
  using assms(1-4)
proof (induction ks arbitrary: s)
  case Nil
  then show ?case by (auto simp: ret_def intro!: exI [of _ "world s"])
next
  case (Cons k ks)
  let ?t = "s\<lparr>world := snd (plain k (world s))\<rparr>"
  have k: "valid k" using Cons.prems(1) by simp
  have "clean (world ?t)" using stays_clean [OF k] Cons.prems(4) by simp
  with Cons.IH [of ?t] Cons.prems obtain w where w: "clean w"
    "serve request report ks ?t = (Normal_Flow (map (\<lambda>k. report k (plain k w0)) ks), s\<lparr>world := w\<rparr>)"
    by auto
  have "report k (plain k (world s)) = report k (plain k w0)"
    using same_report [OF k] Cons.prems(4) assms(5) .
  then show ?case
    using w Cons.prems k
    by (auto simp: seq_def [of "serve_one request report k"] seq_def [of "serve request report ks"]
        serves_one bind_flow_def ret_def)
qed

end

text \<open>
  An application on the arm owes less: that its recursion computes \<open>plain\<close> inside a landing
  scope.  The scope then makes it a service.
\<close>

locale escaping_app =
  fixes E :: escape_env
    and valid :: "'k \<Rightarrow> bool"
    and clean :: "'w \<Rightarrow> bool"
    and code :: "'k \<Rightarrow> ('w, 'a) code"
    and plain :: "'k \<Rightarrow> ('w, 'a) plain"
    and report :: "'k \<Rightarrow> (error + 'a) \<times> 'w \<Rightarrow> 'r"
  assumes target: "valid k \<Longrightarrow> env_ok E"
    and computes: "valid k \<Longrightarrow> in_scope E s \<Longrightarrow> clean (world s) \<Longrightarrow> code k s = embed s (plain k (world s))"
    and keeps_clean: "valid k \<Longrightarrow> clean w \<Longrightarrow> clean (snd (plain k w))"
    and keeps_report: "valid k \<Longrightarrow> clean w \<Longrightarrow> clean w' \<Longrightarrow> report k (plain k w) = report k (plain k w')"

sublocale escaping_app \<subseteq> landing_service valid clean "\<lambda>k. landing_scope E (code k)" plain report
proof
  show "landing_scope E (code k) s = (Normal_Flow (fst (plain k (world s))), s\<lparr>world := snd (plain k (world s))\<rparr>)"
    if "valid k" "arm_ok s" "\<not> in_flight s" "clean (world s)" for k s
    by (rule landing_embed) (use that target in \<open>simp_all add: computes\<close>)
qed (use keeps_clean keeps_report in blast)+

end
