(* ===== verification/App_Resolver.thy ===== *)
theory App_Resolver
  imports App_Escape
begin

text \<open>
  The reference application's recursive resolver (\<open>reference_app/src/resolve.hpp\<close>) and the
  program around it (\<open>config_resolve.cpp\<close>).

  The parsed TOML table is an argument: \<open>vals\<close> gives the string a key maps to, if it maps
  to a string.  The recursion runs on the unwind arm: it ejects at the first failure, its
  intermediate frames hold only the guard that erases their key from the resolving set, and
  one scope at the top lands.  \<open>depth\<close> starts at 0 and never passes \<open>max_depth + 1\<close>, so it is
  kept as a natural number.

  The reference is a recursion over the parsed text that receives the set of keys being
  resolved as an argument; above it stand the expansion relation, which says which string a
  key denotes with no order of evaluation, and the reference chain a failure reports.
\<close>

definition missing :: c_int where "missing = 1"
definition cycle :: c_int where "cycle = 2"
definition too_deep :: c_int where "too_deep = 3"
definition malformed :: c_int where "malformed = 4"

definition max_depth :: nat where "max_depth = 64"

definition kind_text :: "c_int \<Rightarrow> string" where
  "kind_text k =
     (if k = missing then ''a referenced value is missing''
      else if k = cycle then ''a reference cycle was found''
      else if k = too_deep then ''the reference nesting is too deep''
      else if k = malformed then ''a ${...} reference is malformed''
      else ''unknown failure'')"

record resolver_state =
  resolving :: "string set"
  error_key :: string

subsection \<open>The recursion on the arm\<close>

definition eject_with :: "escape_env \<Rightarrow> c_int \<Rightarrow> string \<Rightarrow> nat \<Rightarrow> (resolver_state, unit) code" where
  "eject_with E k key d =
     seq (upd (\<lambda>w. w\<lparr>error_key := key\<rparr>)) (\<lambda>_. eject_error E (mk_error k (of_nat d)))"

lemma eject_with_never_returns [simp]: "eject_with E k key d s \<noteq> (Normal_Flow v, t)"
  by (simp add: eject_with_def)

function resolve ::
    "escape_env \<Rightarrow> (string \<Rightarrow> string option) \<Rightarrow> string \<Rightarrow> nat \<Rightarrow> (resolver_state, string) code"
  and interpolate_loop ::
    "escape_env \<Rightarrow> (string \<Rightarrow> string option) \<Rightarrow> string \<Rightarrow> nat \<Rightarrow> string \<Rightarrow> nat \<Rightarrow> (resolver_state, string) code"
where
  "resolve E vals key d s =
     seq (if d > max_depth then eject_with E too_deep key d else ret ()) (\<lambda>_.
     look (\<lambda>w. key \<in> resolving w) (\<lambda>hit.
     seq (if hit then eject_with E cycle key d else ret ()) (\<lambda>_.
     guarded (\<lambda>w. w\<lparr>resolving := resolving w - {key}\<rparr>) (
       seq (upd (\<lambda>w. w\<lparr>resolving := insert key (resolving w)\<rparr>)) (\<lambda>_.
       seq (case vals key of None \<Rightarrow> eject_with E missing key d | Some _ \<Rightarrow> ret ()) (\<lambda>_.
       case vals key of
         None \<Rightarrow> undefined_behaviour
       | Some raw \<Rightarrow> interpolate_loop E vals raw d [] 0)))))) s"
| "interpolate_loop E vals text d out i s =
     (if i < length text then
        (case find_from text ''${'' i of
           None \<Rightarrow> ret (out @ drop i text) s
         | Some open_at \<Rightarrow>
             let out = out @ substr text i (open_at - i) in
             (case find_from text ''}'' (open_at + 2) of
                None \<Rightarrow> seq (eject_with E malformed text d) (\<lambda>_. undefined_behaviour) s
              | Some close_at \<Rightarrow>
                  let key = substr text (open_at + 2) (close_at - (open_at + 2)) in
                  seq (resolve E vals key (d + 1)) (\<lambda>v.
                  interpolate_loop E vals text d (out @ v) (close_at + 1)) s))
      else ret out s)"
  by pat_completeness auto

termination
proof (relation "measures
   [\<lambda>x. case x of Inl (E, vals, key, d, s) \<Rightarrow> if d \<le> max_depth then 2 * (max_depth + 2 - d) + 1 else 0
          | Inr (E, vals, text, d, out, i, s) \<Rightarrow> if d \<le> max_depth then 2 * (max_depth + 2 - d) else 1,
    \<lambda>x. case x of Inl _ \<Rightarrow> 0 | Inr (E, vals, text, d, out, i, s) \<Rightarrow> length text - i]")
qed (auto split: if_splits dest!: find_from_bounds simp: ret_def)

definition interpolate ::
    "escape_env \<Rightarrow> (string \<Rightarrow> string option) \<Rightarrow> string \<Rightarrow> nat \<Rightarrow> (resolver_state, string) code" where
  "interpolate E vals text d = interpolate_loop E vals text d [] 0"

definition resolve_key ::
    "escape_env \<Rightarrow> (string \<Rightarrow> string option) \<Rightarrow> string \<Rightarrow> (resolver_state, error + string) code" where
  "resolve_key E vals key = landing_scope E (resolve E vals key 0)"

declare resolve.simps [simp del] interpolate_loop.simps [simp del]


subsection \<open>The reference\<close>

text \<open>
  The text read once into characters, references and the opening of a reference that is
  never closed.
\<close>

datatype segment = Lit char | Ref string | Unclosed

fun split_close :: "string \<Rightarrow> (string \<times> string) option" where
  "split_close [] = None"
| "split_close (c # cs) =
     (if c = CHR ''}'' then Some ([], cs) else map_option (\<lambda>(r, rest). (c # r, rest)) (split_close cs))"

lemma split_close_length: "split_close cs = Some (r, rest) \<Longrightarrow> length rest < length cs"
  by (induction cs arbitrary: r rest) (fastforce split: if_splits)+

function segments :: "string \<Rightarrow> segment list" where
  "segments [] = []"
| "segments (c # cs) =
     (if take 2 (c # cs) = ''${'' then
        (case split_close (drop 2 (c # cs)) of
           None \<Rightarrow> [Unclosed]
         | Some (r, rest) \<Rightarrow> Ref r # segments rest)
      else Lit c # segments cs)"
  by pat_completeness auto

termination
  by (relation "measure length") (auto dest!: split_close_length)

type_synonym fault = "c_int \<times> string \<times> nat"

text \<open>
  \<open>resolve_ref\<close> receives the keys on the path; \<open>segments_ref\<close> evaluates left to right and stops
  at the first fault.
\<close>

function (sequential) resolve_ref ::
    "(string \<Rightarrow> string option) \<Rightarrow> string set \<Rightarrow> string \<Rightarrow> nat \<Rightarrow> fault + string"
  and segments_ref ::
    "(string \<Rightarrow> string option) \<Rightarrow> string set \<Rightarrow> string \<Rightarrow> nat \<Rightarrow> segment list \<Rightarrow> fault + string"
where
  "resolve_ref vals path key d =
     (if d > max_depth then Inl (too_deep, key, d)
      else if key \<in> path then Inl (cycle, key, d)
      else
        (case vals key of
           None \<Rightarrow> Inl (missing, key, d)
         | Some text \<Rightarrow> segments_ref vals (insert key path) text d (segments text)))"
| "segments_ref vals path text d [] = Inr []"
| "segments_ref vals path text d (Lit c # ss) = map_sum id ((#) c) (segments_ref vals path text d ss)"
| "segments_ref vals path text d (Ref r # ss) =
     (case resolve_ref vals path r (d + 1) of
        Inl f \<Rightarrow> Inl f
      | Inr v \<Rightarrow> map_sum id ((@) v) (segments_ref vals path text d ss))"
| "segments_ref vals path text d (Unclosed # ss) = Inl (malformed, text, d)"
  by pat_completeness auto

termination
proof (relation "measures
   [\<lambda>x. case x of Inl (vals, path, key, d) \<Rightarrow> if d \<le> max_depth then 2 * (max_depth + 2 - d) + 1 else 0
          | Inr (vals, path, text, d, ss) \<Rightarrow> if d \<le> max_depth then 2 * (max_depth + 2 - d) else 1,
    \<lambda>x. case x of Inl _ \<Rightarrow> 0 | Inr (vals, path, text, d, ss) \<Rightarrow> length ss]")
qed auto

declare resolve_ref.simps [simp del]

text \<open>What the landing sees: the value, or the error with the faulty key left in the resolver.\<close>

definition outcome_of :: "fault + string \<Rightarrow> (resolver_state, string) plain" where
  "outcome_of r w =
     (case r of
        Inr v \<Rightarrow> (Inr v, w)
      | Inl (k, key, d) \<Rightarrow> (Inl (mk_error k (of_nat d)), w\<lparr>error_key := key\<rparr>))"


subsection \<open>The recursion on the arm computes the reference\<close>

lemma find_sub_segments:
  "find_sub ''${'' t = None \<Longrightarrow> segments t = map Lit t"
  "find_sub ''${'' t = Some n \<Longrightarrow>
     segments t = map Lit (take n t) @ segments (drop n t) \<and> take 2 (drop n t) = ''${'' \<and> n + 2 \<le> length t"
proof (induction t arbitrary: n)
  case (Cons c cs)
  {
    case 1
    then show ?case using Cons.IH(1) by (auto split: if_splits)
  next
    case 2
    then show ?case
      using Cons.IH(2) by (cases cs) (auto split: if_splits)
  }
qed (auto split: if_splits)

lemma find_sub_close:
  "find_sub ''}'' t = None \<Longrightarrow> split_close t = None"
  "find_sub ''}'' t = Some n \<Longrightarrow> split_close t = Some (take n t, drop (Suc n) t) \<and> n < length t"
proof (induction t arbitrary: n)
  case (Cons c cs)
  {
    case 1
    then show ?case using Cons.IH(1) by (auto split: if_splits)
  next
    case 2
    then show ?case
      using Cons.IH(2) by (auto split: if_splits)
  }
qed (auto split: if_splits)

lemma segments_open:
  assumes "take 2 t = ''${''"
  shows "segments t =
    (case split_close (drop 2 t) of None \<Rightarrow> [Unclosed] | Some (r, rest) \<Rightarrow> Ref r # segments rest)"
  using assms by (cases t) auto

text \<open>One iteration of the loop, against the segments that are left.\<close>

lemma loop_segments:
  assumes "i < length text"
  shows "find_from text ''${'' i = None \<Longrightarrow> segments (drop i text) = map Lit (drop i text)"
    and "find_from text ''${'' i = Some a \<Longrightarrow> find_from text ''}'' (a + 2) = None \<Longrightarrow>
      segments (drop i text) = map Lit (substr text i (a - i)) @ [Unclosed]"
    and "find_from text ''${'' i = Some a \<Longrightarrow> find_from text ''}'' (a + 2) = Some b \<Longrightarrow>
      segments (drop i text) =
        map Lit (substr text i (a - i)) @ Ref (substr text (a + 2) (b - (a + 2))) # segments (drop (b + 1) text)"
proof -
  show "find_from text ''${'' i = None \<Longrightarrow> segments (drop i text) = map Lit (drop i text)"
    using assms find_sub_segments(1) by (simp add: find_from_def)
next
  assume a: "find_from text ''${'' i = Some a" and b: "find_from text ''}'' (a + 2) = None"
  from a assms obtain n where n: "find_sub ''${'' (drop i text) = Some n" "a = i + n"
    by (auto simp: find_from_def)
  note f = find_sub_segments(2) [OF n(1)]
  then have "a + 2 \<le> length text" using n(2) assms by auto
  with b have "split_close (drop (a + 2) text) = None" using find_sub_close(1) by (simp add: find_from_def)
  then show "segments (drop i text) = map Lit (substr text i (a - i)) @ [Unclosed]"
    using f n(2) segments_open [of "drop a text"] by (simp add: substr_def add.commute)
next
  assume a: "find_from text ''${'' i = Some a" and b: "find_from text ''}'' (a + 2) = Some b"
  from a assms obtain n where n: "find_sub ''${'' (drop i text) = Some n" "a = i + n"
    by (auto simp: find_from_def)
  note f = find_sub_segments(2) [OF n(1)]
  from b obtain m where m: "find_sub ''}'' (drop (a + 2) text) = Some m" "b = a + 2 + m"
    by (auto simp: find_from_def split: if_splits)
  show "segments (drop i text) =
      map Lit (substr text i (a - i)) @ Ref (substr text (a + 2) (b - (a + 2))) # segments (drop (b + 1) text)"
    using f n(2) m(2) find_sub_close(2) [OF m(1)] segments_open [of "drop a text"]
    by (simp add: substr_def add.commute add.left_commute)
qed

lemma map_sum_append [simp]:
  "map_sum id ((@) xs) (map_sum id ((@) ys) r) = map_sum id ((@) (xs @ ys)) r"
  "map_sum id ((@) []) r = r"
  by (cases r; simp)+

lemma segments_ref_literals:
  "segments_ref vals path text d (map Lit cs @ ss) = map_sum id ((@) cs) (segments_ref vals path text d ss)"
  by (induction cs) (simp_all add: sum.map_comp o_def sum.map_ident)

lemma segments_ref_only_literals: "segments_ref vals path text d (map Lit cs) = Inr cs"
  using segments_ref_literals [where ss = "[]"] by simp

lemma eject_with_embed:
  "env_ok E \<Longrightarrow> in_scope E s \<Longrightarrow>
     eject_with E k key d s = embed s (Inl (mk_error k (of_nat d)), (world s)\<lparr>error_key := key\<rparr>)"
  by (simp add: eject_with_def eject_embed)

lemma seq_eject_with:
  assumes "env_ok E" and "in_scope E s"
  shows "seq (eject_with E k key d) c s =
    embed s (Inl (mk_error k (of_nat d)), (world s)\<lparr>error_key := key\<rparr>)"
  by (rule seq_escape) (rule eject_with_embed [OF assms])

lemma interpolate_loop_correct:
  assumes "env_ok E" and "in_scope E s" and "resolving (world s) = path"
    and call: "\<And>key t. in_scope E t \<Longrightarrow> resolving (world t) = path \<Longrightarrow>
      resolve E vals key (d + 1) t = embed t (outcome_of (resolve_ref vals path key (d + 1)) (world t))"
  shows "interpolate_loop E vals text d out i s =
    embed s (outcome_of (map_sum id ((@) out) (segments_ref vals path text d (segments (drop i text)))) (world s))"
proof (induction "length text - i" arbitrary: i out rule: less_induct)
  case less
  consider (finished) "\<not> i < length text"
    | (plain) "i < length text" "find_from text ''${'' i = None"
    | (unclosed) a where "i < length text" "find_from text ''${'' i = Some a" "find_from text ''}'' (a + 2) = None"
    | (reference) a b where "i < length text" "find_from text ''${'' i = Some a" "find_from text ''}'' (a + 2) = Some b"
    by fastforce
  then show ?case
  proof cases
    case finished
    then show ?thesis by (simp add: interpolate_loop.simps outcome_of_def ret_embed)
  next
    case plain
    then show ?thesis
      by (simp add: interpolate_loop.simps outcome_of_def ret_embed loop_segments(1) segments_ref_only_literals)
  next
    case unclosed
    then show ?thesis
      using loop_segments(2) [OF unclosed]
      by (simp add: interpolate_loop.simps outcome_of_def segments_ref_literals
          seq_eject_with [OF assms(1,2)])
  next
    case (reference a b)
    let ?lit = "substr text i (a - i)" and ?key = "substr text (a + 2) (b - (a + 2))"
    have pos: "i < b + 1" using find_from_bounds [OF reference(2)] find_from_bounds [OF reference(3)] by simp
    have seg: "segments_ref vals path text d (segments (drop i text)) =
        map_sum id ((@) ?lit) (case resolve_ref vals path ?key (d + 1) of
           Inl f \<Rightarrow> Inl f
         | Inr v \<Rightarrow> map_sum id ((@) v) (segments_ref vals path text d (segments (drop (b + 1) text))))"
      by (simp only: loop_segments(3) [OF reference] segments_ref_literals segments_ref.simps)
    note c = call [OF assms(2,3), of ?key]
    show ?thesis
    proof (cases "resolve_ref vals path ?key (d + 1)")
      case (Inl f)
      then show ?thesis
        using reference c seg
        by (cases f) (simp add: interpolate_loop.simps Let_def outcome_of_def seq_escape)
    next
      case (Inr v)
      have "interpolate_loop E vals text d ((out @ ?lit) @ v) (b + 1) s =
          embed s (outcome_of (map_sum id ((@) ((out @ ?lit) @ v))
            (segments_ref vals path text d (segments (drop (b + 1) text)))) (world s))"
        by (rule less.hyps) (use pos reference(1) in simp)
      then show ?thesis
        using reference c seg Inr
        by (subst interpolate_loop.simps)
          (simp add: Let_def outcome_of_def [of "Inr v"] seq_value)
    qed
  qed
qed

lemma resolve_correct:
  assumes "env_ok E"
  shows "in_scope E s \<Longrightarrow>
    resolve E vals key d s = embed s (outcome_of (resolve_ref vals (resolving (world s)) key d) (world s))"
proof (induction "max_depth + 1 - d" arbitrary: d key s)
  case 0
  then have "d > max_depth" by simp
  then show ?case
    using 0 by (simp add: resolve.simps resolve_ref.simps outcome_of_def
        seq_eject_with [OF assms 0(2)])
next
  case (Suc n)
  then have d: "\<not> d > max_depth" by simp
  let ?path = "resolving (world s)"
  consider (hit) "key \<in> ?path" | (absent) "key \<notin> ?path" "vals key = None"
    | (present) raw where "key \<notin> ?path" "vals key = Some raw" by blast
  then show ?case
  proof cases
    case hit
    then show ?thesis
      using d by (simp add: resolve.simps resolve_ref.simps outcome_of_def
          seq_eject_with [OF assms Suc.prems])
  next
    case absent
    let ?s = "s\<lparr>world := (world s)\<lparr>resolving := insert key ?path\<rparr>\<rparr>"
    have "in_scope E ?s" using Suc.prems by simp
    then show ?thesis
      using d absent
      by (simp add: resolve.simps resolve_ref.simps outcome_of_def
          guarded_embed [where r = "Inl (mk_error missing (of_nat d))" and
            w = "(world s)\<lparr>resolving := insert key ?path, error_key := key\<rparr>"]
          seq_eject_with [OF assms])
  next
    case (present raw)
    let ?s = "s\<lparr>world := (world s)\<lparr>resolving := insert key ?path\<rparr>\<rparr>"
    let ?r = "segments_ref vals (insert key ?path) raw d (segments raw)"
    have "interpolate_loop E vals raw d [] 0 ?s =
        embed ?s (outcome_of (map_sum id ((@) []) (segments_ref vals (insert key ?path) raw d (segments (drop 0 raw)))) (world ?s))"
    proof (rule interpolate_loop_correct [OF assms])
      fix k and t :: "resolver_state arm"
      assume t: "in_scope E t" "resolving (world t) = insert key ?path"
      show "resolve E vals k (d + 1) t =
          embed t (outcome_of (resolve_ref vals (insert key ?path) k (d + 1)) (world t))"
        using Suc.hyps(1) [of "d + 1" t k] Suc.hyps(2) t by simp
    qed (use Suc.prems in simp_all)
    then have body: "interpolate_loop E vals raw d [] 0 ?s = embed s (outcome_of ?r (world ?s))"
      by simp
    obtain r w where rw: "outcome_of ?r (world ?s) = (r, w)" by (cases "outcome_of ?r (world ?s)")
    have "outcome_of ?r (world s) = (r, w\<lparr>resolving := resolving w - {key}\<rparr>)"
      using rw present(1) by (auto simp: outcome_of_def split: sum.splits)
    then show ?thesis
      using d present body rw
      by (simp add: resolve.simps resolve_ref.simps guarded_embed)
  qed
qed


subsection \<open>Which string a key denotes\<close>

text \<open>
  A key expands to a string within \<open>n\<close> levels when its text, with every reference replaced
  by an expansion within \<open>n - 1\<close> levels, is that string.  No path, no order, no guard.
\<close>

inductive expands :: "(string \<Rightarrow> string option) \<Rightarrow> nat \<Rightarrow> string \<Rightarrow> string \<Rightarrow> bool"
  and expands_segments :: "(string \<Rightarrow> string option) \<Rightarrow> nat \<Rightarrow> segment list \<Rightarrow> string \<Rightarrow> bool"
  for vals
where
  expands_key: "vals key = Some raw \<Longrightarrow> expands_segments vals n (segments raw) v \<Longrightarrow> expands vals (Suc n) key v"
| expands_nil: "expands_segments vals n [] []"
| expands_lit: "expands_segments vals n ss v \<Longrightarrow> expands_segments vals n (Lit c # ss) (c # v)"
| expands_ref: "expands vals n r u \<Longrightarrow> expands_segments vals n ss v \<Longrightarrow> expands_segments vals n (Ref r # ss) (u @ v)"

inductive_cases expands_elim: "expands vals n key v"
inductive_simps expands_segments_simps [simp]:
  "expands_segments vals n [] v"
  "expands_segments vals n (Lit c # ss) v"
  "expands_segments vals n (Ref r # ss) v"
  "expands_segments vals n (Unclosed # ss) v"

lemma expands_unique:
  "expands vals n key v \<Longrightarrow> expands vals m key u \<Longrightarrow> u = v"
  "expands_segments vals n ss v \<Longrightarrow> expands_segments vals m ss u \<Longrightarrow> u = v"
proof (induction n key v and n ss v arbitrary: m u and m u rule: expands_expands_segments.inducts)
  case (expands_key key raw n v)
  from expands_key.prems obtain n' raw' where "vals key = Some raw'" "expands_segments vals n' (segments raw') u"
    by (rule expands_elim) blast
  with expands_key show ?case by simp
next
  case (expands_nil n)
  then show ?case by simp
next
  case (expands_lit n ss v c)
  from expands_lit.prems obtain u' where "u = c # u'" "expands_segments vals m ss u'" by auto
  with expands_lit.IH show ?case by blast
next
  case (expands_ref n r u' ss v)
  from expands_ref.prems obtain x y where "u = x @ y" "expands vals m r x" "expands_segments vals m ss y" by auto
  with expands_ref.IH show ?case by blast
qed

text \<open>A string the resolver returns is an expansion.\<close>

lemma resolve_ref_sound:
  "resolve_ref vals path key d = Inr v \<Longrightarrow> expands vals (max_depth + 1 - d) key v"
  "d \<le> max_depth \<Longrightarrow> segments_ref vals path raw d ss = Inr v \<Longrightarrow> expands_segments vals (max_depth - d) ss v"
proof (induction vals path key d and vals path raw d ss arbitrary: v and v
    rule: resolve_ref_segments_ref.induct)
  case (1 vals path key d)
  then show ?case
    by (auto simp: resolve_ref.simps [of vals path key] Suc_diff_le split: if_splits option.splits intro: expands_key)
next
  case (3 vals path raw d c ss)
  then show ?case by (cases "segments_ref vals path raw d ss") auto
next
  case (4 vals path raw d r ss)
  then show ?case
    by (cases "segments_ref vals path raw d ss") (auto split: sum.splits)
qed auto

text \<open>
  An expansion within the levels that are left is found: a key met again on the path cannot
  have one, since its expansion would contain itself.
\<close>

definition least_level :: "(string \<Rightarrow> string option) \<Rightarrow> nat \<Rightarrow> string \<Rightarrow> bool" where
  "least_level vals n key \<longleftrightarrow> (\<exists>v. expands vals n key v) \<and> (\<forall>m<n. \<forall>v. \<not> expands vals m key v)"

lemma least_level_exists:
  assumes "expands vals n key v"
  obtains m where "m \<le> n" "least_level vals m key"
proof -
  let ?m = "LEAST m. \<exists>v. expands vals m key v"
  have "\<exists>v. expands vals ?m key v" by (rule LeastI [of _ n]) (use assms in blast)
  moreover have "\<not> expands vals k key u" if "k < ?m" for k u
    using not_less_Least [OF that] by blast
  ultimately have "least_level vals ?m key" by (simp add: least_level_def)
  moreover have "?m \<le> n" by (rule Least_le) (use assms in blast)
  ultimately show thesis using that by blast
qed

lemma segments_ref_complete:
  assumes "expands_segments vals n ss v"
    and "\<And>r u. expands vals n r u \<Longrightarrow> resolve_ref vals path r (d + 1) = Inr u"
  shows "segments_ref vals path raw d ss = Inr v"
  using assms(1)
proof (induction ss arbitrary: v)
  case (Cons x ss)
  then show ?case by (cases x) (auto simp: assms(2) [simplified])
qed simp

lemma resolve_ref_complete:
  assumes "least_level vals n key" and "expands vals n key v" and "n + d \<le> max_depth + 1"
    and "\<And>a m u. a \<in> path \<Longrightarrow> m \<le> n \<Longrightarrow> \<not> expands vals m a u"
  shows "resolve_ref vals path key d = Inr v"
  using assms
proof (induction n arbitrary: key v d path rule: less_induct)
  case (less n)
  from less.prems(2) obtain k raw where k: "n = Suc k" and raw: "vals key = Some raw"
    and segs: "expands_segments vals k (segments raw) v"
    by (rule expands_elim) blast
  have "key \<notin> path" using less.prems(2,4) by blast
  moreover have "\<not> max_depth < d" using less.prems(3) k by simp
  moreover have "segments_ref vals (insert key path) raw d (segments raw) = Inr v"
  proof (rule segments_ref_complete [OF segs])
    fix r u
    assume r: "expands vals k r u"
    then obtain m where m: "m \<le> k" "least_level vals m r" by (rule least_level_exists)
    then obtain u' where u': "expands vals m r u'" by (auto simp: least_level_def)
    then have "u' = u" using expands_unique(1) [OF r] by simp
    moreover have "resolve_ref vals (insert key path) r (d + 1) = Inr u'"
    proof (rule less.IH [OF _ m(2) u'])
      show "\<not> expands vals m' a x" if "a \<in> insert key path" "m' \<le> m" for a m' x
        using that less.prems(1,4) m(1) k by (auto simp: least_level_def)
    qed (use m(1) k less.prems(3) in simp_all)
    ultimately show "resolve_ref vals (insert key path) r (d + 1) = Inr u" by simp
  qed
  ultimately show ?case by (simp add: resolve_ref.simps raw)
qed

lemma resolve_ref_iff: "resolve_ref vals {} key 0 = Inr v \<longleftrightarrow> expands vals (max_depth + 1) key v"
proof
  assume "resolve_ref vals {} key 0 = Inr v"
  then show "expands vals (max_depth + 1) key v" using resolve_ref_sound(1) [of vals "{}" key 0] by simp
next
  assume e: "expands vals (max_depth + 1) key v"
  then obtain m where m: "m \<le> max_depth + 1" "least_level vals m key" by (rule least_level_exists)
  then obtain u where u: "expands vals m key u" by (auto simp: least_level_def)
  then have "u = v" using expands_unique(1) [OF e] by simp
  with resolve_ref_complete [OF m(2) u, of 0 "{}"] m(1) show "resolve_ref vals {} key 0 = Inr v" by simp
qed


subsection \<open>What a failure means\<close>

definition refers :: "(string \<Rightarrow> string option) \<Rightarrow> (string \<times> string) set" where
  "refers vals = {(a, b). \<exists>raw. vals a = Some raw \<and> Ref b \<in> set (segments raw)}"

text \<open>
  A fault found \<open>n\<close> references away from \<open>key\<close>: the reported key is at the end of a chain of
  \<open>n\<close> references and is missing, refers back to itself, or is one too many; a malformed
  reference is reported with the text that holds it.
\<close>

definition explains :: "(string \<Rightarrow> string option) \<Rightarrow> string \<Rightarrow> nat \<Rightarrow> c_int \<Rightarrow> string \<Rightarrow> bool" where
  "explains vals key n k x \<longleftrightarrow>
     (k = missing \<and> (key, x) \<in> refers vals ^^ n \<and> vals x = None) \<or>
     (k = cycle \<and> (key, x) \<in> refers vals ^^ n \<and> (x, x) \<in> (refers vals)\<^sup>+) \<or>
     (k = too_deep \<and> (key, x) \<in> refers vals ^^ n) \<or>
     (k = malformed \<and> (\<exists>a. (key, a) \<in> refers vals ^^ n \<and> vals a = Some x \<and> Unclosed \<in> set (segments x)))"

definition fault_explained :: "(string \<Rightarrow> string option) \<Rightarrow> string \<Rightarrow> nat \<Rightarrow> fault \<Rightarrow> bool" where
  "fault_explained vals key d f =
     (case f of (k, x, e) \<Rightarrow>
        d \<le> e \<and> e \<le> max_depth + 1 \<and> (k = too_deep \<longrightarrow> e = max_depth + 1) \<and> explains vals key (e - d) k x)"

lemma explains_step:
  assumes "(key, r) \<in> refers vals" and "explains vals r n k x"
  shows "explains vals key (Suc n) k x"
  using assms(2) relpow_Suc_I2 [OF assms(1)] unfolding explains_def by blast

lemma fault_explained_step:
  assumes "(key, r) \<in> refers vals" and "fault_explained vals r (Suc d) f"
  shows "fault_explained vals key d f"
proof (cases f)
  case (fields k x e)
  with assms(2) have "Suc d \<le> e" "explains vals r (e - Suc d) k x" by (simp_all add: fault_explained_def)
  then have "explains vals key (e - d) k x"
    using explains_step [OF assms(1)] by (metis Suc_diff_Suc Suc_le_eq)
  then show ?thesis using fields assms(2) by (simp add: fault_explained_def)
qed

lemma kinds_distinct [simp]:
  "missing \<noteq> cycle" "missing \<noteq> too_deep" "missing \<noteq> malformed" "cycle \<noteq> too_deep" "cycle \<noteq> malformed"
  "malformed \<noteq> too_deep" "cycle \<noteq> missing" "too_deep \<noteq> missing" "malformed \<noteq> missing" "too_deep \<noteq> cycle"
  "malformed \<noteq> cycle" "too_deep \<noteq> malformed"
  by (simp_all add: missing_def cycle_def too_deep_def malformed_def)

lemma resolve_ref_fault:
  "resolve_ref vals path key d = Inl f \<Longrightarrow> d \<le> max_depth + 1 \<Longrightarrow>
     (\<forall>a\<in>path. (a, key) \<in> (refers vals)\<^sup>+) \<Longrightarrow> fault_explained vals key d f"
  "segments_ref vals path raw d ss = Inl f \<Longrightarrow> d \<le> max_depth \<Longrightarrow>
     vals owner = Some raw \<Longrightarrow> set ss \<subseteq> set (segments raw) \<Longrightarrow>
     (\<forall>a\<in>path. (a, owner) \<in> (refers vals)\<^sup>*) \<Longrightarrow> fault_explained vals owner d f"
proof (induction vals path key d and vals path raw d ss arbitrary: f and f owner
    rule: resolve_ref_segments_ref.induct)
  case (1 vals path key d)
  show ?case
  proof (cases "max_depth < d \<or> key \<in> path \<or> vals key = None")
    case True
    then show ?thesis
      using 1 by (auto simp: resolve_ref.simps [of vals path key] fault_explained_def explains_def split: if_splits)
  next
    case False
    then obtain raw where raw: "vals key = Some raw" by auto
    with False 1(2) have "segments_ref vals (insert key path) raw d (segments raw) = Inl f"
      by (simp add: resolve_ref.simps)
    moreover have "\<forall>a\<in>insert key path. (a, key) \<in> (refers vals)\<^sup>*" using 1(4) by (auto intro: trancl_into_rtrancl)
    ultimately show ?thesis using 1(1) False raw by simp
  qed
next
  case (3 vals path raw d c ss)
  then show ?case by (cases "segments_ref vals path raw d ss") auto
next
  case (4 vals path raw d r ss)
  have step: "(owner, r) \<in> refers vals" using 4(5,6) by (auto simp: refers_def)
  show ?case
  proof (cases "resolve_ref vals path r (d + 1)")
    case (Inl g)
    moreover have "\<forall>a\<in>path. (a, r) \<in> (refers vals)\<^sup>+" using 4(7) step by (auto intro: rtrancl_into_trancl1)
    ultimately have "fault_explained vals r (Suc d) f" using 4(1,3,4) by simp
    then show ?thesis by (rule fault_explained_step [OF step])
  next
    case (Inr v)
    with 4(3) have "segments_ref vals path raw d ss = Inl f"
      by (cases "segments_ref vals path raw d ss") simp_all
    then show ?thesis using 4(2) [OF Inr] 4(4-7) by simp
  qed
next
  case (5 vals path raw d ss)
  then show ?case by (auto simp: fault_explained_def explains_def)
qed auto


subsection \<open>The program\<close>

text \<open>
  \<open>config_resolve\<close> prints through C strings, so a text ends at its first null character; a
  table is the list of its keys in iteration order, each with its string if it is one.
\<close>

type_synonym toml_values = "(string \<times> string option) list"

definition string_value :: "toml_values \<Rightarrow> string \<Rightarrow> string option" where
  "string_value table key = (case map_of table key of Some v \<Rightarrow> v | None \<Rightarrow> None)"

definition resolved_line :: "string \<Rightarrow> (error + string) \<times> resolver_state \<Rightarrow> string \<times> bool" where
  "resolved_line name x =
     (case x of
        (Inr v, w) \<Rightarrow> (''  '' @ pad_right 12 (c_str name) @ '' = '' @ c_str v, False)
      | (Inl e, w) \<Rightarrow>
          (''  '' @ pad_right 12 (c_str name) @ '' : FAILED, '' @ kind_text (err_code e) @
           '' (at key '' @ [CHR 0x27] @ c_str (error_key w) @ [CHR 0x27] @ '', depth '' @
           show_int (sint (err_domain e)) @ '')'', True))"

definition config_resolve ::
    "escape_env \<Rightarrow> string list \<Rightarrow> (string \<Rightarrow> string + toml_values option) \<Rightarrow> (resolver_state, int \<times> string list) code" where
  "config_resolve E argv parse_file =
     (case argv of
        [] \<Rightarrow> ret (2, [''usage: config_resolve <file.toml>''])
      | [_] \<Rightarrow> ret (2, [''usage: config_resolve <file.toml>''])
      | _ # file # _ \<Rightarrow>
          (case parse_file file of
             Inl description \<Rightarrow> ret (1, [''could not parse '' @ file @ '': '' @ c_str description])
           | Inr None \<Rightarrow> ret (1, [file @ '': no [values] table to resolve''])
           | Inr (Some table) \<Rightarrow>
               seq (serve (resolve_key E (string_value table)) resolved_line (map fst table)) (\<lambda>lines.
               let failures = length (filter snd lines) in
               ret (if failures = 0 then 0 else 1,
                    map fst lines @ [file @ '': '' @ show_nat (length table) @ '' value(s), '' @
                                     show_nat failures @ '' failure(s)'']))))"

text \<open>The resolver serves requests: the interface of the landing, discharged.\<close>

interpretation resolver: escaping_app E "\<lambda>_. env_ok E" "\<lambda>w. resolving w = {}" "\<lambda>key. resolve E vals key 0"
  "\<lambda>key w. outcome_of (resolve_ref vals {} key 0) w" resolved_line
proof
  show "resolve E vals key 0 s = embed s (outcome_of (resolve_ref vals {} key 0) (world s))"
    if "env_ok E" "in_scope E s" "resolving (world s) = {}" for s key
    using resolve_correct [OF that(1,2)] that(3) by simp
  show "resolving (snd (outcome_of (resolve_ref vals {} key 0) w)) = {}" if "resolving w = {}" for w key
    using that by (simp add: outcome_of_def split: sum.split)
  show "resolved_line key (outcome_of (resolve_ref vals {} key 0) w) =
      resolved_line key (outcome_of (resolve_ref vals {} key 0) w')" for w w' key
    by (simp add: outcome_of_def resolved_line_def split: sum.split)
qed


subsection \<open>Properties\<close>

text \<open>
  C6. \<open>resolve_key\<close> returns a value exactly when the key expands within 65 levels, and then that
  expansion; whether it returned or escaped from the middle of the recursion, the call
  comes back with the arm as it was and the set of keys being resolved empty again.
\<close>

theorem resolver_returns_the_expansion:
  assumes "env_ok E" and "arm_ok s" and "\<not> in_flight s" and "resolving (world s) = {}"
  shows "\<exists>r w. resolve_key E vals key s = (Normal_Flow r, s\<lparr>world := w\<rparr>) \<and> resolving w = {} \<and>
    (\<forall>v. r = Inr v \<longleftrightarrow> expands vals 65 key v)"
proof -
  let ?x = "outcome_of (resolve_ref vals {} key 0) (world s)"
  have "resolve_key E vals key s = (Normal_Flow (fst ?x), s\<lparr>world := snd ?x\<rparr>)"
    using resolver.lands [OF assms] by (simp add: resolve_key_def)
  moreover have "resolving (snd ?x) = {}" using resolver.stays_clean assms(1,4) by blast
  moreover have "fst ?x = Inr v \<longleftrightarrow> expands vals 65 key v" for v
    using resolve_ref_iff [of vals key v] by (auto simp: outcome_of_def max_depth_def split: sum.split)
  ultimately show ?thesis by blast
qed

definition sample_table :: toml_values where
  "sample_table =
     [(''a'', Some ''x${b}y''), (''b'', Some ''z''), (''c'', Some ''${c}''), (''d'', Some ''${no}''), (''e'', Some ''${'')]"

definition fresh_resolver :: resolver_state where
  "fresh_resolver = \<lparr>resolving = {}, error_key = []\<rparr>"

theorem resolver_returns_the_expansion_witness:
  "\<exists>w. resolve_key hosted_env (string_value sample_table) ''a'' (initial_arm fresh_resolver) =
     (Normal_Flow (Inr ''xzy''), (initial_arm fresh_resolver)\<lparr>world := w\<rparr>) \<and> resolving w = {}"
proof -
  have "resolve_ref (string_value sample_table) {} ''a'' 0 = Inr ''xzy''" by code_simp
  then have "expands (string_value sample_table) 65 ''a'' ''xzy''"
    using resolve_ref_iff by (simp add: max_depth_def)
  then show ?thesis
    using resolver_returns_the_expansion [of hosted_env "initial_arm fresh_resolver" "string_value sample_table" "''a''"]
    by (auto simp: fresh_resolver_def)
qed

text \<open>
  C31. When \<open>resolve_key\<close> fails, what it reports is true: a chain of as many references as the
  reported depth leads from the key to the reported one, which is missing, refers back to
  itself, or is the 65th reference of the chain; a malformed reference is reported by the
  text that contains it, whose key is at the end of the chain.
\<close>

theorem resolver_failure_is_explained:
  assumes "env_ok E" and "arm_ok s" and "\<not> in_flight s" and "resolving (world s) = {}"
    and "resolve_key E vals key s = (Normal_Flow (Inl e), t)"
  shows "\<exists>n. err_domain e = of_nat n \<and> n \<le> 65 \<and> (err_code e = too_deep \<longrightarrow> n = 65) \<and>
    explains vals key n (err_code e) (error_key (world t))"
proof -
  let ?r = "resolve_ref vals {} key 0"
  have "resolve_key E vals key s =
      (Normal_Flow (fst (outcome_of ?r (world s))), s\<lparr>world := snd (outcome_of ?r (world s))\<rparr>)"
    using resolver.lands [OF assms(1-4)] by (simp add: resolve_key_def)
  with assms(5) obtain k x n where f: "?r = Inl (k, x, n)" and e: "e = mk_error k (of_nat n)" and "error_key (world t) = x"
    by (auto simp: outcome_of_def split: sum.splits)
  moreover have "fault_explained vals key 0 (k, x, n)"
    using resolve_ref_fault(1) [OF f] by simp
  ultimately show ?thesis
    by (auto simp: fault_explained_def mk_error_def max_depth_def intro!: exI [of _ n])
qed

theorem resolver_failure_is_explained_witness:
  "\<exists>n e t. resolve_key hosted_env (string_value sample_table) ''c'' (initial_arm fresh_resolver) = (Normal_Flow (Inl e), t) \<and>
     err_code e = cycle \<and> err_domain e = of_nat n \<and>
     explains (string_value sample_table) ''c'' n cycle (error_key (world t))"
proof -
  have r: "resolve_ref (string_value sample_table) {} ''c'' 0 = Inl (cycle, ''c'', 1)" by code_simp
  have "resolve_key hosted_env (string_value sample_table) ''c'' (initial_arm fresh_resolver) =
      (Normal_Flow (Inl (mk_error cycle 1)), (initial_arm fresh_resolver)\<lparr>world := fresh_resolver\<lparr>error_key := ''c''\<rparr>\<rparr>)"
    using resolver.lands [of hosted_env "initial_arm fresh_resolver" "string_value sample_table" "''c''"]
    by (simp add: resolve_key_def r outcome_of_def fresh_resolver_def)
  with resolver_failure_is_explained [of hosted_env "initial_arm fresh_resolver" "string_value sample_table" "''c''"]
  show ?thesis by (fastforce simp: fresh_resolver_def mk_error_def)
qed

text \<open>
  \<open>config_resolve\<close> reuses one resolver for the whole table, also after failures: line \<open>i\<close> is
  what a fresh resolver reports for key \<open>i\<close> alone, the count of failures is the count of
  keys with no expansion, and the exit code is 0 exactly when every key expands.
\<close>

theorem config_resolve_reports_every_key:
  assumes "env_ok E" and "arm_ok s" and "\<not> in_flight s" and "resolving (world s) = {}"
    and "parse_file file = Inr (Some table)"
  shows "\<exists>code out w.
    config_resolve E [prog, file] parse_file s = (Normal_Flow (code, out), s\<lparr>world := w\<rparr>) \<and>
    length out = length table + 1 \<and>
    (\<forall>i < length table. \<exists>r t.
       resolve_key E (string_value table) (fst (table ! i)) (initial_arm fresh_resolver) = (Normal_Flow r, t) \<and>
       out ! i = fst (resolved_line (fst (table ! i)) (r, world t))) \<and>
    (code = 0 \<longleftrightarrow> (\<forall>x \<in> set table. \<exists>v. expands (string_value table) 65 (fst x) v))"
proof -
  let ?vals = "string_value table"
  let ?x = "\<lambda>key. outcome_of (resolve_ref ?vals {} key 0) fresh_resolver"
  let ?lines = "map (\<lambda>key. resolved_line key (?x key)) (map fst table)"
  have fresh: "resolving fresh_resolver = {}" by (simp add: fresh_resolver_def)
  obtain w where "serve (resolve_key E ?vals) resolved_line (map fst table) s = (Normal_Flow ?lines, s\<lparr>world := w\<rparr>)"
    using resolver.serves [OF _ assms(2-4) fresh, of "map fst table" E ?vals] assms(1) by (auto simp: resolve_key_def [abs_def])
  then obtain out where run: "config_resolve E [prog, file] parse_file s =
      (Normal_Flow (if filter snd ?lines = [] then 0 else 1, map fst ?lines @ [out]), s\<lparr>world := w\<rparr>)"
    by (auto simp: config_resolve_def assms(5) seq_def bind_flow_def ret_def Let_def)
  have key: "resolve_key E ?vals k (initial_arm fresh_resolver) =
      (Normal_Flow (fst (?x k)), (initial_arm fresh_resolver)\<lparr>world := snd (?x k)\<rparr>)" for k
    using resolver.lands [OF assms(1) initial_arm_ok(1,2), of fresh_resolver ?vals k] fresh by (simp add: resolve_key_def)
  have fails: "\<not> snd (resolved_line k (?x k)) \<longleftrightarrow> (\<exists>v. expands ?vals 65 k v)" for k
    using resolve_ref_iff [of ?vals k]
    by (cases "resolve_ref ?vals {} k 0") (auto simp: outcome_of_def resolved_line_def max_depth_def)
  have "(if filter snd ?lines = [] then 0 else 1 :: int) = 0 \<longleftrightarrow>
      (\<forall>x \<in> set table. \<exists>v. expands ?vals 65 (fst x) v)"
    by (auto simp: filter_empty_conv fails)
  then show ?thesis using run key by (fastforce simp: nth_append)
qed

theorem config_resolve_reports_every_key_witness:
  "\<exists>code out w.
    config_resolve hosted_env [''config_resolve'', ''t.toml''] (\<lambda>_. Inr (Some sample_table)) (initial_arm fresh_resolver) =
      (Normal_Flow (code, out), (initial_arm fresh_resolver)\<lparr>world := w\<rparr>) \<and> length out = 6"
  using config_resolve_reports_every_key [of hosted_env "initial_arm fresh_resolver" "\<lambda>_. Inr (Some sample_table)"
      "''t.toml''" sample_table "''config_resolve''"]
  by (fastforce simp: fresh_resolver_def sample_table_def)

end
