(* ===== verification/App_Manifest.thy ===== *)
theory App_Manifest
  imports App_Escape "HOL-Library.Monad_Syntax"
begin

unbundle bit_operations_syntax

text \<open>
  The manifest verifier of the OP-TEE trusted application
  (\<open>reference_app/optee_ta/ta/manifest_ta.cpp\<close>).

  The buffer is the list of bytes the client supplied, which this model takes as fixed for
  the duration of a command.  A pointer into it with a length is the slice it points to,
  and an access outside the buffer is undefined behaviour (\<open>None\<close> of the reader, \<open>Broken\<close> of
  the arm), so that its absence is a theorem.  \<open>size_t\<close> has \<open>W\<close> bits and its sums wrap.
  \<open>g_path\<close> is the list of its first \<open>g_path_len\<close> entries; a push beyond its \<open>max_depth + 1\<close>
  slots is undefined behaviour.

  The TEE's services are parameters: \<open>sha256\<close>, and \<open>alloc\<close>, which says whether another digest
  operation is granted to an instance that holds the given number of them.
\<close>

definition manifest_truncated :: c_int where "manifest_truncated = 1"
definition header_bad :: c_int where "header_bad = 2"
definition version_unsupported :: c_int where "version_unsupported = 3"
definition entry_malformed :: c_int where "entry_malformed = 4"
definition length_implausible :: c_int where "length_implausible = 5"
definition digest_mismatch :: c_int where "digest_mismatch = 6"
definition reference_missing :: c_int where "reference_missing = 7"
definition reference_cycle :: c_int where "reference_cycle = 8"
definition nesting_too_deep :: c_int where "nesting_too_deep = 9"
definition digest_unavailable :: c_int where "digest_unavailable = 10"

definition ta_max_depth :: nat where "ta_max_depth = 6"
definition ta_max_name :: nat where "ta_max_name = 24"
definition max_image_bytes :: nat where "max_image_bytes = 2 ^ 20"
definition digest_bytes :: nat where "digest_bytes = 32"

text \<open>An ASCII literal as bytes.\<close>

definition ascii :: "string \<Rightarrow> byte list" where
  "ascii t = map (\<lambda>c. of_nat (of_char c)) t"


subsection \<open>The reader\<close>

definition reader_has :: "nat \<Rightarrow> byte list \<Rightarrow> nat \<Rightarrow> nat \<Rightarrow> bool" where
  "reader_has W buf pos n \<longleftrightarrow> (pos + n) mod 2 ^ W \<le> length buf"

definition advance :: "nat \<Rightarrow> nat \<Rightarrow> nat \<Rightarrow> nat" where
  "advance W pos n = (pos + n) mod 2 ^ W"

definition reader_u8 :: "byte list \<Rightarrow> nat \<Rightarrow> byte option" where
  "reader_u8 buf pos = (if pos < length buf then Some (buf ! pos) else None)"

definition reader_u32 :: "byte list \<Rightarrow> nat \<Rightarrow> c_uint32 option" where
  "reader_u32 buf pos =
     (if pos + 3 < length buf then
        Some (ucast (buf ! pos) OR push_bit 8 (ucast (buf ! (pos + 1))) OR
              push_bit 16 (ucast (buf ! (pos + 2))) OR push_bit 24 (ucast (buf ! (pos + 3))))
      else None)"

definition reader_take :: "byte list \<Rightarrow> nat \<Rightarrow> nat \<Rightarrow> byte list option" where
  "reader_take buf pos n = (if pos + n \<le> length buf then Some (take n (drop pos buf)) else None)"


subsection \<open>The state of the instance\<close>

record ta_state =
  fault_name :: "byte list"
  entries_verified :: nat
  deepest :: nat
  visit_path :: "byte list list"
  live_ops :: nat

definition note_name :: "byte list \<Rightarrow> byte list \<Rightarrow> byte list" where
  "note_name name old = (let n = min (length name) ta_max_name in take n name @ [0] @ drop (n + 1) old)"

definition ta_fail :: "escape_env \<Rightarrow> c_int \<Rightarrow> byte list \<Rightarrow> nat \<Rightarrow> (ta_state, unit) code" where
  "ta_fail E f name d =
     seq (upd (\<lambda>w. w\<lparr>fault_name := note_name name (fault_name w)\<rparr>)) (\<lambda>_. eject_error E (mk_error f (of_nat d)))"

definition fail_if :: "escape_env \<Rightarrow> bool \<Rightarrow> c_int \<Rightarrow> byte list \<Rightarrow> nat \<Rightarrow> (ta_state, unit) code" where
  "fail_if E c f name d = (if c then ta_fail E f name d else ret ())"

text \<open>
  \<open>digest\<close>: the constructor escapes when the TEE refuses the operation; once constructed, the
  destructor frees it.
\<close>

definition with_digest :: "escape_env \<Rightarrow> (nat \<Rightarrow> bool) \<Rightarrow> nat \<Rightarrow> (ta_state, 'a) code \<Rightarrow> (ta_state, 'a) code" where
  "with_digest E alloc d body =
     look live_ops (\<lambda>n.
     seq (if alloc n then upd (\<lambda>w. w\<lparr>live_ops := live_ops w + 1\<rparr>)
          else ta_fail E digest_unavailable (ascii ''digest'') d) (\<lambda>_.
     guarded (\<lambda>w. w\<lparr>live_ops := live_ops w - 1\<rparr>) body))"

text \<open>\<open>visiting\<close>: the scan of the path, the bound, the push; the destructor pops.\<close>

primrec check_path :: "escape_env \<Rightarrow> byte list \<Rightarrow> nat \<Rightarrow> byte list list \<Rightarrow> (ta_state, unit) code" where
  "check_path E name d [] = ret ()"
| "check_path E name d (p # ps) =
     seq (fail_if E (p = name) reference_cycle name d) (\<lambda>_. check_path E name d ps)"

definition push_path :: "byte list \<Rightarrow> (ta_state, unit) code" where
  "push_path name =
     look (\<lambda>w. length (visit_path w)) (\<lambda>n.
       if n < ta_max_depth + 1 then upd (\<lambda>w. w\<lparr>visit_path := visit_path w @ [name]\<rparr>)
       else undefined_behaviour)"

definition visiting :: "escape_env \<Rightarrow> byte list \<Rightarrow> nat \<Rightarrow> (ta_state, 'a) code \<Rightarrow> (ta_state, 'a) code" where
  "visiting E name d body =
     look visit_path (\<lambda>ps.
     seq (check_path E name d ps) (\<lambda>_.
     seq (fail_if E (length ps > ta_max_depth) nesting_too_deep name d) (\<lambda>_.
     seq (push_path name) (\<lambda>_.
     guarded (\<lambda>w. w\<lparr>visit_path := butlast (visit_path w)\<rparr>) body))))"


subsection \<open>Finding an entry\<close>

record located =
  loc_offset :: nat
  loc_found :: bool

definition absent :: located where "absent = \<lparr>loc_offset = 0, loc_found = False\<rparr>"

fun find_loop :: "nat \<Rightarrow> byte list \<Rightarrow> byte list \<Rightarrow> nat \<Rightarrow> nat \<Rightarrow> located option" where
  "find_loop W buf want 0 pos = Some absent"
| "find_loop W buf want (Suc count) pos =
     (if \<not> reader_has W buf pos 1 then Some absent
      else do {
        name_len \<leftarrow> reader_u8 buf pos;
        let pos = advance W pos 1;
        if \<not> reader_has W buf pos (unat name_len) then Some absent
        else do {
          name \<leftarrow> reader_take buf pos (unat name_len);
          let body = advance W pos (unat name_len);
          if \<not> reader_has W buf body (4 + digest_bytes + 1) then Some absent
          else do {
            len \<leftarrow> reader_u32 buf body;
            let pos = advance W (advance W body 4) digest_bytes;
            ref_len \<leftarrow> reader_u8 buf pos;
            let pos = advance W pos 1;
            if \<not> reader_has W buf pos (unat ref_len) then Some absent
            else do {
              let pos = advance W pos (unat ref_len);
              if \<not> reader_has W buf pos (unat len) then Some absent
              else if name = want then Some \<lparr>loc_offset = body, loc_found = True\<rparr>
              else find_loop W buf want count (advance W pos (unat len))
            }
          }
        }
      })"

definition find_entry :: "nat \<Rightarrow> byte list \<Rightarrow> byte list \<Rightarrow> located option" where
  "find_entry W buf want =
     (if \<not> reader_has W buf 0 6 then Some absent
      else do {
        count \<leftarrow> reader_u8 buf (advance W (advance W 0 4) 1);
        find_loop W buf want (unat count) (advance W 0 6)
      })"


subsection \<open>Verifying\<close>

text \<open>
  Reading an entry's fixed part at its body: length, digest, reference, and the position
  after them.
\<close>

record entry_head =
  image_length :: c_uint32
  expected_digest :: "byte list"
  entry_ref :: "byte list"
  image_start :: nat

definition read_fixed ::
    "escape_env \<Rightarrow> nat \<Rightarrow> byte list \<Rightarrow> byte list \<Rightarrow> nat \<Rightarrow> nat \<Rightarrow> (ta_state, entry_head) code" where
  "read_fixed E W buf name body d =
     seq (fail_if E (\<not> reader_has W buf body (4 + digest_bytes + 1)) manifest_truncated name d) (\<lambda>_.
     checked (reader_u32 buf body) (\<lambda>len.
     checked (reader_take buf (advance W body 4) digest_bytes) (\<lambda>expected.
     let pos = advance W (advance W body 4) digest_bytes in
     checked (reader_u8 buf pos) (\<lambda>ref_len.
     let pos = advance W pos 1 in
     seq (fail_if E (\<not> reader_has W buf pos (unat ref_len)) manifest_truncated name d) (\<lambda>_.
     checked (reader_take buf pos (unat ref_len)) (\<lambda>ref.
     ret \<lparr>image_length = len, expected_digest = expected, entry_ref = ref,
          image_start = advance W pos (unat ref_len)\<rparr>))))))"

text \<open>The image, its digest and the comparison.\<close>

definition check_entry_image ::
    "escape_env \<Rightarrow> (byte list \<Rightarrow> byte list) \<Rightarrow> nat \<Rightarrow> byte list \<Rightarrow> byte list \<Rightarrow> entry_head \<Rightarrow> nat \<Rightarrow> (ta_state, unit) code" where
  "check_entry_image E sha256 W buf name h d =
     seq (fail_if E (\<not> reader_has W buf (image_start h) (unat (image_length h))) manifest_truncated name d) (\<lambda>_.
     checked (reader_take buf (image_start h) (unat (image_length h))) (\<lambda>image.
     seq (fail_if E (sha256 image \<noteq> expected_digest h) digest_mismatch name d) (\<lambda>_.
     upd (\<lambda>w. w\<lparr>entries_verified := entries_verified w + 1\<rparr>))))"

lemma ta_fail_never_returns [simp]: "ta_fail E f name d s \<noteq> (Normal_Flow v, t)"
  by (simp add: ta_fail_def)

lemma fail_if_returns [simp]: "fail_if E c f name d s = (Normal_Flow v, t) \<longleftrightarrow> \<not> c \<and> t = s"
  by (auto simp: fail_if_def ret_def)

lemma checked_returns: "checked x k s = (Normal_Flow v, t) \<longleftrightarrow> (\<exists>u. x = Some u \<and> k u s = (Normal_Flow v, t))"
  by (auto simp: checked_def undefined_behaviour_def split: option.splits)

lemma check_path_returns: "check_path E name d ps s = (Normal_Flow v, t) \<Longrightarrow> t = s"
  by (induction ps arbitrary: s) (auto simp: ret_def seq_returns)

lemma push_path_returns:
  "push_path name s = (Normal_Flow v, t) \<Longrightarrow>
     visit_path (world t) = visit_path (world s) @ [name] \<and> length (visit_path (world s)) \<le> ta_max_depth"
  by (auto simp: push_path_def upd_def undefined_behaviour_def split: if_splits)

lemma read_fixed_returns: "read_fixed E W buf name body d s = (Normal_Flow v, t) \<Longrightarrow> t = s"
  by (auto simp: read_fixed_def seq_returns checked_returns Let_def ret_def)

lemma visiting_cong [fundef_cong]:
  assumes "s = s'"
    and "\<And>t. visit_path (world t) = visit_path (world s') @ [name] \<Longrightarrow>
           length (visit_path (world s')) \<le> ta_max_depth \<Longrightarrow> body t = body' t"
  shows "visiting E name d body s = visiting E name d body' s'"
  unfolding visiting_def assms(1)
  by (intro look_cong seq_cong guarded_cong refl)
    (auto dest!: check_path_returns push_path_returns intro: assms(2))

lemma with_digest_cong [fundef_cong]:
  assumes "s = s'" and "\<And>t. visit_path (world t) = visit_path (world s') \<Longrightarrow> body t = body' t"
  shows "with_digest E alloc d body s = with_digest E alloc d body' s'"
  unfolding with_digest_def assms(1)
  by (intro look_cong seq_cong guarded_cong refl)
    (auto simp: upd_def split: if_splits intro: assms(2))

function verify_entry ::
    "escape_env \<Rightarrow> (nat \<Rightarrow> bool) \<Rightarrow> (byte list \<Rightarrow> byte list) \<Rightarrow> nat \<Rightarrow> byte list \<Rightarrow> byte list \<Rightarrow> nat \<Rightarrow> nat \<Rightarrow>
     (ta_state, unit) code" where
  "verify_entry E alloc sha256 W buf name body d s =
     seq (upd (\<lambda>w. if d > deepest w then w\<lparr>deepest := d\<rparr> else w)) (\<lambda>_.
     visiting E name d (
     with_digest E alloc d (
     seq (read_fixed E W buf name body d) (\<lambda>h.
     seq (fail_if E (unat (image_length h) = 0 \<or> unat (image_length h) > max_image_bytes) length_implausible name d) (\<lambda>_.
     seq (branch (entry_ref h \<noteq> [])
            (checked (find_entry W buf (entry_ref h)) (\<lambda>target.
             seq (fail_if E (\<not> loc_found target) reference_missing (entry_ref h) d) (\<lambda>_.
             verify_entry E alloc sha256 W buf (entry_ref h) (loc_offset target) (d + 1))))
            (ret ())) (\<lambda>_.
     check_entry_image E sha256 W buf name h d)))))) s"
  by pat_completeness auto

termination
  by (relation "measure (\<lambda>(E, alloc, sha256, W, buf, name, body, d, s). ta_max_depth + 1 - length (visit_path (world s)))")
    (auto dest!: read_fixed_returns simp: upd_def split: if_splits)

declare verify_entry.simps [simp del]


definition verify_first ::
    "escape_env \<Rightarrow> (nat \<Rightarrow> bool) \<Rightarrow> (byte list \<Rightarrow> byte list) \<Rightarrow> nat \<Rightarrow> byte list \<Rightarrow> (ta_state, nat) code" where
  "verify_first E alloc sha256 W buf =
     (let root = ascii ''root'' in
      seq (fail_if E (\<not> reader_has W buf 0 6) manifest_truncated root 0) (\<lambda>_.
      checked (reader_take buf 0 4) (\<lambda>magic.
      seq (fail_if E (magic \<noteq> ascii ''MFST'') header_bad root 0) (\<lambda>_.
      checked (reader_u8 buf (advance W 0 4)) (\<lambda>version.
      seq (fail_if E (version \<noteq> 1) version_unsupported root 0) (\<lambda>_.
      checked (reader_u8 buf (advance W 0 5)) (\<lambda>count.
      seq (fail_if E (count = 0) entry_malformed root 0) (\<lambda>_.
      seq (fail_if E (\<not> reader_has W buf (advance W 0 6) 1) manifest_truncated root 0) (\<lambda>_.
      checked (reader_u8 buf (advance W 0 6)) (\<lambda>first_len.
      let pos = advance W 0 7 in
      seq (fail_if E (first_len = 0 \<or> \<not> reader_has W buf pos (unat first_len)) entry_malformed root 0) (\<lambda>_.
      checked (reader_take buf pos (unat first_len)) (\<lambda>first.
      seq (verify_entry E alloc sha256 W buf first (advance W pos (unat first_len)) 0) (\<lambda>_.
      look entries_verified ret)))))))))))))"

definition ta_reset :: "ta_state \<Rightarrow> ta_state" where
  "ta_reset w = w\<lparr>fault_name := (fault_name w)[0 := 0], entries_verified := 0, deepest := 0\<rparr>"

definition verify_manifest ::
    "escape_env \<Rightarrow> (nat \<Rightarrow> bool) \<Rightarrow> (byte list \<Rightarrow> byte list) \<Rightarrow> nat \<Rightarrow> byte list \<Rightarrow> (ta_state, error + nat) code" where
  "verify_manifest E alloc sha256 W buf =
     seq (upd ta_reset) (\<lambda>_.
     landing_scope E (verify_first E alloc sha256 W buf))"


subsection \<open>The commands\<close>

text \<open>
  The parameter slots of a command, with the kinds the TEE packs into \<open>types\<close>; the result
  codes by name.
\<close>

datatype tee_result = TEE_SUCCESS | TEE_ERROR_BAD_PARAMETERS | TEE_ERROR_NOT_SUPPORTED | TEE_ERROR_SHORT_BUFFER

datatype param_type = Param_None | Value_Output | Memref_Input | Memref_Output | Other_Param nat

record tee_params =
  param_types :: "param_type list"
  in_buffer :: "byte list option"
  value_a :: c_uint32
  value_b :: c_uint32
  out_buffer :: "byte list"
  out_size :: nat

definition TA_MANIFEST_CMD_VERIFY :: nat where "TA_MANIFEST_CMD_VERIFY = 0"
definition TA_MANIFEST_CMD_LAYOUT :: nat where "TA_MANIFEST_CMD_LAYOUT = 1"

definition TA_CreateEntryPoint :: "ta_state \<Rightarrow> tee_result \<times> ta_state" where
  "TA_CreateEntryPoint w = (TEE_SUCCESS, w\<lparr>visit_path := []\<rparr>)"

text \<open>The scan \<open>while (g_fault_name[n] && n < max_name)\<close>.\<close>

definition name_length :: "byte list \<Rightarrow> nat" where
  "name_length name = length (takeWhile (\<lambda>b. b \<noteq> 0) (take ta_max_name name))"

definition write_report :: "ta_state \<Rightarrow> error + nat \<Rightarrow> tee_params \<Rightarrow> tee_result \<times> tee_params" where
  "write_report w verdict ps =
     (let ps = ps\<lparr>value_a := (case verdict of Inr _ \<Rightarrow> 0 | Inl e \<Rightarrow> err_code e),
                  value_b := (case verdict of Inr _ \<Rightarrow> of_nat (entries_verified w) | Inl e \<Rightarrow> err_domain e)\<rparr>;
          n = name_length (fault_name w) in
      if out_size ps < n + 2 then (TEE_ERROR_SHORT_BUFFER, ps)
      else
        (TEE_SUCCESS,
         ps\<lparr>out_buffer := take n (fault_name w) @ [0, of_nat (length (visit_path w))] @ drop (n + 2) (out_buffer ps),
            out_size := n + 2\<rparr>))"

definition layout_word :: c_uint32 where
  "layout_word = 8 OR push_bit 8 12 OR push_bit 16 4"

definition jmpxx_version :: nat where "jmpxx_version = 0 * 10000 + 1 * 100 + 5"

definition TA_InvokeCommandEntryPoint ::
    "escape_env \<Rightarrow> (nat \<Rightarrow> bool) \<Rightarrow> (byte list \<Rightarrow> byte list) \<Rightarrow> nat \<Rightarrow> nat \<Rightarrow> tee_params \<Rightarrow>
     (ta_state, tee_result \<times> tee_params) code" where
  "TA_InvokeCommandEntryPoint E alloc sha256 W cmd ps =
     (if cmd = TA_MANIFEST_CMD_LAYOUT then
        ret (if param_types ps \<noteq> [Value_Output, Param_None, Param_None, Param_None] then (TEE_ERROR_BAD_PARAMETERS, ps)
             else (TEE_SUCCESS, ps\<lparr>value_a := layout_word, value_b := of_nat jmpxx_version\<rparr>))
      else if cmd \<noteq> TA_MANIFEST_CMD_VERIFY then ret (TEE_ERROR_NOT_SUPPORTED, ps)
      else if param_types ps \<noteq> [Memref_Input, Value_Output, Memref_Output, Param_None] then ret (TEE_ERROR_BAD_PARAMETERS, ps)
      else
        (case in_buffer ps of
           None \<Rightarrow> ret (TEE_ERROR_BAD_PARAMETERS, ps)
         | Some buf \<Rightarrow>
             if buf = [] then ret (TEE_ERROR_BAD_PARAMETERS, ps)
             else
               seq (verify_manifest E alloc sha256 W buf) (\<lambda>verdict.
               look id (\<lambda>w. ret (write_report w verdict ps)))))"


text \<open>The verify commands of a session, one after another, on one instance.\<close>

primrec ta_session ::
    "escape_env \<Rightarrow> (nat \<Rightarrow> bool) \<Rightarrow> (byte list \<Rightarrow> byte list) \<Rightarrow> nat \<Rightarrow> tee_params list \<Rightarrow>
     (ta_state, (tee_result \<times> tee_params) list) code" where
  "ta_session E alloc sha256 W [] = ret []"
| "ta_session E alloc sha256 W (ps # pss) =
     seq (TA_InvokeCommandEntryPoint E alloc sha256 W TA_MANIFEST_CMD_VERIFY ps) (\<lambda>a.
     seq (ta_session E alloc sha256 W pss) (\<lambda>as. ret (a # as)))"


subsection \<open>Reads stay inside the buffer\<close>

text \<open>
  The sums of the bounds checks do not wrap for the lengths the verifier checks before it
  reads: at most a byte's worth of name, the fixed part, and an image of at most
  \<open>max_image_bytes\<close>.
\<close>

definition buffer_fits :: "nat \<Rightarrow> byte list \<Rightarrow> bool" where
  "buffer_fits W buf \<longleftrightarrow> length buf + max_image_bytes < 2 ^ W"

lemma small_read:
  assumes "buffer_fits W buf" and "pos \<le> length buf" and "n \<le> max_image_bytes"
  shows "reader_has W buf pos n \<longleftrightarrow> pos + n \<le> length buf" and "advance W pos n = pos + n"
  using assms by (simp_all add: buffer_fits_def reader_has_def advance_def)

lemma byte_small: "unat (b :: byte) \<le> max_image_bytes" "unat (b :: byte) \<le> 255"
proof -
  have "unat b < 2 ^ 8" using unsigned_less [of b] by simp
  then show "unat (b :: byte) \<le> max_image_bytes" "unat (b :: byte) \<le> 255" by (simp_all add: max_image_bytes_def)
qed

lemma const_small: "1 \<le> max_image_bytes" "4 \<le> max_image_bytes" "6 \<le> max_image_bytes"
  "digest_bytes \<le> max_image_bytes" "4 + digest_bytes + 1 \<le> max_image_bytes"
  by (simp_all add: max_image_bytes_def digest_bytes_def)

lemma advance_in_buffer: "reader_has W buf pos n \<Longrightarrow> advance W pos n \<le> length buf"
  by (simp add: reader_has_def advance_def)

definition head_at :: "byte list \<Rightarrow> nat \<Rightarrow> entry_head option" where
  "head_at buf body =
     (if body + 37 \<le> length buf \<and> body + 37 + unat (buf ! (body + 36)) \<le> length buf then
        Some \<lparr>image_length = the (reader_u32 buf body), expected_digest = take 32 (drop (body + 4) buf),
              entry_ref = take (unat (buf ! (body + 36))) (drop (body + 37) buf),
              image_start = body + 37 + unat (buf ! (body + 36))\<rparr>
      else None)"

text \<open>The fixed part is read in bounds: the three advances over it, and the reference after it.\<close>

lemma fixed_part:
  assumes "buffer_fits W buf" and "body + 37 \<le> length buf"
  shows "advance W body 4 = body + 4" "advance W (body + 4) digest_bytes = body + 36" "advance W (body + 36) (Suc 0) = body + 37"
    "reader_u8 buf (body + 36) = Some (buf ! (body + 36))" "\<exists>v. reader_u32 buf body = Some v"
    "reader_has W buf (body + 37) (unat b) \<longleftrightarrow> body + 37 + unat (b :: byte) \<le> length buf"
    "advance W (body + 37) (unat b) = body + 37 + unat b"
    "reader_take buf (body + 4) digest_bytes = Some (take 32 (drop (body + 4) buf))"
  using assms small_read [OF assms(1), of "body + 37" "unat b"] byte_small [of b]
  by (simp_all add: buffer_fits_def advance_def digest_bytes_def max_image_bytes_def reader_u8_def reader_u32_def
      reader_take_def)

lemma find_loop_defined:
  assumes "buffer_fits W buf"
  shows "pos \<le> length buf \<Longrightarrow>
    \<exists>l. find_loop W buf want count pos = Some l \<and> (loc_found l \<longrightarrow> loc_offset l \<le> length buf)"
proof (induction count arbitrary: pos)
  case 0
  then show ?case by (simp add: absent_def)
next
  case (Suc count)
  show ?case
  proof (cases "pos + 1 \<le> length buf")
    case False
    then show ?thesis using small_read [OF assms Suc.prems const_small(1)] by (simp add: absent_def)
  next
    case True
    let ?n = "unat (buf ! pos)" and ?p = "pos + 1"
    note one = small_read [OF assms Suc.prems const_small(1)] and n = small_read [OF assms True byte_small(1)]
    have u8: "reader_u8 buf pos = Some (buf ! pos)" using True by (simp add: reader_u8_def)
    show ?thesis
    proof (cases "?p + ?n + 37 \<le> length buf")
      case False
      then show ?thesis
        using True one n u8 small_read [OF assms _ const_small(5), of "?p + ?n"]
        by (auto simp: absent_def reader_take_def digest_bytes_def Let_def)
    next
      case fixed: True
      note fp = fixed_part [OF assms fixed]
      have has: "reader_has W buf (?p + ?n) (4 + digest_bytes + 1)"
        using fixed small_read(1) [OF assms _ const_small(5), of "?p + ?n"] by (simp add: digest_bytes_def)
      obtain v where v: "reader_u32 buf (?p + ?n) = Some v" using fp(5) by blast
      show ?thesis
        using True one n u8 fp has v fixed Suc.IH [OF advance_in_buffer]
        by (auto simp: absent_def reader_take_def Let_def)
    qed
  qed
qed

lemma find_entry_defined:
  assumes "buffer_fits W buf"
  shows "\<exists>l. find_entry W buf want = Some l \<and> (loc_found l \<longrightarrow> loc_offset l \<le> length buf)"
proof (cases "6 \<le> length buf")
  case True
  have "advance W 0 4 = 4" "advance W 4 1 = 5" "advance W 0 6 = 6"
    using assms True by (simp_all add: advance_def buffer_fits_def max_image_bytes_def)
  moreover have "reader_u8 buf 5 = Some (buf ! 5)" using True by (simp add: reader_u8_def)
  ultimately show ?thesis
    using True small_read [OF assms, of 0 6] const_small(3) find_loop_defined [OF assms, of 6]
    by (simp add: find_entry_def)
next
  case False
  then show ?thesis
    using small_read [OF assms, of 0 6] const_small(3) by (simp add: find_entry_def absent_def)
qed


subsection \<open>The reference\<close>

type_synonym ta_fault = "c_int \<times> byte list \<times> nat"

text \<open>
  The verdict of an entry: the first fault if any, how many entries verified before it, and
  the deepest level entered.  The path and the number of operations held are arguments.
\<close>

definition image_fault :: "(byte list \<Rightarrow> byte list) \<Rightarrow> byte list \<Rightarrow> byte list \<Rightarrow> entry_head \<Rightarrow> nat \<Rightarrow> ta_fault option" where
  "image_fault sha256 buf name h d =
     (if image_start h + unat (image_length h) > length buf then Some (manifest_truncated, name, d)
      else if sha256 (take (unat (image_length h)) (drop (image_start h) buf)) \<noteq> expected_digest h
      then Some (digest_mismatch, name, d)
      else None)"

definition plausible :: "entry_head \<Rightarrow> bool" where
  "plausible h \<longleftrightarrow> 0 < unat (image_length h) \<and> unat (image_length h) \<le> max_image_bytes"

function verify_ref ::
    "(nat \<Rightarrow> bool) \<Rightarrow> (byte list \<Rightarrow> byte list) \<Rightarrow> nat \<Rightarrow> byte list \<Rightarrow> byte list list \<Rightarrow> nat \<Rightarrow> byte list \<Rightarrow> nat \<Rightarrow> nat \<Rightarrow>
     ta_fault option \<times> nat \<times> nat" where
  "verify_ref alloc sha256 W buf path held name body d =
     (if name \<in> set path then (Some (reference_cycle, name, d), 0, d)
      else if length path > ta_max_depth then (Some (nesting_too_deep, name, d), 0, d)
      else if \<not> alloc held then (Some (digest_unavailable, ascii ''digest'', d), 0, d)
      else
        (case head_at buf body of
           None \<Rightarrow> (Some (manifest_truncated, name, d), 0, d)
         | Some h \<Rightarrow>
             if \<not> plausible h then (Some (length_implausible, name, d), 0, d)
             else
               (case (if entry_ref h = [] then (None, 0, d)
                      else if \<not> loc_found (the (find_entry W buf (entry_ref h)))
                      then (Some (reference_missing, entry_ref h, d), 0, d)
                      else verify_ref alloc sha256 W buf (path @ [name]) (held + 1) (entry_ref h)
                             (loc_offset (the (find_entry W buf (entry_ref h)))) (d + 1)) of
                  (Some f, n, m) \<Rightarrow> (Some f, n, m)
                | (None, n, m) \<Rightarrow>
                    (case image_fault sha256 buf name h d of
                       Some f \<Rightarrow> (Some f, n, m)
                     | None \<Rightarrow> (None, n + 1, m)))))"
  by pat_completeness auto

termination
  by (relation "measure (\<lambda>(alloc, sha256, W, buf, path, held, name, body, d). ta_max_depth + 1 - length path)") auto

declare verify_ref.simps [simp del]

definition faulted :: "ta_fault \<Rightarrow> ta_state \<Rightarrow> (error + 'a) \<times> ta_state" where
  "faulted f w =
     (case f of (k, name, d) \<Rightarrow> (Inl (mk_error k (of_nat d)), w\<lparr>fault_name := note_name name (fault_name w)\<rparr>))"

definition ta_outcome :: "ta_fault option \<times> nat \<times> nat \<Rightarrow> (ta_state, unit) plain" where
  "ta_outcome v w =
     (case v of (f, n, m) \<Rightarrow>
        let w = w\<lparr>deepest := max (deepest w) m, entries_verified := entries_verified w + n\<rparr> in
        case f of None \<Rightarrow> (Inr (), w) | Some f \<Rightarrow> faulted f w)"


subsection \<open>The descent computes the reference\<close>

lemma seq_ta_fail:
  assumes "env_ok E" and "in_scope E s"
  shows "seq (ta_fail E f name d) k s = embed s (faulted (f, name, d) (world s))"
  unfolding faulted_def prod.case
  by (rule seq_escape) (simp add: ta_fail_def eject_embed assms)

lemma seq_fail_if:
  assumes "env_ok E" and "in_scope E s"
  shows "seq (fail_if E c f name d) k s = (if c then embed s (faulted (f, name, d) (world s)) else k () s)"
  by (simp add: fail_if_def seq_ta_fail [OF assms])

lemma seq_check_path:
  assumes "env_ok E" and "in_scope E s"
  shows "seq (check_path E name d ps) k s =
    (if name \<in> set ps then embed s (faulted (reference_cycle, name, d) (world s)) else k () s)"
  by (induction ps) (simp_all add: seq_assoc seq_fail_if [OF assms])

lemma faulted_path [simp]: "visit_path (snd (faulted f w)) = visit_path w"
  by (simp add: faulted_def split: prod.split)

lemma visiting_embed:
  assumes "env_ok E" and "in_scope E s" and "visit_path (world s) = path"
    and body: "name \<notin> set path \<Longrightarrow> length path \<le> ta_max_depth \<Longrightarrow>
      body (s\<lparr>world := (world s)\<lparr>visit_path := path @ [name]\<rparr>\<rparr>) = embed s (r, w)"
  shows "visiting E name d body s =
    (if name \<in> set path then embed s (faulted (reference_cycle, name, d) (world s))
     else if length path > ta_max_depth then embed s (faulted (nesting_too_deep, name, d) (world s))
     else embed s (r, w\<lparr>visit_path := butlast (visit_path w)\<rparr>))"
proof -
  have push: "seq (push_path name) k s = k () (s\<lparr>world := (world s)\<lparr>visit_path := path @ [name]\<rparr>\<rparr>)"
    if "length path \<le> ta_max_depth" for k :: "unit \<Rightarrow> (ta_state, 'a) code"
    by (rule seq_value) (use that assms(3) in \<open>simp add: push_path_def upd_embed\<close>)
  show ?thesis
    using body
    by (auto simp: visiting_def assms(3) seq_check_path [OF assms(1,2)] seq_fail_if [OF assms(1,2)] push
        guarded_embed not_less)
qed

lemma with_digest_embed:
  assumes "env_ok E" and "in_scope E s" and "live_ops (world s) = held"
    and body: "alloc held \<Longrightarrow> body (s\<lparr>world := (world s)\<lparr>live_ops := held + 1\<rparr>\<rparr>) = embed s (r, w)"
  shows "with_digest E alloc d body s =
    (if alloc held then embed s (r, w\<lparr>live_ops := live_ops w - 1\<rparr>)
     else embed s (faulted (digest_unavailable, ascii ''digest'', d) (world s)))"
  using body by (auto simp: with_digest_def assms(3) seq_ta_fail [OF assms(1,2)] guarded_embed)

lemma read_fixed_embed:
  assumes "env_ok E" and "in_scope E s" and "buffer_fits W buf" and "body \<le> length buf"
  shows "read_fixed E W buf name body d s =
    embed s (case head_at buf body of None \<Rightarrow> faulted (manifest_truncated, name, d) (world s) | Some h \<Rightarrow> (Inr h, world s))"
proof (cases "body + 37 \<le> length buf")
  case False
  then show ?thesis
    using small_read [OF assms(3,4) const_small(5)]
    by (simp add: read_fixed_def seq_fail_if [OF assms(1,2)] head_at_def digest_bytes_def)
next
  case True
  note fp = fixed_part [OF assms(3) True]
  have has: "reader_has W buf body (4 + digest_bytes + 1)"
    using True small_read [OF assms(3,4) const_small(5)] by (simp add: digest_bytes_def)
  obtain v where v: "reader_u32 buf body = Some v" using fp(5) by blast
  show ?thesis
    using True fp has v
    by (auto simp: read_fixed_def seq_fail_if [OF assms(1,2)] head_at_def Let_def reader_take_def ret_embed)
qed

lemma head_at_bound: "head_at buf body = Some h \<Longrightarrow> image_start h \<le> length buf"
  by (auto simp: head_at_def split: if_splits)

lemma check_entry_image_embed:
  assumes "env_ok E" and "in_scope E s" and "buffer_fits W buf" and "head_at buf body = Some h" and "plausible h"
  shows "check_entry_image E sha256 W buf name h d s =
    embed s (case image_fault sha256 buf name h d of
        None \<Rightarrow> (Inr (), (world s)\<lparr>entries_verified := entries_verified (world s) + 1\<rparr>)
      | Some f \<Rightarrow> faulted f (world s))"
proof -
  have "unat (image_length h) \<le> max_image_bytes" using assms(5) by (simp add: plausible_def)
  note small = small_read [OF assms(3) head_at_bound [OF assms(4)] this]
  show ?thesis
    by (auto simp: check_entry_image_def seq_fail_if [OF assms(1,2)] small image_fault_def reader_take_def upd_embed)
qed


lemma seq_outcome:
  assumes "c s = embed s (ta_outcome v w)"
  shows "seq c k s = (case v of
      (Some f, n, m) \<Rightarrow> embed s (ta_outcome v w)
    | (None, n, m) \<Rightarrow> k () (s\<lparr>world := w\<lparr>deepest := max (deepest w) m, entries_verified := entries_verified w + n\<rparr>\<rparr>))"
  using assms
  by (auto simp: ta_outcome_def faulted_def seq_value seq_escape split: prod.splits option.splits)

lemma ta_outcome_fields:
  "ta_outcome v (w\<lparr>visit_path := p\<rparr>) = (fst (ta_outcome v w), (snd (ta_outcome v w))\<lparr>visit_path := p\<rparr>)"
  "ta_outcome v (w\<lparr>live_ops := n\<rparr>) = (fst (ta_outcome v w), (snd (ta_outcome v w))\<lparr>live_ops := n\<rparr>)"
  "visit_path (snd (ta_outcome v w)) = visit_path w" "live_ops (snd (ta_outcome v w)) = live_ops w"
  by (auto simp: ta_outcome_def faulted_def Let_def split: prod.split option.split)

lemma ta_outcome_deepest:
  "d \<le> snd (snd v) \<Longrightarrow> ta_outcome v (w\<lparr>deepest := max (deepest w) d\<rparr>) = ta_outcome v w"
  "faulted f (w\<lparr>deepest := max (deepest w) d\<rparr>) = ta_outcome (Some f, 0, d) w"
  by (auto simp: ta_outcome_def max_def split: prod.split option.split)

lemma guards_restore:
  "(fst (ta_outcome v (w\<lparr>visit_path := p, live_ops := n\<rparr>)),
    (snd (ta_outcome v (w\<lparr>visit_path := p, live_ops := n\<rparr>)))\<lparr>live_ops := live_ops w, visit_path := visit_path w\<rparr>) =
   ta_outcome v w"
  "(fst (faulted f (w\<lparr>visit_path := p\<rparr>)), (snd (faulted f (w\<lparr>visit_path := p\<rparr>) :: (error + 'a) \<times> ta_state))\<lparr>visit_path := visit_path w\<rparr>) =
   (faulted f w :: (error + 'a) \<times> ta_state)"
  by (cases w; auto simp: ta_outcome_def faulted_def Let_def split: prod.split option.split)+

text \<open>What follows the two guards: the fixed part, the reference, the image.\<close>

definition descend_ref ::
    "(byte list \<Rightarrow> byte list) \<Rightarrow> byte list \<Rightarrow> byte list \<Rightarrow> nat \<Rightarrow> nat \<Rightarrow> (entry_head \<Rightarrow> ta_fault option \<times> nat \<times> nat) \<Rightarrow>
     ta_fault option \<times> nat \<times> nat" where
  "descend_ref sha256 buf name body d sub =
     (case head_at buf body of
        None \<Rightarrow> (Some (manifest_truncated, name, d), 0, d)
      | Some h \<Rightarrow>
          if \<not> plausible h then (Some (length_implausible, name, d), 0, d)
          else
            (case sub h of
               (Some f, n, m) \<Rightarrow> (Some f, n, m)
             | (None, n, m) \<Rightarrow>
                 (case image_fault sha256 buf name h d of
                    Some f \<Rightarrow> (Some f, n, m)
                  | None \<Rightarrow> (None, n + 1, m))))"

lemma descend_embed:
  assumes "env_ok E" and "in_scope E s" and "buffer_fits W buf" and "body \<le> length buf" and "d \<le> deepest (world s)"
    and step: "\<And>h. step h s = embed s (ta_outcome (sub h) (world s))"
  shows "seq (read_fixed E W buf name body d) (\<lambda>h.
     seq (fail_if E (unat (image_length h) = 0 \<or> unat (image_length h) > max_image_bytes) length_implausible name d) (\<lambda>_.
     seq (step h) (\<lambda>_.
     check_entry_image E sha256 W buf name h d))) s = embed s (ta_outcome (descend_ref sha256 buf name body d sub) (world s))"
proof (cases "head_at buf body")
  case None
  then have "read_fixed E W buf name body d s = embed s (faulted (manifest_truncated, name, d) (world s))"
    using read_fixed_embed [OF assms(1-4)] by simp
  then show ?thesis
    using None assms(5) by (simp add: seq_escape faulted_def descend_ref_def ta_outcome_def max_absorb1)
next
  case (Some h)
  then have head: "seq (read_fixed E W buf name body d) k s = k h s" for k :: "entry_head \<Rightarrow> (ta_state, unit) code"
    using read_fixed_embed [OF assms(1-4)] by (subst seq_value) auto
  show ?thesis
  proof (cases "plausible h")
    case False
    then show ?thesis
      using Some assms(5)
      by (auto simp: head seq_fail_if [OF assms(1,2)] plausible_def descend_ref_def ta_outcome_def max_absorb1 faulted_def)
  next
    case True
    then have ok: "\<not> (unat (image_length h) = 0 \<or> unat (image_length h) > max_image_bytes)"
      by (auto simp: plausible_def)
    obtain f n m where v: "sub h = (f, n, m)" by (cases "sub h")
    show ?thesis
    proof (cases f)
      case (Some g)
      then show ?thesis
        using v ok True \<open>head_at buf body = Some h\<close>
        by (simp add: head seq_fail_if [OF assms(1,2)] seq_outcome [where c = "step h", OF step] descend_ref_def)
    next
      case None
      let ?w = "(world s)\<lparr>deepest := max (deepest (world s)) m, entries_verified := entries_verified (world s) + n\<rparr>"
      have sc: "in_scope E (s\<lparr>world := ?w\<rparr>)" using assms(2) by simp
      show ?thesis
        using None v ok True \<open>head_at buf body = Some h\<close> check_entry_image_embed [OF assms(1) sc assms(3) \<open>head_at buf body = Some h\<close> True]
        by (simp add: head seq_fail_if [OF assms(1,2)] seq_outcome [where c = "step h", OF step] descend_ref_def
            ta_outcome_def split: option.split)
    qed
  qed
qed


definition sub_ref ::
    "(nat \<Rightarrow> bool) \<Rightarrow> (byte list \<Rightarrow> byte list) \<Rightarrow> nat \<Rightarrow> byte list \<Rightarrow> byte list list \<Rightarrow> nat \<Rightarrow> nat \<Rightarrow> entry_head \<Rightarrow>
     ta_fault option \<times> nat \<times> nat" where
  "sub_ref alloc sha256 W buf path held d h =
     (if entry_ref h = [] then (None, 0, d)
      else if \<not> loc_found (the (find_entry W buf (entry_ref h)))
      then (Some (reference_missing, entry_ref h, d), 0, d)
      else verify_ref alloc sha256 W buf path held (entry_ref h) (loc_offset (the (find_entry W buf (entry_ref h)))) (d + 1))"

lemma verify_ref_unfold:
  "verify_ref alloc sha256 W buf path held name body d =
     (if name \<in> set path then (Some (reference_cycle, name, d), 0, d)
      else if length path > ta_max_depth then (Some (nesting_too_deep, name, d), 0, d)
      else if \<not> alloc held then (Some (digest_unavailable, ascii ''digest'', d), 0, d)
      else descend_ref sha256 buf name body d (sub_ref alloc sha256 W buf (path @ [name]) (held + 1) d))"
  by (simp add: verify_ref.simps [of alloc sha256 W buf path] descend_ref_def sub_ref_def cong: if_cong option.case_cong)

lemma descend_ref_depth:
  "(\<And>h. d \<le> snd (snd (sub h))) \<Longrightarrow> d \<le> snd (snd (descend_ref sha256 buf name body d sub))"
  by (auto simp: descend_ref_def split: option.split prod.split) (metis snd_conv)+

lemma verify_ref_depth: "d \<le> snd (snd (verify_ref alloc sha256 W buf path held name body d))"
proof (induction "ta_max_depth + 1 - length path" arbitrary: path held name body d rule: less_induct)
  case less
  have "d \<le> snd (snd (sub_ref alloc sha256 W buf (path @ [name]) (held + 1) d h))"
    if "length path \<le> ta_max_depth" for h
    using less [of "path @ [name]" "d + 1" "held + 1" "entry_ref h" "loc_offset (the (find_entry W buf (entry_ref h)))"] that
    by (simp add: sub_ref_def Suc_diff_le)
  then show ?case
    using descend_ref_depth [of d "sub_ref alloc sha256 W buf (path @ [name]) (held + 1) d" sha256 buf name body]
    by (simp add: verify_ref_unfold not_less)
qed

lemma sub_embed:
  assumes "env_ok E" and "in_scope E s" and "buffer_fits W buf" and "d \<le> deepest (world s)"
    and call: "\<And>name body. body \<le> length buf \<Longrightarrow>
      verify_entry E alloc sha256 W buf name body (d + 1) s =
        embed s (ta_outcome (verify_ref alloc sha256 W buf path held name body (d + 1)) (world s))"
  shows "branch (entry_ref h \<noteq> [])
       (checked (find_entry W buf (entry_ref h)) (\<lambda>target.
        seq (fail_if E (\<not> loc_found target) reference_missing (entry_ref h) d) (\<lambda>_.
        verify_entry E alloc sha256 W buf (entry_ref h) (loc_offset target) (d + 1))))
       (ret ()) s = embed s (ta_outcome (sub_ref alloc sha256 W buf path held d h) (world s))"
proof -
  obtain l where l: "find_entry W buf (entry_ref h) = Some l" "loc_found l \<longrightarrow> loc_offset l \<le> length buf"
    using find_entry_defined [OF assms(3)] by blast
  show ?thesis
    using l call [of "loc_offset l"] assms(4)
    by (auto simp: branch_def sub_ref_def seq_fail_if [OF assms(1,2)] ret_embed ta_outcome_def max_absorb1 faulted_def)
qed

lemma entry_body_embed:
  assumes "env_ok E" and "in_scope E s" and "buffer_fits W buf" and "body \<le> length buf" and "d \<le> deepest (world s)"
    and call: "\<And>name body. body \<le> length buf \<Longrightarrow>
      verify_entry E alloc sha256 W buf name body (d + 1) s =
        embed s (ta_outcome (verify_ref alloc sha256 W buf path held name body (d + 1)) (world s))"
  shows "seq (read_fixed E W buf name body d) (\<lambda>h.
     seq (fail_if E (unat (image_length h) = 0 \<or> unat (image_length h) > max_image_bytes) length_implausible name d) (\<lambda>_.
     seq (branch (entry_ref h \<noteq> [])
            (checked (find_entry W buf (entry_ref h)) (\<lambda>target.
             seq (fail_if E (\<not> loc_found target) reference_missing (entry_ref h) d) (\<lambda>_.
             verify_entry E alloc sha256 W buf (entry_ref h) (loc_offset target) (d + 1))))
            (ret ())) (\<lambda>_.
     check_entry_image E sha256 W buf name h d))) s =
   embed s (ta_outcome (descend_ref sha256 buf name body d (sub_ref alloc sha256 W buf path held d)) (world s))"
  by (rule descend_embed [OF assms(1-5)], rule sub_embed [OF assms(1,2,3,5)], rule call)

text \<open>The two guards around a body that computes \<open>v\<close>: what they refuse, and what they restore.\<close>

lemma two_guards:
  assumes "env_ok E" and "in_scope E s" and "visit_path (world s) = path" and "live_ops (world s) = held"
    and body: "length path \<le> ta_max_depth \<Longrightarrow>
      body (s\<lparr>world := (world s)\<lparr>visit_path := path @ [name], live_ops := held + 1\<rparr>\<rparr>) =
        embed s (ta_outcome v ((world s)\<lparr>visit_path := path @ [name], live_ops := held + 1\<rparr>))"
  shows "visiting E name d (with_digest E alloc d body) s =
    (if name \<in> set path then embed s (faulted (reference_cycle, name, d) (world s))
     else if length path > ta_max_depth then embed s (faulted (nesting_too_deep, name, d) (world s))
     else if \<not> alloc held then embed s (faulted (digest_unavailable, ascii ''digest'', d) (world s))
     else embed s (ta_outcome v (world s)))"
proof -
  let ?w2 = "(world s)\<lparr>visit_path := path @ [name]\<rparr>" and ?f = "(digest_unavailable, ascii ''digest'', d)"
  let ?w3 = "(world s)\<lparr>visit_path := path @ [name], live_ops := held + 1\<rparr>"
  let ?x = "if alloc held then (fst (ta_outcome v ?w3), (snd (ta_outcome v ?w3))\<lparr>live_ops := held\<rparr>) else faulted ?f ?w2"
  have sc: "in_scope E (s\<lparr>world := ?w2\<rparr>)" using assms(2) by simp
  have digest: "with_digest E alloc d body (s\<lparr>world := ?w2\<rparr>) = embed s ?x" if "length path \<le> ta_max_depth"
    using with_digest_embed [OF assms(1) sc, where body = body and held = held and alloc = alloc and d = d
        and r = "fst (ta_outcome v ?w3)" and w = "snd (ta_outcome v ?w3)"] body [OF that] assms(4)
    by (simp add: ta_outcome_fields)
  have restored: "(fst ?x, (snd ?x)\<lparr>visit_path := butlast (visit_path (snd ?x))\<rparr>) =
      (if alloc held then ta_outcome v (world s) else faulted ?f (world s))"
    using guards_restore(1) [where v = v and w = "world s" and p = "path @ [name]" and n = "held + 1"]
      guards_restore(2) [where f = ?f and w = "world s" and p = "path @ [name]", where ?'a = unit] assms(3,4)
    by (simp add: ta_outcome_fields)
  show ?thesis
    using visiting_embed [OF assms(1-3), where name = name and body = "with_digest E alloc d body" and d = d
        and r = "fst ?x" and w = "snd ?x"] digest restored
    by simp
qed

lemma verify_entry_correct:
  assumes "env_ok E" and "buffer_fits W buf"
  shows "in_scope E s \<Longrightarrow> body \<le> length buf \<Longrightarrow>
    verify_entry E alloc sha256 W buf name body d s =
      embed s (ta_outcome (verify_ref alloc sha256 W buf (visit_path (world s)) (live_ops (world s)) name body d) (world s))"
proof (induction "ta_max_depth + 1 - length (visit_path (world s))" arbitrary: s name body d rule: less_induct)
  case less
  let ?path = "visit_path (world s)" and ?held = "live_ops (world s)"
  define w1 where "w1 = (world s)\<lparr>deepest := max (deepest (world s)) d\<rparr>"
  let ?w3 = "w1\<lparr>visit_path := ?path @ [name], live_ops := ?held + 1\<rparr>"
  let ?s3 = "s\<lparr>world := ?w3\<rparr>"
  let ?v = "descend_ref sha256 buf name body d (sub_ref alloc sha256 W buf (?path @ [name]) (?held + 1) d)"
  have sc: "in_scope E (s\<lparr>world := w1\<rparr>)" "in_scope E ?s3" using less.prems(1) by simp_all
  have w1: "visit_path w1 = ?path" "live_ops w1 = ?held" "d \<le> deepest w1" by (simp_all add: w1_def)
  have w1_eq: "(if d > deepest (world s) then (world s)\<lparr>deepest := d\<rparr> else world s) = w1"
    by (simp add: w1_def max_def not_less)
  have call: "verify_entry E alloc sha256 W buf name' body' (d + 1) ?s3 =
      embed ?s3 (ta_outcome (verify_ref alloc sha256 W buf (?path @ [name]) (?held + 1) name' body' (d + 1)) (world ?s3))"
    if "body' \<le> length buf" "length ?path \<le> ta_max_depth" for name' body'
    using less.hyps [OF _ sc(2) that(1), of name' "d + 1"] that(2) by simp
  have "verify_entry E alloc sha256 W buf name body d s =
      (if name \<in> set ?path then embed s (faulted (reference_cycle, name, d) w1)
       else if length ?path > ta_max_depth then embed s (faulted (nesting_too_deep, name, d) w1)
       else if \<not> alloc ?held then embed s (faulted (digest_unavailable, ascii ''digest'', d) w1)
       else embed s (ta_outcome ?v w1))"
    unfolding verify_entry.simps [of E alloc sha256 W buf name body d s] seq_upd w1_eq
  proof (rule trans [OF two_guards [OF assms(1) sc(1), where path = ?path and held = ?held and v = ?v]])
    assume path: "length ?path \<le> ta_max_depth"
    show "seq (read_fixed E W buf name body d) (\<lambda>h.
        seq (fail_if E (unat (image_length h) = 0 \<or> unat (image_length h) > max_image_bytes) length_implausible name d) (\<lambda>_.
        seq (branch (entry_ref h \<noteq> [])
            (checked (find_entry W buf (entry_ref h)) (\<lambda>target.
             seq (fail_if E (\<not> loc_found target) reference_missing (entry_ref h) d) (\<lambda>_.
             verify_entry E alloc sha256 W buf (entry_ref h) (loc_offset target) (d + 1))))
            (ret ())) (\<lambda>_.
        check_entry_image E sha256 W buf name h d)))
        (s\<lparr>world := w1, world := (world (s\<lparr>world := w1\<rparr>))\<lparr>visit_path := ?path @ [name], live_ops := ?held + 1\<rparr>\<rparr>) =
      embed (s\<lparr>world := w1\<rparr>) (ta_outcome ?v ((world (s\<lparr>world := w1\<rparr>))\<lparr>visit_path := ?path @ [name], live_ops := ?held + 1\<rparr>))"
      using entry_body_embed [OF assms(1) sc(2) assms(2) less.prems(2) _ call [OF _ path], where name = name]
      by (simp add: w1)
  qed (simp_all add: w1)
  also have "\<dots> = embed s (ta_outcome (verify_ref alloc sha256 W buf ?path ?held name body d) (world s))"
    using verify_ref_depth [of d alloc sha256 W buf ?path ?held name body]
    by (auto simp: verify_ref_unfold w1_def ta_outcome_deepest not_less split: if_splits)
  finally show ?case .
qed


subsection \<open>The verdict on a manifest\<close>

definition first_entry :: "byte list \<Rightarrow> (byte list \<times> nat) option" where
  "first_entry buf =
     (if 7 \<le> length buf \<and> take 4 buf = ascii ''MFST'' \<and> buf ! 4 = 1 \<and> buf ! 5 \<noteq> 0 \<and> buf ! 6 \<noteq> 0 \<and>
         7 + unat (buf ! 6) \<le> length buf
      then Some (take (unat (buf ! 6)) (drop 7 buf), 7 + unat (buf ! 6)) else None)"

definition header_fault :: "byte list \<Rightarrow> c_int" where
  "header_fault buf =
     (if length buf < 6 then manifest_truncated
      else if take 4 buf \<noteq> ascii ''MFST'' then header_bad
      else if buf ! 4 \<noteq> 1 then version_unsupported
      else if buf ! 5 = 0 then entry_malformed
      else if length buf < 7 then manifest_truncated
      else entry_malformed)"

definition manifest_ref ::
    "(nat \<Rightarrow> bool) \<Rightarrow> (byte list \<Rightarrow> byte list) \<Rightarrow> nat \<Rightarrow> byte list \<Rightarrow> nat \<Rightarrow> ta_fault option \<times> nat \<times> nat" where
  "manifest_ref alloc sha256 W buf held =
     (case first_entry buf of
        None \<Rightarrow> (Some (header_fault buf, ascii ''root'', 0), 0, 0)
      | Some (name, body) \<Rightarrow> verify_ref alloc sha256 W buf [] held name body 0)"

text \<open>The count the landing returns is the instance's, read after the descent.\<close>

definition landed_count :: "(error + unit) \<times> ta_state \<Rightarrow> (error + nat) \<times> ta_state" where
  "landed_count x = (case x of (Inr _, w) \<Rightarrow> (Inr (entries_verified w), w) | (Inl e, w) \<Rightarrow> (Inl e, w))"

lemma verify_first_correct:
  assumes "env_ok E" and "in_scope E s" and "buffer_fits W buf" and "visit_path (world s) = []"
  shows "verify_first E alloc sha256 W buf s =
    embed s (landed_count (ta_outcome (manifest_ref alloc sha256 W buf (live_ops (world s))) (world s)))"
proof -
  have adv: "advance W 0 4 = 4" "advance W 0 5 = 5" "advance W 0 6 = 6" "advance W 0 7 = 7"
    using assms(3) by (simp_all add: advance_def buffer_fits_def max_image_bytes_def)
  have six: "reader_has W buf 0 6 \<longleftrightarrow> 6 \<le> length buf" using small_read(1) [OF assms(3) _ const_small(3), of 0] by simp
  have one: "reader_has W buf 6 (Suc 0) \<longleftrightarrow> 7 \<le> length buf" if "6 \<le> length buf"
    using small_read(1) [OF assms(3) _ const_small(1), of 6] that by simp
  note fault = seq_fail_if [OF assms(1,2)]
  have zero: "landed_count (ta_outcome (Some (f, name, 0), 0, 0) w) = faulted (f, name, 0) w" for f name w
    by (cases w) (simp add: landed_count_def ta_outcome_def faulted_def)
  show ?thesis
  proof (cases "first_entry buf")
    case None
    then show ?thesis
      using small_read(1) [OF assms(3) _ byte_small(1), of 7 "buf ! 6"]
      by (auto simp: verify_first_def Let_def adv six one fault first_entry_def manifest_ref_def header_fault_def zero
          reader_take_def reader_u8_def not_less not_le split: if_splits)
  next
    case (Some e)
    then obtain n where n: "n = unat (buf ! 6)" "7 + n \<le> length buf" "e = (take n (drop 7 buf), 7 + n)"
      and ok: "take 4 buf = ascii ''MFST''" "buf ! 4 = 1" "buf ! 5 \<noteq> 0" "buf ! 6 \<noteq> 0"
      by (auto simp: first_entry_def split: if_splits)
    let ?v = "verify_ref alloc sha256 W buf [] (live_ops (world s)) (take n (drop 7 buf)) (7 + n) 0"
    have run: "verify_first E alloc sha256 W buf s =
        seq (verify_entry E alloc sha256 W buf (take n (drop 7 buf)) (7 + n) 0) (\<lambda>_. look entries_verified ret) s"
      using small_read [OF assms(3) _ byte_small(1), of 7 "buf ! 6"] n ok
      by (simp add: verify_first_def Let_def adv six one fault reader_take_def reader_u8_def)
    note ve = verify_entry_correct [OF assms(1,3,2) n(2), of alloc sha256 "take n (drop 7 buf)" 0, unfolded assms(4)]
    obtain f m k where v: "?v = (f, m, k)" by (cases ?v)
    show ?thesis
    proof (cases f)
      case None
      with ve v show ?thesis
        using Some n(3)
        by (simp add: run seq_value ta_outcome_def manifest_ref_def landed_count_def ret_embed)
    next
      case (Some g)
      with ve v show ?thesis
        using \<open>first_entry buf = Some e\<close> n(3)
        by (cases g) (simp add: run seq_escape ta_outcome_def manifest_ref_def landed_count_def faulted_def)
    qed
  qed
qed


subsection \<open>What is accepted\<close>

text \<open>
  The chain of entries from one on: each is readable, of a plausible length, its image
  hashes to its digest, and its reference, if it has one, ns the next.
\<close>

definition entry_good :: "(byte list \<Rightarrow> byte list) \<Rightarrow> byte list \<Rightarrow> nat \<Rightarrow> entry_head \<Rightarrow> bool" where
  "entry_good sha256 buf body h \<longleftrightarrow>
     head_at buf body = Some h \<and> plausible h \<and> image_start h + unat (image_length h) \<le> length buf \<and>
     sha256 (take (unat (image_length h)) (drop (image_start h) buf)) = expected_digest h"

inductive verified_chain :: "(byte list \<Rightarrow> byte list) \<Rightarrow> nat \<Rightarrow> byte list \<Rightarrow> byte list \<Rightarrow> nat \<Rightarrow> byte list list \<Rightarrow> bool"
  for sha256 W buf where
  chain_last: "entry_good sha256 buf body h \<Longrightarrow> entry_ref h = [] \<Longrightarrow> verified_chain sha256 W buf name body [name]"
| chain_step: "entry_good sha256 buf body h \<Longrightarrow> entry_ref h \<noteq> [] \<Longrightarrow>
    find_entry W buf (entry_ref h) = Some \<lparr>loc_offset = target, loc_found = True\<rparr> \<Longrightarrow>
    verified_chain sha256 W buf (entry_ref h) target ns \<Longrightarrow> verified_chain sha256 W buf name body (name # ns)"

inductive_cases verified_chain_elim: "verified_chain sha256 W buf name body ns"

lemma descend_ref_accepts:
  "fst (descend_ref sha256 buf name body d sub) = None \<and> fst (snd (descend_ref sha256 buf name body d sub)) = n \<longleftrightarrow>
     (\<exists>h. entry_good sha256 buf body h \<and> fst (sub h) = None \<and> Suc (fst (snd (sub h))) = n)"
  by (auto simp: descend_ref_def entry_good_def image_fault_def split: option.split prod.split)

lemma verified_chain_iff:
  "verified_chain sha256 W buf name body ns \<longleftrightarrow>
     (\<exists>h. entry_good sha256 buf body h \<and>
       (if entry_ref h = [] then ns = [name]
        else \<exists>target rest. find_entry W buf (entry_ref h) = Some \<lparr>loc_offset = target, loc_found = True\<rparr> \<and>
          verified_chain sha256 W buf (entry_ref h) target rest \<and> ns = name # rest))"
proof
  assume "verified_chain sha256 W buf name body ns"
  then show "\<exists>h. entry_good sha256 buf body h \<and>
       (if entry_ref h = [] then ns = [name]
        else \<exists>target rest. find_entry W buf (entry_ref h) = Some \<lparr>loc_offset = target, loc_found = True\<rparr> \<and>
          verified_chain sha256 W buf (entry_ref h) target rest \<and> ns = name # rest)"
    by (rule verified_chain_elim) (metis (no_types, lifting))+
next
  assume "\<exists>h. entry_good sha256 buf body h \<and>
       (if entry_ref h = [] then ns = [name]
        else \<exists>target rest. find_entry W buf (entry_ref h) = Some \<lparr>loc_offset = target, loc_found = True\<rparr> \<and>
          verified_chain sha256 W buf (entry_ref h) target rest \<and> ns = name # rest)"
  then show "verified_chain sha256 W buf name body ns"
    by (metis (no_types, lifting) chain_last chain_step)
qed

lemma found_entry:
  assumes "buffer_fits W buf"
  shows "find_entry W buf want = Some \<lparr>loc_offset = t, loc_found = True\<rparr> \<longleftrightarrow>
    loc_found (the (find_entry W buf want)) \<and> t = loc_offset (the (find_entry W buf want))"
  using find_entry_defined [OF assms, of want] by auto

lemma verify_ref_accepts:
  assumes "buffer_fits W buf"
  shows "distinct path \<Longrightarrow>
    fst (verify_ref alloc sha256 W buf path held name body d) = None \<and>
    fst (snd (verify_ref alloc sha256 W buf path held name body d)) = n \<longleftrightarrow>
    (\<exists>ns. verified_chain sha256 W buf name body ns \<and> length ns = n \<and> distinct (path @ ns) \<and>
       length path + n \<le> ta_max_depth + 1 \<and> (\<forall>k<n. alloc (held + k)))"
proof (induction "ta_max_depth + 1 - length path" arbitrary: path held name body d n rule: less_induct)
  case less
  show ?case
  proof (cases "name \<in> set path \<or> length path > ta_max_depth \<or> \<not> alloc held")
    case True
    have "\<not> (verified_chain sha256 W buf name body ns \<and> length ns = n \<and> distinct (path @ ns) \<and>
       length path + n \<le> ta_max_depth + 1 \<and> (\<forall>k<n. alloc (held + k)))" for ns
    proof
      assume c: "verified_chain sha256 W buf name body ns \<and> length ns = n \<and> distinct (path @ ns) \<and>
        length path + n \<le> ta_max_depth + 1 \<and> (\<forall>k<n. alloc (held + k))"
      then obtain rest where "ns = name # rest" by (auto elim: verified_chain.cases)
      with c True show False by (auto dest: spec [of _ 0])
    qed
    moreover have "fst (verify_ref alloc sha256 W buf path held name body d) \<noteq> None"
      using True by (auto simp: verify_ref_unfold)
    ultimately show ?thesis by blast
  next
    case False
    let ?t = "\<lambda>h. loc_offset (the (find_entry W buf (entry_ref h)))"
    let ?v = "\<lambda>h. verify_ref alloc sha256 W buf (path @ [name]) (held + 1) (entry_ref h) (?t h) (d + 1)"
    let ?sub = "sub_ref alloc sha256 W buf (path @ [name]) (held + 1) d"
    have IH: "fst (?v h) = None \<and> fst (snd (?v h)) = m \<longleftrightarrow>
        (\<exists>ns. verified_chain sha256 W buf (entry_ref h) (?t h) ns \<and> length ns = m \<and> distinct (path @ name # ns) \<and>
           length path + Suc m \<le> ta_max_depth + 1 \<and> (\<forall>k<m. alloc (held + Suc k)))" for h m
      using less.hyps [of "path @ [name]" "held + 1" "entry_ref h" "?t h" "d + 1" m] less.prems False
      by (simp add: Suc_diff_le not_less)
    have "fst (?sub h) = None \<and> Suc (fst (snd (?sub h))) = n \<longleftrightarrow>
        (if entry_ref h = [] then n = 1
         else loc_found (the (find_entry W buf (entry_ref h))) \<and> (\<exists>m. n = Suc m \<and> fst (?v h) = None \<and> fst (snd (?v h)) = m))" for h
      by (auto simp: sub_ref_def)
    then have "fst (verify_ref alloc sha256 W buf path held name body d) = None \<and>
      fst (snd (verify_ref alloc sha256 W buf path held name body d)) = n \<longleftrightarrow>
      (\<exists>h. entry_good sha256 buf body h \<and>
        (if entry_ref h = [] then n = 1
         else loc_found (the (find_entry W buf (entry_ref h))) \<and> (\<exists>m. n = Suc m \<and> fst (?v h) = None \<and> fst (snd (?v h)) = m)))"
      using False descend_ref_accepts [of sha256 buf name body d ?sub n] by (simp add: verify_ref_unfold [of alloc sha256 W buf path])
    also have "\<dots> \<longleftrightarrow> (\<exists>ns. verified_chain sha256 W buf name body ns \<and> length ns = n \<and> distinct (path @ ns) \<and>
       length path + n \<le> ta_max_depth + 1 \<and> (\<forall>k<n. alloc (held + k)))"
      unfolding IH verified_chain_iff [of _ _ _ name] found_entry [OF assms]
      using False less.prems by (fastforce simp: All_less_Suc2 split: if_splits)
    finally show ?thesis .
  qed
qed


subsection \<open>The instance as a service\<close>

definition manifest_plain ::
    "(nat \<Rightarrow> bool) \<Rightarrow> (byte list \<Rightarrow> byte list) \<Rightarrow> nat \<Rightarrow> byte list \<Rightarrow> (ta_state, nat) plain" where
  "manifest_plain alloc sha256 W buf w =
     landed_count (ta_outcome (manifest_ref alloc sha256 W buf (live_ops w)) (ta_reset w))"

lemma landed_count_fields [simp]:
  "visit_path (snd (landed_count (ta_outcome v w))) = visit_path w"
  "live_ops (snd (landed_count (ta_outcome v w))) = live_ops w"
  by (auto simp: landed_count_def ta_outcome_def faulted_def Let_def split: prod.split option.split sum.split)

lemma landed_count_accepts:
  "fst (landed_count (ta_outcome v w)) = Inr n \<longleftrightarrow> fst v = None \<and> entries_verified w + fst (snd v) = n"
  by (cases v; cases "fst v") (auto simp: landed_count_def ta_outcome_def faulted_def split: prod.splits)

lemma ta_reset_fields [simp]: "visit_path (ta_reset w) = visit_path w" "live_ops (ta_reset w) = live_ops w"
  by (simp_all add: ta_reset_def)

interpretation descent: escaping_app E "\<lambda>buf. env_ok E \<and> buffer_fits W buf" "\<lambda>w. visit_path w = []"
  "verify_first E alloc sha256 W" "\<lambda>buf w. landed_count (ta_outcome (manifest_ref alloc sha256 W buf (live_ops w)) w)" "\<lambda>_ _. ()"
  by unfold_locales (simp_all add: verify_first_correct)

lemma verify_manifest_lands:
  assumes "env_ok E" and "buffer_fits W buf" and "arm_ok s" and "\<not> in_flight s" and "visit_path (world s) = []"
  shows "verify_manifest E alloc sha256 W buf s =
    (Normal_Flow (fst (manifest_plain alloc sha256 W buf (world s))),
     s\<lparr>world := snd (manifest_plain alloc sha256 W buf (world s))\<rparr>)"
  using assms descent.lands [of E W buf "s\<lparr>world := ta_reset (world s)\<rparr>" alloc sha256]
  by (simp add: verify_manifest_def manifest_plain_def)

text \<open>What the client reads of the name: the bytes up to the first null, at most \<open>max_name\<close>.\<close>

definition c_name :: "byte list \<Rightarrow> byte list" where
  "c_name name = takeWhile (\<lambda>b. b \<noteq> 0) (take ta_max_name name)"

lemma take_name_length: "take (name_length name) name = c_name name"
proof -
  have "c_name name = take (name_length name) (take ta_max_name name)"
    unfolding c_name_def name_length_def by (rule takeWhile_eq_take)
  moreover have "name_length name \<le> ta_max_name"
    by (simp add: name_length_def) (metis length_take length_takeWhile_le min.cobounded2 le_trans)
  ultimately show ?thesis by (simp add: min_absorb1)
qed

lemma c_name_noted: "c_name (note_name name old) = c_name name"
proof -
  let ?n = "min (length name) ta_max_name"
  have stop: "takeWhile (\<lambda>b :: byte. b \<noteq> 0) (take k (0 # rest)) = []" for k rest by (cases k) simp_all
  have whole: "\<forall>b\<in>set xs. b \<noteq> 0 \<Longrightarrow> takeWhile (\<lambda>b. b \<noteq> 0) xs = xs" for xs :: "byte list"
    by (simp add: takeWhile_eq_all_conv)
  have "take ta_max_name (note_name name old) =
      take ta_max_name name @ take (ta_max_name - ?n) (0 # drop (?n + 1) old)"
    by (auto simp: note_name_def Let_def min_def)
  then show ?thesis
    by (simp only: c_name_def takeWhile_append stop) (auto simp: whole)
qed

lemma write_report_cong:
  assumes "fst x = fst y" and "c_name (fault_name (snd x)) = c_name (fault_name (snd y))"
    and "entries_verified (snd x) = entries_verified (snd y)" and "visit_path (snd x) = visit_path (snd y)"
  shows "write_report (snd x) (fst x) ps = write_report (snd y) (fst y) ps"
proof -
  have "name_length (fault_name (snd x)) = name_length (fault_name (snd y))"
    using assms(2) by (simp add: name_length_def c_name_def)
  moreover from this have "take (name_length (fault_name (snd y))) (fault_name (snd x)) = c_name (fault_name (snd y))"
    using take_name_length [of "fault_name (snd x)"] assms(2) by simp
  ultimately show ?thesis
    using assms(1,3,4) by (simp add: write_report_def Let_def take_name_length split: sum.split)
qed

definition instance_clean :: "nat \<Rightarrow> ta_state \<Rightarrow> bool" where
  "instance_clean held w \<longleftrightarrow> visit_path w = [] \<and> live_ops w = held \<and> fault_name w \<noteq> []"

definition readable_command :: "nat \<Rightarrow> tee_params \<Rightarrow> bool" where
  "readable_command W ps \<longleftrightarrow> param_types ps = [Memref_Input, Value_Output, Memref_Output, Param_None] \<and>
     (\<exists>buf. in_buffer ps = Some buf \<and> buf \<noteq> [] \<and> buffer_fits W buf)"

interpretation ta: landing_service "\<lambda>ps. env_ok E \<and> readable_command W ps" "instance_clean held"
  "\<lambda>ps. verify_manifest E alloc sha256 W (the (in_buffer ps))"
  "\<lambda>ps. manifest_plain alloc sha256 W (the (in_buffer ps))" "\<lambda>ps x. write_report (snd x) (fst x) ps"
proof
  show "verify_manifest E alloc sha256 W (the (in_buffer ps)) s =
      (Normal_Flow (fst (manifest_plain alloc sha256 W (the (in_buffer ps)) (world s))),
       s\<lparr>world := snd (manifest_plain alloc sha256 W (the (in_buffer ps)) (world s))\<rparr>)"
    if "env_ok E \<and> readable_command W ps" "arm_ok s" "\<not> in_flight s" "instance_clean held (world s)" for ps s
    by (rule verify_manifest_lands) (use that in \<open>auto simp: readable_command_def instance_clean_def\<close>)
  show "instance_clean held (snd (manifest_plain alloc sha256 W (the (in_buffer ps)) w))"
    if "instance_clean held w" for ps w
    using that
    by (auto simp: instance_clean_def manifest_plain_def)
      (auto simp: landed_count_def ta_outcome_def faulted_def ta_reset_def note_name_def Let_def
        split: prod.splits option.splits sum.splits)
  show "write_report (snd (manifest_plain alloc sha256 W (the (in_buffer ps)) w))
        (fst (manifest_plain alloc sha256 W (the (in_buffer ps)) w)) ps =
      write_report (snd (manifest_plain alloc sha256 W (the (in_buffer ps)) w'))
        (fst (manifest_plain alloc sha256 W (the (in_buffer ps)) w')) ps"
    if "instance_clean held w" "instance_clean held w'" for ps w w'
  proof (rule write_report_cong)
    have "c_name ((fault_name w)[0 := 0]) = []" if "fault_name w \<noteq> []" for w :: ta_state
      using that by (cases "fault_name w") (simp_all add: c_name_def ta_max_name_def)
    then show "c_name (fault_name (snd (manifest_plain alloc sha256 W (the (in_buffer ps)) w))) =
        c_name (fault_name (snd (manifest_plain alloc sha256 W (the (in_buffer ps)) w')))"
      using that
      by (auto simp: manifest_plain_def instance_clean_def landed_count_def ta_outcome_def faulted_def ta_reset_def c_name_noted
          Let_def split: prod.split option.split sum.split)
  qed (use that in \<open>auto simp: manifest_plain_def instance_clean_def landed_count_def ta_outcome_def faulted_def ta_reset_def
      Let_def split: prod.split option.split sum.split\<close>)
qed


subsection \<open>The entries of a manifest\<close>

text \<open>The complete entries from a position on, with plain sums: name and body of each.\<close>

definition entry_at :: "byte list \<Rightarrow> nat \<Rightarrow> (byte list \<times> nat \<times> nat) option" where
  "entry_at buf pos =
     (if pos < length buf then
        (case head_at buf (pos + 1 + unat (buf ! pos)) of
           Some h \<Rightarrow>
             if image_start h + unat (image_length h) \<le> length buf then
               Some (take (unat (buf ! pos)) (drop (pos + 1) buf), pos + 1 + unat (buf ! pos),
                     image_start h + unat (image_length h))
             else None
         | None \<Rightarrow> None)
      else None)"

fun manifest_entries :: "byte list \<Rightarrow> nat \<Rightarrow> nat \<Rightarrow> (byte list \<times> nat) list" where
  "manifest_entries buf 0 pos = []"
| "manifest_entries buf (Suc count) pos =
     (case entry_at buf pos of
        None \<Rightarrow> []
      | Some (name, body, next_pos) \<Rightarrow> (name, body) # manifest_entries buf count next_pos)"

definition located_of :: "nat option \<Rightarrow> located" where
  "located_of x = (case x of None \<Rightarrow> absent | Some p \<Rightarrow> \<lparr>loc_offset = p, loc_found = True\<rparr>)"

text \<open>A \<open>size_t\<close> wide enough for the buffer and any declared length: no sum wraps.\<close>

definition wide :: "nat \<Rightarrow> byte list \<Rightarrow> bool" where
  "wide W buf \<longleftrightarrow> length buf + 2 ^ 32 \<le> 2 ^ W"

lemma wide_fits: "wide W buf \<Longrightarrow> buffer_fits W buf"
  by (simp add: wide_def buffer_fits_def max_image_bytes_def)

lemma wide_length:
  assumes "wide W buf" and "pos \<le> length buf"
  shows "reader_has W buf pos (unat (v :: c_uint32)) \<longleftrightarrow> pos + unat v \<le> length buf"
    and "advance W pos (unat v) = pos + unat v"
proof -
  have "unat v < 2 ^ 32" using unsigned_less [of v] by simp
  then have "pos + unat v < 2 ^ W" using assms by (simp add: wide_def)
  then show "reader_has W buf pos (unat v) \<longleftrightarrow> pos + unat v \<le> length buf" "advance W pos (unat v) = pos + unat v"
    by (simp_all add: reader_has_def advance_def)
qed

lemma find_loop_entries:
  assumes "wide W buf"
  shows "pos \<le> length buf \<Longrightarrow>
    find_loop W buf want count pos = Some (located_of (map_of (manifest_entries buf count pos) want))"
proof (induction count arbitrary: pos)
  case (Suc count)
  note fits = wide_fits [OF assms]
  show ?case
  proof (cases "pos + 1 \<le> length buf")
    case False
    then show ?thesis
      using small_read [OF fits Suc.prems const_small(1)] by (simp add: located_of_def entry_at_def)
  next
    case True
    let ?n = "unat (buf ! pos)" and ?p = "pos + 1"
    note one = small_read [OF fits Suc.prems const_small(1)] and n = small_read [OF fits True byte_small(1)]
    have u8: "reader_u8 buf pos = Some (buf ! pos)" using True by (simp add: reader_u8_def)
    show ?thesis
    proof (cases "?p + ?n + 37 \<le> length buf")
      case False
      then have "head_at buf (?p + ?n) = None" by (simp add: head_at_def)
      then show ?thesis
        using False True one n u8 small_read [OF fits _ const_small(5), of "?p + ?n"]
        by (auto simp: located_of_def absent_def entry_at_def reader_take_def digest_bytes_def Let_def)
    next
      case whole: True
      note fp = fixed_part [OF fits whole]
      have has: "reader_has W buf (?p + ?n) (4 + digest_bytes + 1)"
        using whole small_read(1) [OF fits _ const_small(5), of "?p + ?n"] by (simp add: digest_bytes_def)
      obtain v where v: "reader_u32 buf (?p + ?n) = Some v" using fp(5) by blast
      let ?q = "?p + ?n + 37 + unat (buf ! (?p + ?n + 36))"
      have len: "reader_has W buf ?q (unat v) \<longleftrightarrow> ?q + unat v \<le> length buf" "advance W ?q (unat v) = ?q + unat v"
        if "?q \<le> length buf" using wide_length [OF assms that, of v] by simp_all
      show ?thesis
        using True one n u8 fp has v whole Suc.IH [of "?q + unat v"] len
        by (auto simp: located_of_def entry_at_def head_at_def reader_take_def Let_def)
    qed
  qed
qed (simp add: located_of_def absent_def)

lemma find_entry_entries:
  assumes "wide W buf"
  shows "find_entry W buf want =
    Some (located_of (if 6 \<le> length buf then map_of (manifest_entries buf (unat (buf ! 5)) 6) want else None))"
proof (cases "6 \<le> length buf")
  case True
  note fits = wide_fits [OF assms]
  have "advance W 0 4 = 4" "advance W 4 1 = 5" "advance W 0 6 = 6"
    using fits True by (simp_all add: advance_def buffer_fits_def max_image_bytes_def)
  moreover have "reader_u8 buf 5 = Some (buf ! 5)" using True by (simp add: reader_u8_def)
  ultimately show ?thesis
    using True small_read [OF fits, of 0 6] const_small(3) find_loop_entries [OF assms, of 6]
    by (simp add: find_entry_def)
next
  case False
  then show ?thesis
    using small_read [OF wide_fits [OF assms], of 0 6] const_small(3) by (simp add: find_entry_def located_of_def)
qed


subsection \<open>Properties\<close>

text \<open>
  C5. Verifying an untrusted buffer never reads outside it and always lands.  It accepts with
  count \<open>n\<close> exactly when the header is good and the first entry starts a chain of \<open>n\<close> distinct
  entries, at most seven, each with a plausible length and an image that hashes to its
  digest, with an operation granted at every level.  Whatever the verdict, the reference
  path is empty and every digest operation released when it returns.
\<close>

theorem manifest_accepts_verified_chains:
  assumes "env_ok E" and "buffer_fits W buf" and "arm_ok s" and "\<not> in_flight s" and "visit_path (world s) = []"
  shows "\<exists>r w. verify_manifest E alloc sha256 W buf s = (Normal_Flow r, s\<lparr>world := w\<rparr>) \<and>
    visit_path w = [] \<and> live_ops w = live_ops (world s) \<and>
    (\<forall>n. r = Inr n \<longleftrightarrow>
       (\<exists>name body ns. first_entry buf = Some (name, body) \<and> verified_chain sha256 W buf name body ns \<and>
          length ns = n \<and> distinct ns \<and> n \<le> 7 \<and> (\<forall>k<n. alloc (live_ops (world s) + k))))"
proof -
  let ?p = "manifest_plain alloc sha256 W buf (world s)"
  let ?v = "manifest_ref alloc sha256 W buf (live_ops (world s))"
  have "fst ?p = Inr n \<longleftrightarrow> (\<exists>name body ns. first_entry buf = Some (name, body) \<and> verified_chain sha256 W buf name body ns \<and>
      length ns = n \<and> distinct ns \<and> n \<le> 7 \<and> (\<forall>k<n. alloc (live_ops (world s) + k)))" for n
    using verify_ref_accepts [OF assms(2), of "[]"]
    by (auto simp: manifest_plain_def landed_count_accepts ta_reset_def manifest_ref_def ta_max_depth_def split: option.split)
  moreover have "visit_path (snd ?p) = []" "live_ops (snd ?p) = live_ops (world s)"
    using assms(5) by (simp_all add: manifest_plain_def)
  ultimately show ?thesis using verify_manifest_lands [OF assms, of alloc sha256] by blast
qed

definition sample_manifest :: "byte list" where
  "sample_manifest = ascii ''MFST'' @ [1, 1, 1, 97, 1, 0, 0, 0] @ replicate 32 0 @ [0, 7]"

definition fresh_instance :: "nat \<Rightarrow> ta_state" where
  "fresh_instance held =
     \<lparr>fault_name = replicate 25 0, entries_verified = 0, deepest = 0, visit_path = [], live_ops = held\<rparr>"

lemma sample_manifest_fits: "buffer_fits 64 sample_manifest" "wide 64 sample_manifest"
  by (simp_all add: buffer_fits_def wide_def max_image_bytes_def sample_manifest_def ascii_def)

theorem manifest_accepts_verified_chains_witness:
  "\<exists>w. verify_manifest hosted_env (\<lambda>n. n < 8) (\<lambda>_. replicate 32 0) 64 sample_manifest (initial_arm (fresh_instance 0)) =
     (Normal_Flow (Inr 1), (initial_arm (fresh_instance 0))\<lparr>world := w\<rparr>) \<and> visit_path w = [] \<and> live_ops w = 0"
proof -
  let ?sha = "\<lambda>_ :: byte list. replicate 32 0 :: byte list"
  have first: "first_entry sample_manifest = Some ([97], 8)" by code_simp
  let ?h = "\<lparr>image_length = 1, expected_digest = replicate 32 0, entry_ref = [], image_start = 45\<rparr>"
  have "head_at sample_manifest 8 = Some ?h" "length sample_manifest = 46" by code_simp+
  then have "entry_good ?sha sample_manifest 8 ?h"
    by (simp add: entry_good_def plausible_def max_image_bytes_def)
  then have chain: "verified_chain ?sha 64 sample_manifest [97] 8 [[97]]" by (rule chain_last) simp
  have clean: "visit_path (world (initial_arm (fresh_instance 0))) = []" "live_ops (fresh_instance 0) = 0"
    by (simp_all add: fresh_instance_def)
  obtain r w where run: "verify_manifest hosted_env (\<lambda>n. n < 8) ?sha 64 sample_manifest (initial_arm (fresh_instance 0)) =
      (Normal_Flow r, (initial_arm (fresh_instance 0))\<lparr>world := w\<rparr>)" "visit_path w = []" "live_ops w = 0"
    and accepts: "r = Inr 1 \<longleftrightarrow> (\<exists>name body ns. first_entry sample_manifest = Some (name, body) \<and>
      verified_chain ?sha 64 sample_manifest name body ns \<and> length ns = 1 \<and> distinct ns \<and> (1 :: nat) \<le> 7 \<and>
      (\<forall>k<1. live_ops (world (initial_arm (fresh_instance 0))) + k < 8))"
    using manifest_accepts_verified_chains [OF env_ok_hosted sample_manifest_fits(1) initial_arm_ok(1,2) clean(1),
        of "\<lambda>n. n < 8" ?sha] clean(2) by auto
  have "r = Inr 1"
    unfolding accepts using first chain clean(2) by (intro exI [of _ "[97]"] exI [of _ 8] exI [of _ "[[97]]"]) simp
  with run show ?thesis by blast
qed

text \<open>
  The lookup of a reference returns the body of the first complete entry of that name, and
  reports the name absent exactly when no complete entry before the first damaged one has
  it, whenever \<open>size_t\<close> can hold the buffer's size plus any declared length.
\<close>

theorem find_entry_is_first_match:
  assumes "wide W buf" and "6 \<le> length buf"
  shows "find_entry W buf want =
    Some (case map_of (manifest_entries buf (unat (buf ! 5)) 6) want of
            None \<Rightarrow> \<lparr>loc_offset = 0, loc_found = False\<rparr>
          | Some body \<Rightarrow> \<lparr>loc_offset = body, loc_found = True\<rparr>)"
  using find_entry_entries [OF assms(1)] assms(2) by (simp add: located_of_def absent_def split: option.split)

theorem find_entry_is_first_match_witness:
  "find_entry 64 sample_manifest [97] = Some \<lparr>loc_offset = 8, loc_found = True\<rparr>"
proof -
  have "map_of (manifest_entries sample_manifest (unat (sample_manifest ! 5)) 6) [97] = Some 8" by code_simp
  moreover have "6 \<le> length sample_manifest" by code_simp
  ultimately show ?thesis
    using find_entry_is_first_match [OF sample_manifest_fits(2), of "[97]"] by simp
qed


lemma invoke_serves:
  assumes "readable_command W ps"
  shows "TA_InvokeCommandEntryPoint E alloc sha256 W TA_MANIFEST_CMD_VERIFY ps =
    serve_one (\<lambda>ps. verify_manifest E alloc sha256 W (the (in_buffer ps))) (\<lambda>ps x. write_report (snd x) (fst x) ps) ps"
  using assms
  by (auto simp: readable_command_def TA_InvokeCommandEntryPoint_def serve_one_def TA_MANIFEST_CMD_VERIFY_def
      TA_MANIFEST_CMD_LAYOUT_def)

lemma ta_session_serves:
  "\<forall>ps\<in>set pss. readable_command W ps \<Longrightarrow>
    ta_session E alloc sha256 W pss =
      serve (\<lambda>ps. verify_manifest E alloc sha256 W (the (in_buffer ps))) (\<lambda>ps x. write_report (snd x) (fst x) ps) pss"
  by (induction pss) (simp_all add: invoke_serves)

lemma write_report_tail:
  "write_report w verdict ps = (TEE_SUCCESS, ps') \<Longrightarrow> visit_path w = [] \<Longrightarrow>
     out_size ps' \<le> ta_max_name + 2 \<and> out_buffer ps' ! (out_size ps' - 1) = 0"
proof -
  assume r: "write_report w verdict ps = (TEE_SUCCESS, ps')" "visit_path w = []"
  let ?n = "name_length (fault_name w)"
  have n: "?n \<le> ta_max_name" "?n \<le> length (fault_name w)"
    by (simp_all add: name_length_def) (metis length_take length_takeWhile_le min.bounded_iff)+
  from r have "out_size ps' = ?n + 2"
    "out_buffer ps' = take ?n (fault_name w) @ [0, 0] @ drop (?n + 2) (out_buffer ps)"
    by (auto simp: write_report_def Let_def split: if_splits)
  with n show ?thesis by (simp add: nth_append)
qed

text \<open>
  C32. The instance is reusable: however the verifications before it ended, every verify command
  of a session gets exactly the answer a fresh instance would give it, no answer is lost,
  and each successful one reports a name of at most 24 bytes and an empty reference path in
  its last byte.
\<close>

theorem ta_session_answers_like_fresh:
  assumes "env_ok E" and "arm_ok s" and "\<not> in_flight s" and "instance_clean held (world s)"
    and "\<forall>ps\<in>set pss. readable_command W ps"
  shows "\<exists>as w. ta_session E alloc sha256 W pss s = (Normal_Flow as, s\<lparr>world := w\<rparr>) \<and>
    instance_clean held w \<and> length as = length pss \<and>
    (\<forall>i<length pss. \<exists>t.
       TA_InvokeCommandEntryPoint E alloc sha256 W TA_MANIFEST_CMD_VERIFY (pss ! i) (initial_arm (fresh_instance held)) =
         (Normal_Flow (as ! i), t)) \<and>
    (\<forall>ps'. (TEE_SUCCESS, ps') \<in> set as \<longrightarrow> out_size ps' \<le> 26 \<and> out_buffer ps' ! (out_size ps' - 1) = 0)"
proof -
  let ?req = "\<lambda>ps. verify_manifest E alloc sha256 W (the (in_buffer ps))"
    and ?rep = "\<lambda>ps x. write_report (snd x) (fst x) ps"
    and ?w0 = "fresh_instance held"
    and ?plain = "\<lambda>ps. manifest_plain alloc sha256 W (the (in_buffer ps))"
  have w0: "instance_clean held ?w0" by (simp add: instance_clean_def fresh_instance_def)
  have v: "env_ok E \<and> readable_command W ps" if "ps \<in> set pss" for ps using assms(1,5) that by simp
  obtain w where "instance_clean held w"
    and run: "serve ?req ?rep pss s = (Normal_Flow (map (\<lambda>ps. ?rep ps (?plain ps ?w0)) pss), s\<lparr>world := w\<rparr>)"
    using ta.serves [of pss E W s held ?w0 alloc sha256] v assms(2-4) w0 by blast
  moreover have "TA_InvokeCommandEntryPoint E alloc sha256 W TA_MANIFEST_CMD_VERIFY ps (initial_arm ?w0) =
      (Normal_Flow (?rep ps (?plain ps ?w0)), (initial_arm ?w0)\<lparr>world := snd (?plain ps ?w0)\<rparr>)" if "ps \<in> set pss" for ps
    using ta.serves_one [OF v [OF that] initial_arm_ok(1,2), of held ?w0 alloc sha256] w0 v [OF that]
    by (simp add: invoke_serves)
  moreover have "out_size ps' \<le> 26 \<and> out_buffer ps' ! (out_size ps' - 1) = 0"
    if "?rep ps (?plain ps ?w0) = (TEE_SUCCESS, ps')" for ps ps'
    using write_report_tail [OF that] w0 by (simp add: manifest_plain_def instance_clean_def ta_max_name_def)
  ultimately show ?thesis
    using ta_session_serves [OF assms(5), of E alloc sha256] by fastforce
qed

definition sample_command :: "byte list \<Rightarrow> tee_params" where
  "sample_command buf =
     \<lparr>param_types = [Memref_Input, Value_Output, Memref_Output, Param_None], in_buffer = Some buf,
      value_a = 0, value_b = 0, out_buffer = replicate 32 0, out_size = 32\<rparr>"

theorem ta_session_answers_like_fresh_witness:
  "\<exists>as w. ta_session hosted_env (\<lambda>n. n < 8) (\<lambda>_. replicate 32 0) 64
      [sample_command [1, 2, 3], sample_command sample_manifest] (initial_arm (fresh_instance 0)) =
        (Normal_Flow as, (initial_arm (fresh_instance 0))\<lparr>world := w\<rparr>) \<and>
    instance_clean 0 w \<and> length as = 2"
proof -
  have "instance_clean 0 (world (initial_arm (fresh_instance 0)))"
    by (simp add: instance_clean_def fresh_instance_def)
  moreover have "sample_manifest \<noteq> []" by (simp add: sample_manifest_def)
  ultimately show ?thesis
    using ta_session_answers_like_fresh [of hosted_env "initial_arm (fresh_instance 0)" 0
        "[sample_command [1, 2, 3], sample_command sample_manifest]" 64 "\<lambda>n. n < 8" "\<lambda>_. replicate 32 0"]
      sample_manifest_fits(1)
    by (fastforce simp: readable_command_def sample_command_def buffer_fits_def max_image_bytes_def)
qed

end
