(* ===== verification/App_Store_Check.thy ===== *)
theory App_Store_Check
  imports App_Escape
begin

text \<open>
  The embedded store checker (\<open>reference_app/embedded/src/store_check.cpp\<close>).

  littlefs is a parameter: whether it mounts, opens and stats a path, and what a read of a
  file returns (\<open>None\<close> for a negative result).  A C string is its characters up to the
  terminator; the buffer of a record is the bytes that were read, the rest of the array and
  the byte behind them being null.  \<open>g_path\<close> is the list of its first \<open>g_path_len\<close> names, and
  a push beyond its \<open>max_path\<close> slots is undefined behaviour.  \<open>long\<close> has 32 bits, as on the
  board the program is built for.
\<close>

definition mount_failed :: c_int where "mount_failed = 1"
definition record_unreadable :: c_int where "record_unreadable = 2"
definition store_header_bad :: c_int where "store_header_bad = 3"
definition store_version_unsupported :: c_int where "store_version_unsupported = 4"
definition field_malformed :: c_int where "field_malformed = 5"
definition checksum_mismatch :: c_int where "checksum_mismatch = 6"
definition store_reference_missing :: c_int where "store_reference_missing = 7"
definition store_reference_cycle :: c_int where "store_reference_cycle = 8"
definition store_nesting_too_deep :: c_int where "store_nesting_too_deep = 9"

definition fault_text :: "c_int \<Rightarrow> string" where
  "fault_text f =
     (if f = mount_failed then ''the image did not mount''
      else if f = record_unreadable then ''a record could not be read''
      else if f = store_header_bad then ''a record header is not RCRD''
      else if f = store_version_unsupported then ''a record declares an unsupported schema version''
      else if f = field_malformed then ''a field is malformed''
      else if f = checksum_mismatch then ''a record checksum does not match''
      else if f = store_reference_missing then ''a referenced record is absent''
      else if f = store_reference_cycle then ''the references form a cycle''
      else if f = store_nesting_too_deep then ''the reference nesting is too deep''
      else ''unknown fault'')"


subsection \<open>The flash\<close>

definition block_size :: nat where "block_size = 512"
definition block_count :: nat where "block_count = 32"

text \<open>The four driver functions; a copy outside \<open>g_flash\<close> is undefined behaviour (\<open>None\<close>).\<close>

definition flash_read :: "byte list \<Rightarrow> nat \<Rightarrow> nat \<Rightarrow> nat \<Rightarrow> byte list option" where
  "flash_read flash block off sz =
     (if block * block_size + off + sz \<le> length flash then Some (take sz (drop (block * block_size + off) flash)) else None)"

definition flash_prog :: "byte list \<Rightarrow> nat \<Rightarrow> nat \<Rightarrow> byte list \<Rightarrow> byte list option" where
  "flash_prog flash block off data =
     (let p = block * block_size + off in
      if p + length data \<le> length flash then Some (take p flash @ data @ drop (p + length data) flash) else None)"

definition flash_erase :: "byte list \<Rightarrow> nat \<Rightarrow> byte list option" where
  "flash_erase flash block = flash_prog flash block 0 (replicate block_size 0xFF)"

definition flash_sync :: "byte list \<Rightarrow> byte list" where
  "flash_sync flash = flash"


subsection \<open>C strings and numbers\<close>

primrec strchr :: "string \<Rightarrow> char \<Rightarrow> nat option" where
  "strchr [] c = None"
| "strchr (x # xs) c = (if x = c then Some 0 else map_option Suc (strchr xs c))"

definition clamp_long :: "int \<Rightarrow> int" where
  "clamp_long i = max (- (2 ^ 31)) (min (2 ^ 31 - 1) i)"

definition strtol :: "string \<Rightarrow> int" where
  "strtol t = clamp_long (decimal t)"

definition byte_sum :: "string \<Rightarrow> c_uint32" where
  "byte_sum t = sum_list (map (\<lambda>c. of_nat (of_char c)) t)"


subsection \<open>The checker's state\<close>

record lfs =
  lfs_mounts :: bool
  lfs_opens :: "string \<Rightarrow> bool"
  lfs_reads :: "string \<Rightarrow> nat \<Rightarrow> string option"
  lfs_stats :: "string \<Rightarrow> bool"

record store_state =
  fault_record :: string
  records_checked :: nat
  deepest_ref :: nat
  ref_path :: "string list"
  open_files :: nat
  fs_mounted :: bool

definition max_name :: nat where "max_name = 32"
definition max_path :: nat where "max_path = 8"

definition note_record :: "string \<Rightarrow> string" where
  "note_record name = take (max_name - 1) (c_str name)"

definition fail_with :: "escape_env \<Rightarrow> c_int \<Rightarrow> string \<Rightarrow> nat \<Rightarrow> (store_state, unit) code" where
  "fail_with E f name d =
     seq (upd (\<lambda>w. w\<lparr>fault_record := note_record name\<rparr>)) (\<lambda>_. eject_error E (mk_error f (of_nat d)))"

definition guard_with :: "escape_env \<Rightarrow> bool \<Rightarrow> c_int \<Rightarrow> string \<Rightarrow> nat \<Rightarrow> (store_state, unit) code" where
  "guard_with E c f name d = (if c then fail_with E f name d else ret ())"

text \<open>\<open>open_file\<close>: the constructor escapes when the open fails; the destructor closes.\<close>

definition with_file ::
    "escape_env \<Rightarrow> lfs \<Rightarrow> string \<Rightarrow> string \<Rightarrow> nat \<Rightarrow> (store_state, 'a) code \<Rightarrow> (store_state, 'a) code" where
  "with_file E F path name d body =
     seq (guard_with E (\<not> lfs_opens F path) record_unreadable name d) (\<lambda>_.
     seq (upd (\<lambda>w. w\<lparr>open_files := open_files w + 1\<rparr>)) (\<lambda>_.
     guarded (\<lambda>w. w\<lparr>open_files := open_files w - 1\<rparr>) body))"

primrec scan_path :: "escape_env \<Rightarrow> string \<Rightarrow> nat \<Rightarrow> string list \<Rightarrow> (store_state, unit) code" where
  "scan_path E name d [] = ret ()"
| "scan_path E name d (p # ps) =
     seq (guard_with E (p = name) store_reference_cycle name d) (\<lambda>_. scan_path E name d ps)"

definition push_ref :: "string \<Rightarrow> (store_state, unit) code" where
  "push_ref name =
     look (\<lambda>w. length (ref_path w)) (\<lambda>n.
       if n < max_path then upd (\<lambda>w. w\<lparr>ref_path := ref_path w @ [name]\<rparr>) else undefined_behaviour)"

definition visiting_record :: "escape_env \<Rightarrow> string \<Rightarrow> nat \<Rightarrow> (store_state, 'a) code \<Rightarrow> (store_state, 'a) code" where
  "visiting_record E name d body =
     look ref_path (\<lambda>ps.
     seq (scan_path E name d ps) (\<lambda>_.
     seq (guard_with E (length ps \<ge> max_path) store_nesting_too_deep name d) (\<lambda>_.
     seq (push_ref name) (\<lambda>_.
     guarded (\<lambda>w. w\<lparr>ref_path := butlast (ref_path w)\<rparr>) body))))"


subsection \<open>One record\<close>

definition record_path :: "string \<Rightarrow> string" where
  "record_path name = take 63 (''/records/'' @ name)"

text \<open>The read and the header: what is left is the text of the fields.\<close>

definition read_record :: "escape_env \<Rightarrow> lfs \<Rightarrow> string \<Rightarrow> nat \<Rightarrow> (store_state, string) code" where
  "read_record E F name d =
     (let bytes = (case lfs_reads F (record_path name) 191 of None \<Rightarrow> [] | Some bs \<Rightarrow> bs) in
      seq (guard_with E (length bytes < 12) record_unreadable name d) (\<lambda>_.
      if length bytes > 191 then undefined_behaviour
      else
        seq (guard_with E (take 4 bytes \<noteq> ''RCRD'') store_header_bad name d) (\<lambda>_.
        seq (guard_with E (bytes ! 4 \<noteq> CHR ''1'') store_version_unsupported name d) (\<lambda>_.
        ret (c_str (drop 6 bytes))))))"

record field_scan =
  value_sum :: c_uint32
  ref_name :: "string option"
  declared :: int

definition scan_start :: field_scan where
  "scan_start = \<lparr>value_sum = 0, ref_name = None, declared = - 1\<rparr>"

lemma fail_with_never_returns [simp]: "fail_with E f name d s \<noteq> (Normal_Flow v, t)"
  by (simp add: fail_with_def)

lemma guard_with_returns [simp]: "guard_with E c f name d s = (Normal_Flow v, t) \<longleftrightarrow> \<not> c \<and> t = s"
  by (auto simp: guard_with_def ret_def)

lemma strchr_bound: "strchr xs c = Some i \<Longrightarrow> i < length xs"
  by (induction xs arbitrary: i) (auto split: if_splits)

text \<open>One iteration's fields: where the line ends, its \<open>=\<close>, and the value between them.\<close>

definition field_bad :: "string \<Rightarrow> bool" where
  "field_bad line =
     (case strchr line (CHR ''='') of
        None \<Rightarrow> True
      | Some eq \<Rightarrow> (case strchr line (CHR 0x0A) of None \<Rightarrow> False | Some e \<Rightarrow> eq > e))"

definition field_value :: "string \<Rightarrow> string" where
  "field_value line = (case strchr line (CHR ''='') of None \<Rightarrow> [] | Some eq \<Rightarrow> drop (eq + 1) line)"

definition field_length :: "string \<Rightarrow> nat" where
  "field_length line =
     (case strchr line (CHR 0x0A) of
        Some e \<Rightarrow> length (field_value line) - (length line - e)
      | None \<Rightarrow> length (field_value line))"

definition next_line :: "string \<Rightarrow> string" where
  "next_line line = (case strchr line (CHR 0x0A) of Some e \<Rightarrow> drop (e + 1) line | None \<Rightarrow> [])"

lemma next_line_shorter: "line \<noteq> [] \<Longrightarrow> length (next_line line) < length line"
  by (auto simp: next_line_def split: option.split)

function fields_loop :: "escape_env \<Rightarrow> string \<Rightarrow> nat \<Rightarrow> string \<Rightarrow> field_scan \<Rightarrow> (store_state, field_scan) code" where
  "fields_loop E name d line fs s =
     (if line = [] then ret fs s
      else
        seq (guard_with E (field_bad line) field_malformed name d) (\<lambda>_.
        branch (take 4 line = ''sum='')
          (fields_loop E name d (next_line line) (fs\<lparr>declared := strtol (field_value line)\<rparr>))
          (branch (take 4 line = ''ref='')
            (seq (guard_with E (field_length line = 0 \<or> field_length line \<ge> max_name) field_malformed name d) (\<lambda>_.
             fields_loop E name d (next_line line) (fs\<lparr>ref_name := Some (take (field_length line) (field_value line))\<rparr>)))
            (fields_loop E name d (next_line line)
              (fs\<lparr>value_sum := value_sum fs + byte_sum (take (field_length line) (field_value line))\<rparr>)))) s)"
  by pat_completeness auto

termination
  by (relation "measure (\<lambda>(E, name, d, line, fs, s). length line)") (auto simp: next_line_shorter)

declare fields_loop.simps [simp del]

lemma fields_loop_returns: "fields_loop E name d line fs s = (Normal_Flow v, t) \<Longrightarrow> t = s"
proof (induction "length line" arbitrary: line fs rule: less_induct)
  case less
  show ?case
  proof (cases "line = []")
    case True
    then show ?thesis using less.prems by (simp add: fields_loop.simps ret_def)
  next
    case False
    then show ?thesis
      using less.prems less.hyps [OF next_line_shorter [OF False]]
      by (auto simp: fields_loop.simps [of E name d line] seq_returns branch_def split: if_splits)
  qed
qed


definition record_checks :: "escape_env \<Rightarrow> lfs \<Rightarrow> string \<Rightarrow> nat \<Rightarrow> (store_state, string option) code" where
  "record_checks E F name d =
     seq (read_record E F name d) (\<lambda>text_of_fields.
     seq (fields_loop E name d text_of_fields scan_start) (\<lambda>fs.
     seq (guard_with E (declared fs < 0) field_malformed name d) (\<lambda>_.
     seq (guard_with E (of_int (declared fs) \<noteq> value_sum fs) checksum_mismatch name d) (\<lambda>_.
     seq (upd (\<lambda>w. w\<lparr>records_checked := records_checked w + 1\<rparr>)) (\<lambda>_.
     ret (ref_name fs))))))"

lemma scan_path_returns: "scan_path E name d ps s = (Normal_Flow v, t) \<Longrightarrow> t = s"
  by (induction ps arbitrary: s) (auto simp: ret_def seq_returns)

lemma push_ref_returns:
  "push_ref name s = (Normal_Flow v, t) \<Longrightarrow>
     ref_path (world t) = ref_path (world s) @ [name] \<and> length (ref_path (world s)) < max_path"
  by (auto simp: push_ref_def upd_def undefined_behaviour_def split: if_splits)

lemma record_checks_returns:
  "record_checks E F name d s = (Normal_Flow v, t) \<Longrightarrow> ref_path (world t) = ref_path (world s)"
  by (auto simp: record_checks_def read_record_def Let_def seq_returns ret_def upd_def undefined_behaviour_def
      dest!: fields_loop_returns split: if_splits)

lemma visiting_record_cong [fundef_cong]:
  assumes "s = s'"
    and "\<And>t. ref_path (world t) = ref_path (world s') @ [name] \<Longrightarrow>
           length (ref_path (world s')) < max_path \<Longrightarrow> body t = body' t"
  shows "visiting_record E name d body s = visiting_record E name d body' s'"
  unfolding visiting_record_def assms(1)
  by (intro look_cong seq_cong guarded_cong refl)
    (auto dest!: scan_path_returns push_ref_returns intro: assms(2))

lemma with_file_cong [fundef_cong]:
  assumes "s = s'" and "\<And>t. ref_path (world t) = ref_path (world s') \<Longrightarrow> body t = body' t"
  shows "with_file E F path name d body s = with_file E F path name d body' s'"
  unfolding with_file_def assms(1)
  by (intro look_cong seq_cong guarded_cong refl) (auto simp: upd_def intro: assms(2))

function check_record :: "escape_env \<Rightarrow> lfs \<Rightarrow> string \<Rightarrow> nat \<Rightarrow> (store_state, unit) code" where
  "check_record E F name d s =
     seq (upd (\<lambda>w. if d > deepest_ref w then w\<lparr>deepest_ref := d\<rparr> else w)) (\<lambda>_.
     visiting_record E name d (
     with_file E F (record_path name) name d (
     seq (record_checks E F name d) (\<lambda>r.
     branch (r \<noteq> None)
       (seq (guard_with E (\<not> lfs_stats F (record_path (the r))) store_reference_missing (the r) d) (\<lambda>_.
        check_record E F (the r) (d + 1)))
       (ret ()))))) s"
  by pat_completeness auto

termination
  by (relation "measure (\<lambda>(E, F, name, d, s). max_path - length (ref_path (world s)))")
    (auto dest!: record_checks_returns simp: upd_def split: if_splits)

declare check_record.simps [simp del]

definition check_first :: "escape_env \<Rightarrow> lfs \<Rightarrow> string \<Rightarrow> (store_state, nat) code" where
  "check_first E F entry =
     seq (guard_with E (\<not> lfs_mounts F) mount_failed entry 0) (\<lambda>_.
     seq (upd (\<lambda>w. w\<lparr>fs_mounted := True, records_checked := 0, deepest_ref := 0\<rparr>)) (\<lambda>_.
     seq (check_record E F entry 0) (\<lambda>_.
     seq (upd (\<lambda>w. w\<lparr>fs_mounted := False\<rparr>)) (\<lambda>_.
     look records_checked ret))))"

definition check_image :: "escape_env \<Rightarrow> lfs \<Rightarrow> string \<Rightarrow> (store_state, error + nat) code" where
  "check_image E F entry = landing_scope E (check_first E F entry)"


subsection \<open>The staged image and the self-check\<close>

text \<open>A record's text as lines, each with its newline; the records \<open>stage_image\<close> puts, in order.\<close>

definition text_lines :: "string list \<Rightarrow> string" where
  "text_lines ls = concat (map (\<lambda>l. l @ [CHR 0x0A]) ls)"

definition staged_records :: "(string \<times> string) list" where
  "staged_records =
     [(''boot'', text_lines [''RCRD1'', ''name=ab'', ''sum=195'', ''ref=net'']),
      (''net'', text_lines [''RCRD1'', ''host=aa'', ''sum=194'', ''ref=leaf'']),
      (''leaf'', text_lines [''RCRD1'', ''value=abc'', ''sum=294'']),
      (''bad_boot'', text_lines [''RCRD1'', ''name=ab'', ''sum=195'', ''ref=bad_leaf'']),
      (''bad_leaf'', text_lines [''RCRD1'', ''value=abc'', ''sum=1'']),
      (''dangling'', text_lines [''RCRD1'', ''name=ab'', ''sum=195'', ''ref=absent'']),
      (''loop_a'', text_lines [''RCRD1'', ''name=ab'', ''sum=195'', ''ref=loop_b'']),
      (''loop_b'', text_lines [''RCRD1'', ''name=ab'', ''sum=195'', ''ref=loop_a'']),
      (''corrupt'', text_lines [''XXXX1'', ''value=abc'', ''sum=294''])]"

record expectation =
  exp_entry :: string
  exp_fault :: c_int
  exp_record :: string

definition expect :: "bool \<Rightarrow> string \<Rightarrow> string list" where
  "expect ok what = (if ok then [] else [''  FAIL: '' @ what])"

text \<open>What \<open>run\<close> prints after the check: its line, and a line per expectation that failed.\<close>

definition run_report :: "expectation \<Rightarrow> (error + nat) \<times> store_state \<Rightarrow> string \<times> string list" where
  "run_report x rw =
     (case rw of (r, w) \<Rightarrow>
        if exp_fault x = 0 then
          (''  '' @ pad_right 9 (exp_entry x) @ '' ok, '' @
             (case r of Inr n \<Rightarrow> show_nat n | Inl _ \<Rightarrow> ''-1'') @ '' record(s) checked, deepest reference '' @
             show_nat (deepest_ref w),
           expect (case r of Inr _ \<Rightarrow> True | Inl _ \<Rightarrow> False) ''a valid image validates'' @
           expect (ref_path w = []) ''the reference path is empty after a valid image'')
        else
          (let code = (case r of Inr _ \<Rightarrow> 0 | Inl e \<Rightarrow> err_code e);
               level = (case r of Inr _ \<Rightarrow> - 1 | Inl e \<Rightarrow> err_domain e) in
           (''  '' @ pad_right 9 (exp_entry x) @ '' fault '' @ show_int (sint code) @ '' at depth '' @ show_int (sint level) @
              '' in '' @ [CHR 0x27] @ fault_record w @ [CHR 0x27] @ '': '' @ fault_text code,
            expect (case r of Inr _ \<Rightarrow> False | Inl _ \<Rightarrow> True) ''a bad image reports a fault'' @
            expect (case r of Inr _ \<Rightarrow> False | Inl e \<Rightarrow> err_code e = exp_fault x) ''the fault is the expected one'' @
            expect (fault_record w = exp_record x) ''the offending record is named'' @
            expect (ref_path w = []) ''the reference path is empty after an escape'')))"

definition run_request :: "escape_env \<Rightarrow> lfs \<Rightarrow> expectation \<Rightarrow> (store_state, error + nat) code" where
  "run_request E F x = seq (upd (\<lambda>w. w\<lparr>fault_record := []\<rparr>)) (\<lambda>_. check_image E F (exp_entry x))"

definition run :: "escape_env \<Rightarrow> lfs \<Rightarrow> expectation \<Rightarrow> (store_state, string \<times> string list) code" where
  "run E F x = serve_one (run_request E F) run_report x"

definition self_check :: "expectation list" where
  "self_check =
     [\<lparr>exp_entry = ''boot'', exp_fault = 0, exp_record = []\<rparr>,
      \<lparr>exp_entry = ''bad_boot'', exp_fault = checksum_mismatch, exp_record = ''bad_leaf''\<rparr>,
      \<lparr>exp_entry = ''dangling'', exp_fault = store_reference_missing, exp_record = ''absent''\<rparr>,
      \<lparr>exp_entry = ''loop_a'', exp_fault = store_reference_cycle, exp_record = ''loop_a''\<rparr>,
      \<lparr>exp_entry = ''corrupt'', exp_fault = store_header_bad, exp_record = ''corrupt''\<rparr>,
      \<lparr>exp_entry = ''absent'', exp_fault = record_unreadable, exp_record = ''absent''\<rparr>,
      \<lparr>exp_entry = ''boot'', exp_fault = 0, exp_record = []\<rparr>]"

text \<open>\<open>main\<close> after staging, without the two banner lines: its output and exit code.\<close>

definition store_main :: "escape_env \<Rightarrow> lfs \<Rightarrow> (store_state, int \<times> string list) code" where
  "store_main E F =
     seq (serve (run_request E F) run_report self_check) (\<lambda>rs.
     let failures = length (concat (map snd rs)) in
     ret (if failures = 0 then 0 else 1,
          concat (map (\<lambda>(line, fails). line # fails) rs) @
          [''storecheck: '' @ (if failures = 0 then ''PASS'' else ''FAIL'')]))"


subsection \<open>The reference\<close>

text \<open>The scan of the fields as a function, and what one record amounts to.\<close>

function scan_fields :: "string \<Rightarrow> field_scan \<Rightarrow> field_scan option" where
  "scan_fields line fs =
     (if line = [] then Some fs
      else if field_bad line then None
      else if take 4 line = ''sum='' then scan_fields (next_line line) (fs\<lparr>declared := strtol (field_value line)\<rparr>)
      else if take 4 line = ''ref='' then
        (if field_length line = 0 \<or> field_length line \<ge> max_name then None
         else scan_fields (next_line line) (fs\<lparr>ref_name := Some (take (field_length line) (field_value line))\<rparr>))
      else scan_fields (next_line line)
             (fs\<lparr>value_sum := value_sum fs + byte_sum (take (field_length line) (field_value line))\<rparr>))"
  by pat_completeness auto

termination
  by (relation "measure (\<lambda>(line, fs). length line)") (auto simp: next_line_shorter)

declare scan_fields.simps [simp del]

definition fields_result :: "field_scan \<Rightarrow> c_int + string option" where
  "fields_result fs =
     (if declared fs < 0 then Inl field_malformed
      else if of_int (declared fs) \<noteq> value_sum fs then Inl checksum_mismatch
      else Inr (ref_name fs))"

definition record_ref :: "lfs \<Rightarrow> string \<Rightarrow> c_int + string option" where
  "record_ref F name =
     (let bytes = (case lfs_reads F (record_path name) 191 of None \<Rightarrow> [] | Some bs \<Rightarrow> bs) in
      if length bytes < 12 then Inl record_unreadable
      else if take 4 bytes \<noteq> ''RCRD'' then Inl store_header_bad
      else if bytes ! 4 \<noteq> CHR ''1'' then Inl store_version_unsupported
      else
        (case scan_fields (c_str (drop 6 bytes)) scan_start of
           None \<Rightarrow> Inl field_malformed
         | Some fs \<Rightarrow> fields_result fs))"

text \<open>Documented of littlefs: a read returns no more bytes than were asked for.\<close>

definition lfs_bounded :: "lfs \<Rightarrow> bool" where
  "lfs_bounded F \<longleftrightarrow> (\<forall>p n bs. lfs_reads F p n = Some bs \<longrightarrow> length bs \<le> n)"

definition store_faulted :: "c_int \<Rightarrow> string \<Rightarrow> nat \<Rightarrow> store_state \<Rightarrow> (error + 'a) \<times> store_state" where
  "store_faulted f name d w = (Inl (mk_error f (of_nat d)), w\<lparr>fault_record := note_record name\<rparr>)"

lemma seq_fail_with:
  assumes "env_ok E" and "in_scope E s"
  shows "seq (fail_with E f name d) k s = embed s (store_faulted f name d (world s))"
  unfolding store_faulted_def by (rule seq_escape) (simp add: fail_with_def eject_embed assms)

lemma seq_guard_with:
  assumes "env_ok E" and "in_scope E s"
  shows "seq (guard_with E c f name d) k s = (if c then embed s (store_faulted f name d (world s)) else k () s)"
  by (simp add: guard_with_def seq_fail_with [OF assms])

lemma fields_loop_embed:
  assumes "env_ok E" and "in_scope E s"
  shows "fields_loop E name d line fs s =
    embed s (case scan_fields line fs of None \<Rightarrow> store_faulted field_malformed name d (world s) | Some r \<Rightarrow> (Inr r, world s))"
proof (induction "length line" arbitrary: line fs rule: less_induct)
  case less
  show ?case
  proof (cases "line = []")
    case True
    then show ?thesis by (simp add: fields_loop.simps scan_fields.simps ret_embed)
  next
    case False
    note next_line_IH = less.hyps [OF next_line_shorter [OF False]]
    show ?thesis
      using False next_line_IH
      by (subst fields_loop.simps, subst scan_fields.simps) (simp add: seq_guard_with [OF assms] branch_def)
  qed
qed

lemma record_checks_embed:
  assumes "env_ok E" and "in_scope E s" and "lfs_bounded F"
  shows "record_checks E F name d s =
    embed s (case record_ref F name of
        Inl f \<Rightarrow> store_faulted f name d (world s)
      | Inr r \<Rightarrow> (Inr r, (world s)\<lparr>records_checked := records_checked (world s) + 1\<rparr>))"
proof -
  let ?bytes = "case lfs_reads F (record_path name) 191 of None \<Rightarrow> [] | Some bs \<Rightarrow> bs"
  have len: "length ?bytes \<le> 191" using assms(3) by (auto simp: lfs_bounded_def split: option.split)
  note g = seq_guard_with [OF assms(1,2)]
  have fields: "seq (fields_loop E name d line scan_start) k s =
      (case scan_fields line scan_start of
         None \<Rightarrow> embed s (store_faulted field_malformed name d (world s)) | Some fs \<Rightarrow> k fs s)" for line and k :: "field_scan \<Rightarrow> (store_state, string option) code"
    using fields_loop_embed [OF assms(1,2), of name d line scan_start]
    by (auto simp: store_faulted_def seq_value seq_escape split: option.split)
  show ?thesis
    using len
    by (auto simp: record_checks_def read_record_def record_ref_def fields_result_def Let_def seq_assoc g fields ret_embed
        not_less split: option.split)
qed

function store_ref :: "lfs \<Rightarrow> string list \<Rightarrow> string \<Rightarrow> nat \<Rightarrow> (c_int \<times> string \<times> nat) option \<times> nat \<times> nat" where
  "store_ref F path name d =
     (if name \<in> set path then (Some (store_reference_cycle, name, d), 0, d)
      else if length path \<ge> max_path then (Some (store_nesting_too_deep, name, d), 0, d)
      else if \<not> lfs_opens F (record_path name) then (Some (record_unreadable, name, d), 0, d)
      else
        (case record_ref F name of
           Inl f \<Rightarrow> (Some (f, name, d), 0, d)
         | Inr None \<Rightarrow> (None, 1, d)
         | Inr (Some r) \<Rightarrow>
             if \<not> lfs_stats F (record_path r) then (Some (store_reference_missing, r, d), 1, d)
             else (case store_ref F (path @ [name]) r (d + 1) of (f, n, m) \<Rightarrow> (f, n + 1, m))))"
  by pat_completeness auto

termination
  by (relation "measure (\<lambda>(F, path, name, d). max_path - length path)") auto

declare store_ref.simps [simp del]

definition store_outcome :: "(c_int \<times> string \<times> nat) option \<times> nat \<times> nat \<Rightarrow> (store_state, unit) plain" where
  "store_outcome v w =
     (case v of (f, n, m) \<Rightarrow>
        let w = w\<lparr>deepest_ref := max (deepest_ref w) m, records_checked := records_checked w + n\<rparr> in
        case f of None \<Rightarrow> (Inr (), w) | Some (k, name, d) \<Rightarrow> store_faulted k name d w)"


lemma seq_scan_path:
  assumes "env_ok E" and "in_scope E s"
  shows "seq (scan_path E name d ps) k s =
    (if name \<in> set ps then embed s (store_faulted store_reference_cycle name d (world s)) else k () s)"
  by (induction ps) (simp_all add: seq_assoc seq_guard_with [OF assms])

text \<open>The two guards around a body that computes \<open>x\<close>: what they refuse, and what they restore.\<close>

lemma record_guards:
  assumes "env_ok E" and "in_scope E s" and "ref_path (world s) = path" and "open_files (world s) = n"
    and body: "length path < max_path \<Longrightarrow> lfs_opens F p \<Longrightarrow>
      body (s\<lparr>world := (world s)\<lparr>ref_path := path @ [name], open_files := n + 1\<rparr>\<rparr>) = embed s (r, w)"
    and kept: "ref_path w = path @ [name]" "open_files w = n + 1"
  shows "visiting_record E name d (with_file E F p name d body) s =
    (if name \<in> set path then embed s (store_faulted store_reference_cycle name d (world s))
     else if length path \<ge> max_path then embed s (store_faulted store_nesting_too_deep name d (world s))
     else if \<not> lfs_opens F p then embed s (store_faulted record_unreadable name d (world s))
     else embed s (r, w\<lparr>ref_path := path, open_files := n\<rparr>))"
proof -
  let ?s2 = "s\<lparr>world := (world s)\<lparr>ref_path := path @ [name]\<rparr>\<rparr>"
  have sc: "in_scope E ?s2" using assms(2) by simp
  let ?x = "if lfs_opens F p then (r, w\<lparr>open_files := n\<rparr>) else store_faulted record_unreadable name d (world ?s2)"
  have opened: "with_file E F p name d body ?s2 = embed s ?x" if "length path < max_path"
    using that body kept assms(4) by (auto simp: with_file_def seq_guard_with [OF assms(1) sc] guarded_embed)
  have push: "seq (push_ref name) k s = k () ?s2" if "length path < max_path" for k :: "unit \<Rightarrow> (store_state, 'a) code"
    by (rule seq_value) (use that assms(3) in \<open>simp add: push_ref_def upd_embed\<close>)
  have "guarded (\<lambda>w. w\<lparr>ref_path := butlast (ref_path w)\<rparr>) (with_file E F p name d body) ?s2 =
      (if lfs_opens F p then embed s (r, w\<lparr>ref_path := path, open_files := n\<rparr>)
       else embed s (store_faulted record_unreadable name d (world s)))" if "length path < max_path"
    using guarded_embed [where body = "with_file E F p name d body" and s = ?s2 and r = "fst ?x" and w = "snd ?x"]
      opened [OF that] kept(1) assms(3)
    by (cases "world s"; cases w) (auto simp: store_faulted_def)
  then show ?thesis
    by (auto simp: visiting_record_def assms(3) seq_scan_path [OF assms(1,2)] seq_guard_with [OF assms(1,2)] push not_le)
qed

lemma store_outcome_fields:
  "ref_path (snd (store_outcome v w)) = ref_path w" "open_files (snd (store_outcome v w)) = open_files w"
  by (auto simp: store_outcome_def store_faulted_def Let_def split: prod.split option.split)

lemma store_outcome_restore:
  "fst (store_outcome v (w\<lparr>ref_path := p, open_files := n\<rparr>)) = fst (store_outcome v w)"
  "(snd (store_outcome v (w\<lparr>ref_path := p, open_files := n\<rparr>)))\<lparr>ref_path := ref_path w, open_files := open_files w\<rparr> =
   snd (store_outcome v w)"
  by (cases w; auto simp: store_outcome_def store_faulted_def Let_def split: prod.split option.split)+

lemma store_outcome_deepest:
  "d \<le> snd (snd v) \<Longrightarrow> store_outcome v (w\<lparr>deepest_ref := max (deepest_ref w) d\<rparr>) = store_outcome v w"
  "store_faulted f name e (w\<lparr>deepest_ref := max (deepest_ref w) d\<rparr>) = store_outcome (Some (f, name, e), 0, d) w"
  by (auto simp: store_outcome_def max_def split: prod.split option.split)

lemma store_ref_depth: "d \<le> snd (snd (store_ref F path name d))"
proof (induction F path name d rule: store_ref.induct)
  case (1 F path name d)
  then show ?case
    by (subst store_ref.simps) (fastforce split: sum.split option.split prod.split)
qed


text \<open>What follows the two guards: the record's own checks, then its reference.\<close>

definition record_verdict :: "lfs \<Rightarrow> string list \<Rightarrow> string \<Rightarrow> nat \<Rightarrow> (c_int \<times> string \<times> nat) option \<times> nat \<times> nat" where
  "record_verdict F path name d =
     (case record_ref F name of
        Inl f \<Rightarrow> (Some (f, name, d), 0, d)
      | Inr None \<Rightarrow> (None, 1, d)
      | Inr (Some r) \<Rightarrow>
          if \<not> lfs_stats F (record_path r) then (Some (store_reference_missing, r, d), 1, d)
          else (case store_ref F path r (d + 1) of (f, n, m) \<Rightarrow> (f, n + 1, m)))"

lemma store_ref_unfold:
  "store_ref F path name d =
     (if name \<in> set path then (Some (store_reference_cycle, name, d), 0, d)
      else if length path \<ge> max_path then (Some (store_nesting_too_deep, name, d), 0, d)
      else if \<not> lfs_opens F (record_path name) then (Some (record_unreadable, name, d), 0, d)
      else record_verdict F (path @ [name]) name d)"
  by (simp add: store_ref.simps [of F path] record_verdict_def)

lemma record_body_embed:
  assumes "env_ok E" and "in_scope E s" and "lfs_bounded F" and "d \<le> deepest_ref (world s)"
    and call: "\<And>name t. in_scope E t \<Longrightarrow> ref_path (world t) = ref_path (world s) \<Longrightarrow>
      check_record E F name (d + 1) t = embed t (store_outcome (store_ref F path name (d + 1)) (world t))"
  shows "seq (record_checks E F name d) (\<lambda>r.
     branch (r \<noteq> None)
       (seq (guard_with E (\<not> lfs_stats F (record_path (the r))) store_reference_missing (the r) d) (\<lambda>_.
        check_record E F (the r) (d + 1)))
       (ret ())) s = embed s (store_outcome (record_verdict F path name d) (world s))"
proof (cases "record_ref F name")
  case (Inl f)
  then have "record_checks E F name d s = embed s (store_faulted f name d (world s))"
    using record_checks_embed [OF assms(1-3)] by simp
  then show ?thesis
    using Inl assms(4)
    by (simp add: seq_escape store_faulted_def record_verdict_def store_outcome_def max_absorb1)
next
  case (Inr r)
  let ?t = "s\<lparr>world := (world s)\<lparr>records_checked := records_checked (world s) + 1\<rparr>\<rparr>"
  have t: "in_scope E ?t" using assms(2) by simp
  have "record_checks E F name d s = embed s (Inr r, world ?t)"
    using record_checks_embed [OF assms(1-3)] Inr by simp
  then have run: "seq (record_checks E F name d) k s = k r ?t" for k :: "string option \<Rightarrow> (store_state, unit) code"
    by (simp add: seq_value)
  show ?thesis
  proof (cases r)
    case None
    then show ?thesis
      using Inr assms(4)
      by (simp add: run ret_embed record_verdict_def store_outcome_def max_absorb1)
  next
    case (Some ref)
    obtain f n m where v: "store_ref F path ref (d + 1) = (f, n, m)" by (cases "store_ref F path ref (d + 1)")
    show ?thesis
      using Inr Some assms(4) call [of ?t ref] t v
      by (auto simp: run seq_guard_with [OF assms(1)] assms(2) record_verdict_def store_outcome_def max_absorb1 store_faulted_def
          split: option.split)
  qed
qed

lemma check_record_correct:
  assumes "env_ok E" and "lfs_bounded F"
  shows "in_scope E s \<Longrightarrow>
    check_record E F name d s = embed s (store_outcome (store_ref F (ref_path (world s)) name d) (world s))"
proof (induction "max_path - length (ref_path (world s))" arbitrary: s name d rule: less_induct)
  case less
  let ?path = "ref_path (world s)" and ?n = "open_files (world s)"
  define w1 where "w1 = (world s)\<lparr>deepest_ref := max (deepest_ref (world s)) d\<rparr>"
  let ?w3 = "w1\<lparr>ref_path := ?path @ [name], open_files := ?n + 1\<rparr>" and ?v = "record_verdict F (?path @ [name]) name d"
  let ?s3 = "s\<lparr>world := ?w3\<rparr>"
  have sc: "in_scope E (s\<lparr>world := w1\<rparr>)" "in_scope E ?s3" using less.prems by simp_all
  have w1: "ref_path w1 = ?path" "open_files w1 = ?n" "d \<le> deepest_ref w1" by (simp_all add: w1_def)
  have w1_eq: "(if d > deepest_ref (world s) then (world s)\<lparr>deepest_ref := d\<rparr> else world s) = w1"
    by (simp add: w1_def max_def not_less)
  have body: "seq (record_checks E F name d) (\<lambda>r.
     branch (r \<noteq> None)
       (seq (guard_with E (\<not> lfs_stats F (record_path (the r))) store_reference_missing (the r) d) (\<lambda>_.
        check_record E F (the r) (d + 1)))
       (ret ())) ?s3 = embed s (store_outcome ?v ?w3)" if "length ?path < max_path"
  proof -
    have "check_record E F k (d + 1) t = embed t (store_outcome (store_ref F (?path @ [name]) k (d + 1)) (world t))"
      if "in_scope E t" "ref_path (world t) = ref_path (world ?s3)" for k t
      using less.hyps [OF _ that(1), of k "d + 1"] that(2) \<open>length ?path < max_path\<close> by simp
    from record_body_embed [OF assms(1) sc(2) assms(2) _ this, where name = name] show ?thesis using w1(3) by simp
  qed
  obtain r w where out: "store_outcome ?v ?w3 = (r, w)" by (cases "store_outcome ?v ?w3")
  have kept: "ref_path w = ?path @ [name]" "open_files w = ?n + 1"
    using store_outcome_fields [of ?v ?w3] out by simp_all
  have restored: "store_outcome ?v w1 = (r, w\<lparr>ref_path := ?path, open_files := ?n\<rparr>)"
    using store_outcome_restore [where v = ?v and w = w1 and p = "?path @ [name]" and n = "?n + 1"] out w1
    by (simp add: prod_eq_iff)
  have "check_record E F name d s =
      (if name \<in> set ?path then embed s (store_faulted store_reference_cycle name d w1)
       else if length ?path \<ge> max_path then embed s (store_faulted store_nesting_too_deep name d w1)
       else if \<not> lfs_opens F (record_path name) then embed s (store_faulted record_unreadable name d w1)
       else embed s (store_outcome ?v w1))"
    unfolding check_record.simps [of E F name d s] seq_upd w1_eq
    by (rule trans [OF record_guards [OF assms(1) sc(1), where path = ?path and n = ?n and r = r and w = w]])
      (use body w1 out kept restored in simp_all)
  also have "\<dots> = embed s (store_outcome (store_ref F ?path name d) (world s))"
    using store_ref_depth [of d F ?path name]
    by (auto simp: store_ref_unfold w1_def store_outcome_deepest not_le split: if_splits)
  finally show ?case .
qed


definition store_plain :: "lfs \<Rightarrow> string \<Rightarrow> (store_state, nat) plain" where
  "store_plain F entry w =
     (if \<not> lfs_mounts F then store_faulted mount_failed entry 0 w
      else
        (case store_outcome (store_ref F (ref_path w) entry 0) (w\<lparr>fs_mounted := True, records_checked := 0, deepest_ref := 0\<rparr>) of
           (Inr _, w) \<Rightarrow> (Inr (records_checked w), w\<lparr>fs_mounted := False\<rparr>)
         | (Inl e, w) \<Rightarrow> (Inl e, w)))"

lemma check_first_correct:
  assumes "env_ok E" and "lfs_bounded F" and "in_scope E s"
  shows "check_first E F entry s = embed s (store_plain F entry (world s))"
proof (cases "lfs_mounts F")
  case False
  then show ?thesis by (simp add: check_first_def store_plain_def seq_guard_with [OF assms(1,3)])
next
  case True
  let ?s = "s\<lparr>world := (world s)\<lparr>fs_mounted := True, records_checked := 0, deepest_ref := 0\<rparr>\<rparr>"
  have "in_scope E ?s" using assms(3) by simp
  from check_record_correct [OF assms(1,2) this, of entry 0]
  obtain r w where out: "store_outcome (store_ref F (ref_path (world s)) entry 0) (world ?s) = (r, w)"
    and run: "check_record E F entry 0 ?s = embed ?s (r, w)"
    by (cases "store_outcome (store_ref F (ref_path (world s)) entry 0) (world ?s)") simp
  show ?thesis
    using True out run
    by (cases r) (simp_all add: check_first_def store_plain_def seq_guard_with [OF assms(1,3)] seq_value seq_escape ret_embed)
qed

interpretation checker: escaping_app E "\<lambda>_. env_ok E \<and> lfs_bounded F" "\<lambda>w. ref_path w = []"
  "check_first E F" "store_plain F" "\<lambda>_ _. ()"
proof
  show "ref_path (snd (store_plain F entry w)) = []" if "ref_path w = []" for entry w
    using that store_outcome_fields(1) [of "store_ref F [] entry 0" "w\<lparr>fs_mounted := True, records_checked := 0, deepest_ref := 0\<rparr>"]
    by (auto simp: store_plain_def store_faulted_def split: prod.split sum.split)
qed (simp_all add: check_first_correct)

text \<open>The self-check as a service: a run resets the fault's record name, then checks.\<close>

definition run_plain :: "lfs \<Rightarrow> expectation \<Rightarrow> (store_state, nat) plain" where
  "run_plain F x w = store_plain F (exp_entry x) (w\<lparr>fault_record := []\<rparr>)"

interpretation self_checks: landing_service "\<lambda>_. env_ok E \<and> lfs_bounded F \<and> lfs_mounts F" "\<lambda>w. ref_path w = []"
  "run_request E F" "run_plain F" run_report
proof
  show "run_request E F x s = (Normal_Flow (fst (run_plain F x (world s))), s\<lparr>world := snd (run_plain F x (world s))\<rparr>)"
    if "env_ok E \<and> lfs_bounded F \<and> lfs_mounts F" "arm_ok s" "\<not> in_flight s" "ref_path (world s) = []" for x s
    using that checker.lands [of E F "s\<lparr>world := (world s)\<lparr>fault_record := []\<rparr>\<rparr>" "exp_entry x"]
    by (simp add: run_request_def run_plain_def check_image_def)
  show "ref_path (snd (run_plain F x w)) = []" if "env_ok E \<and> lfs_bounded F \<and> lfs_mounts F" "ref_path w = []" for x w
    using that checker.stays_clean [of E F "w\<lparr>fault_record := []\<rparr>" "exp_entry x"] by (simp add: run_plain_def)
  show "run_report x (run_plain F x w) = run_report x (run_plain F x w')"
    if "env_ok E \<and> lfs_bounded F \<and> lfs_mounts F" "ref_path w = []" "ref_path w' = []" for x w w'
    using that
    by (cases "store_ref F [] (exp_entry x) 0")
      (auto simp: run_plain_def store_plain_def store_outcome_def store_faulted_def run_report_def Let_def split: option.split)
qed


subsection \<open>What is accepted\<close>

inductive record_chain :: "lfs \<Rightarrow> string \<Rightarrow> string list \<Rightarrow> bool" for F where
  chain_end: "lfs_opens F (record_path name) \<Longrightarrow> record_ref F name = Inr None \<Longrightarrow> record_chain F name [name]"
| chain_ref: "lfs_opens F (record_path name) \<Longrightarrow> record_ref F name = Inr (Some r) \<Longrightarrow> lfs_stats F (record_path r) \<Longrightarrow>
    record_chain F r ns \<Longrightarrow> record_chain F name (name # ns)"

inductive_cases record_chain_elim: "record_chain F name ns"

lemma record_chain_iff:
  "record_chain F name ns \<longleftrightarrow> lfs_opens F (record_path name) \<and>
     (\<exists>r. record_ref F name = Inr r \<and>
       (case r of None \<Rightarrow> ns = [name]
        | Some k \<Rightarrow> lfs_stats F (record_path k) \<and> (\<exists>rest. record_chain F k rest \<and> ns = name # rest)))"
  by (auto elim: record_chain_elim intro: chain_end chain_ref split: option.splits)

lemma record_chain_head: "record_chain F name ns \<Longrightarrow> \<exists>rest. ns = name # rest"
  by (auto elim: record_chain_elim)

lemma record_verdict_accepts:
  assumes "\<And>k m. fst (store_ref F path k (d + 1)) = None \<and> fst (snd (store_ref F path k (d + 1))) = m \<longleftrightarrow> P k m"
  shows "fst (record_verdict F path name d) = None \<and> fst (snd (record_verdict F path name d)) = n \<longleftrightarrow>
    (\<exists>r. record_ref F name = Inr r \<and>
       (case r of None \<Rightarrow> n = 1 | Some k \<Rightarrow> lfs_stats F (record_path k) \<and> (\<exists>m. n = Suc m \<and> P k m)))"
  unfolding assms [symmetric]
  by (auto simp: record_verdict_def split: sum.split option.split prod.split)

lemma store_ref_accepts:
  "distinct path \<Longrightarrow>
    fst (store_ref F path name d) = None \<and> fst (snd (store_ref F path name d)) = n \<longleftrightarrow>
    (\<exists>ns. record_chain F name ns \<and> length ns = n \<and> distinct (path @ ns) \<and> length path + n \<le> max_path)"
proof (induction "max_path - length path" arbitrary: path name d n rule: less_induct)
  case less
  show ?case
  proof (cases "name \<in> set path \<or> max_path \<le> length path \<or> \<not> lfs_opens F (record_path name)")
    case True
    have "\<not> (record_chain F name ns \<and> length ns = n \<and> distinct (path @ ns) \<and> length path + n \<le> max_path)" for ns
      using True record_chain_head [of F name ns] record_chain_iff [of F name ns] by auto
    moreover have "fst (store_ref F path name d) \<noteq> None" using True by (auto simp: store_ref_unfold)
    ultimately show ?thesis by blast
  next
    case False
    let ?P = "\<lambda>k m. \<exists>ns. record_chain F k ns \<and> length ns = m \<and> distinct (path @ name # ns) \<and> length path + Suc m \<le> max_path"
    have "fst (store_ref F (path @ [name]) k (d + 1)) = None \<and> fst (snd (store_ref F (path @ [name]) k (d + 1))) = m \<longleftrightarrow> ?P k m" for k m
    proof -
      have "max_path - length (path @ [name]) < max_path - length path" using False by auto
      from less.hyps [OF this, of k "d + 1" m] show ?thesis using less.prems False by simp
    qed
    note v = record_verdict_accepts [of F "path @ [name]" d ?P, OF this, of name n]
    have u: "store_ref F path name d = record_verdict F (path @ [name]) name d"
      using False by (simp add: store_ref_unfold not_le)
    consider (fault) f where "record_ref F name = Inl f" | (leaf) "record_ref F name = Inr None"
      | (ref) k where "record_ref F name = Inr (Some k)"
      by (cases "record_ref F name") (auto intro: option.exhaust)
    then show ?thesis
    proof cases
      case fault
      then have "\<not> record_chain F name ns" for ns using record_chain_iff [of F name ns] by simp
      then show ?thesis using v fault by (simp add: u)
    next
      case leaf
      then have c: "record_chain F name ns \<longleftrightarrow> ns = [name]" for ns using False record_chain_iff [of F name ns] by simp
      have "(\<exists>ns. record_chain F name ns \<and> length ns = n \<and> distinct (path @ ns) \<and> length path + n \<le> max_path) \<longleftrightarrow>
          length [name] = n \<and> distinct (path @ [name]) \<and> length path + n \<le> max_path"
        by (simp only: c simp_thms)
      also have "\<dots> \<longleftrightarrow> n = 1" using False less.prems(1) by auto
      finally have "(\<exists>ns. record_chain F name ns \<and> length ns = n \<and> distinct (path @ ns) \<and> length path + n \<le> max_path) \<longleftrightarrow> n = 1" .
      then show ?thesis using v leaf by (simp add: u)
    next
      case (ref k)
      then have c: "record_chain F name ns \<longleftrightarrow>
          lfs_stats F (record_path k) \<and> (\<exists>rest. record_chain F k rest \<and> ns = name # rest)" for ns
        using False record_chain_iff [of F name ns] by simp
      have "(\<exists>ns. record_chain F name ns \<and> length ns = n \<and> distinct (path @ ns) \<and> length path + n \<le> max_path) \<longleftrightarrow>
          lfs_stats F (record_path k) \<and> (\<exists>m. n = Suc m \<and> ?P k m)"
        by (simp only: c) (auto simp del: distinct_append)
      then show ?thesis using v ref by (simp add: u)
    qed
  qed
qed


subsection \<open>The staged image\<close>

text \<open>
  Documented of littlefs: after the records are put, a mount succeeds, exactly their paths
  open and stat, and a read returns the first bytes of what was written.
\<close>

definition lfs_serves :: "lfs \<Rightarrow> (string \<times> string) list \<Rightarrow> bool" where
  "lfs_serves F recs \<longleftrightarrow> lfs_mounts F \<and>
     (\<forall>p. lfs_opens F p \<longleftrightarrow> p \<in> record_path ` fst ` set recs) \<and>
     (\<forall>p. lfs_stats F p \<longleftrightarrow> p \<in> record_path ` fst ` set recs) \<and>
     (\<forall>p n. lfs_reads F p n = map_option (take n) (map_of (map (\<lambda>(k, body). (record_path k, body)) recs) p))"

definition lfs_of :: "(string \<times> string) list \<Rightarrow> lfs" where
  "lfs_of recs =
     \<lparr>lfs_mounts = True,
      lfs_opens = (\<lambda>p. p \<in> set (map (\<lambda>(k, _). record_path k) recs)),
      lfs_reads = (\<lambda>p n. map_option (take n) (map_of (map (\<lambda>(k, body). (record_path k, body)) recs) p)),
      lfs_stats = (\<lambda>p. p \<in> set (map (\<lambda>(k, _). record_path k) recs))\<rparr>"

lemma lfs_serves_unique:
  assumes "lfs_serves F recs"
  shows "F = lfs_of recs"
proof -
  have "lfs_opens F = (\<lambda>p. p \<in> set (map (\<lambda>(k, _). record_path k) recs))"
    "lfs_stats F = (\<lambda>p. p \<in> set (map (\<lambda>(k, _). record_path k) recs))"
    "lfs_reads F = (\<lambda>p n. map_option (take n) (map_of (map (\<lambda>(k, body). (record_path k, body)) recs) p))" "lfs_mounts F"
    using assms by (auto simp: lfs_serves_def image_image split_beta fun_eq_iff)
  then show ?thesis by (cases F) (simp add: lfs_of_def)
qed

lemma lfs_of_bounded: "lfs_bounded (lfs_of recs)"
  by (auto simp: lfs_bounded_def lfs_of_def)

lemma lfs_of_serves: "lfs_serves (lfs_of recs) recs"
  by (auto simp: lfs_serves_def lfs_of_def image_image split_beta)



subsection \<open>The record format\<close>

text \<open>
  A record with plain fields, a declared checksum \<open>n\<close> and optionally a reference.  The comment in
  the source says the checksum is the sum of every value byte; the code sums the values of the
  plain fields only and leaves the reference out.
\<close>

definition render_fields :: "(string \<times> string) list \<Rightarrow> string" where
  "render_fields kvs = concat (map (\<lambda>(k, v). k @ CHR ''='' # v @ [CHR 0x0A]) kvs)"

definition render_record :: "(string \<times> string) list \<Rightarrow> nat \<Rightarrow> string option \<Rightarrow> string" where
  "render_record kvs n r =
     ''RCRD1'' @ [CHR 0x0A] @ render_fields kvs @ ''sum='' @ show_nat n @ [CHR 0x0A] @
     (case r of None \<Rightarrow> [] | Some name \<Rightarrow> ''ref='' @ name @ [CHR 0x0A])"

definition plain_text :: "string \<Rightarrow> bool" where
  "plain_text t \<longleftrightarrow> (\<forall>c\<in>set t. c \<noteq> CHR 0x0A \<and> c \<noteq> CHR 0x00)"

definition plain_field :: "string \<times> string \<Rightarrow> bool" where
  "plain_field f \<longleftrightarrow> plain_text (fst f) \<and> plain_text (snd f) \<and> CHR ''='' \<notin> set (fst f) \<and> fst f \<noteq> ''sum'' \<and> fst f \<noteq> ''ref''"

lemma strchr_append: "c \<notin> set xs \<Longrightarrow> strchr (xs @ c # ys) c = Some (length xs)"
  by (induction xs) auto

text \<open>Reading a line \<open>key=value\<close> back.\<close>

lemma line_parts:
  assumes "CHR ''='' \<notin> set k" and "CHR 0x0A \<notin> set k" and "CHR 0x0A \<notin> set v"
  shows "\<not> field_bad (k @ CHR ''='' # v @ CHR 0x0A # rest)"
    and "field_value (k @ CHR ''='' # v @ CHR 0x0A # rest) = v @ CHR 0x0A # rest"
    and "field_length (k @ CHR ''='' # v @ CHR 0x0A # rest) = length v"
    and "next_line (k @ CHR ''='' # v @ CHR 0x0A # rest) = rest"
proof -
  have eq: "strchr (k @ CHR ''='' # v @ CHR 0x0A # rest) (CHR ''='') = Some (length k)"
    using assms(1) by (simp add: strchr_append)
  have nl: "strchr (k @ CHR ''='' # v @ CHR 0x0A # rest) (CHR 0x0A) = Some (length k + 1 + length v)"
    using strchr_append [of "CHR 0x0A" "k @ CHR ''='' # v" rest] assms(2,3) by simp
  show "\<not> field_bad (k @ CHR ''='' # v @ CHR 0x0A # rest)"
    "field_value (k @ CHR ''='' # v @ CHR 0x0A # rest) = v @ CHR 0x0A # rest"
    by (simp_all add: field_bad_def field_value_def eq nl)
  then show "field_length (k @ CHR ''='' # v @ CHR 0x0A # rest) = length v"
    "next_line (k @ CHR ''='' # v @ CHR 0x0A # rest) = rest"
    by (simp_all add: field_length_def next_line_def nl)
qed

lemma key_not:
  assumes "CHR ''='' \<notin> set k" and "length t = 3" and "k \<noteq> t" and "CHR ''='' \<notin> set t"
  shows "take 4 (k @ CHR ''='' # rest) \<noteq> t @ ''=''"
proof
  assume e: "take 4 (k @ CHR ''='' # rest) = t @ ''=''"
  have n: "(take 4 (k @ CHR ''='' # rest)) ! i = (t @ ''='') ! i" for i using e by simp
  show False
  proof (cases "length k < 3")
    case True
    with n [of "length k"] assms(2) have "t ! length k = CHR ''=''" by (simp add: nth_append)
    then show False using True assms(2,4) by (metis nth_mem)
  next
    case False
    show False
    proof (cases "length k = 3")
      case True
      with e assms(2,3) show False by simp
    next
      case long: False
      with n [of 3] False assms(2) have "k ! 3 = CHR ''=''" by (simp add: nth_append)
      then show False using long False assms(1) by (metis nth_mem linorder_neqE_nat)
    qed
  qed
qed

lemma scan_plain_fields:
  assumes "\<forall>f\<in>set kvs. plain_field f"
  shows "scan_fields (render_fields kvs @ rest) fs =
    scan_fields rest (fs\<lparr>value_sum := value_sum fs + byte_sum (concat (map snd kvs))\<rparr>)"
  using assms
proof (induction kvs arbitrary: fs)
  case Nil
  then show ?case by (simp add: render_fields_def byte_sum_def)
next
  case (Cons f kvs)
  obtain k v where f: "f = (k, v)" by (cases f)
  let ?line = "k @ CHR ''='' # v @ CHR 0x0A # (render_fields kvs @ rest)"
  have ok: "CHR ''='' \<notin> set k" "CHR 0x0A \<notin> set k" "CHR 0x0A \<notin> set v" "k \<noteq> ''sum''" "k \<noteq> ''ref''"
    using Cons.prems f by (auto simp: plain_field_def plain_text_def)
  note parts = line_parts [OF ok(1-3), of "render_fields kvs @ rest"]
  have keys: "take 4 ?line \<noteq> ''sum=''" "take 4 ?line \<noteq> ''ref=''"
    using key_not [OF ok(1), of "''sum''"] key_not [OF ok(1), of "''ref''"] ok(4,5) by simp_all
  have "scan_fields ?line fs = scan_fields (render_fields kvs @ rest) (fs\<lparr>value_sum := value_sum fs + byte_sum v\<rparr>)"
    using parts keys by (subst scan_fields.simps) simp
  then show ?case
    using Cons f by (simp add: render_fields_def byte_sum_def add.assoc)
qed

lemma strtol_show_nat:
  assumes "n < 2 ^ 31"
  shows "strtol (show_nat n @ CHR 0x0A # rest) = int n"
  using assms decimal_show_nat [of "CHR 0x0A # rest" n] by (simp add: strtol_def clamp_long_def is_digit_def)


definition fields_text :: "(string \<times> string) list \<Rightarrow> nat \<Rightarrow> string option \<Rightarrow> string" where
  "fields_text kvs n r =
     render_fields kvs @ ''sum='' @ show_nat n @ [CHR 0x0A] @
     (case r of None \<Rightarrow> [] | Some name \<Rightarrow> ''ref='' @ name @ [CHR 0x0A])"

lemma scan_rendered:
  assumes "\<forall>f\<in>set kvs. plain_field f" and "n < 2 ^ 31"
    and "\<forall>name. r = Some name \<longrightarrow> plain_text name \<and> 0 < length name \<and> length name < max_name"
  shows "scan_fields (fields_text kvs n r) scan_start =
    Some \<lparr>value_sum = byte_sum (concat (map snd kvs)), ref_name = r, declared = int n\<rparr>"
proof -
  let ?nl = "CHR 0x0A"
  let ?ref = "case r of None \<Rightarrow> [] | Some name \<Rightarrow> ''ref='' @ name @ [?nl]"
  have digits: "?nl \<notin> set (show_nat n)"
    using show_nat_digits(1) [of n] by (auto simp: is_digit_def)
  note sum_parts = line_parts [of "''sum''" "show_nat n" ?ref, OF _ _ digits, simplified]
  have "scan_fields (''sum='' @ show_nat n @ ?nl # ?ref) fs = scan_fields ?ref (fs\<lparr>declared := int n\<rparr>)" for fs
    using sum_parts strtol_show_nat [OF assms(2)] by (subst scan_fields.simps) simp
  moreover have "scan_fields ?ref fs = Some (case r of None \<Rightarrow> fs | Some name \<Rightarrow> fs\<lparr>ref_name := Some name\<rparr>)" for fs
  proof (cases r)
    case None
    then show ?thesis by (simp add: scan_fields.simps)
  next
    case (Some name)
    then have "?nl \<notin> set name" using assms(3) by (auto simp: plain_text_def)
    note parts = line_parts [of "''ref''" name "[]", OF _ _ this, simplified]
    show ?thesis
      using Some parts assms(3)
      by (subst scan_fields.simps) (simp add: scan_fields.simps [of "[]"] not_le)
  qed
  ultimately show ?thesis
    using scan_plain_fields [OF assms(1), of "''sum='' @ show_nat n @ ?nl # ?ref" scan_start]
    by (cases r) (simp_all add: fields_text_def scan_start_def)
qed

lemma c_str_plain: "\<forall>c\<in>set t. c \<noteq> CHR 0x00 \<Longrightarrow> c_str t = t"
  by (simp add: c_str_def takeWhile_eq_all_conv)

lemma render_fields_all:
  assumes "\<forall>f\<in>set kvs. (\<forall>c\<in>set (fst f). P c) \<and> (\<forall>c\<in>set (snd f). P c)" and "P (CHR ''='')" and "P (CHR 0x0A)"
  shows "\<forall>c\<in>set (render_fields kvs). P c"
  using assms(1)
proof (induction kvs)
  case (Cons f kvs)
  then show ?case using assms(2,3) by (cases f) (simp add: render_fields_def ball_Un)
qed (simp add: render_fields_def)

lemma record_ref_rendered:
  assumes "\<forall>f\<in>set kvs. plain_field f" and "n < 2 ^ 31"
    and "\<forall>name. r = Some name \<longrightarrow> plain_text name \<and> 0 < length name \<and> length name < max_name"
    and "lfs_reads F (record_path name) 191 = Some (render_record kvs n r)"
  shows "record_ref F name = (if of_nat n = byte_sum (concat (map snd kvs)) then Inr r else Inl checksum_mismatch)"
proof -
  have text_eq: "render_record kvs n r = ''RCRD1'' @ CHR 0x0A # fields_text kvs n r"
    by (simp add: render_record_def fields_text_def)
  have digit: "is_digit c \<Longrightarrow> c \<noteq> CHR 0x00" for c by (auto simp: is_digit_def)
  have "\<forall>c\<in>set (show_nat n). c \<noteq> CHR 0x00"
    using show_nat_digits(1) [of n] digit by blast
  moreover have "\<forall>c\<in>set (render_fields kvs). c \<noteq> CHR 0x00"
    by (rule render_fields_all) (use assms(1) in \<open>simp_all add: plain_field_def plain_text_def\<close>)
  moreover have "\<forall>c\<in>set (case r of None \<Rightarrow> [] | Some name \<Rightarrow> ''ref='' @ name @ [CHR 0x0A]). c \<noteq> CHR 0x00"
    using assms(3) by (cases r) (auto simp: plain_text_def)
  ultimately have "\<forall>c\<in>set (fields_text kvs n r). c \<noteq> CHR 0x00"
    by (simp add: fields_text_def ball_Un)
  then have "c_str (drop 6 (render_record kvs n r)) = fields_text kvs n r" by (simp add: text_eq c_str_plain)
  moreover have "12 \<le> length (render_record kvs n r)"
    using show_nat_digits(2) [of n] by (cases "show_nat n") (simp_all add: render_record_def)
  ultimately show ?thesis
    using scan_rendered [OF assms(1-3)] assms(4)
    by (simp add: record_ref_def Let_def text_eq fields_result_def)
qed

lemma byte_sum_append: "byte_sum (a @ b) = byte_sum a + byte_sum b"
  by (simp add: byte_sum_def)


subsection \<open>Properties\<close>

text \<open>
  C7. The store check always lands.  It returns \<open>n\<close> exactly when the image mounts and the entry
  starts a chain of \<open>n\<close> distinct records, at most eight, each readable, well formed and with a
  matching checksum, every reference present.  Whatever it returns, the reference path is
  empty and every file it opened is closed again.
\<close>

theorem store_check_accepts_record_chains:
  assumes "env_ok E" and "lfs_bounded F" and "arm_ok s" and "\<not> in_flight s" and "ref_path (world s) = []"
  shows "\<exists>r w. check_image E F entry s = (Normal_Flow r, s\<lparr>world := w\<rparr>) \<and>
    ref_path w = [] \<and> open_files w = open_files (world s) \<and>
    (\<forall>n. r = Inr n \<longleftrightarrow>
       lfs_mounts F \<and> (\<exists>ns. record_chain F entry ns \<and> length ns = n \<and> distinct ns \<and> n \<le> 8))"
proof -
  let ?w = "(world s)\<lparr>fs_mounted := True, records_checked := 0, deepest_ref := 0\<rparr>" and ?v = "store_ref F [] entry 0"
  let ?p = "store_plain F entry (world s)"
  obtain f n m where v: "?v = (f, n, m)" by (cases ?v)
  have "check_image E F entry s = (Normal_Flow (fst ?p), s\<lparr>world := snd ?p\<rparr>)"
    using checker.lands [of E F s entry] assms by (simp add: check_image_def)
  moreover have "ref_path (snd ?p) = []" using checker.stays_clean [of E F "world s" entry] assms by simp
  moreover have "open_files (snd ?p) = open_files (world s)"
    using store_outcome_fields(2) [of ?v ?w] assms(5)
    by (auto simp: store_plain_def store_faulted_def split: prod.split sum.split)
  moreover have "fst ?p = Inr k \<longleftrightarrow> lfs_mounts F \<and> f = None \<and> n = k" for k
    using assms(5) v by (cases f) (auto simp: store_plain_def store_outcome_def store_faulted_def)
  moreover have "f = None \<and> n = k \<longleftrightarrow> (\<exists>ns. record_chain F entry ns \<and> length ns = k \<and> distinct ns \<and> k \<le> 8)" for k
    using store_ref_accepts [of "[]" F entry 0 k] v by (simp add: max_path_def)
  ultimately show ?thesis by metis
qed

theorem store_check_accepts_record_chains_witness:
  "\<exists>r w. check_image hosted_env (lfs_of staged_records) ''boot''
      (initial_arm \<lparr>fault_record = [], records_checked = 0, deepest_ref = 0, ref_path = [], open_files = 0, fs_mounted = False\<rparr>) =
    (Normal_Flow r, (initial_arm \<lparr>fault_record = [], records_checked = 0, deepest_ref = 0, ref_path = [], open_files = 0,
        fs_mounted = False\<rparr>)\<lparr>world := w\<rparr>) \<and> open_files w = 0"
  using store_check_accepts_record_chains [OF env_ok_hosted lfs_of_bounded initial_arm_ok(1,2),
      of "\<lparr>fault_record = [], records_checked = 0, deepest_ref = 0, ref_path = [], open_files = 0, fs_mounted = False\<rparr>"
        staged_records "''boot''"]
  by auto

text \<open>
  C33. What the code takes for a record: one that lists plain fields, a checksum and optionally a
  reference passes its checks exactly when the checksum is the sum of the value bytes of the
  plain fields, modulo 2 to the 32, and then the reference is the one written; otherwise it escapes
  with the checksum fault.  So a record that follows the comment and sums the bytes of its
  reference too is rejected, unless those bytes sum to zero.
\<close>

theorem rendered_record_reads_back:
  assumes "env_ok E" and "in_scope E s" and "lfs_bounded F"
    and "\<forall>f\<in>set kvs. plain_field f" and "n < 2 ^ 31"
    and "\<forall>name. r = Some name \<longrightarrow> plain_text name \<and> 0 < length name \<and> length name < 32"
    and "lfs_reads F (record_path name) 191 = Some (render_record kvs n r)"
  shows "record_checks E F name d s =
      (if of_nat n = byte_sum (concat (map snd kvs)) then
         (Normal_Flow r, s\<lparr>world := (world s)\<lparr>records_checked := records_checked (world s) + 1\<rparr>\<rparr>)
       else
         (Unwinding (active s), (ejected_to (error_bytes (mk_error checksum_mismatch (of_nat d))) s)
            \<lparr>world := (world s)\<lparr>fault_record := note_record name\<rparr>\<rparr>)) \<and>
    (\<forall>to. r = Some to \<and> byte_sum to \<noteq> 0 \<and> of_nat n = byte_sum (concat (map snd kvs) @ to) \<longrightarrow>
       fst (record_checks E F name d s) = Unwinding (active s))"
proof -
  have "record_checks E F name d s =
      (if of_nat n = byte_sum (concat (map snd kvs)) then
         (Normal_Flow r, s\<lparr>world := (world s)\<lparr>records_checked := records_checked (world s) + 1\<rparr>\<rparr>)
       else
         (Unwinding (active s), (ejected_to (error_bytes (mk_error checksum_mismatch (of_nat d))) s)
            \<lparr>world := (world s)\<lparr>fault_record := note_record name\<rparr>\<rparr>))"
    using record_checks_embed [OF assms(1-3), of name d] record_ref_rendered [of kvs n r F name] assms(4-7)
    by (simp add: embed_def max_name_def store_faulted_def)
  then show ?thesis by (auto simp: byte_sum_append)
qed

theorem rendered_record_reads_back_witness:
  "(\<exists>t. record_checks hosted_env (lfs_of [(''boot'', render_record [(''name'', ''ab'')] 195 (Some ''net''))]) ''boot'' 0
     (scope_enter 0 (replicate payload_capacity 0) (initial_arm
        \<lparr>fault_record = [], records_checked = 0, deepest_ref = 0, ref_path = [], open_files = 0, fs_mounted = True\<rparr>)) =
   (Normal_Flow (Some ''net''), t)) \<and>
   fst (record_checks hosted_env (lfs_of [(''boot'', render_record [(''name'', ''ab'')] 522 (Some ''net''))]) ''boot'' 0
     (scope_enter 0 (replicate payload_capacity 0) (initial_arm
        \<lparr>fault_record = [], records_checked = 0, deepest_ref = 0, ref_path = [], open_files = 0, fs_mounted = True\<rparr>))) =
   Unwinding 1"
proof -
  let ?w = "\<lparr>fault_record = [], records_checked = 0, deepest_ref = 0, ref_path = [], open_files = 0, fs_mounted = True\<rparr>"
  let ?s = "scope_enter 0 (replicate payload_capacity 0) (initial_arm ?w)"
  let ?F = "\<lambda>n. lfs_of [(''boot'', render_record [(''name'', ''ab'')] n (Some ''net''))]"
  have sc: "in_scope hosted_env ?s"
    using scope_enter_ok [of "initial_arm ?w" "replicate payload_capacity 0" 0]
    by (simp add: in_scope_def hosted_env_def)
  have act: "active ?s = 1" by (simp add: scope_enter_def initial_arm_def)
  have len: "length (render_record [(''name'', ''ab'')] 195 (Some ''net'')) = 30"
    "length (render_record [(''name'', ''ab'')] 522 (Some ''net'')) = 30" by code_simp+
  have sum: "byte_sum (concat (map snd [(''name'', ''ab'')])) = 195" by code_simp
  have kvs: "\<forall>f\<in>set [(''name'', ''ab'')]. plain_field f" by (simp add: plain_field_def plain_text_def)
  have reads: "lfs_reads (?F 195) (record_path ''boot'') 191 = Some (render_record [(''name'', ''ab'')] 195 (Some ''net''))"
    "lfs_reads (?F 522) (record_path ''boot'') 191 = Some (render_record [(''name'', ''ab'')] 522 (Some ''net''))"
    using len by (simp_all add: lfs_of_def)
  have "\<exists>t. record_checks hosted_env (?F 195) ''boot'' 0 ?s = (Normal_Flow (Some ''net''), t)"
    using rendered_record_reads_back [OF env_ok_hosted sc lfs_of_bounded kvs _ _ reads(1), of 0] sum
    by (simp add: plain_text_def)
  moreover have "fst (record_checks hosted_env (?F 522) ''boot'' 0 ?s) = Unwinding 1"
    using rendered_record_reads_back [OF env_ok_hosted sc lfs_of_bounded kvs _ _ reads(2), of 0] sum act
    by (simp add: plain_text_def)
  ultimately show ?thesis by blast
qed

lemma quiet_reports:
  "concat (map snd rs) = [] \<Longrightarrow> length (concat (map (\<lambda>(line, fails). line # fails) rs)) = length rs"
  by (induction rs) (auto split: prod.split)

text \<open>
  The firmware's self-check passes: over a filesystem that serves the staged records, the
  seven runs, on one mounted instance and across the escapes of five of them, meet every
  expectation, and \<open>main\<close> prints PASS and returns 0.
\<close>

theorem store_self_check_passes:
  assumes "env_ok E" and "arm_ok s" and "\<not> in_flight s" and "ref_path (world s) = []" and "lfs_serves F staged_records"
  shows "\<exists>out w. store_main E F s = (Normal_Flow (0, out), s\<lparr>world := w\<rparr>) \<and>
    ref_path w = [] \<and> length out = 8 \<and> last out = ''storecheck: PASS''"
proof -
  let ?w0 = "\<lparr>fault_record = [], records_checked = 0, deepest_ref = 0, ref_path = [], open_files = 0, fs_mounted = False\<rparr>"
  have F: "F = lfs_of staged_records" using lfs_serves_unique [OF assms(5)] .
  have bounded: "env_ok E \<and> lfs_bounded F \<and> lfs_mounts F" using assms(1) lfs_of_bounded by (simp add: F lfs_of_def)
  obtain w where w: "ref_path w = []"
    "serve (run_request E F) run_report self_check s =
       (Normal_Flow (map (\<lambda>x. run_report x (run_plain F x ?w0)) self_check), s\<lparr>world := w\<rparr>)"
    using self_checks.serves [of self_check E F s ?w0] bounded assms(2-4) by auto
  have "concat (map (\<lambda>x. snd (run_report x (run_plain (lfs_of staged_records) x ?w0))) self_check) = []"
    by code_simp
  then have ok: "concat (map snd (map (\<lambda>x. run_report x (run_plain F x ?w0)) self_check)) = []"
    by (simp add: F o_def)
  then have "length (concat (map (\<lambda>(line, fails). line # fails) (map (\<lambda>x. run_report x (run_plain F x ?w0)) self_check))) = 7"
    using quiet_reports [of "map (\<lambda>x. run_report x (run_plain F x ?w0)) self_check"] by (simp add: self_check_def)
  then show ?thesis
    using w ok by (simp add: store_main_def seq_def bind_flow_def Let_def ret_def del: map_map concat_eq_Nil_conv) blast
qed

theorem store_self_check_passes_witness:
  "\<exists>out t. store_main hosted_env (lfs_of staged_records)
     (initial_arm \<lparr>fault_record = [], records_checked = 0, deepest_ref = 0, ref_path = [], open_files = 0, fs_mounted = False\<rparr>) =
   (Normal_Flow (0, out), t)"
  using store_self_check_passes [OF env_ok_hosted initial_arm_ok(1,2) _ lfs_of_serves,
      of "\<lparr>fault_record = [], records_checked = 0, deepest_ref = 0, ref_path = [], open_files = 0, fs_mounted = False\<rparr>"]
  by auto

end
