(* ===== verification/Reflect_Layer.thy ===== *)
theory Reflect_Layer
  imports Erased_Error
begin

text \<open>
  The reflection forward layer (\<open>reflect.hpp\<close>): enumerator names, values, counts, the failure
  set and the derived error domain, on the C++20 fallback that slices compiler signatures
  and on the C++26 reflection path.

  An enum is its type name, the enumerators in declaration order with their values, and the
  width and signedness of its underlying type.  What the compiler prints for a constant or
  a type (\<open>__PRETTY_FUNCTION__\<close>, \<open>__FUNCSIG__\<close>) is a parameter, and \<open>compiler_prints\<close> is what
  the fallback relies on of it.  The reflection queries (\<open>enumerators_of\<close>, \<open>identifier_of\<close>)
  read the declaration.
\<close>

record enum_decl =
  enum_type_name :: string
  enumerators :: "(string \<times> int) list"
  enum_bits :: nat
  enum_signed :: bool
  scan_min :: int
  scan_max :: int

record failure_info =
  fi_value :: int
  fi_name :: string

definition default_min :: int where "default_min = - 128"
definition default_max :: int where "default_max = 127"

text \<open>\<open>static_cast<E>\<close> of an integer, and \<open>static_cast<int>\<close> of an enum value.\<close>

definition to_enum :: "enum_decl \<Rightarrow> int \<Rightarrow> int" where
  "to_enum D i = (if enum_signed D then signed_take_bit (enum_bits D - 1) i else take_bit (enum_bits D) i)"

definition enum_to_int :: "int \<Rightarrow> int" where
  "enum_to_int v = signed_take_bit 31 v"


subsection \<open>Slicing the signature\<close>

text \<open>
  The slice between the markers.  A search that finds nothing yields \<open>npos\<close>, the greatest
  \<open>size_t\<close>, and the arithmetic on it wraps: \<open>npos + 4\<close> is 3, and on MSVC the slice then
  starts at the first character or runs to the end.  Removing a prefix longer than the view
  is undefined and no constant expression (\<open>None\<close>).
\<close>

definition slice_signature :: "bool \<Rightarrow> string \<Rightarrow> string \<Rightarrow> string option" where
  "slice_signature msvc key p =
     (if msvc then
        (let e = rfind_sub ''>('' p;
             lt = rfind_sub ''<'' (case e of Some i \<Rightarrow> take (i + 1) p | None \<Rightarrow> p);
             start = (case lt of Some j \<Rightarrow> j + 1 | None \<Rightarrow> 0);
             q = (case e of Some i \<Rightarrow> take (i - start) (drop start p) | None \<Rightarrow> drop start p) in
         Some (if take 5 q = ''enum '' then drop 5 q else q))
      else
        (let n = (case find_sub key p of Some m \<Rightarrow> m + 4 | None \<Rightarrow> 3) in
         if n > length p then None
         else Some (takeWhile (\<lambda>c. c \<noteq> CHR '';'' \<and> c \<noteq> CHR '']'') (drop n p))))"

definition strip_scope :: "string \<Rightarrow> string" where
  "strip_scope p = (case rfind_sub ''::'' p of Some i \<Rightarrow> drop (i + 2) p | None \<Rightarrow> p)"

definition enumerator_spelling :: "bool \<Rightarrow> string \<Rightarrow> string option" where
  "enumerator_spelling msvc sig = map_option strip_scope (slice_signature msvc ''V = '' sig)"

definition type_spelling :: "bool \<Rightarrow> string \<Rightarrow> string option" where
  "type_spelling msvc sig = map_option strip_scope (slice_signature msvc ''T = '' sig)"

definition letter :: "char \<Rightarrow> bool" where
  "letter c \<longleftrightarrow> c = CHR ''_'' \<or> (97 \<le> (of_char c :: nat) \<and> (of_char c :: nat) \<le> 122) \<or>
     (65 \<le> (of_char c :: nat) \<and> (of_char c :: nat) \<le> 90)"

definition identifier_char :: "char \<Rightarrow> bool" where
  "identifier_char c \<longleftrightarrow> letter c \<or> (48 \<le> (of_char c :: nat) \<and> (of_char c :: nat) \<le> 57)"

definition is_identifier :: "string \<Rightarrow> bool" where
  "is_identifier n \<longleftrightarrow> n \<noteq> [] \<and> letter (hd n) \<and> list_all identifier_char n"

definition is_enumerator :: "bool \<Rightarrow> (int \<Rightarrow> string) \<Rightarrow> int \<Rightarrow> bool" where
  "is_enumerator msvc sig v =
     (case enumerator_spelling msvc (sig v) of None \<Rightarrow> False | Some n \<Rightarrow> is_identifier n)"


subsection \<open>The fallback's scans\<close>

definition range_lo :: "enum_decl \<Rightarrow> int" where "range_lo D = scan_min D"
definition range_span :: "enum_decl \<Rightarrow> int" where "range_span D = scan_max D - scan_min D + 1"

definition scanned :: "enum_decl \<Rightarrow> int list" where
  "scanned D = map (\<lambda>i. range_lo D + int i) [0..<nat (range_span D)]"

definition spelling_of :: "bool \<Rightarrow> (int \<Rightarrow> string) \<Rightarrow> enum_decl \<Rightarrow> int \<Rightarrow> string option" where
  "spelling_of msvc sig D i =
     (if is_enumerator msvc sig (to_enum D i) then enumerator_spelling msvc (sig (to_enum D i)) else None)"

definition count_enumerators :: "bool \<Rightarrow> (int \<Rightarrow> string) \<Rightarrow> enum_decl \<Rightarrow> nat" where
  "count_enumerators msvc sig D = length (filter (\<lambda>i. is_enumerator msvc sig (to_enum D i)) (scanned D))"

definition scan_name :: "bool \<Rightarrow> (int \<Rightarrow> string) \<Rightarrow> enum_decl \<Rightarrow> int \<Rightarrow> string" where
  "scan_name msvc sig D v =
     (case find (\<lambda>i. enum_to_int v = i \<and> is_enumerator msvc sig (to_enum D i)) (scanned D) of
        None \<Rightarrow> []
      | Some i \<Rightarrow> the (enumerator_spelling msvc (sig (to_enum D i))))"

definition scan_value :: "bool \<Rightarrow> (int \<Rightarrow> string) \<Rightarrow> enum_decl \<Rightarrow> string \<Rightarrow> int option" where
  "scan_value msvc sig D name =
     map_option (to_enum D) (find (\<lambda>i. spelling_of msvc sig D i = Some name) (scanned D))"

definition build_failures :: "bool \<Rightarrow> (int \<Rightarrow> string) \<Rightarrow> enum_decl \<Rightarrow> failure_info list" where
  "build_failures msvc sig D =
     map (\<lambda>i. \<lparr>fi_value = i, fi_name = the (enumerator_spelling msvc (sig (to_enum D i)))\<rparr>)
       (filter (\<lambda>i. is_enumerator msvc sig (to_enum D i)) (scanned D))"

definition name_table :: "bool \<Rightarrow> (int \<Rightarrow> string) \<Rightarrow> enum_decl \<Rightarrow> string option list" where
  "name_table msvc sig D = map (spelling_of msvc sig D) (scanned D)"

definition table_message :: "bool \<Rightarrow> (int \<Rightarrow> string) \<Rightarrow> enum_decl \<Rightarrow> int \<Rightarrow> string" where
  "table_message msvc sig D v =
     (let lo = range_lo D in
      if v \<ge> lo \<and> v < lo + range_span D then
        (case name_table msvc sig D ! nat (v - lo) of Some s \<Rightarrow> s | None \<Rightarrow> ''unknown error'')
      else ''unknown error'')"


subsection \<open>The reflection path\<close>

definition meta_name :: "enum_decl \<Rightarrow> int \<Rightarrow> string" where
  "meta_name D v = (case find (\<lambda>e. v = snd e) (enumerators D) of Some e \<Rightarrow> fst e | None \<Rightarrow> [])"

definition meta_cast :: "enum_decl \<Rightarrow> string \<Rightarrow> int option" where
  "meta_cast D name = map_option snd (find (\<lambda>e. name = fst e) (enumerators D))"

definition meta_count :: "enum_decl \<Rightarrow> nat" where
  "meta_count D = length (enumerators D)"

text \<open>The insertion that keeps the array ordered: shift while the one before is greater.\<close>

fun insert_failure :: "failure_info \<Rightarrow> failure_info list \<Rightarrow> failure_info list" where
  "insert_failure fi [] = [fi]"
| "insert_failure fi (x # rev_out) =
     (if fi_value x > fi_value fi then x # insert_failure fi rev_out else fi # x # rev_out)"

definition meta_failures :: "enum_decl \<Rightarrow> failure_info list" where
  "meta_failures D =
     rev (fold insert_failure (map (\<lambda>(n, v). \<lparr>fi_value = enum_to_int v, fi_name = n\<rparr>) (enumerators D)) [])"

definition meta_message :: "enum_decl \<Rightarrow> int \<Rightarrow> string" where
  "meta_message D v =
     fold (\<lambda>(n, x) out. if v = enum_to_int x then n else out) (enumerators D) ''unknown error''"


subsection \<open>The surface and the derived domain\<close>

text \<open>\<open>JMPXX_REFLECTION\<close> selects the path.\<close>

definition enum_name :: "bool \<Rightarrow> bool \<Rightarrow> (int \<Rightarrow> string) \<Rightarrow> enum_decl \<Rightarrow> int \<Rightarrow> string" where
  "enum_name reflection msvc sig D v = (if reflection then meta_name D v else scan_name msvc sig D v)"

definition enum_cast :: "bool \<Rightarrow> bool \<Rightarrow> (int \<Rightarrow> string) \<Rightarrow> enum_decl \<Rightarrow> string \<Rightarrow> int option" where
  "enum_cast reflection msvc sig D name = (if reflection then meta_cast D name else scan_value msvc sig D name)"

definition type_name :: "bool \<Rightarrow> bool \<Rightarrow> string \<Rightarrow> enum_decl \<Rightarrow> string" where
  "type_name reflection msvc type_sig D =
     (if reflection then enum_type_name D else the (type_spelling msvc type_sig))"

definition enum_count :: "bool \<Rightarrow> bool \<Rightarrow> (int \<Rightarrow> string) \<Rightarrow> enum_decl \<Rightarrow> nat" where
  "enum_count reflection msvc sig D = (if reflection then meta_count D else count_enumerators msvc sig D)"

definition failures :: "bool \<Rightarrow> bool \<Rightarrow> (int \<Rightarrow> string) \<Rightarrow> enum_decl \<Rightarrow> failure_info list" where
  "failures reflection msvc sig D = (if reflection then meta_failures D else build_failures msvc sig D)"

definition reflected_domain :: "bool \<Rightarrow> bool \<Rightarrow> (int \<Rightarrow> string) \<Rightarrow> string \<Rightarrow> enum_decl \<Rightarrow> error_domain" where
  "reflected_domain reflection msvc sig type_sig D =
     \<lparr>dom_name = type_name reflection msvc type_sig D,
      dom_message = (\<lambda>v. if reflection then meta_message D (sint v) else table_message msvc sig D (sint v))\<rparr>"

definition as_erased :: "addr \<Rightarrow> int \<Rightarrow> erased_error" where
  "as_erased domain_instance v = erased_of_value (of_int v) domain_instance"


lemmas reflect_surface = enum_name_def enum_cast_def type_name_def enum_count_def failures_def


subsection \<open>What the compiler prints\<close>

text \<open>
  The documented shape of the signatures: on GCC and Clang the text follows the first
  \<open>V = \<close> (or \<open>T = \<close>) and ends at the first \<open>;\<close> or \<open>]\<close>; on MSVC it stands between the last
  \<open><\<close> and the last \<open>>(\<close>.
\<close>

definition compiler_prints :: "bool \<Rightarrow> string \<Rightarrow> string \<Rightarrow> string \<Rightarrow> bool" where
  "compiler_prints msvc key shown sig \<longleftrightarrow>
     (if msvc then
        (\<exists>pre post. sig = pre @ ''<'' @ shown @ ''>('' @ post \<and>
           rfind_sub ''>('' sig = Some (length pre + 1 + length shown) \<and>
           rfind_sub ''<'' (take (length pre + 2 + length shown) sig) = Some (length pre))
      else
        (\<exists>pre c post. sig = pre @ key @ shown @ c # post \<and> find_sub key sig = Some (length pre) \<and>
           (c = CHR '';'' \<or> c = CHR '']'') \<and> CHR '';'' \<notin> set shown \<and> CHR '']'' \<notin> set shown))"

lemma slice_printed:
  assumes "compiler_prints msvc key shown sig" and "length key = 4"
  shows "slice_signature msvc key sig =
    Some (if msvc \<and> take 5 shown = ''enum '' then drop 5 shown else shown)"
proof (cases msvc)
  case True
  then obtain pre post where s: "sig = pre @ ''<'' @ shown @ ''>('' @ post"
    "rfind_sub ''>('' sig = Some (length pre + 1 + length shown)"
    "rfind_sub ''<'' (take (length pre + 2 + length shown) sig) = Some (length pre)"
    using assms(1) by (auto simp: compiler_prints_def)
  then show ?thesis using True by (simp add: slice_signature_def Let_def min_def)
next
  case False
  then obtain pre c post where s: "sig = pre @ key @ shown @ c # post" "find_sub key sig = Some (length pre)"
    "c = CHR '';'' \<or> c = CHR '']''" "CHR '';'' \<notin> set shown" "CHR '']'' \<notin> set shown"
    using assms(1) by (auto simp: compiler_prints_def)
  have d: "drop (length pre + 4) sig = shown @ c # post" using s(1) assms(2) by simp
  have "takeWhile (\<lambda>c. c \<noteq> CHR '';'' \<and> c \<noteq> CHR '']'') (shown @ c # post) = shown"
    using s(3-5) by (subst takeWhile_append2) auto
  moreover have "length pre + 4 \<le> length sig" using s(1) assms(2) by simp
  ultimately show ?thesis using False s(2) d by (simp add: slice_signature_def Let_def)
qed

lemma rfind_none_absent: "pat \<noteq> [] \<Longrightarrow> hd pat \<notin> set xs \<Longrightarrow> rfind_sub pat xs = None"
  by (induction xs) (cases pat; auto)+

lemma rfind_append: "rfind_sub pat ys = Some i \<Longrightarrow> rfind_sub pat (xs @ ys) = Some (length xs + i)"
  by (induction xs) simp_all

lemma strip_scope_qualified:
  assumes "CHR '':'' \<notin> set n"
  shows "strip_scope n = n" and "strip_scope (q @ ''::'' @ n) = n"
proof -
  show "strip_scope n = n" using assms by (simp add: strip_scope_def rfind_none_absent)
  have "rfind_sub ''::'' (CHR '':'' # n) = None"
    using assms by (cases n) (auto simp: rfind_none_absent)
  then have "rfind_sub ''::'' (''::'' @ n) = Some 0" by simp
  from rfind_append [OF this, of q] show "strip_scope (q @ ''::'' @ n) = n"
    by (simp add: strip_scope_def)
qed

text \<open>
  A value that names no enumerator prints as a cast, in one of three forms, or as a bare
  number; an enumerator prints with its scope, and two of one value as the first of them.
\<close>

definition number_char :: "char \<Rightarrow> bool" where
  "number_char c \<longleftrightarrow> c = CHR ''-'' \<or> identifier_char c"

definition number_text :: "string \<Rightarrow> bool" where
  "number_text n \<longleftrightarrow> n \<noteq> [] \<and> \<not> letter (hd n) \<and> list_all number_char n"

definition cast_text :: "string \<Rightarrow> bool" where
  "cast_text shown \<longleftrightarrow> number_text shown \<or>
     (\<exists>t n. number_text n \<and> (shown = ''('' @ t @ '')'' @ n \<or> shown = t @ ''('' @ n @ '')''))"

definition scope_text :: "string \<Rightarrow> bool" where
  "scope_text q \<longleftrightarrow> q = [] \<or> (\<exists>q'. q = q' @ ''::'')"

definition prints_enum :: "bool \<Rightarrow> string \<Rightarrow> enum_decl \<Rightarrow> (int \<Rightarrow> string) \<Rightarrow> bool" where
  "prints_enum msvc q D sig \<longleftrightarrow> scope_text q \<and>
     (\<forall>v. \<exists>shown. compiler_prints msvc ''V = '' shown (sig v) \<and>
        (case find (\<lambda>e. v = snd e) (enumerators D) of
           Some e \<Rightarrow> shown = q @ fst e
         | None \<Rightarrow> cast_text shown))"

lemma letter_not_special: "letter c \<Longrightarrow> c \<noteq> CHR '':'' \<and> c \<noteq> CHR '')'' \<and> c \<noteq> CHR '' ''"
  by (auto simp: letter_def)

lemma identifier_char_not_special:
  "identifier_char c \<Longrightarrow> c \<noteq> CHR '':'' \<and> c \<noteq> CHR '')'' \<and> c \<noteq> CHR '' ''"
  using letter_not_special [of c] by (auto simp: identifier_char_def)

lemma identifier_chars:
  assumes "is_identifier n"
  shows "CHR '':'' \<notin> set n" and "CHR '')'' \<notin> set n" and "CHR '' '' \<notin> set n"
  using assms identifier_char_not_special by (auto simp: is_identifier_def list_all_iff)

lemma number_chars:
  assumes "number_text n"
  shows "CHR '':'' \<notin> set n" and "\<not> is_identifier n" and "CHR '' '' \<notin> set n"
  using assms identifier_char_not_special
  by (auto simp: number_text_def is_identifier_def list_all_iff number_char_def)

lemma rfind_append_none:
  "CHR '':'' \<notin> set b \<Longrightarrow> c \<noteq> CHR '':'' \<Longrightarrow> rfind_sub ''::'' (a @ c # b) = Some i \<Longrightarrow> i + 2 \<le> length a"
proof (induction a arbitrary: i)
  case Nil
  have n: "rfind_sub ''::'' b = None" by (rule rfind_none_absent) (use Nil in auto)
  show ?case using Nil n by (simp split: if_splits)
next
  case (Cons x a)
  show ?case
  proof (cases "rfind_sub ''::'' (a @ c # b)")
    case None
    then have "take 2 ((x # a) @ c # b) = ''::''" "i = 0"
      using Cons.prems(3) by (auto split: if_splits simp: numeral_2_eq_2)
    then show ?thesis using Cons.prems(2) by (cases a) (auto simp: numeral_2_eq_2)
  next
    case (Some j)
    then show ?thesis using Cons by auto
  qed
qed

lemma strip_scope_keeps:
  assumes "CHR '':'' \<notin> set b" and "c \<noteq> CHR '':''"
  shows "\<exists>a'. strip_scope (a @ c # b) = a' @ c # b"
proof (cases "rfind_sub ''::'' (a @ c # b)")
  case None
  then show ?thesis by (simp add: strip_scope_def)
next
  case (Some i)
  with rfind_append_none [OF assms Some] show ?thesis by (auto simp: strip_scope_def)
qed

definition without_enum :: "bool \<Rightarrow> string \<Rightarrow> string" where
  "without_enum msvc shown = (if msvc \<and> take 5 shown = ''enum '' then drop 5 shown else shown)"

lemma enumerator_spelling_printed:
  "compiler_prints msvc ''V = '' shown sig \<Longrightarrow>
     enumerator_spelling msvc sig = Some (strip_scope (without_enum msvc shown))"
  by (simp add: enumerator_spelling_def without_enum_def slice_printed)

lemma type_spelling_printed:
  "compiler_prints msvc ''T = '' shown sig \<Longrightarrow>
     type_spelling msvc sig = Some (strip_scope (without_enum msvc shown))"
  by (simp add: type_spelling_def without_enum_def slice_printed)

lemma enum_prefix_split:
  assumes "take 5 (a @ c # b) = ''enum ''" and "c \<notin> set ''enum ''"
  shows "\<exists>a'. a = ''enum '' @ a'"
proof (cases "length a < 5")
  case True
  then obtain k where "5 - length a = Suc k" by (metis Suc_diff_Suc diff_zero zero_less_diff)
  then have "c \<in> set (take 5 (a @ c # b))" by simp
  then have "c \<in> set ''enum ''" by (simp only: assms(1))
  then show ?thesis using assms(2) by blast
next
  case False
  then have "take 5 a = ''enum ''" using assms(1) by simp
  then show ?thesis by (metis append_take_drop_id)
qed

lemma without_enum_keeps:
  "c \<notin> set ''enum '' \<Longrightarrow> \<exists>a'. without_enum msvc (a @ c # b) = a' @ c # b"
  using enum_prefix_split [of a c b] by (auto simp: without_enum_def)

lemma qualified_name_stripped:
  assumes "scope_text q" and "is_identifier n"
  shows "strip_scope (without_enum msvc (q @ n)) = n"
proof -
  note n = identifier_chars [OF assms(2)]
  from assms(1) consider "q = []" | q' where "q = q' @ ''::''" by (auto simp: scope_text_def)
  then show ?thesis
  proof cases
    case 1
    have "take 5 n \<noteq> ''enum ''"
    proof
      assume "take 5 n = ''enum ''"
      then have "CHR '' '' \<in> set (take 5 n)" by simp
      then show False using n(3) in_set_takeD by fastforce
    qed
    then show ?thesis using 1 n(1) by (simp add: without_enum_def strip_scope_qualified)
  next
    case 2
    have "\<exists>a'. without_enum msvc (q' @ CHR '':'' # CHR '':'' # n) = a' @ CHR '':'' # CHR '':'' # n"
      by (rule without_enum_keeps) simp
    then show ?thesis using 2 strip_scope_qualified(2) [OF n(1)] by auto
  qed
qed

lemma cast_not_identifier:
  assumes "cast_text shown"
  shows "\<not> is_identifier (strip_scope (without_enum msvc shown))"
proof -
  have closes: "\<not> is_identifier (strip_scope (without_enum msvc (a @ CHR '')'' # b)))"
    if no_colon: "CHR '':'' \<notin> set b" for a b
  proof -
    obtain a' where "without_enum msvc (a @ CHR '')'' # b) = a' @ CHR '')'' # b"
      using without_enum_keeps [of "CHR '')''" msvc a b] by auto
    moreover obtain a'' where "strip_scope (a' @ CHR '')'' # b) = a'' @ CHR '')'' # b"
      using strip_scope_keeps [OF no_colon, of "CHR '')''" a'] by auto
    ultimately show ?thesis using identifier_chars(2) by fastforce
  qed
  from assms consider "number_text shown"
    | t n where "number_text n" "shown = (CHR ''('' # t) @ CHR '')'' # n"
    | t n where "number_text n" "shown = (t @ CHR ''('' # n) @ CHR '')'' # []"
    by (auto simp: cast_text_def)
  then show ?thesis
  proof cases
    case 1
    have "take 5 shown \<noteq> ''enum ''"
    proof
      assume "take 5 shown = ''enum ''"
      then have "CHR '' '' \<in> set (take 5 shown)" by simp
      then show False using number_chars(3) [OF 1] in_set_takeD by fastforce
    qed
    then show ?thesis using number_chars [OF 1] by (simp add: without_enum_def strip_scope_qualified)
  next
    case 2
    then show ?thesis using closes [of n "CHR ''('' # t"] number_chars(1) by simp
  next
    case 3
    then show ?thesis using closes [of "[]" "t @ CHR ''('' # n"] by simp
  qed
qed


subsection \<open>The declaration, seen by both paths\<close>

definition named :: "enum_decl \<Rightarrow> int \<Rightarrow> string option" where
  "named D v = map_option fst (find (\<lambda>e. v = snd e) (enumerators D))"

definition enumerator_scanned :: "enum_decl \<Rightarrow> string \<times> int \<Rightarrow> bool" where
  "enumerator_scanned D e \<longleftrightarrow> is_identifier (fst e) \<and> to_enum D (snd e) = snd e \<and>
     scan_min D \<le> snd e \<and> snd e \<le> scan_max D"

definition well_scanned :: "enum_decl \<Rightarrow> bool" where
  "well_scanned D \<longleftrightarrow> list_all (enumerator_scanned D) (enumerators D) \<and>
     distinct (map fst (enumerators D)) \<and> distinct (map snd (enumerators D)) \<and>
     0 < enum_bits D \<and> enum_bits D \<le> 32 \<and> range_span D \<le> 2 ^ enum_bits D \<and>
     - (2 ^ 31) \<le> scan_min D \<and> scan_max D < 2 ^ 31"

lemma named_Some_iff:
  "distinct (map snd (enumerators D)) \<Longrightarrow> named D v = Some n \<longleftrightarrow> (n, v) \<in> set (enumerators D)"
proof -
  assume d: "distinct (map snd (enumerators D))"
  have "map_option fst (find (\<lambda>e. v = snd e) es) = Some n \<longleftrightarrow> (n, v) \<in> set es"
    if "distinct (map snd es)" for es :: "(string \<times> int) list"
    using that by (induction es) (force simp: rev_image_eqI)+
  from this [OF d] show ?thesis by (simp add: named_def)
qed

lemma scanned_range: "i \<in> set (scanned D) \<longleftrightarrow> scan_min D \<le> i \<and> i \<le> scan_max D"
proof
  assume "scan_min D \<le> i \<and> i \<le> scan_max D"
  then show "i \<in> set (scanned D)"
    by (auto simp: scanned_def range_lo_def range_span_def image_iff intro!: bexI [of _ "nat (i - scan_min D)"])
qed (auto simp: scanned_def range_lo_def range_span_def)

lemma enumerator_facts:
  assumes "well_scanned D" and "(n, v) \<in> set (enumerators D)"
  shows "is_identifier n" and "to_enum D v = v" and "v \<in> set (scanned D)" and "enum_to_int v = v"
proof -
  have e: "enumerator_scanned D (n, v)" using assms by (auto simp: well_scanned_def list_all_iff)
  then show "is_identifier n" "to_enum D v = v" by (simp_all add: enumerator_scanned_def)
  have r: "scan_min D \<le> v" "v \<le> scan_max D" using e by (simp_all add: enumerator_scanned_def)
  then show "v \<in> set (scanned D)" by (simp add: scanned_range)
  show "enum_to_int v = v"
    using r assms(1) by (simp add: enum_to_int_def well_scanned_def signed_take_bit_int_eq_self)
qed

lemma sorted_scanned: "sorted (scanned D)"
  unfolding scanned_def by (rule sorted_wrt_map_mono [of "(<)"]) (auto simp: sorted_wrt_iff_nth_less)

lemma distinct_scanned: "distinct (scanned D)"
  by (simp add: scanned_def distinct_map inj_on_def)

lemma to_enum_bits: "0 < enum_bits D \<Longrightarrow> take_bit (enum_bits D) (to_enum D i) = take_bit (enum_bits D) i"
  by (simp add: to_enum_def take_bit_signed_take_bit)

lemma to_enum_inject:
  assumes "well_scanned D" "i \<in> set (scanned D)" "j \<in> set (scanned D)" "to_enum D i = to_enum D j"
  shows "i = j"
proof (rule ccontr)
  assume "i \<noteq> j"
  have "take_bit (enum_bits D) i = take_bit (enum_bits D) j"
    using assms(1,4) to_enum_bits by (metis well_scanned_def)
  then have "2 ^ enum_bits D dvd i - j" by (simp only: take_bit_eq_mod mod_eq_dvd_iff)
  then have "\<bar>2 ^ enum_bits D\<bar> \<le> \<bar>i - j\<bar>" using \<open>i \<noteq> j\<close> dvd_imp_le_int [of "i - j"] by force
  then have "2 ^ enum_bits D \<le> \<bar>i - j\<bar>" by simp
  moreover have "\<bar>i - j\<bar> < range_span D" using assms(2,3) by (auto simp: scanned_range range_span_def)
  ultimately show False using assms(1) by (simp add: well_scanned_def)
qed

lemma named_to_enum:
  assumes "well_scanned D" "i \<in> set (scanned D)"
  shows "named D (to_enum D i) = named D i"
proof -
  have "find (\<lambda>e. to_enum D i = snd e) (enumerators D) = find (\<lambda>e. i = snd e) (enumerators D)"
  proof (rule find_cong)
    fix e assume e: "e \<in> set (enumerators D)"
    have "to_enum D (snd e) = snd e" "snd e \<in> set (scanned D)"
      using enumerator_facts [OF assms(1), of "fst e" "snd e"] e by simp_all
    then show "(to_enum D i = snd e) = (i = snd e)" using to_enum_inject [OF assms(1,2)] by metis
  qed simp
  then show ?thesis by (simp add: named_def)
qed

lemma printed_spelling:
  assumes "prints_enum msvc q D sig" and "list_all (\<lambda>e. is_identifier (fst e)) (enumerators D)"
  shows "is_enumerator msvc sig v \<longleftrightarrow> named D v \<noteq> None"
    and "named D v = Some n \<Longrightarrow> enumerator_spelling msvc (sig v) = Some n"
proof -
  obtain shown where s: "compiler_prints msvc ''V = '' shown (sig v)"
    and f: "case find (\<lambda>e. v = snd e) (enumerators D) of Some e \<Rightarrow> shown = q @ fst e | None \<Rightarrow> cast_text shown"
    using assms(1) by (auto simp: prints_enum_def)
  note sp = enumerator_spelling_printed [OF s]
  have q: "scope_text q" using assms(1) by (simp add: prints_enum_def)
  have "(is_enumerator msvc sig v \<longleftrightarrow> named D v \<noteq> None) \<and>
      (named D v = Some n \<longrightarrow> enumerator_spelling msvc (sig v) = Some n)"
  proof (cases "find (\<lambda>e. v = snd e) (enumerators D)")
    case None
    then show ?thesis using f sp cast_not_identifier [of shown msvc] by (simp add: is_enumerator_def named_def)
  next
    case (Some e)
    then have "is_identifier (fst e)" using assms(2) by (auto simp: list_all_iff find_Some_iff)
    then show ?thesis using Some f sp qualified_name_stripped [OF q, of "fst e" msvc]
      by (simp add: is_enumerator_def named_def)
  qed
  then show "is_enumerator msvc sig v \<longleftrightarrow> named D v \<noteq> None"
    and "named D v = Some n \<Longrightarrow> enumerator_spelling msvc (sig v) = Some n" by simp_all
qed

text \<open>What the fallback's scans see of the values in the range.\<close>

lemma scan_sees:
  assumes "well_scanned D" and "prints_enum msvc q D sig" and "i \<in> set (scanned D)"
  shows "is_enumerator msvc sig (to_enum D i) \<longleftrightarrow> named D i \<noteq> None"
    and "named D i = Some n \<Longrightarrow> enumerator_spelling msvc (sig (to_enum D i)) = Some n"
    and "spelling_of msvc sig D i = named D i"
proof -
  have ids: "list_all (\<lambda>e. is_identifier (fst e)) (enumerators D)"
    using assms(1) by (auto simp: well_scanned_def enumerator_scanned_def list_all_iff)
  note p = printed_spelling [OF assms(2) ids, of "to_enum D i"]
  note t = named_to_enum [OF assms(1,3)]
  show "is_enumerator msvc sig (to_enum D i) \<longleftrightarrow> named D i \<noteq> None"
    and "named D i = Some n \<Longrightarrow> enumerator_spelling msvc (sig (to_enum D i)) = Some n"
    using p t by simp_all
  show "spelling_of msvc sig D i = named D i"
    using p t by (cases "named D i") (auto simp: spelling_of_def)
qed


subsection \<open>The two paths agree\<close>

lemma find_eq_conj: "find (\<lambda>i. x = i \<and> P i) xs = (if x \<in> set xs \<and> P x then Some x else None)"
  by (induction xs) auto

lemma to_enum_of_int: "0 < enum_bits D \<Longrightarrow> enum_bits D \<le> 32 \<Longrightarrow> to_enum D (enum_to_int v) = to_enum D v"
  by (simp add: to_enum_def enum_to_int_def take_bit_signed_take_bit signed_take_bit_signed_take_bit min_absorb1)

lemma meta_name_named: "meta_name D v = (case named D v of Some n \<Rightarrow> n | None \<Rightarrow> [])"
  by (simp add: meta_name_def named_def split: option.splits)

lemma scan_name_agrees:
  assumes "well_scanned D" and "prints_enum msvc q D sig" and "to_enum D v = v"
  shows "scan_name msvc sig D v = meta_name D v"
proof -
  let ?i = "enum_to_int v"
  note dist = assms(1) [unfolded well_scanned_def]
  have hit: "?i \<in> set (scanned D) \<and> is_enumerator msvc sig (to_enum D ?i) \<longleftrightarrow> named D v \<noteq> None"
  proof
    assume a: "?i \<in> set (scanned D) \<and> is_enumerator msvc sig (to_enum D ?i)"
    then have "named D (to_enum D ?i) \<noteq> None"
      using scan_sees(1) [OF assms(1,2), of ?i] named_to_enum [OF assms(1), of ?i] by simp
    then show "named D v \<noteq> None" using to_enum_of_int [of D v] dist assms(3) by simp
  next
    assume "named D v \<noteq> None"
    then obtain n where n: "named D v = Some n" by auto
    then have "(n, v) \<in> set (enumerators D)" using named_Some_iff dist by blast
    from enumerator_facts [OF assms(1) this] n
    show "?i \<in> set (scanned D) \<and> is_enumerator msvc sig (to_enum D ?i)"
      using scan_sees(1) [OF assms(1,2), of v] by simp
  qed
  show ?thesis
  proof (cases "named D v")
    case None
    then have "\<not> (?i \<in> set (scanned D) \<and> is_enumerator msvc sig (to_enum D ?i))" using hit by simp
    then show ?thesis using None
      by (simp add: scan_name_def find_eq_conj meta_name_named del: de_Morgan_conj)
  next
    case (Some n)
    then have e: "(n, v) \<in> set (enumerators D)" using named_Some_iff dist by blast
    note f = enumerator_facts [OF assms(1) e]
    have "enumerator_spelling msvc (sig (to_enum D v)) = Some n"
      using scan_sees(2) [OF assms(1,2) f(3) Some] .
    then show ?thesis using Some hit f by (simp add: scan_name_def find_eq_conj meta_name_named)
  qed
qed

lemma find_unique:
  assumes "\<And>x y. x \<in> set xs \<Longrightarrow> y \<in> set xs \<Longrightarrow> P x \<Longrightarrow> P y \<Longrightarrow> x = y"
  shows "find P xs = Some x \<longleftrightarrow> x \<in> set xs \<and> P x"
proof
  assume "x \<in> set xs \<and> P x"
  then show "find P xs = Some x"
    using assms by (cases "find P xs") (auto simp: find_None_iff find_Some_iff)
qed (auto simp: find_Some_iff)

lemma meta_cast_iff:
  "distinct (map fst (enumerators D)) \<Longrightarrow> meta_cast D name = Some v \<longleftrightarrow> (name, v) \<in> set (enumerators D)"
proof -
  assume d: "distinct (map fst (enumerators D))"
  have "find (\<lambda>e. name = fst e) (enumerators D) = Some e \<longleftrightarrow> e \<in> set (enumerators D) \<and> name = fst e" for e
    by (rule find_unique) (metis d distinct_map inj_onD)
  then show ?thesis by (auto simp: meta_cast_def)
qed

lemma scan_value_agrees:
  assumes "well_scanned D" and "prints_enum msvc q D sig"
  shows "scan_value msvc sig D name = meta_cast D name"
proof -
  note dist = assms(1) [unfolded well_scanned_def]
  have P: "spelling_of msvc sig D i = Some name \<longleftrightarrow> (name, i) \<in> set (enumerators D)" if "i \<in> set (scanned D)" for i
    using scan_sees(3) [OF assms that] named_Some_iff dist by simp
  have uniq: "i = j" if "(name, i) \<in> set (enumerators D)" "(name, j) \<in> set (enumerators D)" for i j
    using that dist meta_cast_iff [of D name] by (metis option.inject)
  have f: "find (\<lambda>i. spelling_of msvc sig D i = Some name) (scanned D) = Some i \<longleftrightarrow>
      (name, i) \<in> set (enumerators D)" for i
    by (subst find_unique) (use P uniq enumerator_facts(3) [OF assms(1)] in blast)+
  show ?thesis
  proof (cases "meta_cast D name")
    case None
    then have "(name, i) \<notin> set (enumerators D)" for i using meta_cast_iff [of D name] dist by (metis option.distinct(1))
    then have "find (\<lambda>i. spelling_of msvc sig D i = Some name) (scanned D) = None" using f by (metis option.exhaust)
    then show ?thesis using None by (simp add: scan_value_def)
  next
    case (Some v)
    then have e: "(name, v) \<in> set (enumerators D)" using meta_cast_iff [of D name] dist by blast
    then show ?thesis using Some f [of v] enumerator_facts(2) [OF assms(1) e] by (simp add: scan_value_def)
  qed
qed

lemma table_message_agrees:
  assumes "well_scanned D" and "prints_enum msvc q D sig"
  shows "table_message msvc sig D v = (case named D v of Some n \<Rightarrow> n | None \<Rightarrow> ''unknown error'')"
proof (cases "v \<in> set (scanned D)")
  case True
  then have r: "scan_min D \<le> v" "v \<le> scan_max D" by (simp_all add: scanned_range)
  then have "name_table msvc sig D ! nat (v - range_lo D) = spelling_of msvc sig D v"
    by (simp add: name_table_def scanned_def range_lo_def range_span_def)
  then show ?thesis using r scan_sees(3) [OF assms True]
    by (simp add: table_message_def range_lo_def range_span_def)
next
  case False
  have "named D v = None"
    using enumerator_facts(3) [OF assms(1)] False named_Some_iff assms(1)
    by (metis option.exhaust well_scanned_def)
  then show ?thesis using False
    by (auto simp: table_message_def scanned_range range_lo_def range_span_def)
qed

lemma meta_message_named:
  assumes "list_all (\<lambda>e. enum_to_int (snd e) = snd e) es" and "distinct (map snd es)"
  shows "fold (\<lambda>(n, x) out. if v = enum_to_int x then n else out) es out =
    (case find (\<lambda>e. v = snd e) es of Some e \<Rightarrow> fst e | None \<Rightarrow> out)"
  using assms
proof (induction es arbitrary: out)
  case (Cons e es)
  have "find (\<lambda>e'. v = snd e') es = None" if "v = snd e"
    using Cons.prems(2) that by (auto simp: find_None_iff image_iff)
  with Cons show ?case by (cases e) auto
qed simp

lemma meta_message_agrees:
  assumes "well_scanned D"
  shows "meta_message D v = (case named D v of Some n \<Rightarrow> n | None \<Rightarrow> ''unknown error'')"
proof -
  have "list_all (\<lambda>e. enum_to_int (snd e) = snd e) (enumerators D)"
    using enumerator_facts(4) [OF assms] by (auto simp: list_all_iff)
  from meta_message_named [OF this, of v "''unknown error''"] assms show ?thesis
    by (auto simp: meta_message_def named_def well_scanned_def split: option.splits)
qed

lemma set_insert_failure: "set (insert_failure x xs) = insert x (set xs)"
  by (induction xs) auto

lemma length_insert_failure: "length (insert_failure x xs) = Suc (length xs)"
  by (induction xs) auto

lemma sorted_insert_failure:
  "sorted_wrt (\<lambda>a b. fi_value b \<le> fi_value a) xs \<Longrightarrow>
     sorted_wrt (\<lambda>a b. fi_value b \<le> fi_value a) (insert_failure x xs)"
  by (induction xs) (auto simp: set_insert_failure)

lemma fold_insert_failure:
  "sorted_wrt (\<lambda>a b. fi_value b \<le> fi_value a) ys \<Longrightarrow>
     sorted_wrt (\<lambda>a b. fi_value b \<le> fi_value a) (fold insert_failure xs ys) \<and>
     set (fold insert_failure xs ys) = set xs \<union> set ys \<and>
     length (fold insert_failure xs ys) = length xs + length ys"
  by (induction xs arbitrary: ys)
     (auto simp: sorted_insert_failure set_insert_failure length_insert_failure)

lemma meta_failures_sorted:
  "sorted (map fi_value (meta_failures D))"
  "set (meta_failures D) = (\<lambda>(n, v). \<lparr>fi_value = enum_to_int v, fi_name = n\<rparr>) ` set (enumerators D)"
  "length (meta_failures D) = length (enumerators D)"
  using fold_insert_failure [of "[]" "map (\<lambda>(n, v). \<lparr>fi_value = enum_to_int v, fi_name = n\<rparr>) (enumerators D)"]
  by (simp_all add: meta_failures_def sorted_map sorted_wrt_rev)

lemma meta_failures_set:
  assumes "well_scanned D"
  shows "set (meta_failures D) = {f. (fi_name f, fi_value f) \<in> set (enumerators D)}" (is "?l = ?r")
proof
  show "?l \<subseteq> ?r" using enumerator_facts(4) [OF assms] by (auto simp: meta_failures_sorted(2))
  show "?r \<subseteq> ?l"
  proof
    fix f assume "f \<in> ?r"
    then have "(fi_name f, fi_value f) \<in> set (enumerators D)" by simp
    moreover from this have "f = (\<lambda>(n, v). \<lparr>fi_value = enum_to_int v, fi_name = n\<rparr>) (fi_name f, fi_value f)"
      using enumerator_facts(4) [OF assms] by simp
    ultimately show "f \<in> ?l" unfolding meta_failures_sorted(2) by (metis image_eqI)
  qed
qed

lemma build_failures_set:
  assumes "well_scanned D" and "prints_enum msvc q D sig"
  shows "set (build_failures msvc sig D) = {f. (fi_name f, fi_value f) \<in> set (enumerators D)}" (is "?l = ?r")
proof
  note dist = assms(1) [unfolded well_scanned_def]
  let ?vs = "filter (\<lambda>i. is_enumerator msvc sig (to_enum D i)) (scanned D)"
  show "?l \<subseteq> ?r"
  proof
    fix f assume "f \<in> ?l"
    then obtain i where i: "i \<in> set (scanned D)" "is_enumerator msvc sig (to_enum D i)"
      "f = \<lparr>fi_value = i, fi_name = the (enumerator_spelling msvc (sig (to_enum D i)))\<rparr>"
      by (auto simp: build_failures_def)
    then obtain n where "named D i = Some n" using scan_sees(1) [OF assms i(1)] by auto
    then show "f \<in> ?r" using i(3) scan_sees(2) [OF assms i(1)] named_Some_iff dist by simp
  qed
  show "?r \<subseteq> ?l"
  proof
    fix f assume "f \<in> ?r"
    then have e: "(fi_name f, fi_value f) \<in> set (enumerators D)" by simp
    then have n: "named D (fi_value f) = Some (fi_name f)" using named_Some_iff dist by blast
    note r = enumerator_facts(3) [OF assms(1) e]
    have "f = \<lparr>fi_value = fi_value f,
              fi_name = the (enumerator_spelling msvc (sig (to_enum D (fi_value f))))\<rparr>"
      using scan_sees(2) [OF assms r n] by simp
    moreover have "fi_value f \<in> set ?vs" using r scan_sees(1) [OF assms r] n by simp
    ultimately show "f \<in> ?l" unfolding build_failures_def set_map by (rule image_eqI)
  qed
qed

lemma meta_failures_distinct:
  assumes "well_scanned D"
  shows "inj_on fi_value (set (meta_failures D))" and "distinct (meta_failures D)"
proof -
  note dist = assms [unfolded well_scanned_def]
  show "inj_on fi_value (set (meta_failures D))"
    unfolding meta_failures_set [OF assms]
  proof (rule inj_onI)
    fix f g :: failure_info
    assume "f \<in> {f. (fi_name f, fi_value f) \<in> set (enumerators D)}"
      "g \<in> {f. (fi_name f, fi_value f) \<in> set (enumerators D)}" and eq: "fi_value f = fi_value g"
    then have "named D (fi_value f) = Some (fi_name f)" "named D (fi_value g) = Some (fi_name g)"
      using named_Some_iff dist by blast+
    then have "fi_name f = fi_name g" using eq by (metis option.inject)
    then show "f = g" using eq by (metis failure_info.equality old.unit.exhaust)
  qed
  show "distinct (meta_failures D)"
  proof (rule card_distinct)
    have "inj_on (\<lambda>(n, v). \<lparr>fi_value = enum_to_int v, fi_name = n\<rparr>) (set (enumerators D))"
      using enumerator_facts(4) [OF assms] by (auto simp: inj_on_def)
    then have "card (set (meta_failures D)) = card (set (enumerators D))"
      by (simp only: meta_failures_sorted(2) card_image)
    also have "\<dots> = length (enumerators D)" using dist distinct_map distinct_card by blast
    finally show "card (set (meta_failures D)) = length (meta_failures D)"
      by (simp add: meta_failures_sorted(3))
  qed
qed

lemma build_failures_agrees:
  assumes "well_scanned D" and "prints_enum msvc q D sig"
  shows "build_failures msvc sig D = meta_failures D"
proof (rule map_sorted_distinct_set_unique [of fi_value])
  have vals: "map fi_value (build_failures msvc sig D) =
      filter (\<lambda>i. is_enumerator msvc sig (to_enum D i)) (scanned D)"
    by (simp add: build_failures_def comp_def)
  show sets: "set (build_failures msvc sig D) = set (meta_failures D)"
    using build_failures_set [OF assms] meta_failures_set [OF assms(1)] by simp
  show "inj_on fi_value (set (build_failures msvc sig D) \<union> set (meta_failures D))"
    using sets meta_failures_distinct(1) [OF assms(1)] by simp
  show "sorted (map fi_value (build_failures msvc sig D))"
    unfolding vals by (rule sorted_wrt_filter [OF sorted_scanned])
  show "distinct (map fi_value (build_failures msvc sig D))"
    by (simp only: vals distinct_filter distinct_scanned)
qed (use meta_failures_sorted meta_failures_distinct [OF assms(1)] in \<open>simp_all add: distinct_map\<close>)

lemma count_agrees:
  assumes "well_scanned D" and "prints_enum msvc q D sig"
  shows "count_enumerators msvc sig D = meta_count D"
proof -
  have "count_enumerators msvc sig D = length (build_failures msvc sig D)"
    by (simp add: count_enumerators_def build_failures_def)
  then show ?thesis by (simp add: build_failures_agrees [OF assms] meta_failures_sorted meta_count_def)
qed


subsection \<open>A compiler's signatures\<close>

text \<open>How GCC prints the constant of \<open>enumerator_spelling<V>\<close> for an enum of namespace \<open>app\<close>.\<close>

definition gcc_shown :: "enum_decl \<Rightarrow> int \<Rightarrow> string" where
  "gcc_shown D v = (case find (\<lambda>e. v = snd e) (enumerators D) of
     Some e \<Rightarrow> ''app::status::'' @ fst e | None \<Rightarrow> ''(app::status)'' @ show_int v)"

definition gcc_signature :: "enum_decl \<Rightarrow> int \<Rightarrow> string" where
  "gcc_signature D v =
     ''enumerator_spelling() [with auto '' @ ''V = '' @ gcc_shown D v @ '';'' @ '' string_view = view]''"

lemma show_nat_number: "number_text (show_nat n)"
proof (induction n rule: show_nat.induct)
  case (1 n)
  have d: "identifier_char (show_digit k) \<and> \<not> letter (show_digit k)" if "k < 10" for k
  proof -
    have "k \<in> set [0..<10]" using that by simp
    then show ?thesis by (auto simp: identifier_char_def letter_def show_digit_def upt_conv_Cons
        char_of_eq_iff take_bit_eq_mod)
  qed
  show ?case
  proof (cases "n < 10")
    case True
    then show ?thesis using d by (subst show_nat.simps) (simp add: number_text_def number_char_def)
  next
    case False
    then have "number_text (show_nat (n div 10))" using 1 by simp
    then show ?thesis using False d [of "n mod 10"]
      by (subst show_nat.simps) (simp add: number_text_def number_char_def)
  qed
qed

lemma show_int_number: "number_text (show_int v)"
  using show_nat_number [of "nat v"] show_nat_number [of "nat (- v)"]
  by (auto simp: show_int_def number_text_def number_char_def letter_def)

lemma gcc_prints:
  assumes "list_all (\<lambda>e. is_identifier (fst e)) (enumerators D)"
  shows "prints_enum False ''app::status::'' D (gcc_signature D)"
proof -
  have plain: "CHR '';'' \<notin> set n \<and> CHR '']'' \<notin> set n" if "is_identifier n \<or> number_text n" for n
  proof -
    have "number_char c" if "c \<in> set n" for c
      using that \<open>is_identifier n \<or> number_text n\<close>
      by (auto simp: is_identifier_def number_text_def list_all_iff number_char_def)
    moreover have "\<not> number_char CHR '';''" "\<not> number_char CHR '']''"
      by (simp_all add: number_char_def identifier_char_def letter_def)
    ultimately show ?thesis by blast
  qed
  have "compiler_prints False ''V = '' (gcc_shown D v) (gcc_signature D v) \<and>
      (case find (\<lambda>e. v = snd e) (enumerators D) of
         Some e \<Rightarrow> gcc_shown D v = ''app::status::'' @ fst e | None \<Rightarrow> cast_text (gcc_shown D v))" for v
  proof
    have "CHR '';'' \<notin> set (gcc_shown D v) \<and> CHR '']'' \<notin> set (gcc_shown D v)"
    proof (cases "find (\<lambda>e. v = snd e) (enumerators D)")
      case None
      then show ?thesis using plain [of "show_int v"] show_int_number by (simp add: gcc_shown_def)
    next
      case (Some e)
      then have "is_identifier (fst e)" using assms by (auto simp: list_all_iff find_Some_iff)
      then show ?thesis using Some plain [of "fst e"] by (simp add: gcc_shown_def)
    qed
    moreover have "find_sub ''V = '' (gcc_signature D v) = Some 33" by (simp add: gcc_signature_def)
    ultimately show "compiler_prints False ''V = '' (gcc_shown D v) (gcc_signature D v)"
      unfolding compiler_prints_def
      by (simp add: gcc_signature_def)
        (rule exI [of _ "''enumerator_spelling() [with auto ''"], rule exI [of _ "CHR '';''"], simp)
    show "case find (\<lambda>e. v = snd e) (enumerators D) of
         Some e \<Rightarrow> gcc_shown D v = ''app::status::'' @ fst e | None \<Rightarrow> cast_text (gcc_shown D v)"
    proof -
      have "cast_text (''(app::status)'' @ show_int v)"
        unfolding cast_text_def
        by (rule disjI2, rule exI [of _ "''app::status''"], rule exI [of _ "show_int v"])
          (simp add: show_int_number)
      then show ?thesis by (simp add: gcc_shown_def split: option.splits)
    qed
  qed
  moreover have "scope_text ''app::status::''"
    by (auto simp: scope_text_def intro!: exI [of _ "''app::status''"])
  ultimately show ?thesis unfolding prints_enum_def by blast
qed

definition sample_enum :: enum_decl where
  "sample_enum = \<lparr>enum_type_name = ''status'', enumerators = [(''ok'', 0), (''lost'', 7), (''bad'', - 3)],
     enum_bits = 8, enum_signed = True, scan_min = default_min, scan_max = default_max\<rparr>"

lemma sample_enum_ok:
  "well_scanned sample_enum" "prints_enum False ''app::status::'' sample_enum (gcc_signature sample_enum)"
proof -
  have ids: "is_identifier ''ok''" "is_identifier ''lost''" "is_identifier ''bad''"
    by (simp_all add: is_identifier_def identifier_char_def letter_def)
  show "well_scanned sample_enum"
    using ids by (simp add: well_scanned_def sample_enum_def enumerator_scanned_def to_enum_def
      default_min_def default_max_def range_span_def signed_take_bit_int_eq_self)
  show "prints_enum False ''app::status::'' sample_enum (gcc_signature sample_enum)"
    by (rule gcc_prints) (use ids in \<open>simp add: sample_enum_def\<close>)
qed


subsection \<open>Properties\<close>

text \<open>
  C16. The fallback and the reflection path derive the same metadata, for every compiler that
  prints enumerators with their scope and other values as casts or numbers, and every
  enum of at most 32 bits whose enumerators have distinct values inside a scan range no
  wider than the underlying type: the name of every value of the type, the value of every
  string, the number of enumerators, the value-ordered failure set, and the derived
  domain's name and message for every \<open>int\<close>.
\<close>

theorem reflection_paths_agree:
  assumes "well_scanned D" and "prints_enum msvc q D sig"
    and "compiler_prints msvc ''T = '' (t @ enum_type_name D) type_sig" and "scope_text t"
    and "is_identifier (enum_type_name D)"
  shows "(to_enum D v = v \<longrightarrow> enum_name False msvc sig D v = enum_name True msvc sig D v) \<and>
         enum_cast False msvc sig D name = enum_cast True msvc sig D name \<and>
         enum_count False msvc sig D = enum_count True msvc sig D \<and>
         failures False msvc sig D = failures True msvc sig D \<and>
         reflected_domain False msvc sig type_sig D = reflected_domain True msvc sig type_sig D"
proof -
  have "table_message msvc sig D i = meta_message D i" for i
    using table_message_agrees [OF assms(1,2)] meta_message_agrees [OF assms(1)] by simp
  moreover have "type_spelling msvc type_sig = Some (enum_type_name D)"
    using type_spelling_printed [OF assms(3)] qualified_name_stripped [OF assms(4,5)] by simp
  ultimately show ?thesis
    using scan_name_agrees [OF assms(1,2)] scan_value_agrees [OF assms(1,2)]
      count_agrees [OF assms(1,2)] build_failures_agrees [OF assms(1,2)]
    by (simp add: reflected_domain_def reflect_surface)
qed

theorem reflection_paths_agree_witness:
  "failures False False (gcc_signature sample_enum) sample_enum = failures True False (gcc_signature sample_enum) sample_enum \<and>
   dom_name (reflected_domain False False (gcc_signature sample_enum)
     ''type_spelling() [with T = app::status]'' sample_enum) = ''status''"
proof -
  have t: "compiler_prints False ''T = '' (''app::'' @ enum_type_name sample_enum) ''type_spelling() [with T = app::status]''"
    unfolding compiler_prints_def
    by (simp add: sample_enum_def) (rule exI [of _ "''type_spelling() [with ''"], rule exI [of _ "CHR '']''"], simp)
  have i: "scope_text ''app::''" "is_identifier (enum_type_name sample_enum)"
    by (auto simp: scope_text_def sample_enum_def is_identifier_def identifier_char_def letter_def
      intro!: exI [of _ "''app''"])
  show ?thesis
    using reflection_paths_agree [OF sample_enum_ok t i, of 0 "''ok''"]
    by (simp add: reflected_domain_def reflect_surface sample_enum_def)
qed

text \<open>
  Names and values are inverse to each other on the fallback: the name of a declared
  enumerator reads back as its value, a string that reads as a value is that value's name,
  an undeclared value has the empty name; and an error built with \<open>as_erased\<close> carries the
  enumerator's name as its message across a boundary, in every hardening mode.
\<close>

theorem reflected_names_round_trip:
  assumes "well_scanned D" and "prints_enum msvc q D sig" and "to_enum D v = v"
    and "ds p = Some (reflected_domain False msvc sig type_sig D)" and "p \<noteq> 0"
  shows "((n, v) \<in> set (enumerators D) \<longrightarrow>
            enum_cast False msvc sig D (enum_name False msvc sig D v) = Some v \<and> enum_name False msvc sig D v = n \<and>
            erased_message mode ds (as_erased p v) = Returns n) \<and>
         (enum_cast False msvc sig D n = Some v \<longrightarrow> enum_name False msvc sig D v = n) \<and>
         (v \<notin> snd ` set (enumerators D) \<longrightarrow> enum_name False msvc sig D v = [])"
proof -
  note dist = assms(1) [unfolded well_scanned_def]
  note a = scan_name_agrees [OF assms(1-3)] scan_value_agrees [OF assms(1,2)] meta_name_named
  have cast: "meta_cast D n = Some v \<longleftrightarrow> (n, v) \<in> set (enumerators D)" using meta_cast_iff dist by blast
  have nm: "named D v = Some n \<longleftrightarrow> (n, v) \<in> set (enumerators D)" using named_Some_iff dist by blast
  have "named D v = None" if "v \<notin> snd ` set (enumerators D)"
    using that by (force simp: named_def find_None_iff)
  moreover have "erased_message mode ds (as_erased p v) = Returns n" if "(n, v) \<in> set (enumerators D)"
  proof -
    have "sint (of_int v :: c_int) = v"
      using enumerator_facts(4) [OF assms(1) that] by (simp add: signed_of_int enum_to_int_def)
    then show ?thesis using assms(4,5) nm that table_message_agrees [OF assms(1,2), of v]
      by (simp add: as_erased_def policy_simps reflected_domain_def)
  qed
  ultimately show ?thesis using a cast nm by (auto simp: reflect_surface)
qed

theorem reflected_names_round_trip_witness:
  "enum_name False False (gcc_signature sample_enum) sample_enum (- 3) = ''bad'' \<and>
   enum_cast False False (gcc_signature sample_enum) sample_enum ''bad'' = Some (- 3)"
proof -
  have "to_enum sample_enum (- 3) = - 3" "(''bad'', - 3) \<in> set (enumerators sample_enum)"
    by (simp_all add: sample_enum_def to_enum_def signed_take_bit_int_eq_self)
  then show ?thesis
    using reflected_names_round_trip [OF sample_enum_ok, of "- 3"
      "[4096 \<mapsto> reflected_domain False False (gcc_signature sample_enum) [] sample_enum]" 4096 "[]" "''bad''" 0]
    by auto
qed

subsection \<open>Where the paths differ\<close>

text \<open>
  Several names for one value.  The fallback sees values, so for it the enum has the first
  name of each value only.
\<close>

definition scannable :: "enum_decl \<Rightarrow> bool" where
  "scannable D \<longleftrightarrow> list_all (enumerator_scanned D) (enumerators D) \<and> distinct (map fst (enumerators D)) \<and>
     0 < enum_bits D \<and> enum_bits D \<le> 32 \<and> range_span D \<le> 2 ^ enum_bits D \<and>
     - (2 ^ 31) \<le> scan_min D \<and> scan_max D < 2 ^ 31"

primrec keep_first :: "(string \<times> int) list \<Rightarrow> (string \<times> int) list" where
  "keep_first [] = []"
| "keep_first (e # es) = e # filter (\<lambda>e'. snd e' \<noteq> snd e) (keep_first es)"

definition first_names :: "enum_decl \<Rightarrow> enum_decl" where
  "first_names D = D\<lparr>enumerators := keep_first (enumerators D)\<rparr>"

lemma find_filter: "(\<And>x. P x \<Longrightarrow> Q x) \<Longrightarrow> find P (filter Q xs) = find P xs"
  by (induction xs) auto

lemma find_keep_first: "find (\<lambda>e. v = snd e) (keep_first es) = find (\<lambda>e. v = snd e) es"
proof (induction es)
  case (Cons e es)
  then show ?case
    using find_filter [of "\<lambda>x. v = snd x" "\<lambda>x. snd x \<noteq> snd e" "keep_first es"] by auto
qed simp

lemma keep_first_set: "set (keep_first es) \<subseteq> set es"
  by (induction es) auto

lemma keep_first_values: "snd ` set (keep_first es) = snd ` set es" "distinct (map snd (keep_first es))"
proof (induction es)
  case (Cons e es)
  have "snd ` {x \<in> set (keep_first es). snd x \<noteq> snd e} = snd ` set (keep_first es) - {snd e}" by auto
  then show "snd ` set (keep_first (e # es)) = snd ` set (e # es)" using Cons(1) by auto
  show "distinct (map snd (keep_first (e # es)))" using Cons(2) by (auto simp: distinct_map_filter)
qed simp_all

lemma keep_first_names: "distinct (map fst es) \<Longrightarrow> distinct (map fst (keep_first es))"
proof (induction es)
  case (Cons e es)
  then have "fst e \<notin> fst ` set (keep_first es)" using keep_first_set [of es] by auto
  then show ?case using Cons by (auto simp: distinct_map_filter)
qed simp

lemma keep_first_iff:
  "(n, v) \<in> set (keep_first es) \<longleftrightarrow> map_option fst (find (\<lambda>e. v = snd e) es) = Some n"
  using named_Some_iff [of "\<lparr>enum_type_name = [], enumerators = keep_first es, enum_bits = 0, enum_signed = False, scan_min = 0, scan_max = 0\<rparr>" v n]
    keep_first_values(2) [of es]
  by (simp add: named_def find_keep_first)

lemma first_names_scanned:
  assumes "scannable D"
  shows "well_scanned (first_names D)"
proof -
  have "enumerator_scanned (first_names D) = enumerator_scanned D"
    by (rule ext) (simp add: first_names_def enumerator_scanned_def to_enum_def)
  moreover have "list_all (enumerator_scanned D) (keep_first (enumerators D))"
    using assms keep_first_set [of "enumerators D"] unfolding scannable_def list_all_iff by blast
  ultimately show ?thesis
    using assms keep_first_values(2) [of "enumerators D"] keep_first_names [of "enumerators D"]
    by (simp add: scannable_def well_scanned_def first_names_def range_span_def)
qed

lemma first_names_printed: "prints_enum msvc q D sig \<Longrightarrow> prints_enum msvc q (first_names D) sig"
  by (simp add: prints_enum_def first_names_def find_keep_first)

text \<open>The fallback does not look at the declaration.\<close>

lemma fallback_first_names:
  "scanned (first_names D) = scanned D" "to_enum (first_names D) i = to_enum D i" "range_lo (first_names D) = range_lo D"
  "range_span (first_names D) = range_span D"
  by (simp_all add: first_names_def scanned_def to_enum_def range_lo_def range_span_def)

lemma spelling_first_names: "spelling_of msvc sig (first_names D) = spelling_of msvc sig D"
  by (rule ext) (simp add: spelling_of_def fallback_first_names)

lemma fallback_sees_first_names:
  "count_enumerators msvc sig (first_names D) = count_enumerators msvc sig D"
  "scan_name msvc sig (first_names D) v = scan_name msvc sig D v"
  "scan_value msvc sig (first_names D) n = scan_value msvc sig D n"
  "build_failures msvc sig (first_names D) = build_failures msvc sig D"
  "table_message msvc sig (first_names D) v = table_message msvc sig D v"
proof -
  have same: "to_enum (first_names D) = to_enum D" by (rule ext) (rule fallback_first_names(2))
  show "count_enumerators msvc sig (first_names D) = count_enumerators msvc sig D"
    "scan_name msvc sig (first_names D) v = scan_name msvc sig D v"
    "scan_value msvc sig (first_names D) n = scan_value msvc sig D n"
    "build_failures msvc sig (first_names D) = build_failures msvc sig D"
    "table_message msvc sig (first_names D) v = table_message msvc sig D v"
    by (simp_all only: count_enumerators_def scan_name_def scan_value_def build_failures_def table_message_def name_table_def
        same spelling_first_names fallback_first_names(1,3,4))
qed

lemma named_first_names: "named (first_names D) v = named D v"
  by (simp add: named_def first_names_def find_keep_first)

lemma last_message:
  "list_all (\<lambda>e. enum_to_int (snd e) = snd e) es \<Longrightarrow>
   fold (\<lambda>(n, x) out. if v = enum_to_int x then n else out) es out =
     (case find (\<lambda>e. v = snd e) (rev es) of Some e \<Rightarrow> fst e | None \<Rightarrow> out)"
  by (induction es rule: rev_induct) (auto split: prod.split)

lemma fewer_values:
  assumes "\<not> distinct (map snd es)"
  shows "card (snd ` set es) < length es"
    and "distinct (map fst es) \<Longrightarrow> \<exists>n v. (n, v) \<in> set es \<and> (n, v) \<notin> set (keep_first es)"
proof -
  show less: "card (snd ` set es) < length es"
    using assms card_distinct [of "map snd es"] card_length [of "map snd es"] by fastforce
  have "length (keep_first es) = card (snd ` set es)"
    using distinct_card [OF keep_first_values(2) [of es]] keep_first_values(1) [of es] by simp
  then have "card (set (keep_first es)) < card (set es)" if "distinct (map fst es)"
    using that less card_length [of "keep_first es"] distinct_card [of es] by (simp add: distinct_map)
  then have "\<exists>e. e \<in> set es \<and> e \<notin> set (keep_first es)" if "distinct (map fst es)"
    using that card_mono [of "set (keep_first es)" "set es"] by (meson List.finite_set leD subsetI)
  then show "distinct (map fst es) \<Longrightarrow> \<exists>n v. (n, v) \<in> set es \<and> (n, v) \<notin> set (keep_first es)" by auto
qed


definition aliased_enum :: enum_decl where
  "aliased_enum = \<lparr>enum_type_name = ''status'', enumerators = [(''success'', 0), (''ok'', 0)],
     enum_bits = 32, enum_signed = True, scan_min = default_min, scan_max = default_max\<rparr>"


text \<open>
  An enum over an unsigned byte, scanned over the default range: the positions below zero are
  converted to the values from 128 on.
\<close>

definition byte_enum :: "enum_decl \<Rightarrow> bool" where
  "byte_enum D \<longleftrightarrow> enum_bits D = 8 \<and> \<not> enum_signed D \<and> scan_min D = default_min \<and> scan_max D = default_max \<and>
     list_all (\<lambda>(n, v). is_identifier n \<and> 0 \<le> v \<and> v < 256) (enumerators D) \<and>
     distinct (map fst (enumerators D)) \<and> distinct (map snd (enumerators D))"

text \<open>The position at which the scan meets a value.\<close>

definition scan_position :: "int \<Rightarrow> int" where
  "scan_position v = (if v < 128 then v else v - 256)"

lemma byte_position:
  assumes "byte_enum D" and "0 \<le> v" "v < 256"
  shows "i \<in> set (scanned D) \<and> to_enum D i = v \<longleftrightarrow> i = scan_position v"
proof -
  have "i mod 256 = (if i < 0 then i + 256 else i)" if "- 128 \<le> i" "i \<le> 127"
    using that mod_pos_pos_trivial [of i 256] mod_pos_pos_trivial [of "i + 256" 256] by simp
  then show ?thesis
    using assms
    by (auto simp: byte_enum_def scanned_range to_enum_def take_bit_eq_mod default_min_def default_max_def scan_position_def
        split: if_splits)
qed

lemma byte_failures_set:
  assumes "byte_enum D" and "prints_enum msvc q D sig"
  shows "set (build_failures msvc sig D) = (\<lambda>(n, v). \<lparr>fi_value = scan_position v, fi_name = n\<rparr>) ` set (enumerators D)" (is "?l = ?r")
proof
  have ids: "list_all (\<lambda>e. is_identifier (fst e)) (enumerators D)"
    using assms(1) by (auto simp: byte_enum_def list_all_iff)
  note p = printed_spelling [OF assms(2) ids]
  have dist: "distinct (map snd (enumerators D))" using assms(1) by (simp add: byte_enum_def)
  have small: "0 \<le> v \<and> v < 256" if "(n, v) \<in> set (enumerators D)" for n v
    using that assms(1) by (auto simp: byte_enum_def list_all_iff)
  show "?l \<subseteq> ?r"
  proof
    fix f assume "f \<in> ?l"
    then obtain i where i: "i \<in> set (scanned D)" "is_enumerator msvc sig (to_enum D i)"
      "f = \<lparr>fi_value = i, fi_name = the (enumerator_spelling msvc (sig (to_enum D i)))\<rparr>"
      by (auto simp: build_failures_def)
    then obtain n where n: "named D (to_enum D i) = Some n" using p(1) by auto
    then have e: "(n, to_enum D i) \<in> set (enumerators D)" using named_Some_iff [OF dist] by simp
    then have "i = scan_position (to_enum D i)" using byte_position [OF assms(1)] small [OF e] i(1) by blast
    then show "f \<in> ?r" using i(3) p(2) [OF n] e by (force simp: image_iff)
  qed
  show "?r \<subseteq> ?l"
  proof
    fix f assume "f \<in> ?r"
    then obtain n v where e: "(n, v) \<in> set (enumerators D)" and f: "f = \<lparr>fi_value = scan_position v, fi_name = n\<rparr>" by auto
    have i: "scan_position v \<in> set (scanned D)" "to_enum D (scan_position v) = v"
      using byte_position [OF assms(1)] small [OF e] by blast+
    have "named D v = Some n" using e named_Some_iff [OF dist] by simp
    then have "is_enumerator msvc sig v" "enumerator_spelling msvc (sig v) = Some n" using p by simp_all
    then show "f \<in> ?l" using i f by (auto simp: build_failures_def image_iff intro!: bexI [of _ "scan_position v"])
  qed
qed

lemma byte_count:
  assumes "byte_enum D" and "prints_enum msvc q D sig"
  shows "count_enumerators msvc sig D = length (enumerators D)"
proof -
  have names: "distinct (map fst (enumerators D))" using assms(1) by (simp add: byte_enum_def)
  have "distinct (build_failures msvc sig D)"
    unfolding build_failures_def using distinct_scanned [of D] by (auto simp: distinct_map inj_on_def)
  moreover have "count_enumerators msvc sig D = length (build_failures msvc sig D)"
    by (simp add: count_enumerators_def build_failures_def)
  ultimately have "count_enumerators msvc sig D = card (set (build_failures msvc sig D))"
    by (simp only: distinct_card)
  also have "\<dots> = card (set (enumerators D))"
  proof -
    have "inj_on (\<lambda>(n, v). \<lparr>fi_value = scan_position v, fi_name = n\<rparr>) (set (enumerators D))"
      using eq_key_imp_eq_value [OF names] by (auto simp: inj_on_def)
    then show ?thesis by (simp only: byte_failures_set [OF assms] card_image)
  qed
  also have "\<dots> = length (enumerators D)" using names distinct_card [of "enumerators D"] by (simp add: distinct_map)
  finally show ?thesis .
qed

lemma byte_scan_value:
  assumes "byte_enum D" and "prints_enum msvc q D sig" and e: "(n, v) \<in> set (enumerators D)"
  shows "scan_value msvc sig D n = Some v"
proof -
  have ids: "list_all (\<lambda>e. is_identifier (fst e)) (enumerators D)"
    using assms(1) by (auto simp: byte_enum_def list_all_iff)
  note p = printed_spelling [OF assms(2) ids]
  have dist: "distinct (map fst (enumerators D))" "distinct (map snd (enumerators D))"
    and small: "0 \<le> v" "v < 256"
    using assms(1) e by (auto simp: byte_enum_def list_all_iff)
  note position = byte_position [OF assms(1) small]
  have named: "named D v = Some n" using named_Some_iff [OF dist(2)] e by simp
  have hit: "i = scan_position v" if i: "i \<in> set (scanned D)" and s: "spelling_of msvc sig D i = Some n" for i
  proof -
    obtain m where m: "named D (to_enum D i) = Some m"
      using s p(1) by (auto simp: spelling_of_def split: if_splits)
    then have "m = n" using s p(2) [OF m] by (simp add: spelling_of_def split: if_splits)
    then have "(n, to_enum D i) \<in> set (enumerators D)" using m named_Some_iff [OF dist(2)] by simp
    then have "to_enum D i = v" using e eq_key_imp_eq_value [OF dist(1)] by blast
    then show ?thesis using position [of i] i by blast
  qed
  have "scan_position v \<in> set (scanned D) \<and> spelling_of msvc sig D (scan_position v) = Some n"
    using position [of "scan_position v"] named p by (simp add: spelling_of_def)
  then have "find (\<lambda>i. spelling_of msvc sig D i = Some n) (scanned D) = Some (scan_position v)"
    by (subst find_unique) (use hit in blast)+
  then show ?thesis using position [of "scan_position v"] by (simp add: scan_value_def)
qed

text \<open>
  C40. An enumerator outside the scanned range is not invisible.  For every enum over an unsigned
  byte with distinct enumerators, scanned over the default range, the fallback counts all
  enumerators as reflection does, but lists each one at the scan position that converts to
  it: those from 128 on with their value minus 256, where reflection lists the value.  The
  name and the message of such a value are not found by the fallback, although the name
  still reads as the value.
\<close>

theorem unsigned_byte_enumerators_differ:
  assumes "byte_enum D" and "prints_enum msvc q D sig" and "es = enumerators D"
  shows "enum_count False msvc sig D = length es \<and> enum_count True msvc sig D = length es \<and>
    set (failures False msvc sig D) =
      (\<lambda>(n, v). \<lparr>fi_value = if v < 128 then v else v - 256, fi_name = n\<rparr>) ` set es \<and>
    set (failures True msvc sig D) = (\<lambda>(n, v). \<lparr>fi_value = v, fi_name = n\<rparr>) ` set es \<and>
    ((n, v) \<in> set es \<and> 128 \<le> v \<longrightarrow>
       enum_name False msvc sig D v = [] \<and> enum_name True msvc sig D v = n \<and>
       enum_cast False msvc sig D n = Some v \<and> enum_cast True msvc sig D n = Some v \<and>
       dom_message (reflected_domain False msvc sig type_sig D) (of_int v) = ''unknown error'' \<and>
       dom_message (reflected_domain True msvc sig type_sig D) (of_int v) = n)"
proof -
  have dist: "distinct (map fst es)" "distinct (map snd es)" using assms(1,3) by (simp_all add: byte_enum_def)
  have small: "0 \<le> v \<and> v < 256" if "(n, v) \<in> set es" for n v
    using that assms(1,3) by (auto simp: byte_enum_def list_all_iff)
  then have ints: "enum_to_int v = v" if "(n, v) \<in> set es" for n v
    using that by (force simp: enum_to_int_def signed_take_bit_int_eq_self)
  have range: "scan_max D = 127" "range_lo D + range_span D = 128"
    using assms(1) by (simp_all add: byte_enum_def default_min_def default_max_def range_lo_def range_span_def)
  have lists: "set (meta_failures D) = (\<lambda>(n, v). \<lparr>fi_value = v, fi_name = n\<rparr>) ` set es"
    unfolding meta_failures_sorted(2) assms(3) [symmetric] by (rule image_cong) (auto simp: ints)
  have "scan_name msvc sig D v = [] \<and> meta_name D v = n \<and> scan_value msvc sig D n = Some v \<and> meta_cast D n = Some v \<and>
      table_message msvc sig D (sint (of_int v :: c_int)) = ''unknown error'' \<and> meta_message D (sint (of_int v :: c_int)) = n"
    if e: "(n, v) \<in> set es" and big: "128 \<le> v"
  proof (intro conjI)
    have v: "sint (of_int v :: c_int) = v" using small [OF e] by (simp add: signed_of_int signed_take_bit_int_eq_self)
    have "enum_to_int v \<notin> set (scanned D)" using big by (simp add: ints [OF e] scanned_range range)
    then show "scan_name msvc sig D v = []" by (simp only: scan_name_def find_eq_conj simp_thms if_False option.case)
    have named: "named D v = Some n" using named_Some_iff [of D v n] dist(2) e by (simp add: assms(3))
    then show "meta_name D v = n" by (simp add: meta_name_named)
    show "meta_cast D n = Some v" using meta_cast_iff [of D n v] dist(1) e by (simp add: assms(3))
    show "scan_value msvc sig D n = Some v" using byte_scan_value [OF assms(1,2)] e by (simp add: assms(3))
    show "table_message msvc sig D (sint (of_int v :: c_int)) = ''unknown error''"
      using big range(2) by (simp add: table_message_def v Let_def)
    have "list_all (\<lambda>e. enum_to_int (snd e) = snd e) es" using ints by (auto simp: list_all_iff)
    from meta_message_named [OF this dist(2), of v "''unknown error''"]
    show "meta_message D (sint (of_int v :: c_int)) = n"
      using named by (auto simp: meta_message_def v named_def assms(3) split: option.splits)
  qed
  then show ?thesis
    using lists byte_count [OF assms(1,2)] byte_failures_set [OF assms(1,2)]
    by (simp add: reflect_surface reflected_domain_def meta_count_def scan_position_def assms(3))
qed

definition level_enum :: enum_decl where
  "level_enum = \<lparr>enum_type_name = ''level'', enumerators = [(''hot'', 200), (''cold'', 3)],
     enum_bits = 8, enum_signed = False, scan_min = default_min, scan_max = default_max\<rparr>"

theorem unsigned_byte_enumerators_differ_witness:
  "\<lparr>fi_value = - 56, fi_name = ''hot''\<rparr> \<in> set (failures False False (gcc_signature level_enum) level_enum) \<and>
   \<lparr>fi_value = 200, fi_name = ''hot''\<rparr> \<in> set (failures True False (gcc_signature level_enum) level_enum) \<and>
   enum_name False False (gcc_signature level_enum) level_enum 200 = []"
proof -
  have b: "byte_enum level_enum"
    by (simp add: byte_enum_def level_enum_def is_identifier_def identifier_char_def letter_def)
  have "prints_enum False ''app::status::'' level_enum (gcc_signature level_enum)"
    by (rule gcc_prints) (simp add: level_enum_def is_identifier_def identifier_char_def letter_def)
  from unsigned_byte_enumerators_differ [OF b this refl, of "''hot''" 200] show ?thesis by (simp add: level_enum_def)
qed

end
