(* ===== verification/App_Scene_Audit.thy ===== *)
theory App_Scene_Audit
  imports Rich_Error Reflect_Layer
begin

text \<open>
  The engine module (\<open>reference_app/godot_module/scene_audit.cpp\<close>): a recursive audit of a
  scene tree whose failures are rich errors propagated by \<open>JMPXX_TRY\<close>, built with the
  diagnostic layer on, as the module's build file asks.

  A scene tree is a finite tree of named nodes; the engine's \<open>String\<close> is a \<^typ>\<open>string\<close> and its
  \<open>HashSet\<close> a set.  \<open>r_seen\<close> and \<open>r_where\<close> are locals of \<open>audit\<close> passed by reference, so
  the state of a visit is the thread's arena and those two.  The script's \<open>Dictionary\<close> is a
  map from keys to variants.
\<close>

datatype scene_node = Node string "scene_node list"

primrec node_name :: "scene_node \<Rightarrow> string" where
  "node_name (Node n cs) = n"

datatype scene_fault = Fault_none | Fault_empty_tree | Fault_too_deep | Fault_duplicate_name |
  Fault_empty_name | Fault_reserved_prefix

primrec fault_value :: "scene_fault \<Rightarrow> int" where
  "fault_value Fault_none = 0"
| "fault_value Fault_empty_tree = 1"
| "fault_value Fault_too_deep = 2"
| "fault_value Fault_duplicate_name = 3"
| "fault_value Fault_empty_name = 4"
| "fault_value Fault_reserved_prefix = 5"

definition fault_enum :: enum_decl where
  "fault_enum = \<lparr>enum_type_name = ''Fault'',
     enumerators = [(''none'', 0), (''empty_tree'', 1), (''too_deep'', 2), (''duplicate_name'', 3),
       (''empty_name'', 4), (''reserved_prefix'', 5)],
     enum_bits = 32, enum_signed = True, scan_min = default_min, scan_max = default_max\<rparr>"

record scene_state =
  sc_arena :: "source_location store"
  sc_seen :: "string set"
  sc_where :: string

text \<open>
  What the build and the compiler supply: the hardening mode, the stack-trace switch and
  trace, the source locations the three sites capture, and the reflection path with the
  signatures it reads.
\<close>

record scene_build =
  sb_mode :: int
  sb_stacktrace :: bool
  sb_trace :: trace
  fault_site :: source_location
  tryv_site :: source_location
  try_site :: source_location
  sb_reflection :: bool
  sb_msvc :: bool
  sb_sig :: "int \<Rightarrow> string"

definition scene_hook :: "rich_error \<Rightarrow> source_location \<Rightarrow> scene_state \<Rightarrow> scene_state" where
  "scene_hook e loc s = s\<lparr>sc_arena := note_propagation_rich e loc (sc_arena s)\<rparr>"

definition scene_site :: "scene_build \<Rightarrow> (scene_state, 'v, rich_error, source_location) site" where
  "scene_site B = shipped_site (sb_mode B) True scene_hook"


subsection \<open>The audit\<close>

definition fault :: "scene_build \<Rightarrow> scene_fault \<Rightarrow> scene_state \<Rightarrow> rich_error \<times> scene_state" where
  "fault B f s =
     (let (e, a) = mk_rich (sb_stacktrace B) (sb_trace B) (fault_site B) (of_int (fault_value f)) 0x6a78 (sc_arena s)
      in (e, s\<lparr>sc_arena := a\<rparr>))"

definition fault_name :: "scene_build \<Rightarrow> int \<Rightarrow> string" where
  "fault_name B v = enum_name (sb_reflection B) (sb_msvc B) (sb_sig B) fault_enum v"

definition fail_fault :: "scene_build \<Rightarrow> scene_fault \<Rightarrow> (scene_state, ('v, rich_error) result) computation" where
  "fail_fault B f s = (let (e, s) = fault B f s in return_fail id e s)"

definition set_max_depth :: "int \<Rightarrow> int" where
  "set_max_depth p_depth = (if p_depth < 1 then 1 else if p_depth > 64 then 64 else p_depth)"

definition check_name :: "scene_build \<Rightarrow> scene_node \<Rightarrow> (scene_state, (string, rich_error) result) computation" where
  "check_name B p_node s =
     (let name = node_name p_node in
      if name = [] then fail_fault B Fault_empty_name s
      else if take 4 name = ''tmp_'' then fail_fault B Fault_reserved_prefix s
      else if name \<in> sc_seen s then fail_fault B Fault_duplicate_name s
      else return_value name (s\<lparr>sc_seen := insert name (sc_seen s)\<rparr>))"

definition note_where :: "scene_node \<Rightarrow> scene_state \<Rightarrow> scene_state" where
  "note_where p_node s = s\<lparr>sc_where := node_name p_node\<rparr>"

text \<open>
  \<open>visit\<close> and its loop over the children; \<open>counted\<close> is an \<open>int\<close>, and adding beyond its
  range is undefined.  \<open>max_depth_\<close> is at most 64, so \<open>p_depth + 1\<close> never overflows.
\<close>

fun visit :: "scene_build \<Rightarrow> int \<Rightarrow> scene_node \<Rightarrow> int \<Rightarrow> (scene_state, (c_int, rich_error) result) computation"
  and visit_children :: "scene_build \<Rightarrow> int \<Rightarrow> scene_node list \<Rightarrow> int \<Rightarrow> c_int \<Rightarrow>
    (scene_state, (c_int, rich_error) result) computation" where
  "visit B max_d (Node n cs) p_depth =
     (\<lambda>s. if p_depth > max_d then fail_fault B Fault_too_deep (note_where (Node n cs) s)
          else jmpxx_tryv (scene_site B) (tryv_site B) id (check_name B (Node n cs))
                 (visit_children B max_d cs p_depth 1) (note_where (Node n cs) s))"
| "visit_children B max_d [] p_depth counted = return_value counted"
| "visit_children B max_d (c # cs) p_depth counted =
     jmpxx_try (scene_site B) (try_site B) id (visit B max_d c (p_depth + 1))
       (\<lambda>below s. case c_add counted below of
          Returns k \<Rightarrow> visit_children B max_d cs p_depth k s
        | Fail_Fast m \<Rightarrow> (Fail_Fast m, s)
        | Throws \<Rightarrow> (Throws, s)
        | Undefined \<Rightarrow> (Undefined, s))"

datatype variant = V_bool bool | V_int int | V_string string

type_synonym dictionary = "string \<rightharpoonup> variant"

definition empty_tree_report :: "scene_build \<Rightarrow> dictionary" where
  "empty_tree_report B =
     [''ok'' \<mapsto> V_bool False, ''fault'' \<mapsto> V_string (fault_name B (fault_value Fault_empty_tree)),
      ''nodes'' \<mapsto> V_int 0]"

definition context_report :: "scene_build \<Rightarrow> rich_error \<Rightarrow> source_location store \<Rightarrow> dictionary \<Rightarrow> dictionary" where
  "context_report B e a out =
     (let ctx = inspect (sb_stacktrace B) no_location e a;
          out = out(''origin_available'' \<mapsto> V_bool (available ctx)) in
      if available ctx then
        out(''origin_line'' \<mapsto> V_int (sint (loc_line (ctx_origin ctx))), ''hops'' \<mapsto> V_int (int (ctx_hop_count ctx)))
      else out)"

definition audit_report :: "scene_build \<Rightarrow> (c_int, rich_error) result \<Rightarrow> scene_state \<Rightarrow> dictionary outcome" where
  "audit_report B counted s =
     bind_outcome (value_or trivial_payload id counted 0) (\<lambda>nodes.
       let out = [''ok'' \<mapsto> V_bool (has_value counted), ''nodes'' \<mapsto> V_int (sint nodes)] in
       if has_value counted then Returns (out(''fault'' \<mapsto> V_string (fault_name B (fault_value Fault_none))))
       else bind_outcome (error_checked counted) (\<lambda>e.
         Returns (context_report B e (sc_arena s)
           (out(''fault'' \<mapsto> V_string (fault_name B (sint (rich_code e))), ''where'' \<mapsto> V_string (sc_where s))))))"

definition audit :: "scene_build \<Rightarrow> int \<Rightarrow> scene_node option \<Rightarrow> (source_location store, dictionary) computation" where
  "audit B max_d p_root =
     with_landing (\<lambda>a. case p_root of
         None \<Rightarrow> (Returns (empty_tree_report B), a)
       | Some root \<Rightarrow>
           (case visit B max_d root 0 \<lparr>sc_arena = a, sc_seen = {}, sc_where = []\<rparr> of
              (Returns counted, s) \<Rightarrow> (audit_report B counted s, sc_arena s)
            | (Fail_Fast m, s) \<Rightarrow> (Fail_Fast m, sc_arena s)
            | (Throws, s) \<Rightarrow> (Throws, sc_arena s)
            | (Undefined, s) \<Rightarrow> (Undefined, sc_arena s)))"


subsection \<open>What an audit finds\<close>

text \<open>
  The reference: the nodes in preorder with their depths, scanned for the first one that
  is too deep, unnamed, reserved or named before; a fault comes with the name of the node
  and the number of functions it returns through.
\<close>

fun preorder :: "int \<Rightarrow> scene_node \<Rightarrow> (string \<times> int) list" where
  "preorder d (Node n cs) = (n, d) # concat (map (preorder (d + 1)) cs)"

fun scene_scan :: "int \<Rightarrow> string set \<Rightarrow> (string \<times> int) list \<Rightarrow> (scene_fault \<times> string \<times> int) + string set" where
  "scene_scan max_d S [] = Inr S"
| "scene_scan max_d S ((n, d) # xs) =
     (if d > max_d then Inl (Fault_too_deep, n, d)
      else if n = [] then Inl (Fault_empty_name, n, d + 1)
      else if take 4 n = ''tmp_'' then Inl (Fault_reserved_prefix, n, d + 1)
      else if n \<in> S then Inl (Fault_duplicate_name, n, d + 1)
      else scene_scan max_d (insert n S) xs)"

definition scene_ref :: "scene_build \<Rightarrow> int \<Rightarrow> scene_node option \<Rightarrow> dictionary" where
  "scene_ref B max_d p_root =
     (case p_root of
        None \<Rightarrow> [''ok'' \<mapsto> V_bool False, ''fault'' \<mapsto> V_string ''empty_tree'', ''nodes'' \<mapsto> V_int 0]
      | Some root \<Rightarrow>
          (case scene_scan max_d {} (preorder 0 root) of
             Inr S \<Rightarrow> [''ok'' \<mapsto> V_bool True, ''fault'' \<mapsto> V_string ''none'',
                       ''nodes'' \<mapsto> V_int (int (length (preorder 0 root)))]
           | Inl (f, n, h) \<Rightarrow>
               [''ok'' \<mapsto> V_bool False, ''fault'' \<mapsto> V_string (meta_name fault_enum (fault_value f)),
                ''nodes'' \<mapsto> V_int 0, ''where'' \<mapsto> V_string n, ''origin_available'' \<mapsto> V_bool True,
                ''origin_line'' \<mapsto> V_int (sint (loc_line (fault_site B))),
                ''hops'' \<mapsto> V_int (min h (int max_chain))]))"

lemma scene_scan_append:
  "scene_scan max_d S (xs @ ys) =
     (case scene_scan max_d S xs of Inr S' \<Rightarrow> scene_scan max_d S' ys | Inl f \<Rightarrow> Inl f)"
  by (induction xs arbitrary: S) auto

lemma scene_scan_hops:
  "scene_scan max_d S xs = Inl (f, n, h) \<Longrightarrow> \<forall>x \<in> set xs. d \<le> snd x \<Longrightarrow> d \<le> h"
  by (induction xs arbitrary: S) (auto split: if_splits)

lemma preorder_depths: "x \<in> set (preorder d t) \<Longrightarrow> d \<le> snd x"
proof (induction d t rule: preorder.induct)
  case (1 d n cs)
  then show ?case by fastforce
qed

text \<open>The names an audit accepts: all present, none reserved, no two alike, none too deep.\<close>

lemma scene_scan_Inr_iff:
  "(\<exists>S'. scene_scan max_d S xs = Inr S') \<longleftrightarrow>
     (\<forall>x \<in> set xs. snd x \<le> max_d \<and> fst x \<noteq> [] \<and> take 4 (fst x) \<noteq> ''tmp_'' \<and> fst x \<notin> S) \<and>
     distinct (map fst xs)"
proof (induction xs arbitrary: S)
  case (Cons x xs)
  obtain n d where x: "x = (n, d)" by (cases x)
  show ?case
  proof (cases "d > max_d \<or> n = [] \<or> take 4 n = ''tmp_'' \<or> n \<in> S")
    case True
    then show ?thesis using x by auto
  next
    case False
    then show ?thesis using Cons [of "insert n S"] x by (auto simp: image_iff)
  qed
qed simp


subsection \<open>A visit does what the scan says\<close>

definition faulted :: "scene_build \<Rightarrow> scene_fault \<Rightarrow> scene_state \<Rightarrow> rich_error \<times> source_location store" where
  "faulted B f s =
     mk_rich (sb_stacktrace B) (sb_trace B) (fault_site B) (of_int (fault_value f)) 0x6a78 (sc_arena s)"

definition visited ::
    "scene_build \<Rightarrow> int \<Rightarrow> (scene_fault \<times> string \<times> int) + string set \<Rightarrow> int \<Rightarrow> scene_state \<Rightarrow>
     (c_int, rich_error) result outcome \<times> scene_state \<Rightarrow> bool" where
  "visited B k found d s out \<longleftrightarrow>
     (case found of
        Inr S \<Rightarrow> (\<exists>w v. sint v = k \<and> out = (Returns (result_of_value v), s\<lparr>sc_seen := S, sc_where := w\<rparr>))
      | Inl (f, n, h) \<Rightarrow> (\<exists>S locs. int (length locs) = h - d \<and>
          out = (Returns (result_of_failure id (fail (fst (faulted B f s)))),
            s\<lparr>sc_arena := propagate_rich (fst (faulted B f s)) locs (snd (faulted B f s)),
              sc_seen := S, sc_where := n\<rparr>)))"

lemma fail_fault_eq:
  "fail_fault B f s = (Returns (result_of_failure id (fail (fst (faulted B f s)))),
     s\<lparr>sc_arena := snd (faulted B f s)\<rparr>)"
  by (simp add: fail_fault_def fault_def faulted_def return_fail_def split: prod.splits)

lemma faulted_cong [simp]:
  "faulted B f (s\<lparr>sc_seen := S\<rparr>) = faulted B f s" "faulted B f (s\<lparr>sc_where := w\<rparr>) = faulted B f s"
  by (simp_all add: faulted_def)

lemma check_name_scan:
  assumes "d \<le> max_d"
  shows "case scene_scan max_d (sc_seen s) [(n, d)] of
      Inr S \<Rightarrow> check_name B (Node n cs) s = (Returns (result_of_value n), s\<lparr>sc_seen := S\<rparr>)
    | Inl (f, m, h) \<Rightarrow> m = n \<and> h = d + 1 \<and>
        check_name B (Node n cs) s = (Returns (result_of_failure id (fail (fst (faulted B f s)))),
          s\<lparr>sc_arena := snd (faulted B f s)\<rparr>)"
  using assms by (simp add: check_name_def fail_fault_eq return_value_def)

lemma plain_scene_site [simp]: "plain_site (scene_site B)" "diagnostics (scene_site B) = True"
  "hook (scene_site B) = scene_hook"
  by (simp_all add: scene_site_def)

lemma scene_hop: "detail_hop True scene_hook e loc s = s\<lparr>sc_arena := propagate_rich e [loc] (sc_arena s)\<rparr>"
  by (simp add: detail_hop_def scene_hook_def)

lemma propagate_rich_append: "propagate_rich e (xs @ ys) s = propagate_rich e ys (propagate_rich e xs s)"
  by (induction xs arbitrary: s) simp_all

lemma visited_scan_step:
  assumes "visited B k (scene_scan max_d S' xs) d (s\<lparr>sc_seen := S', sc_where := w\<rparr>) out"
    and "scene_scan max_d S ys = Inr S'"
  shows "visited B k (scene_scan max_d S (ys @ xs)) d s out"
  using assms by (auto simp: visited_def scene_scan_append split: sum.splits)

lemma visit_node:
  assumes "\<And>s'. \<not> max_d < d \<Longrightarrow> visited B k (scene_scan max_d (sc_seen s') xs) d s' (visit_children B max_d cs d 1 s')"
  shows "visited B k (scene_scan max_d (sc_seen s) ((n, d) # xs)) d s (visit B max_d (Node n cs) d s)"
proof (cases "d > max_d")
  case True
  then show ?thesis
    by (auto simp: visited_def fail_fault_eq note_where_def intro!: exI [of _ "sc_seen s"])
next
  case False
  let ?s = "note_where (Node n cs) s"
  let ?c = "check_name B (Node n cs)"
  have where_seen: "sc_seen ?s = sc_seen s" by (simp add: note_where_def)
  have v: "visit B max_d (Node n cs) d s =
      jmpxx_tryv (scene_site B) (tryv_site B) id ?c (visit_children B max_d cs d 1) ?s"
    using False by simp
  from False have c: "case scene_scan max_d (sc_seen s) [(n, d)] of
      Inr S \<Rightarrow> ?c ?s = (Returns (result_of_value n), ?s\<lparr>sc_seen := S\<rparr>)
    | Inl (f, m, h) \<Rightarrow> m = n \<and> h = d + 1 \<and>
        ?c ?s = (Returns (result_of_failure id (fail (fst (faulted B f ?s)))),
          ?s\<lparr>sc_arena := snd (faulted B f ?s)\<rparr>)"
    using check_name_scan [where s = ?s and n = n and cs = cs and B = B, of d max_d] by (simp only: where_seen not_less)
  show ?thesis
  proof (cases "scene_scan max_d (sc_seen s) [(n, d)]")
    case (Inr S)
    let ?s1 = "s\<lparr>sc_seen := S, sc_where := n\<rparr>"
    have ok: "?c ?s = (Returns (result_of_value n), ?s1)" using c Inr by (simp add: note_where_def)
    have "visited B k (scene_scan max_d S xs) d ?s1 (visit B max_d (Node n cs) d s)"
      using assms [OF False, of ?s1]
      by (simp add: v jmpxx_try_value(3) [of "scene_site B" ?c ?s n ?s1, OF plain_scene_site(1) ok] del: visit.simps)
    from visited_scan_step [OF this Inr] show ?thesis by simp
  next
    case (Inl x)
    obtain f m h where x: "x = (f, m, h)" by (cases x)
    have bad: "?c ?s = (Returns (result_of_failure id (fail (fst (faulted B f s)))),
          ?s\<lparr>sc_arena := snd (faulted B f s)\<rparr>)" and mh: "m = n" "h = d + 1"
      using c Inl x by (simp_all add: note_where_def)
    have r: "visit B max_d (Node n cs) d s = (Returns (result_of_failure id (fail (fst (faulted B f s)))),
       s\<lparr>sc_arena := propagate_rich (fst (faulted B f s)) [tryv_site B] (snd (faulted B f s)),
         sc_seen := sc_seen s, sc_where := n\<rparr>)"
      unfolding v jmpxx_try_failure(3) [of "scene_site B" ?c ?s id _ _, OF plain_scene_site(1) bad]
      by (simp add: scene_hop note_where_def)
    have "scene_scan max_d (sc_seen s) ((n, d) # xs) = Inl x"
      using Inl scene_scan_append [of max_d "sc_seen s" "[(n, d)]" xs] by simp
    then show ?thesis
      unfolding visited_def r using x mh
      by (auto intro!: exI [of _ "sc_seen s"] exI [of _ "[tryv_site B]"])
  qed
qed

lemma visit_child:
  assumes first: "visited B j (scene_scan max_d (sc_seen s) xs) (d + 1) s (visit B max_d c (d + 1) s)"
    and rest: "\<And>v k s. c_add counted v = Returns k \<Longrightarrow> sint k = sint counted + j \<Longrightarrow>
      visited B t (scene_scan max_d (sc_seen s) ys) d s (visit_children B max_d cs d k s)"
    and fits: "- (2 ^ 31) \<le> sint counted + j" "sint counted + j < 2 ^ 31"
  shows "visited B t (scene_scan max_d (sc_seen s) (xs @ ys)) d s (visit_children B max_d (c # cs) d counted s)"
proof (cases "scene_scan max_d (sc_seen s) xs")
  case (Inr S)
  then obtain w v where v: "sint v = j"
    "visit B max_d c (d + 1) s = (Returns (result_of_value v), s\<lparr>sc_seen := S, sc_where := w\<rparr>)"
    using first by (auto simp: visited_def)
  let ?s = "s\<lparr>sc_seen := S, sc_where := w\<rparr>" and ?e = "visit B max_d c (d + 1)"
  from int_result_cases [of "sint counted + j"] fits obtain k
    where k: "int_result (sint counted + j) = Returns k" "sint k = sint counted + j"
    by (auto simp: int_result_def)
  have "visit_children B max_d (c # cs) d counted s = visit_children B max_d cs d k ?s"
    using k v(1)
    by (simp add: c_add_def jmpxx_try_value(1) [of "scene_site B" ?e s v ?s, OF plain_scene_site(1) v(2)])
  moreover have "visited B t (scene_scan max_d S ys) d ?s (visit_children B max_d cs d k ?s)"
    using rest [OF _ k(2), of v ?s] k(1) v(1) by (simp add: c_add_def)
  ultimately show ?thesis using visited_scan_step [OF _ Inr] by simp
next
  case (Inl x)
  obtain f n h where x: "x = (f, n, h)" by (cases x)
  let ?e = "visit B max_d c (d + 1)" and ?err = "fst (faulted B f s)"
  obtain S locs where r: "int (length locs) = h - (d + 1)"
    "?e s = (Returns (result_of_failure id (fail ?err)),
       s\<lparr>sc_arena := propagate_rich ?err locs (snd (faulted B f s)), sc_seen := S, sc_where := n\<rparr>)"
    using first Inl x by (auto simp: visited_def)
  have "visit_children B max_d (c # cs) d counted s =
      (Returns (result_of_failure id (fail ?err)),
       s\<lparr>sc_arena := propagate_rich ?err (locs @ [try_site B]) (snd (faulted B f s)), sc_seen := S, sc_where := n\<rparr>)"
    by (simp add: scene_hop propagate_rich_append
      jmpxx_try_failure(1) [of "scene_site B" ?e s id _ _, OF plain_scene_site(1) r(2)])
  then show ?thesis
    using Inl x r(1)
    by (auto simp: visited_def scene_scan_append intro!: exI [of _ S] exI [of _ "locs @ [try_site B]"])
qed

lemma visit_scans:
  "int (length (preorder d node)) < 2 ^ 31 \<Longrightarrow>
     visited B (int (length (preorder d node))) (scene_scan max_d (sc_seen s) (preorder d node)) d s
       (visit B max_d node d s)"
  "0 \<le> sint counted \<Longrightarrow> sint counted + int (length (concat (map (preorder (d + 1)) cs))) < 2 ^ 31 \<Longrightarrow>
     visited B (sint counted + int (length (concat (map (preorder (d + 1)) cs))))
       (scene_scan max_d (sc_seen s) (concat (map (preorder (d + 1)) cs))) d s
       (visit_children B max_d cs d counted s)"
proof (induction B max_d node d and B max_d cs d counted arbitrary: s and s rule: visit_visit_children.induct)
  case (1 B max_d n cs d)
  have one: "sint (1 :: c_int) = 1" by simp
  have "visited B (int (length (preorder d (Node n cs))))
      (scene_scan max_d (sc_seen s') (concat (map (preorder (d + 1)) cs))) d s' (visit_children B max_d cs d 1 s')"
    if "\<not> max_d < d" for s'
    using 1(1) [OF that, of s'] 1(2) by (simp add: one)
  from visit_node [OF this] show ?case by simp
next
  case (2 B max_d d counted)
  then show ?case by (auto simp: visited_def return_value_def intro!: exI [of _ "sc_where s"])
next
  case (3 B max_d c cs d counted)
  let ?j = "int (length (preorder (d + 1) c))" and ?r = "int (length (concat (map (preorder (d + 1)) cs)))"
  have b: "0 \<le> sint counted" "sint counted + (?j + ?r) < 2 ^ 31" using 3(3,4) by simp_all
  have j: "?j < 2 ^ 31" using b by linarith
  have rest: "visited B (sint counted + (?j + ?r)) (scene_scan max_d (sc_seen s') (concat (map (preorder (d + 1)) cs))) d s'
      (visit_children B max_d cs d k s')" if a: "c_add counted v = Returns k" and k: "sint k = sint counted + ?j" for v k s'
    using 3(2) [OF a, of s'] b by (simp add: k add_ac)
  have "visited B (sint counted + (?j + ?r))
     (scene_scan max_d (sc_seen s) (preorder (d + 1) c @ concat (map (preorder (d + 1)) cs))) d s
     (visit_children B max_d (c # cs) d counted s)"
  proof (rule visit_child [OF 3(1) [OF j]])
    show "visited B (sint counted + (?j + ?r)) (scene_scan max_d (sc_seen s') (concat (map (preorder (d + 1)) cs))) d s'
      (visit_children B max_d cs d k s')" if "c_add counted v = Returns k" "sint k = sint counted + ?j" for v k s'
      using rest [OF that] .
  qed (use b in linarith)+
  then show ?case by simp
qed


subsection \<open>The boundary\<close>

definition names_derived :: "scene_build \<Rightarrow> bool" where
  "names_derived B \<longleftrightarrow> sb_reflection B \<or> (\<exists>q. prints_enum (sb_msvc B) q fault_enum (sb_sig B))"

lemma fault_enum_ok: "well_scanned fault_enum"
  by (simp add: well_scanned_def fault_enum_def enumerator_scanned_def to_enum_def is_identifier_def
    identifier_char_def letter_def default_min_def default_max_def range_span_def signed_take_bit_int_eq_self)

lemma fault_name_meta: "names_derived B \<Longrightarrow> fault_name B (fault_value f) = meta_name fault_enum (fault_value f)"
proof -
  assume B: "names_derived B"
  have "to_enum fault_enum (fault_value f) = fault_value f"
    by (cases f) (simp_all add: to_enum_def fault_enum_def signed_take_bit_int_eq_self)
  then show ?thesis
    using B scan_name_agrees [OF fault_enum_ok] by (auto simp: names_derived_def fault_name_def enum_name_def)
qed

lemma sint_fault_value: "sint (of_int (fault_value f) :: c_int) = fault_value f"
  by (cases f) simp_all

definition scene_room :: "source_location store \<Rightarrow> bool" where
  "scene_room a \<longleftrightarrow> store_ok a \<and> depth a < max_inflight"

lemma audit_report_failure:
  "audit_report B (result_of_failure id (fail e)) s =
     Returns (context_report B e (sc_arena s)
       [''ok'' \<mapsto> V_bool False, ''nodes'' \<mapsto> V_int 0, ''fault'' \<mapsto> V_string (fault_name B (sint (rich_code e))),
        ''where'' \<mapsto> V_string (sc_where s)])"
proof -
  have "error_checked (result_of_failure id (fail e) :: (c_int, rich_error) result) = Returns e"
    by (simp add: error_checked_def require_error_def read_err_def transport_simps)
  then show ?thesis by (simp add: audit_report_def value_or_def transport_simps)
qed

text \<open>The body of the scope: the answer, and an arena that only grew.\<close>

lemma visit_reported:
  assumes "names_derived B" and "scene_room a" and "int (length (preorder 0 root)) < 2 ^ 31"
  obtains counted s where "visit B max_d root 0 \<lparr>sc_arena = a, sc_seen = {}, sc_where = []\<rparr> = (Returns counted, s)"
    and "audit_report B counted s = Returns (scene_ref B max_d (Some root))"
    and "store_ok (sc_arena s)" and "prefix (names a) (names (sc_arena s))"
proof -
  let ?s0 = "\<lparr>sc_arena = a, sc_seen = {}, sc_where = []\<rparr>"
  have room: "store_ok a" "depth a < max_inflight" using assms(2) by (simp_all add: scene_room_def)
  have v: "visited B (int (length (preorder 0 root))) (scene_scan max_d {} (preorder 0 root)) 0 ?s0
      (visit B max_d root 0 ?s0)"
    using visit_scans(1) [OF assms(3), of B max_d ?s0] by simp
  show ?thesis
  proof (cases "scene_scan max_d {} (preorder 0 root)")
    case (Inr S)
    then obtain w n where n: "sint n = int (length (preorder 0 root))"
      "visit B max_d root 0 ?s0 = (Returns (result_of_value n), ?s0\<lparr>sc_seen := S, sc_where := w\<rparr>)"
      using v by (auto simp: visited_def)
    have "audit_report B (result_of_value n) (?s0\<lparr>sc_seen := S, sc_where := w\<rparr>) = Returns (scene_ref B max_d (Some root))"
      using n(1) Inr fault_name_meta [OF assms(1), of Fault_none]
      by (auto simp: audit_report_def value_or_def regular_copy_out [OF regular_trivial trivial_nothrow]
        scene_ref_def meta_name_def fault_enum_def transport_simps)
    from that [OF n(2) this] room show ?thesis by simp
  next
    case (Inl x)
    obtain f n h where x: "x = (f, n, h)" by (cases x)
    let ?e = "fst (faulted B f ?s0)"
    obtain S locs where r: "int (length locs) = h"
      "visit B max_d root 0 ?s0 = (Returns (result_of_failure id (fail ?e)),
         ?s0\<lparr>sc_arena := propagate_rich ?e locs (snd (faulted B f ?s0)), sc_seen := S, sc_where := n\<rparr>)"
      using v Inl x by (auto simp: visited_def)
    have mk: "mk_rich (sb_stacktrace B) (sb_trace B) (fault_site B) (of_int (fault_value f)) 0x6a78 a =
        (?e, snd (faulted B f ?s0))" by (simp add: faulted_def)
    obtain hs where c: "rich_code ?e = of_int (fault_value f)"
      "store_ok (propagate_rich ?e locs (snd (faulted B f ?s0)))"
      "names (propagate_rich ?e locs (snd (faulted B f ?s0))) = names a @ [(next_id a, fault_site B)]"
      "available (inspect (sb_stacktrace B) no_location ?e (propagate_rich ?e locs (snd (faulted B f ?s0))))"
      "ctx_origin (inspect (sb_stacktrace B) no_location ?e (propagate_rich ?e locs (snd (faulted B f ?s0)))) = fault_site B"
      "ctx_hop_count (inspect (sb_stacktrace B) no_location ?e (propagate_rich ?e locs (snd (faulted B f ?s0)))) =
         min (length locs) max_chain"
      by (rule mk_rich_chain [OF room mk refl, of locs no_location]) simp
    have "audit_report B (result_of_failure id (fail ?e))
        (?s0\<lparr>sc_arena := propagate_rich ?e locs (snd (faulted B f ?s0)), sc_seen := S, sc_where := n\<rparr>) =
      Returns (scene_ref B max_d (Some root))"
      using c Inl x r(1) fault_name_meta [OF assms(1), of f]
      by (simp add: audit_report_failure context_report_def Let_def sint_fault_value scene_ref_def)
        (simp add: fun_eq_iff)
    from that [OF r(2) this] c(2,3) show ?thesis by simp
  qed
qed

lemma audit_answers:
  assumes "names_derived B" and "scene_room a"
    and "\<And>t. p_root = Some t \<Longrightarrow> int (length (preorder 0 t)) < 2 ^ 31"
  shows "\<exists>a'. audit B max_d p_root a = (Returns (scene_ref B max_d p_root), a') \<and> scene_room a' \<and> names a' = names a"
proof -
  let ?m = "store_mark a"
  have c: "landing_ctor a = (?m, a)" by (simp add: landing_ctor_def)
  have ok: "store_ok a" "depth a < max_inflight" using assms(2) by (simp_all add: scene_room_def)
  have after: "scene_room (landing_dtor ?m a2) \<and> names (landing_dtor ?m a2) = names a"
    if "store_ok a2" "prefix (names a) (names a2)" for a2
    using landing_restores_names [OF ok(1) c that] length_names ok by (metis scene_room_def)
  show ?thesis
  proof (cases p_root)
    case None
    then show ?thesis
      using after [OF ok(1)] fault_name_meta [OF assms(1), of Fault_empty_tree]
      by (simp add: audit_def with_landing_def with_scope_def c scene_ref_def empty_tree_report_def
        meta_name_def fault_enum_def)
  next
    case (Some t)
    obtain counted s where "visit B max_d t 0 \<lparr>sc_arena = a, sc_seen = {}, sc_where = []\<rparr> = (Returns counted, s)"
      "audit_report B counted s = Returns (scene_ref B max_d (Some t))"
      "store_ok (sc_arena s)" "prefix (names a) (names (sc_arena s))"
      using visit_reported [OF assms(1,2) assms(3) [OF Some], of max_d] by blast
    then show ?thesis using Some after by (simp add: audit_def with_landing_def with_scope_def c)
  qed
qed


subsection \<open>Properties\<close>

text \<open>A long-lived object: \<open>max_depth_\<close> starts at 8, and script calls it in any order.\<close>

datatype scene_call = Set_Max_Depth int | Audit "scene_node option"

definition initial_max_depth :: int where "initial_max_depth = 8"

fun scene_session ::
    "scene_build \<Rightarrow> int \<Rightarrow> scene_call list \<Rightarrow> (source_location store, dictionary list) computation" where
  "scene_session B max_d [] a = (Returns [], a)"
| "scene_session B max_d (Set_Max_Depth p # calls) a = scene_session B (set_max_depth p) calls a"
| "scene_session B max_d (Audit p_root # calls) a =
     (case audit B max_d p_root a of
        (Returns out, a) \<Rightarrow>
          (case scene_session B max_d calls a of
             (Returns outs, a) \<Rightarrow> (Returns (out # outs), a)
           | (Fail_Fast m, a) \<Rightarrow> (Fail_Fast m, a) | (Throws, a) \<Rightarrow> (Throws, a) | (Undefined, a) \<Rightarrow> (Undefined, a))
      | (Fail_Fast m, a) \<Rightarrow> (Fail_Fast m, a) | (Throws, a) \<Rightarrow> (Throws, a) | (Undefined, a) \<Rightarrow> (Undefined, a))"

fun session_ref :: "scene_build \<Rightarrow> int \<Rightarrow> scene_call list \<Rightarrow> dictionary list" where
  "session_ref B max_d [] = []"
| "session_ref B max_d (Set_Max_Depth p # calls) = session_ref B (max 1 (min 64 p)) calls"
| "session_ref B max_d (Audit p_root # calls) = scene_ref B max_d p_root # session_ref B max_d calls"

definition small_trees :: "scene_call list \<Rightarrow> bool" where
  "small_trees calls \<longleftrightarrow> list_all (\<lambda>c. case c of Audit (Some t) \<Rightarrow> int (length (preorder 0 t)) < 2 ^ 31 | _ \<Rightarrow> True) calls"

lemma session_answers:
  assumes "names_derived B" and "scene_room a" and "small_trees calls"
  shows "\<exists>a'. scene_session B max_d calls a = (Returns (session_ref B max_d calls), a') \<and>
    scene_room a' \<and> names a' = names a"
  using assms(2,3)
proof (induction calls arbitrary: max_d a)
  case (Cons call calls)
  have rest: "small_trees calls" using Cons.prems(2) by (simp add: small_trees_def)
  show ?case
  proof (cases call)
    case (Set_Max_Depth p)
    have "set_max_depth p = max 1 (min 64 p)" by (simp add: set_max_depth_def max_def min_def)
    then show ?thesis using Set_Max_Depth Cons.IH [OF Cons.prems(1) rest] by simp
  next
    case (Audit p_root)
    have "int (length (preorder 0 t)) < 2 ^ 31" if "p_root = Some t" for t
      using Cons.prems(2) Audit that by (simp add: small_trees_def)
    from audit_answers [OF assms(1) Cons.prems(1) this] obtain a1
      where a1: "audit B max_d p_root a = (Returns (scene_ref B max_d p_root), a1)" "scene_room a1" "names a1 = names a"
      by blast
    obtain a2 where "scene_session B max_d calls a1 = (Returns (session_ref B max_d calls), a2)"
      "scene_room a2" "names a2 = names a1"
      using Cons.IH [OF a1(2) rest] by blast
    then show ?thesis using Audit a1 by simp
  qed
qed simp

text \<open>
  C17. A scene audit used for any sequence of calls answers every audit as a fresh one would:
  the first node in preorder that is too deep, unnamed, reserved or a duplicate is reported
  with its fault's name, its own name, the site that made the error and the number of
  propagation sites it passed, at most sixteen; otherwise the number of nodes.  The arena
  is as it was before the first call, also after failures, and nothing is undefined for
  trees of fewer than 2^31 nodes.  The limit is clamped to 1 to 64.
\<close>

theorem scene_session_answers_like_fresh:
  assumes "names_derived B" and "store_ok a" and "depth a < max_inflight" and "small_trees calls"
  shows "\<exists>a'. scene_session B initial_max_depth calls a = (Returns (session_ref B initial_max_depth calls), a') \<and>
    store_ok a' \<and> names a' = names a"
  using session_answers [OF assms(1) _ assms(4), of a initial_max_depth] assms(2,3)
  by (auto simp: scene_room_def)

text \<open>A chain of nodes below a root, as the module's script builds them.\<close>

primrec chain_of :: "string list \<Rightarrow> scene_node list" where
  "chain_of [] = []"
| "chain_of (n # ns) = [Node n (chain_of ns)]"

definition sample_build :: scene_build where
  "sample_build = \<lparr>sb_mode = 0, sb_stacktrace = False, sb_trace = empty_trace,
     fault_site = \<lparr>file_name = ''scene_audit.cpp'', loc_line = 29, function_name = ''fault''\<rparr>,
     tryv_site = \<lparr>file_name = ''scene_audit.cpp'', loc_line = 73, function_name = ''visit''\<rparr>,
     try_site = \<lparr>file_name = ''scene_audit.cpp'', loc_line = 79, function_name = ''visit''\<rparr>,
     sb_reflection = False, sb_msvc = False, sb_sig = gcc_signature fault_enum\<rparr>"

definition sample_calls :: "scene_call list" where
  "sample_calls =
     [Audit (Some (Node ''root'' (chain_of [''a'', ''b'', ''c'', ''d'', ''e'', ''a'']))),
      Set_Max_Depth 3,
      Audit (Some (Node ''root'' (chain_of [''a'', ''b'', ''c'', ''d'', ''e'']))),
      Set_Max_Depth 8,
      Audit (Some (Node ''root'' (chain_of [''a'', ''b'', ''c'', ''d''])))]"

lemma sample_build_derives: "names_derived sample_build"
proof -
  have "prints_enum False ''app::status::'' fault_enum (gcc_signature fault_enum)"
    by (rule gcc_prints) (simp add: fault_enum_def is_identifier_def identifier_char_def letter_def)
  then show ?thesis by (auto simp: names_derived_def sample_build_def)
qed

definition scene_store :: "source_location store" where
  "scene_store = initial_store (replicate max_inflight \<lparr>rec_id = 0, origin = no_location,
     hops = replicate max_chain no_location, hop_count = 0, hops_truncated = False, rec_trace = empty_trace\<rparr>)"

theorem scene_session_answers_like_fresh_witness:
  "\<exists>outs a'. scene_session sample_build initial_max_depth sample_calls scene_store = (Returns outs, a') \<and>
     map (\<lambda>out. out ''fault'') outs =
       [Some (V_string ''duplicate_name''), Some (V_string ''too_deep''), Some (V_string ''none'')] \<and>
     map (\<lambda>out. out ''hops'') outs = [Some (V_int 7), Some (V_int 4), None] \<and>
     map (\<lambda>out. out ''nodes'') outs = [Some (V_int 0), Some (V_int 0), Some (V_int 5)]"
proof -
  have st: "store_ok scene_store" "depth scene_store < max_inflight"
    by (simp_all add: scene_store_def initial_store_def store_ok_def record_ok_def max_inflight_def max_chain_def)
  have small: "small_trees sample_calls" by (simp add: small_trees_def sample_calls_def)
  have "map (\<lambda>out. out ''fault'') (session_ref sample_build initial_max_depth sample_calls) =
       [Some (V_string ''duplicate_name''), Some (V_string ''too_deep''), Some (V_string ''none'')] \<and>
     map (\<lambda>out. out ''hops'') (session_ref sample_build initial_max_depth sample_calls) = [Some (V_int 7), Some (V_int 4), None] \<and>
     map (\<lambda>out. out ''nodes'') (session_ref sample_build initial_max_depth sample_calls) = [Some (V_int 0), Some (V_int 0), Some (V_int 5)]"
    by (simp add: sample_calls_def initial_max_depth_def scene_ref_def meta_name_def fault_enum_def max_chain_def)
  moreover obtain a' where
    "scene_session sample_build initial_max_depth sample_calls scene_store =
       (Returns (session_ref sample_build initial_max_depth sample_calls), a')"
    using scene_session_answers_like_fresh [OF sample_build_derives st small] by blast
  ultimately show ?thesis by (intro exI conjI) (assumption | simp)+
qed

text \<open>
  An audit accepts a tree exactly when every node is named, no name is reserved, no two
  names are equal and no node is deeper than the limit; it then reports the number of nodes.
\<close>

theorem scene_audit_accepts_clean_trees:
  assumes "names_derived B" and "store_ok a" and "depth a < max_inflight" and "int (length (preorder 0 t)) < 2 ^ 31"
  shows "(\<exists>out a'. audit B max_d (Some t) a = (Returns out, a') \<and> out ''ok'' = Some (V_bool True) \<and>
            out ''nodes'' = Some (V_int (int (length (preorder 0 t))))) \<longleftrightarrow>
         (\<forall>(n, d) \<in> set (preorder 0 t). d \<le> max_d \<and> n \<noteq> [] \<and> take 4 n \<noteq> ''tmp_'') \<and>
         distinct (map fst (preorder 0 t))"
proof -
  obtain a' where "audit B max_d (Some t) a = (Returns (scene_ref B max_d (Some t)), a')"
    using audit_answers [OF assms(1), of a "Some t"] assms(2-4) by (auto simp: scene_room_def)
  moreover have "scene_ref B max_d (Some t) ''ok'' = Some (V_bool True) \<and>
      scene_ref B max_d (Some t) ''nodes'' = Some (V_int (int (length (preorder 0 t)))) \<longleftrightarrow>
      (\<exists>S. scene_scan max_d {} (preorder 0 t) = Inr S)"
    by (auto simp: scene_ref_def split: sum.splits)
  ultimately show ?thesis using scene_scan_Inr_iff [of max_d "{}" "preorder 0 t"] by (auto simp: case_prod_beta)
qed

theorem scene_audit_accepts_clean_trees_witness:
  "\<exists>out a'. audit sample_build 8 (Some (Node ''root'' (chain_of [''a'', ''b'']))) scene_store = (Returns out, a') \<and>
     out ''ok'' = Some (V_bool True) \<and> out ''nodes'' = Some (V_int 3)"
proof -
  have st: "store_ok scene_store" "depth scene_store < max_inflight"
    by (simp_all add: scene_store_def initial_store_def store_ok_def record_ok_def max_inflight_def max_chain_def)
  show ?thesis
    using scene_audit_accepts_clean_trees [OF sample_build_derives st, of "Node ''root'' (chain_of [''a'', ''b''])" 8]
    by simp
qed

end
