(* ===== verification/App_Config.thy ===== *)
theory App_Config
  imports Policy_Chains Reflect_Layer Interop_Bridges
begin

text \<open>
  The configuration validator (\<open>reference_app/src/config_validate.cpp\<close>) with its components
  (\<open>app_policy.hpp\<close>, \<open>limits_check.hpp\<close>, \<open>policy_check.hpp\<close>), and the two validators that
  \<open>config_bench.cpp\<close> compares.

  The build's error policy is a record: how \<open>app::error\<close> is made, what a hop records, the
  code and domain a landing reads, whether \<open>report\<close> prints a context, and what the landing
  object does.  The parsed table, the JSON reader and its error formatter are third-party
  code and arguments.
\<close>

subsection \<open>The application's policy\<close>

record ('s, 'e) app_build =
  app_mode :: int
  app_diag :: bool
  app_make :: "source_location \<Rightarrow> c_int \<Rightarrow> c_int \<Rightarrow> 's \<Rightarrow> 'e \<times> 's"
  app_hook :: "'e \<Rightarrow> source_location \<Rightarrow> 's \<Rightarrow> 's"
  app_base :: "'e \<Rightarrow> error"
  app_print :: "('e \<Rightarrow> 's \<Rightarrow> string outcome) option"
  app_enter :: "'s \<Rightarrow> int \<times> 's"
  app_leave :: "int \<Rightarrow> 's \<Rightarrow> 's"

definition minimal_app :: "int \<Rightarrow> bool \<Rightarrow> ('s, error) app_build" where
  "minimal_app mode diag =
     \<lparr>app_mode = mode, app_diag = diag, app_make = make_minimal, app_hook = note_propagation_default,
      app_base = id, app_print = None, app_enter = (\<lambda>s. (0, s)), app_leave = (\<lambda>_ s. s)\<rparr>"

definition rich_app :: "int \<Rightarrow> bool \<Rightarrow> trace \<Rightarrow> (source_location store, rich_error) app_build" where
  "rich_app mode st t =
     \<lparr>app_mode = mode, app_diag = True, app_make = make_rich st t, app_hook = note_propagation_rich,
      app_base = rich_base, app_print = Some (\<lambda>e s. print_rich True st no_location e s),
      app_enter = landing_ctor, app_leave = landing_dtor\<rparr>"

text \<open>The output: lines every build prints, and the context only a rich build adds.\<close>

datatype out_line = Plain string | Context string

definition error_line :: "error \<Rightarrow> string" where
  "error_line e = ''error: code='' @ show_int (sint (err_code e)) @ '' domain='' @ show_int (sint (err_domain e))"

definition report :: "('s, 'e) app_build \<Rightarrow> 'e \<Rightarrow> 's \<Rightarrow> out_line list outcome" where
  "report B e s =
     (case app_print B of
        None \<Rightarrow> Returns [Plain (error_line (app_base B e))]
      | Some print \<Rightarrow>
          map_outcome_value (\<lambda>t. [Plain (error_line (app_base B e)), Context t]) (print e s))"

definition app_site :: "('s, 'e) app_build \<Rightarrow> ('s, 'v, 'e, source_location) site" where
  "app_site B = shipped_site (app_mode B) (app_diag B) (app_hook B)"


subsection \<open>What the program is given\<close>

record access =
  access_mode :: string
  max_sessions :: c_int
  allow :: "string list"

text \<open>
  \<open>at\<close> numbers the sites of \<open>config_validate.cpp\<close> that create or propagate an \<open>app::error\<close>.
  The table's typed lookups yield a value or nothing; an integer is an \<open>int64_t\<close>.
\<close>

record ('t, 'g) config_env =
  at :: "nat \<Rightarrow> source_location"
  parse_file :: "string \<Rightarrow> c_uint32 + 't"
  string_at :: "'t \<Rightarrow> string \<Rightarrow> string \<Rightarrow> string option"
  int_at :: "'t \<Rightarrow> string \<Rightarrow> string \<Rightarrow> int option"
  is_table_at :: "'t \<Rightarrow> string \<Rightarrow> bool"
  read_json :: "string \<Rightarrow> (access, 'g) std_expected"
  format_error :: "'g \<Rightarrow> string \<Rightarrow> string"
  limits_domain :: addr
  domain_objects :: domains


subsection \<open>The [limits] component\<close>

definition limit_error :: enum_decl where
  "limit_error = \<lparr>enum_type_name = ''limit_error'',
     enumerators = [(''missing_section'', 1), (''missing_key'', 2), (''out_of_range'', 3)],
     enum_bits = 32, enum_signed = True, scan_min = default_min, scan_max = default_max\<rparr>"

record limits_config =
  max_connections :: c_int
  timeout_ms :: c_int

definition limits_read ::
    "('t, 'g) config_env \<Rightarrow> 't \<Rightarrow> string \<Rightarrow> int \<Rightarrow> int \<Rightarrow> ('s, (c_int, erased_error) result) computation" where
  "limits_read L t key lo hi =
     (case int_at L t ''limits'' key of
        None \<Rightarrow> return_fail id (as_erased (limits_domain L) 2)
      | Some v \<Rightarrow>
          if v < lo \<or> v > hi then return_fail id (as_erased (limits_domain L) 3)
          else return_value (of_int v))"

definition limits_check ::
    "int \<Rightarrow> bool \<Rightarrow> ('t, 'g) config_env \<Rightarrow> 't \<Rightarrow> ('s, (limits_config, erased_error) result) computation" where
  "limits_check mode diag L t =
     (let site = shipped_site mode diag note_propagation_default in
      if \<not> is_table_at L t ''limits'' then return_fail id (as_erased (limits_domain L) 1)
      else
        jmpxx_try site (at L 0) id (limits_read L t ''max_connections'' 1 1000000) (\<lambda>m.
        jmpxx_try site (at L 9) id (limits_read L t ''timeout_ms'' 1 600000) (\<lambda>ms.
        return_value \<lparr>max_connections = m, timeout_ms = ms\<rparr>)))"


subsection \<open>The [policy] component\<close>

definition policy_parse :: "('t, 'g) config_env \<Rightarrow> string \<Rightarrow> (access, 'g) result outcome" where
  "policy_parse L json =
     map_outcome_value fst (from_expected_rvalue trivial_payload trivial_payload (read_json L json))"


subsection \<open>The [server] pipeline\<close>

definition dom_parse :: c_int where "dom_parse = 1"
definition dom_schema :: c_int where "dom_schema = 2"
definition code_missing :: c_int where "code_missing = 1"
definition code_out_of_range :: c_int where "code_out_of_range = 3"

record server_config =
  cfg_host :: string
  cfg_port :: c_int
  cfg_workers :: c_int

text \<open>A callable the adapters run when the foreign value is absent: it makes an error, in place.\<close>

definition with_error ::
    "('s, 'e) app_build \<Rightarrow> source_location \<Rightarrow> c_int \<Rightarrow> c_int \<Rightarrow> ('e outcome \<Rightarrow> 'a outcome) \<Rightarrow> ('s, 'a) computation" where
  "with_error B loc c d k s = (let (e, s) = app_make B loc c d s in (k (Returns e), s))"

definition load ::
    "('s, 'e) app_build \<Rightarrow> ('t, 'g) config_env \<Rightarrow> string \<Rightarrow> ('s, ('t, 'e) result) computation" where
  "load B L path =
     (case parse_file L path of
        Inr t \<Rightarrow> (\<lambda>s. (from_condition trivial_payload True (Returns t) Undefined, s))
      | Inl line \<Rightarrow> with_error B (at L 1) line dom_parse (from_condition trivial_payload False Undefined))"

definition optional_field ::
    "('s, 'e) app_build \<Rightarrow> source_location \<Rightarrow> 'v option \<Rightarrow> ('s, ('v, 'e) result) computation" where
  "optional_field B loc v =
     (case v of
        Some _ \<Rightarrow> (\<lambda>s. (from_optional_rvalue trivial_payload v Undefined, s))
      | None \<Rightarrow> with_error B loc code_missing dom_schema (from_optional_rvalue trivial_payload v))"

definition field_string ::
    "('s, 'e) app_build \<Rightarrow> ('t, 'g) config_env \<Rightarrow> 't \<Rightarrow> string \<Rightarrow> string \<Rightarrow> ('s, (string, 'e) result) computation" where
  "field_string B L t sec key = optional_field B (at L 2) (string_at L t sec key)"

definition field_int ::
    "('s, 'e) app_build \<Rightarrow> ('t, 'g) config_env \<Rightarrow> 't \<Rightarrow> string \<Rightarrow> string \<Rightarrow> int \<Rightarrow> int \<Rightarrow>
     ('s, (c_int, 'e) result) computation" where
  "field_int B L t sec key lo hi =
     jmpxx_try (app_site B) (at L 4) id (optional_field B (at L 3) (int_at L t sec key)) (\<lambda>v.
       if v < lo \<or> v > hi then
         with_error B (at L 5) code_out_of_range dom_schema
           (map_outcome_value (\<lambda>e. result_of_failure id (fail e)))
       else return_value (of_int v))"

definition validate ::
    "('s, 'e) app_build \<Rightarrow> ('t, 'g) config_env \<Rightarrow> 't \<Rightarrow> ('s, (server_config, 'e) result) computation" where
  "validate B L t =
     jmpxx_try (app_site B) (at L 6) id (field_string B L t ''server'' ''host'') (\<lambda>host.
     jmpxx_try (app_site B) (at L 7) id (field_int B L t ''server'' ''port'' 1 65535) (\<lambda>port.
     jmpxx_try (app_site B) (at L 8) id (field_int B L t ''server'' ''workers'' 1 1024) (\<lambda>workers.
     return_value \<lparr>cfg_host = host, cfg_port = port, cfg_workers = workers\<rparr>)))"


subsection \<open>The program\<close>

text \<open>\<open>std::printf\<close> of a line, \<open>app::report\<close> of the failure, \<open>return 1\<close>.\<close>

definition stop_with ::
    "('s, 'e) app_build \<Rightarrow> string \<Rightarrow> ('v, 'e) result \<Rightarrow> ('s, int \<times> out_line list) computation" where
  "stop_with B line r =
     after (\<lambda>s. (bind_outcome (error_checked r) (\<lambda>e. report B e s), s))
       (\<lambda>ls. pure_step (Returns (1, Plain line # ls)))"

definition limits_stop ::
    "int \<Rightarrow> ('t, 'g) config_env \<Rightarrow> (limits_config, erased_error) result \<Rightarrow> (int \<times> out_line list) outcome" where
  "limits_stop mode L lim =
     bind_outcome (error_checked lim) (\<lambda>e.
     bind_outcome (erased_domain_name mode (domain_objects L) e) (\<lambda>dn.
     bind_outcome (erased_message mode (domain_objects L) e) (\<lambda>msg.
     Returns (1, [Plain ''invalid [limits] section'',
       Plain (''error in domain '' @ [CHR 0x27] @ c_str dn @ [CHR 0x27] @ '': '' @ c_str msg @
         '' (value '' @ show_int (sint (erased_value e)) @ '')'')]))))"

definition valid_line :: "server_config \<Rightarrow> limits_config \<Rightarrow> access \<Rightarrow> string" where
  "valid_line cfg lim pol =
     ''valid config: host='' @ c_str (cfg_host cfg) @ '' port='' @ show_int (sint (cfg_port cfg)) @
     '' workers='' @ show_int (sint (cfg_workers cfg)) @
     '' max_connections='' @ show_int (sint (max_connections lim)) @
     '' timeout_ms='' @ show_int (sint (timeout_ms lim)) @
     '' policy.mode='' @ c_str (access_mode pol) @
     '' policy.max_sessions='' @ show_int (sint (max_sessions pol)) @
     '' policy.allow='' @ show_nat (length (allow pol)) @ '' rules''"

definition print_valid ::
    "(server_config, 'e) result \<Rightarrow> (limits_config, erased_error) result \<Rightarrow> (access, 'g) result \<Rightarrow>
     (int \<times> out_line list) outcome" where
  "print_valid cfg lim pol =
     bind_outcome (value_checked cfg) (\<lambda>c.
     bind_outcome (value_checked lim) (\<lambda>l.
     bind_outcome (value_checked pol) (\<lambda>p. Returns (0, [Plain (valid_line c l p)]))))"

definition policy_stage ::
    "('s, 'e) app_build \<Rightarrow> ('t, 'g) config_env \<Rightarrow> 't \<Rightarrow> (server_config, 'e) result \<Rightarrow>
     (limits_config, erased_error) result \<Rightarrow> ('s, int \<times> out_line list) computation" where
  "policy_stage B L t cfg lim =
     after (field_string B L t ''policy'' ''access'') (\<lambda>policy_json.
     if \<not> has_value policy_json then stop_with B ''missing [policy].access'' policy_json
     else
       after (pure_step (deref_checked policy_json)) (\<lambda>json.
       after (pure_step (policy_parse L json)) (\<lambda>pol.
       if \<not> has_value pol then
         pure_step (bind_outcome (error_checked pol) (\<lambda>g.
           Returns (1, [Plain (''invalid [policy] access JSON: '' @ c_str (format_error L g json))])))
       else pure_step (print_valid cfg lim pol))))"

definition config_main ::
    "('s, 'e) app_build \<Rightarrow> ('t, 'g) config_env \<Rightarrow> string list \<Rightarrow> ('s, int \<times> out_line list) computation" where
  "config_main B L args =
     (case args of
        [] \<Rightarrow> pure_step (Returns (2, [Plain ''usage: config_validate <file.toml>'']))
      | path # _ \<Rightarrow>
          with_scope (app_enter B) (app_leave B) (
            after (load B L path) (\<lambda>table.
            if \<not> has_value table then stop_with B (''could not load '' @ path) table
            else
              after (pure_step (deref_checked table)) (\<lambda>t.
              after (validate B L t) (\<lambda>cfg.
              if \<not> has_value cfg then stop_with B ''invalid [server] section'' cfg
              else
                after (limits_check (app_mode B) (app_diag B) L t) (\<lambda>lim.
                if \<not> has_value lim then pure_step (limits_stop (app_mode B) L lim)
                else policy_stage B L t cfg lim))))))"


subsection \<open>What the program decides\<close>

text \<open>The reference: plain functions of the lookups, with no transport, policy or state.\<close>

definition optional_ref :: "'v option \<Rightarrow> error + 'v" where
  "optional_ref v = (case v of Some x \<Rightarrow> Inr x | None \<Rightarrow> Inl (mk_error 1 2))"

definition bounded_ref :: "int option \<Rightarrow> int \<Rightarrow> int \<Rightarrow> error + c_int" where
  "bounded_ref v lo hi =
     (case v of
        None \<Rightarrow> Inl (mk_error 1 2)
      | Some x \<Rightarrow> if lo \<le> x \<and> x \<le> hi then Inr (of_int x) else Inl (mk_error 3 2))"

primrec bind_sum :: "'e + 'a \<Rightarrow> ('a \<Rightarrow> 'e + 'b) \<Rightarrow> 'e + 'b" where
  "bind_sum (Inl e) k = Inl e"
| "bind_sum (Inr x) k = k x"

definition server_ref :: "('t, 'g) config_env \<Rightarrow> 't \<Rightarrow> error + server_config" where
  "server_ref L t =
     bind_sum (optional_ref (string_at L t ''server'' ''host'')) (\<lambda>host.
     bind_sum (bounded_ref (int_at L t ''server'' ''port'') 1 65535) (\<lambda>port.
     bind_sum (bounded_ref (int_at L t ''server'' ''workers'') 1 1024) (\<lambda>workers.
     Inr \<lparr>cfg_host = host, cfg_port = port, cfg_workers = workers\<rparr>)))"

definition limit_ref :: "int option \<Rightarrow> int \<Rightarrow> int \<Rightarrow> int + c_int" where
  "limit_ref v lo hi =
     (case v of None \<Rightarrow> Inl 2 | Some x \<Rightarrow> if lo \<le> x \<and> x \<le> hi then Inr (of_int x) else Inl 3)"

definition limits_ref :: "('t, 'g) config_env \<Rightarrow> 't \<Rightarrow> int + limits_config" where
  "limits_ref L t =
     (if \<not> is_table_at L t ''limits'' then Inl 1
      else
        bind_sum (limit_ref (int_at L t ''limits'' ''max_connections'') 1 1000000) (\<lambda>m.
        bind_sum (limit_ref (int_at L t ''limits'' ''timeout_ms'') 1 600000) (\<lambda>ms.
        Inr \<lparr>max_connections = m, timeout_ms = ms\<rparr>)))"

definition limits_text :: "int \<Rightarrow> string" where
  "limits_text v = ''error in domain '' @ [CHR 0x27] @ ''limit_error'' @ [CHR 0x27] @ '': '' @
     meta_name limit_error v @ '' (value '' @ show_int v @ '')''"

definition policy_ref :: "('t, 'g) config_env \<Rightarrow> 't \<Rightarrow> server_config \<Rightarrow> limits_config \<Rightarrow> int \<times> string list" where
  "policy_ref L t cfg lim =
     (case string_at L t ''policy'' ''access'' of
        None \<Rightarrow> (1, [''missing [policy].access'', error_line (mk_error 1 2)])
      | Some json \<Rightarrow>
          (case read_json L json of
             Unexpected g \<Rightarrow> (1, [''invalid [policy] access JSON: '' @ c_str (format_error L g json)])
           | Expected pol \<Rightarrow> (0, [valid_line cfg lim pol])))"

definition config_ref :: "('t, 'g) config_env \<Rightarrow> string list \<Rightarrow> int \<times> string list" where
  "config_ref L args =
     (case args of
        [] \<Rightarrow> (2, [''usage: config_validate <file.toml>''])
      | path # _ \<Rightarrow>
          (case parse_file L path of
             Inl line \<Rightarrow> (1, [''could not load '' @ path, error_line (mk_error line 1)])
           | Inr t \<Rightarrow>
               (case server_ref L t of
                  Inl e \<Rightarrow> (1, [''invalid [server] section'', error_line e])
                | Inr cfg \<Rightarrow>
                    (case limits_ref L t of
                       Inl v \<Rightarrow> (1, [''invalid [limits] section'', limits_text v])
                     | Inr lim \<Rightarrow> policy_ref L t cfg lim))))"

fun plain_lines :: "out_line list \<Rightarrow> string list" where
  "plain_lines [] = []"
| "plain_lines (Plain l # ls) = l # plain_lines ls"
| "plain_lines (Context c # ls) = plain_lines ls"


subsection \<open>What a policy owes the application\<close>

text \<open>
  A computation delivers a reference when, from every good state, it returns a well-formed
  result the landing reads as that reference, and leaves a good state.
\<close>

definition delivers ::
    "('s \<Rightarrow> bool) \<Rightarrow> ('e \<Rightarrow> 'o) \<Rightarrow> ('s, ('v, 'e) result) computation \<Rightarrow> 'o + 'v \<Rightarrow> bool" where
  "delivers good observe expr expected \<longleftrightarrow>
     (\<forall>s. good s \<longrightarrow> (\<exists>r s'. expr s = (Returns r, s') \<and> well_formed r \<and> good s' \<and>
        map_sum observe id (abs_result r) = expected))"

lemma deliversD:
  assumes "delivers good observe expr expected" and "good s"
  obtains r s' where "expr s = (Returns r, s')" "well_formed r" "good s'"
    "map_sum observe id (abs_result r) = expected"
  using assms by (auto simp: delivers_def)

lemma delivers_value: "delivers good observe (return_value v) (Inr v)"
  by (auto simp: delivers_def return_value_def transport_simps abs_result_def well_formed_def)

lemma delivers_fail: "delivers good observe (return_fail id e) (Inl (observe e))"
  by (auto simp: delivers_def return_fail_def transport_simps abs_result_def well_formed_def)

lemma delivers_try:
  assumes "delivers good observe expr x" and "\<And>v. x = Inr v \<Longrightarrow> delivers good observe (rest v) (k v)"
    and "plain_site st" and "\<And>e loc s. good s \<Longrightarrow> good (hook st e loc s)"
  shows "delivers good observe (jmpxx_try st loc id expr rest) (bind_sum x k)"
  unfolding delivers_def
proof (intro allI impI)
  fix s assume "good s"
  then obtain r s1 where r: "expr s = (Returns r, s1)" "well_formed r" "good s1"
    "map_sum observe id (abs_result r) = x" using deliversD [OF assms(1)] by blast
  from r(2) show "\<exists>q s'. jmpxx_try st loc id expr rest s = (Returns q, s') \<and> well_formed q \<and> good s' \<and>
      map_sum observe id (abs_result q) = bind_sum x k"
  proof (cases rule: well_formed_cases)
    case (val v)
    then have "r = result_of_value v" "x = Inr v" using r(4) by (auto simp: transport_simps abs_result_def)
    then show ?thesis
      using assms(2) r(1,3) deliversD by (auto simp: jmpxx_try_value(1) [OF assms(3)] delivers_def)
  next
    case (err e)
    then have x: "expr s = (Returns (result_of_failure id (fail e)), s1)" "x = Inl (observe e)"
      using r(1,4) by (auto simp: transport_simps abs_result_def)
    have "jmpxx_try st loc id expr rest s = (Returns (result_of_failure id (fail e)), detail_hop (diagnostics st) (hook st) e loc s1)"
      using jmpxx_try_failure(1) [of st expr s id e s1, OF assms(3) x(1)] by simp
    moreover have "good (detail_hop (diagnostics st) (hook st) e loc s1)"
      using assms(4) r(3) by (simp add: detail_hop_def)
    ultimately show ?thesis using x(2) by (auto simp: transport_simps abs_result_def well_formed_def)
  qed
qed

text \<open>The same for the program's stages, whose result is an exit status and printed lines.\<close>

definition finishes ::
    "('s \<Rightarrow> bool) \<Rightarrow> ('s, int \<times> out_line list) computation \<Rightarrow> int \<times> string list \<Rightarrow> bool" where
  "finishes good stage expected \<longleftrightarrow>
     (\<forall>s. good s \<longrightarrow> (\<exists>out s'. stage s = (Returns (fst expected, out), s') \<and>
        plain_lines out = snd expected \<and> good s'))"

lemma finishes_after:
  assumes "delivers good observe expr x"
    and "\<And>r. well_formed r \<Longrightarrow> map_sum observe id (abs_result r) = x \<Longrightarrow> finishes good (rest r) expected"
  shows "finishes good (after expr rest) expected"
  unfolding finishes_def
proof (intro allI impI)
  fix s assume "good s"
  then obtain r s1 where "expr s = (Returns r, s1)" "well_formed r" "good s1" "map_sum observe id (abs_result r) = x"
    using deliversD [OF assms(1)] by blast
  then show "\<exists>out s'. after expr rest s = (Returns (fst expected, out), s') \<and> plain_lines out = snd expected \<and> good s'"
    using assms(2) by (simp add: after_def finishes_def)
qed

lemma finishes_pure: "r = Returns (c, map Plain ls) \<Longrightarrow> finishes good (pure_step r) (c, ls)"
proof -
  have "plain_lines (map Plain ls) = ls" by (induction ls) simp_all
  then show "r = Returns (c, map Plain ls) \<Longrightarrow> finishes good (pure_step r) (c, ls)"
    by (simp add: finishes_def pure_step_def)
qed

lemma finishes_after_pure: "finishes good (rest x) expected \<Longrightarrow> finishes good (after (pure_step (Returns x)) rest) expected"
  by (simp add: finishes_def after_def pure_step_def)

lemma observed_cases:
  assumes "well_formed r" and "map_sum observe id (abs_result r) = x"
  obtains v where "x = Inr v" "r = result_of_value v" "has_value r"
    | e where "x = Inl (observe e)" "r = result_of_failure id (fail e)" "\<not> has_value r"
  using assms by (cases rule: well_formed_cases) (auto simp: transport_simps abs_result_def)

lemma checked_reads:
  "value_checked (result_of_value v) = Returns v" "deref_checked (result_of_value v) = Returns v"
  "error_checked (result_of_failure id (fail e)) = Returns e"
  "has_value (result_of_value v)" "\<not> has_value (result_of_failure id (fail e))"
  by (simp_all add: value_checked_def deref_checked_def error_checked_def require_value_def require_error_def
    read_val_def read_err_def transport_simps)

lemma result_in_place_id: "result_in_place id v = result_of_value v"
  by (simp add: transport_simps)

lemma trivial_move_out: "\<exists>x'. move_out trivial_payload x = Returns (x, x')"
  by (rule regular_move_out [OF regular_trivial trivial_nothrow])

definition limits_domain_ok :: "('t, 'g) config_env \<Rightarrow> bool" where
  "limits_domain_ok L \<longleftrightarrow> limits_domain L \<noteq> 0 \<and>
     (\<exists>reflection msvc sig type_sig.
        domain_objects L (limits_domain L) = Some (reflected_domain reflection msvc sig type_sig limit_error) \<and>
        (reflection \<or> (\<exists>q t. prints_enum msvc q limit_error sig \<and> scope_text t \<and>
           compiler_prints msvc ''T = '' (t @ ''limit_error'') type_sig)))"

lemma limit_error_ok: "well_scanned limit_error" "is_identifier ''limit_error''"
  by (simp_all add: well_scanned_def limit_error_def enumerator_scanned_def to_enum_def is_identifier_def
    identifier_char_def letter_def default_min_def default_max_def range_span_def signed_take_bit_int_eq_self)

lemma limits_domain_reads:
  assumes "limits_domain_ok L"
  obtains d where "domain_objects L (limits_domain L) = Some d" "limits_domain L \<noteq> 0" "dom_name d = ''limit_error''"
    "\<And>v. dom_message d v = (case named limit_error (sint v) of Some n \<Rightarrow> n | None \<Rightarrow> ''unknown error'')"
proof -
  obtain reflection msvc sig type_sig where
    d: "domain_objects L (limits_domain L) = Some (reflected_domain reflection msvc sig type_sig limit_error)"
      "limits_domain L \<noteq> 0" and
    path: "reflection \<or> (\<exists>q t. prints_enum msvc q limit_error sig \<and> scope_text t \<and>
      compiler_prints msvc ''T = '' (t @ ''limit_error'') type_sig)"
    using assms unfolding limits_domain_ok_def by blast
  let ?d = "reflected_domain reflection msvc sig type_sig limit_error"
  have "dom_name ?d = ''limit_error'' \<and>
      (\<forall>v. dom_message ?d v = (case named limit_error (sint v) of Some n \<Rightarrow> n | None \<Rightarrow> ''unknown error''))"
  proof (cases reflection)
    case True
    then show ?thesis using meta_message_agrees [OF limit_error_ok(1)]
      by (simp add: reflected_domain_def type_name_def limit_error_def)
  next
    case False
    then obtain q t where p: "prints_enum msvc q limit_error sig" "scope_text t"
      "compiler_prints msvc ''T = '' (t @ ''limit_error'') type_sig" using path by blast
    have "type_spelling msvc type_sig = Some ''limit_error''"
      using type_spelling_printed [OF p(3)] qualified_name_stripped [OF p(2) limit_error_ok(2)] by simp
    then show ?thesis using False table_message_agrees [OF limit_error_ok(1) p(1)]
      by (simp add: reflected_domain_def type_name_def)
  qed
  then show ?thesis using that d by blast
qed

lemma limits_read_delivers:
  "delivers good id (limits_read L t key lo hi) (map_sum (as_erased (limits_domain L)) id (limit_ref (int_at L t ''limits'' key) lo hi))"
  using delivers_fail [of good id "as_erased (limits_domain L) 2"] delivers_fail [of good id "as_erased (limits_domain L) 3"]
    delivers_value [of good id]
  by (auto simp: limits_read_def limit_ref_def split: option.splits)

lemma limits_delivers:
  "delivers good id (limits_check mode diag L t) (map_sum (as_erased (limits_domain L)) id (limits_ref L t))"
proof -
  let ?m = "map_sum (as_erased (limits_domain L)) id" and ?st = "shipped_site mode diag note_propagation_default"
  have site: "good s \<Longrightarrow> good (hook ?st e loc s)" for e loc s
    by (simp add: note_propagation_default_def)
  have fuse: "?m (bind_sum x k) = bind_sum (?m x) (\<lambda>v. ?m (k v))" for x :: "int + 'x" and k :: "'x \<Rightarrow> int + 'y"
    by (cases x) simp_all
  show ?thesis
  proof (cases "is_table_at L t ''limits''")
    case False
    then show ?thesis
      using delivers_fail [of good id "as_erased (limits_domain L) 1"] by (simp add: limits_check_def limits_ref_def)
  next
    case True
    have "delivers good id
      (jmpxx_try ?st (at L 0) id (limits_read L t ''max_connections'' 1 1000000) (\<lambda>m.
       jmpxx_try ?st (at L 9) id (limits_read L t ''timeout_ms'' 1 600000) (\<lambda>ms.
       return_value \<lparr>max_connections = m, timeout_ms = ms\<rparr>)))
      (bind_sum (?m (limit_ref (int_at L t ''limits'' ''max_connections'') 1 1000000)) (\<lambda>m.
       bind_sum (?m (limit_ref (int_at L t ''limits'' ''timeout_ms'') 1 600000)) (\<lambda>ms.
       Inr \<lparr>max_connections = m, timeout_ms = ms\<rparr>)))"
      by (intro delivers_try limits_read_delivers plain_shipped_site site delivers_value)
    then show ?thesis using True by (simp add: limits_check_def limits_ref_def fuse Let_def)
  qed
qed

lemma limits_ref_values: "limits_ref L t = Inl v \<Longrightarrow> v = 1 \<or> v = 2 \<or> v = 3"
  by (auto simp: limits_ref_def limit_ref_def split: if_splits option.splits)

lemma limits_stop_finishes:
  assumes "limits_domain_ok L" and "limits_ref L t = Inl v"
  shows "finishes good (pure_step (limits_stop mode L (result_of_failure id (fail (as_erased (limits_domain L) v)))))
    (1, [''invalid [limits] section'', limits_text v])"
proof -
  obtain d where d: "domain_objects L (limits_domain L) = Some d" "limits_domain L \<noteq> 0" "dom_name d = ''limit_error''"
    "\<And>v. dom_message d v = (case named limit_error (sint v) of Some n \<Rightarrow> n | None \<Rightarrow> ''unknown error'')"
    using limits_domain_reads [OF assms(1)] by blast
  have v: "v \<in> {1, 2, 3}" using limits_ref_values [OF assms(2)] by simp
  have s: "sint (of_int v :: c_int) = v" using v by auto
  have m: "dom_message d (of_int v) = meta_name limit_error v"
    using v by (auto simp: d(4) s named_def meta_name_def limit_error_def)
  have plain: "c_str (meta_name limit_error v) = meta_name limit_error v" "c_str ''limit_error'' = ''limit_error''"
    using v by (auto simp: c_str_def meta_name_def limit_error_def)
  have "limits_stop mode L (result_of_failure id (fail (as_erased (limits_domain L) v))) =
      Returns (1, map Plain [''invalid [limits] section'', limits_text v])"
    using d(1,2,3) m s plain
    by (simp add: limits_stop_def checked_reads as_erased_def policy_simps limits_text_def)
  then show ?thesis by (rule finishes_pure)
qed

locale app_policy =
  fixes B :: "('s, 'e) app_build"
    and good :: "'s \<Rightarrow> bool"
  assumes make_base: "good s \<Longrightarrow> app_make B loc c d s = (e, s') \<Longrightarrow> app_base B e = mk_error c d \<and> good s'"
    and hook_good: "good s \<Longrightarrow> good (app_hook B e loc s)"
    and print_returns: "good s \<Longrightarrow> app_print B = Some pr \<Longrightarrow> \<exists>t. pr e s = Returns t"
    and enter_good: "good s \<Longrightarrow> app_enter B s = (m, s1) \<Longrightarrow> good s1"
    and leave_good: "good s \<Longrightarrow> good (app_leave B m s)"
begin

lemma with_error_delivers:
  assumes "\<And>e. \<exists>r. k (Returns e) = Returns r \<and> well_formed r \<and> abs_result r = Inl e"
  shows "delivers good (app_base B) (with_error B loc c d k) (Inl (mk_error c d))"
  unfolding delivers_def
proof (intro allI impI)
  fix s assume s: "good s"
  obtain e s' where e: "app_make B loc c d s = (e, s')" by (cases "app_make B loc c d s")
  obtain r where "k (Returns e) = Returns r" "well_formed r" "abs_result r = Inl e" using assms by blast
  then show "\<exists>r s'. with_error B loc c d k s = (Returns r, s') \<and> well_formed r \<and> good s' \<and>
      map_sum (app_base B) id (abs_result r) = Inl (mk_error c d)"
    using make_base [OF s e] e by (simp add: with_error_def)
qed

lemma load_delivers:
  "delivers good (app_base B) (load B L path)
     (case parse_file L path of Inl line \<Rightarrow> Inl (mk_error line 1) | Inr t \<Rightarrow> Inr t)"
proof (cases "parse_file L path")
  case (Inl line)
  have "delivers good (app_base B)
      (with_error B (at L 1) line dom_parse (from_condition trivial_payload False Undefined)) (Inl (mk_error line dom_parse))"
    by (rule with_error_delivers) (simp add: from_condition_def transport_simps abs_result_def well_formed_def)
  then show ?thesis using Inl by (simp add: load_def dom_parse_def)
next
  case (Inr t)
  obtain t' where "move_out trivial_payload t = Returns (t, t')"
    using trivial_move_out [of t] by blast
  then show ?thesis
    using Inr by (simp add: load_def delivers_def from_condition_def transport_simps abs_result_def well_formed_def)
qed

lemma optional_delivers: "delivers good (app_base B) (optional_field B loc v) (optional_ref v)"
proof (cases v)
  case None
  have "delivers good (app_base B)
      (with_error B loc code_missing dom_schema (from_optional_rvalue trivial_payload None)) (Inl (mk_error code_missing dom_schema))"
    by (rule with_error_delivers) (simp add: from_optional_rvalue_def transport_simps abs_result_def well_formed_def)
  then show ?thesis using None by (simp add: optional_field_def optional_ref_def code_missing_def dom_schema_def)
next
  case (Some x)
  obtain x' where "move_out trivial_payload x = Returns (x, x')"
    using trivial_move_out [of x] by blast
  then show ?thesis
    using Some by (simp add: optional_field_def optional_ref_def delivers_def from_optional_rvalue_def
      transport_simps abs_result_def well_formed_def)
qed

lemma app_site_good: "plain_site (app_site B)" "good s \<Longrightarrow> good (hook (app_site B) e loc s)"
  by (simp_all add: app_site_def hook_good)

lemma field_int_delivers:
  "delivers good (app_base B) (field_int B L t sec key lo hi) (bounded_ref (int_at L t sec key) lo hi)"
proof -
  have range: "delivers good (app_base B)
      (with_error B (at L 5) code_out_of_range dom_schema (map_outcome_value (\<lambda>e. result_of_failure id (fail e))))
      (Inl (mk_error 3 2) :: error + c_int)"
    using with_error_delivers [of "map_outcome_value (\<lambda>e. result_of_failure id (fail e))" "at L 5" code_out_of_range dom_schema]
    by (simp add: code_out_of_range_def dom_schema_def transport_simps abs_result_def well_formed_def)
  have "delivers good (app_base B) (field_int B L t sec key lo hi)
     (bind_sum (optional_ref (int_at L t sec key)) (\<lambda>v. if v < lo \<or> v > hi then Inl (mk_error 3 2) else Inr (of_int v)))"
    unfolding field_int_def
    by (rule delivers_try [OF optional_delivers _ app_site_good]) (simp_all add: range delivers_value)
  moreover have "bind_sum (optional_ref (int_at L t sec key)) (\<lambda>v. if v < lo \<or> v > hi then Inl (mk_error 3 2) else Inr (of_int v)) =
      bounded_ref (int_at L t sec key) lo hi"
    by (auto simp: optional_ref_def bounded_ref_def split: option.splits)
  ultimately show ?thesis by simp
qed

lemma validate_delivers: "delivers good (app_base B) (validate B L t) (server_ref L t)"
  unfolding validate_def server_ref_def field_string_def
  by (intro delivers_try [OF optional_delivers _ app_site_good] delivers_try [OF field_int_delivers _ app_site_good]
    delivers_value)

lemma stop_with_finishes:
  "finishes good (stop_with B line (result_of_failure id (fail e))) (1, [line, error_line (app_base B e)])"
  unfolding finishes_def
proof (intro allI impI)
  fix s assume s: "good s"
  have "\<exists>ls. report B e s = Returns ls \<and> plain_lines ls = [error_line (app_base B e)]"
  proof (cases "app_print B")
    case (Some pr)
    then show ?thesis using print_returns [OF s Some, of e] by (auto simp: report_def)
  qed (simp add: report_def)
  then show "\<exists>out s'. stop_with B line (result_of_failure id (fail e)) s =
        (Returns (fst (1, [line, error_line (app_base B e)]), out), s') \<and>
      plain_lines out = snd (1 :: int, [line, error_line (app_base B e)]) \<and> good s'"
    using s by (auto simp: stop_with_def after_def checked_reads pure_step_def)
qed

lemma policy_stage_finishes:
  "finishes good (policy_stage B L t (result_of_value cfg) (result_of_value lim)) (policy_ref L t cfg lim)"
  unfolding policy_stage_def field_string_def
proof (rule finishes_after [OF optional_delivers], goal_cases)
  case (1 r)
  then show ?case
  proof (cases rule: observed_cases)
    case (1 json)
    then have j: "string_at L t ''policy'' ''access'' = Some json" by (auto simp: optional_ref_def split: option.splits)
    show ?thesis
    proof (cases "read_json L json")
      case (Expected pol)
      obtain p' where "move_out trivial_payload pol = Returns (pol, p')" using trivial_move_out [of pol] by blast
      then have "policy_parse L json = Returns (result_of_value pol)"
        using Expected by (simp add: policy_parse_def from_expected_rvalue_def result_in_place_id)
      then show ?thesis using 1 j Expected
        by (simp add: checked_reads policy_ref_def finishes_after_pure print_valid_def finishes_pure)
    next
      case (Unexpected g)
      obtain g' where "move_out trivial_payload g = Returns (g, g')" using trivial_move_out [of g] by blast
      then have "policy_parse L json = Returns (result_of_failure id (fail g))"
        using Unexpected by (simp add: policy_parse_def from_expected_rvalue_def)
      then show ?thesis using 1 j Unexpected
        by (simp add: checked_reads policy_ref_def finishes_after_pure finishes_pure)
    qed
  next
    case (2 e)
    then have "string_at L t ''policy'' ''access'' = None" "app_base B e = mk_error 1 2"
      by (auto simp: optional_ref_def split: option.splits)
    then show ?thesis using 2 stop_with_finishes [of _ e] by (simp add: policy_ref_def)
  qed
qed

lemma server_stage_finishes:
  assumes "limits_domain_ok L"
  shows "finishes good
    (after (validate B L t) (\<lambda>cfg.
       if \<not> has_value cfg then stop_with B ''invalid [server] section'' cfg
       else after (limits_check (app_mode B) (app_diag B) L t) (\<lambda>lim.
         if \<not> has_value lim then pure_step (limits_stop (app_mode B) L lim)
         else policy_stage B L t cfg lim)))
    (case server_ref L t of
       Inl e \<Rightarrow> (1, [''invalid [server] section'', error_line e])
     | Inr cfg \<Rightarrow> (case limits_ref L t of
         Inl v \<Rightarrow> (1, [''invalid [limits] section'', limits_text v])
       | Inr lim \<Rightarrow> policy_ref L t cfg lim))"
proof (rule finishes_after [OF validate_delivers], goal_cases)
  case (1 r)
  then show ?case
  proof (cases rule: observed_cases)
    case (1 cfg)
    have "finishes good (after (limits_check (app_mode B) (app_diag B) L t) (\<lambda>lim.
         if \<not> has_value lim then pure_step (limits_stop (app_mode B) L lim) else policy_stage B L t r lim))
       (case limits_ref L t of Inl v \<Rightarrow> (1, [''invalid [limits] section'', limits_text v])
        | Inr lim \<Rightarrow> policy_ref L t cfg lim)"
    proof (rule finishes_after [OF limits_delivers], goal_cases)
      case (1 q)
      then show ?case
      proof (cases rule: observed_cases)
        case (1 lim)
        then have "limits_ref L t = Inr lim" by (cases "limits_ref L t") auto
        then show ?thesis using 1 \<open>r = result_of_value cfg\<close> by (simp add: policy_stage_finishes)
      next
        case (2 e)
        then obtain v where "limits_ref L t = Inl v" "e = as_erased (limits_domain L) v"
          by (cases "limits_ref L t") auto
        then show ?thesis using 2 limits_stop_finishes [OF assms] by simp
      qed
    qed
    then show ?thesis using 1 by simp
  next
    case (2 e)
    then show ?thesis using stop_with_finishes by simp
  qed
qed

lemma main_finishes:
  assumes "limits_domain_ok L"
  shows "finishes good (config_main B L args) (config_ref L args)"
proof (cases args)
  case Nil
  then show ?thesis by (simp add: config_main_def config_ref_def finishes_pure)
next
  case (Cons path rest)
  let ?body = "after (load B L path) (\<lambda>table.
      if \<not> has_value table then stop_with B (''could not load '' @ path) table
      else after (pure_step (deref_checked table)) (\<lambda>t.
        after (validate B L t) (\<lambda>cfg.
          if \<not> has_value cfg then stop_with B ''invalid [server] section'' cfg
          else after (limits_check (app_mode B) (app_diag B) L t) (\<lambda>lim.
            if \<not> has_value lim then pure_step (limits_stop (app_mode B) L lim)
            else policy_stage B L t cfg lim))))"
  have body: "finishes good ?body (config_ref L args)"
  proof (rule finishes_after [OF load_delivers], goal_cases)
    case (1 r)
    then show ?case
    proof (cases rule: observed_cases)
      case (1 t)
      then have "parse_file L path = Inr t" by (cases "parse_file L path") auto
      then show ?thesis using 1 Cons server_stage_finishes [OF assms, of t]
        by (simp add: checked_reads config_ref_def finishes_after_pure)
    next
      case (2 e)
      then obtain line where "parse_file L path = Inl line" "app_base B e = mk_error line 1"
        by (cases "parse_file L path") auto
      then show ?thesis using 2 Cons stop_with_finishes [of _ e] by (simp add: config_ref_def)
    qed
  qed
  show ?thesis
    unfolding finishes_def
  proof (intro allI impI)
    fix s assume "good s"
    obtain m s1 where m: "app_enter B s = (m, s1)" by (cases "app_enter B s")
    with \<open>good s\<close> have "good s1" by (rule enter_good)
    then obtain out s2 where "?body s1 = (Returns (fst (config_ref L args), out), s2)"
      "plain_lines out = snd (config_ref L args)" "good s2"
      using body unfolding finishes_def by blast
    then show "\<exists>out s'. config_main B L args s = (Returns (fst (config_ref L args), out), s') \<and>
        plain_lines out = snd (config_ref L args) \<and> good s'"
      using Cons m leave_good by (simp add: config_main_def with_scope_def)
  qed
qed

end

interpretation minimal_build: app_policy "minimal_app mode diag" "\<lambda>s. s = s0"
  by unfold_locales (auto simp: minimal_app_def make_minimal_def note_propagation_default_def)

lemma print_rich_returns:
  assumes "store_ok s"
  shows "\<exists>t. print_rich diag st loc0 e s = Returns t"
proof (cases "store_find (rich_handle e) s")
  case None
  then show ?thesis by (simp add: print_rich_def inspect_def)
next
  case (Some i)
  then have "i < depth s" using store_find_SomeD by blast
  then have "unat (hop_count (records s ! i)) \<le> length (hops (records s ! i))"
    using assms by (auto simp: store_ok_def record_ok_def)
  then show ?thesis using Some print_hops_eq [of 0 "unat (hop_count (records s ! i))" "hops (records s ! i)"]
    by (simp add: print_rich_def inspect_def Let_def)
qed

interpretation rich_build: app_policy "rich_app mode st t" store_ok
proof (unfold_locales, goal_cases)
  case (1 s loc c d e s')
  then have "rich_base e = mk_error c d" "s' = snd (store_open st t loc s)"
    by (auto simp: rich_app_def make_rich_def policy_simps split: prod.splits)
  then show ?case using store_open_ok [OF 1(1)] by (simp add: rich_app_def)
qed (auto simp: rich_app_def note_propagation_rich_def add_hop_ok print_rich_returns landing_ctor_def
  landing_dtor_def store_truncate_ok)

text \<open>
  C18. The configuration validator reports the first problem in the order load, [server],
  [limits], [policy] and exits 0 exactly when there is none, in the minimal and in the rich
  build, whatever the hardening mode: both print the same lines apart from the context the
  rich build adds, and neither is ever undefined, also not in the checked reads of its
  results.  The [limits] line carries the domain and enumerator names the reflection layer
  derives.
\<close>

theorem config_validate_reports_first_problem:
  assumes "limits_domain_ok L" and "store_ok a"
  shows "(\<exists>out. config_main (minimal_app mode diag) L args s = (Returns (fst (config_ref L args), out), s) \<and>
            plain_lines out = snd (config_ref L args)) \<and>
         (\<exists>out a'. config_main (rich_app mode st t) L args a = (Returns (fst (config_ref L args), out), a') \<and>
            plain_lines out = snd (config_ref L args) \<and> store_ok a')"
proof
  have "finishes (\<lambda>x. x = s) (config_main (minimal_app mode diag) L args) (config_ref L args)"
    by (rule minimal_build.main_finishes [OF assms(1)])
  then show "\<exists>out. config_main (minimal_app mode diag) L args s = (Returns (fst (config_ref L args), out), s) \<and>
      plain_lines out = snd (config_ref L args)"
    by (auto simp: finishes_def)
  have "finishes store_ok (config_main (rich_app mode st t) L args) (config_ref L args)"
    by (rule rich_build.main_finishes [OF assms(1)])
  then show "\<exists>out a'. config_main (rich_app mode st t) L args a = (Returns (fst (config_ref L args), out), a') \<and>
      plain_lines out = snd (config_ref L args) \<and> store_ok a'"
    using assms(2) by (auto simp: finishes_def)
qed

definition sample_env :: "(string \<Rightarrow> string \<Rightarrow> int option, unit) config_env" where
  "sample_env = \<lparr>at = (\<lambda>n. \<lparr>file_name = ''config_validate.cpp'', loc_line = of_nat n, function_name = []\<rparr>),
     parse_file = (\<lambda>path. Inr (\<lambda>sec key.
       if sec = ''server'' then (if key = ''port'' then Some 8080 else if key = ''workers'' then Some 4 else None)
       else if sec = ''limits'' \<and> key = ''max_connections'' then Some 0 else None)),
     string_at = (\<lambda>t sec key. if sec = ''server'' \<and> key = ''host'' then Some ''localhost'' else None),
     int_at = (\<lambda>t. t), is_table_at = (\<lambda>t sec. sec = ''limits''),
     read_json = (\<lambda>_. Unexpected ()), format_error = (\<lambda>_ _. []), limits_domain = 4096,
     domain_objects = [4096 \<mapsto> reflected_domain True False (\<lambda>_. []) [] limit_error]\<rparr>"

definition config_store :: "source_location store" where
  "config_store = initial_store (replicate max_inflight \<lparr>rec_id = 0, origin = no_location,
     hops = replicate max_chain no_location, hop_count = 0, hops_truncated = False, rec_trace = empty_trace\<rparr>)"

theorem config_validate_reports_first_problem_witness:
  "\<exists>out. config_main (minimal_app 0 False) sample_env [''app.toml''] () = (Returns (1, out), ()) \<and>
     plain_lines out = [''invalid [limits] section'', limits_text 3]"
proof -
  have ok: "limits_domain_ok sample_env"
    unfolding limits_domain_ok_def by (simp add: sample_env_def) blast
  have st: "store_ok config_store"
    by (simp add: config_store_def initial_store_def store_ok_def record_ok_def max_inflight_def max_chain_def)
  have "config_ref sample_env [''app.toml''] = (1, [''invalid [limits] section'', limits_text 3])"
    by (simp add: config_ref_def sample_env_def server_ref_def limits_ref_def optional_ref_def bounded_ref_def limit_ref_def)
  then show ?thesis
    using config_validate_reports_first_problem [OF ok st, of 0 False "[''app.toml'']" "()" False empty_trace]
    by simp
qed


subsection \<open>The application's head-to-head\<close>

record raw_fields =
  host_len :: c_int
  raw_port :: c_int
  raw_workers :: c_int

record checked_fields =
  chk_port :: c_int
  chk_workers :: c_int

definition e_host :: c_int where "e_host = 1"
definition e_port :: c_int where "e_port = 2"
definition e_workers :: c_int where "e_workers = 3"

definition jx_host :: "raw_fields \<Rightarrow> ('s, (c_int, error) result) computation" where
  "jx_host r = (if host_len r = 0 then return_fail id (mk_error e_host 0) else return_value (host_len r))"

definition jx_port :: "raw_fields \<Rightarrow> ('s, (c_int, error) result) computation" where
  "jx_port r =
     (if sint (raw_port r) < 1 \<or> sint (raw_port r) > 65535 then return_fail id (mk_error e_port 0)
      else return_value (raw_port r))"

definition jx_workers :: "raw_fields \<Rightarrow> ('s, (c_int, error) result) computation" where
  "jx_workers r =
     (if sint (raw_workers r) < 1 \<or> sint (raw_workers r) > 1024 then return_fail id (mk_error e_workers 0)
      else return_value (raw_workers r))"

definition validate_jmpxx ::
    "('s, c_int, error, 'loc) site \<Rightarrow> (nat \<Rightarrow> 'loc) \<Rightarrow> raw_fields \<Rightarrow> ('s, (checked_fields, error) result) computation" where
  "validate_jmpxx st loc r =
     jmpxx_try st (loc 0) id (jx_host r) (\<lambda>h.
     jmpxx_try st (loc 1) id (jx_port r) (\<lambda>p.
     jmpxx_try st (loc 2) id (jx_workers r) (\<lambda>w.
     return_value \<lparr>chk_port = p, chk_workers = w\<rparr>)))"

definition ex_host :: "raw_fields \<Rightarrow> (c_int, c_int) std_expected" where
  "ex_host r = (if host_len r = 0 then Unexpected e_host else Expected (host_len r))"

definition ex_port :: "raw_fields \<Rightarrow> (c_int, c_int) std_expected" where
  "ex_port r = (if sint (raw_port r) < 1 \<or> sint (raw_port r) > 65535 then Unexpected e_port else Expected (raw_port r))"

definition ex_workers :: "raw_fields \<Rightarrow> (c_int, c_int) std_expected" where
  "ex_workers r =
     (if sint (raw_workers r) < 1 \<or> sint (raw_workers r) > 1024 then Unexpected e_workers
      else Expected (raw_workers r))"

definition validate_expected :: "raw_fields \<Rightarrow> (checked_fields, c_int) std_expected" where
  "validate_expected r =
     (case ex_host r of Unexpected e \<Rightarrow> Unexpected e | Expected h \<Rightarrow>
     (case ex_port r of Unexpected e \<Rightarrow> Unexpected e | Expected p \<Rightarrow>
     (case ex_workers r of Unexpected e \<Rightarrow> Unexpected e | Expected w \<Rightarrow>
        Expected \<lparr>chk_port = p, chk_workers = w\<rparr>)))"

definition run_jmpxx ::
    "('s, c_int, error, 'loc) site \<Rightarrow> (nat \<Rightarrow> 'loc) \<Rightarrow> 's \<Rightarrow> raw_fields \<Rightarrow> c_int outcome" where
  "run_jmpxx st loc s r =
     bind_outcome (fst (validate_jmpxx st loc r s)) (\<lambda>v.
       if has_value v then map_outcome_value chk_port (value_checked v)
       else bind_outcome (error_checked v) (\<lambda>e. c_neg (err_code e)))"

definition run_expected :: "raw_fields \<Rightarrow> c_int outcome" where
  "run_expected r = (case validate_expected r of Expected v \<Rightarrow> Returns (chk_port v) | Unexpected e \<Rightarrow> c_neg e)"

text \<open>
  \<open>median_ns\<close> without its clock: the warm-up adds the measured function's result to the
  global \<open>g_sink\<close>, and every epoch adds a truncated 64-bit sum of results to it.
\<close>

definition epochs :: nat where "epochs = 80"
definition inner :: nat where "inner = 200000"

fun sink_add :: "nat \<Rightarrow> c_int \<Rightarrow> c_int \<Rightarrow> c_int outcome" where
  "sink_add 0 v g = Returns g"
| "sink_add (Suc n) v g = bind_outcome (c_add g v) (sink_add n v)"

fun accumulate :: "nat \<Rightarrow> c_int \<Rightarrow> int \<Rightarrow> int outcome" where
  "accumulate 0 v acc = Returns acc"
| "accumulate (Suc n) v acc =
     (let acc = acc + sint v in
      if - (2 ^ 63) \<le> acc \<and> acc < 2 ^ 63 then accumulate n v acc else Undefined)"

definition epoch_sum :: "c_int \<Rightarrow> c_int outcome" where
  "epoch_sum v = map_outcome_value of_int (accumulate inner v 0)"

definition median_sink :: "c_int outcome \<Rightarrow> c_int \<Rightarrow> c_int outcome" where
  "median_sink f g =
     bind_outcome f (\<lambda>v.
     bind_outcome (sink_add inner v g) (\<lambda>g.
     bind_outcome (epoch_sum v) (\<lambda>acc. sink_add epochs acc g)))"

definition bench_sink :: "('s, c_int, error, 'loc) site \<Rightarrow> (nat \<Rightarrow> 'loc) \<Rightarrow> 's \<Rightarrow> raw_fields \<Rightarrow> c_int outcome" where
  "bench_sink st loc s valid =
     (let failing = valid\<lparr>host_len := 0\<rparr> in
      bind_outcome (median_sink (run_jmpxx st loc s valid) 0) (\<lambda>g.
      bind_outcome (median_sink (run_expected valid) g) (\<lambda>g.
      bind_outcome (median_sink (run_jmpxx st loc s failing) g)
        (median_sink (run_expected failing)))))"

definition fields_ref :: "raw_fields \<Rightarrow> int" where
  "fields_ref r =
     (if host_len r = 0 then - 1
      else if sint (raw_port r) < 1 \<or> sint (raw_port r) > 65535 then - 2
      else if sint (raw_workers r) < 1 \<or> sint (raw_workers r) > 1024 then - 3
      else sint (raw_port r))"

lemma run_expected_ref: "run_expected r = int_result (fields_ref r)"
  by (auto simp: run_expected_def validate_expected_def ex_host_def ex_port_def ex_workers_def fields_ref_def
    c_neg_def e_host_def e_port_def e_workers_def int_result_def)

lemma run_jmpxx_ref:
  assumes "plain_site st"
  shows "run_jmpxx st loc (s :: 's) r = int_result (fields_ref r)"
proof -
  define fields where "fields =
    bind_sum (if host_len r = 0 then Inl (mk_error 1 0) else Inr (host_len r)) (\<lambda>h.
    bind_sum (if sint (raw_port r) < 1 \<or> sint (raw_port r) > 65535 then Inl (mk_error 2 0) else Inr (raw_port r)) (\<lambda>p.
    bind_sum (if sint (raw_workers r) < 1 \<or> sint (raw_workers r) > 1024 then Inl (mk_error 3 0) else Inr (raw_workers r)) (\<lambda>w.
    Inr \<lparr>chk_port = p, chk_workers = w\<rparr>)))"
  have f: "delivers (\<lambda>_. True) id (return_fail id e :: ('s, (c_int, error) result) computation) (Inl e)" for e
    using delivers_fail [of "\<lambda>_. True" id e] by simp
  have "delivers (\<lambda>_. True) id (validate_jmpxx st loc r) fields"
    unfolding validate_jmpxx_def jx_host_def jx_port_def jx_workers_def fields_def
    by (intro delivers_try delivers_value assms TrueI)
       (simp_all add: f e_host_def e_port_def e_workers_def delivers_value)
  then obtain q s' where q: "validate_jmpxx st loc r s = (Returns q, s')" "well_formed q" "map_sum id id (abs_result q) = fields"
    by (rule deliversD [where s = s]) simp
  have p: "int_result (sint (raw_port r)) = Returns (raw_port r)" by (simp add: int_result_Returns_iff)
  from q(2,3) show ?thesis
  proof (cases rule: observed_cases)
    case (1 v)
    then show ?thesis using q(1) p
      by (auto simp: run_jmpxx_def checked_reads fields_def fields_ref_def split: if_splits)
  next
    case (2 e)
    then show ?thesis using q(1)
      by (auto simp: run_jmpxx_def checked_reads fields_def fields_ref_def c_neg_def mk_error_def split: if_splits)
  qed
qed

lemma int_result_undefined: "int_result i = Undefined \<longleftrightarrow> \<not> (- (2 ^ 31) \<le> i \<and> i < 2 ^ 31)"
  by (simp add: int_result_def)

lemma sink_add_positive:
  "0 \<le> sint v \<Longrightarrow> 0 \<le> sint g \<Longrightarrow> sink_add n v g = int_result (sint g + int n * sint v)"
proof (induction n arbitrary: g)
  case 0
  then show ?case using int_result_Returns_iff [of "sint g" g] by simp
next
  case (Suc n)
  from int_result_cases [of "sint g + sint v"] show ?case
  proof
    assume u: "int_result (sint g + sint v) = Undefined"
    have "int_result (sint g + int (Suc n) * sint v) = Undefined"
      by (rule int_result_Undefined_mono [OF _ _ u]) (use Suc.prems in \<open>simp_all add: algebra_simps\<close>)
    then show ?thesis using u by (simp add: c_add_def)
  next
    assume "\<exists>k. int_result (sint g + sint v) = Returns k \<and> sint k = sint g + sint v"
    then obtain k where k: "int_result (sint g + sint v) = Returns k" "sint k = sint g + sint v" by blast
    then have "sink_add (Suc n) v g = sink_add n v k" by (simp add: c_add_def)
    also have "\<dots> = int_result (sint k + int n * sint v)" using Suc.IH Suc.prems k(2) by simp
    finally show ?thesis using k(2) by (simp add: algebra_simps)
  qed
qed

lemma accumulate_small:
  "0 \<le> sint v \<Longrightarrow> 0 \<le> acc \<Longrightarrow> acc + int n * sint v < 2 ^ 63 \<Longrightarrow> accumulate n v acc = Returns (acc + int n * sint v)"
proof (induction n arbitrary: acc)
  case (Suc n)
  have e: "acc + int (Suc n) * sint v = (acc + sint v) + int n * sint v" by (simp add: algebra_simps)
  have "0 \<le> int n * sint v" using Suc.prems(1) by simp
  then have "acc + sint v < 2 ^ 63" using Suc.prems(3) unfolding e by linarith
  then show ?case using Suc.IH [of "acc + sint v"] Suc.prems unfolding e by (simp add: Let_def)
qed simp

lemma median_sink_overflows:
  assumes "133 \<le> sint v" and "0 \<le> sint g"
  shows "median_sink (Returns v) g = Undefined"
proof (cases "sink_add inner v g")
  case (Returns g1)
  have "sink_add inner v g = int_result (sint g + int inner * sint v)"
    by (rule sink_add_positive) (use assms in simp_all)
  then have g1: "sint g1 = sint g + 200000 * sint v" using Returns by (simp add: int_result_Returns_iff inner_def)
  then have b: "200000 * sint v < 2 ^ 31" using assms(2) sint_range [of g1] by linarith
  have "accumulate inner v 0 = Returns (0 + int inner * sint v)"
    by (rule accumulate_small) (use assms b in \<open>simp_all add: inner_def\<close>)
  then have acc: "epoch_sum v = Returns (of_int (200000 * sint v))" by (simp add: epoch_sum_def inner_def)
  have s: "sint (of_int (200000 * sint v) :: c_int) = 200000 * sint v"
    using b assms(1) by (subst signed_of_int) (simp add: signed_take_bit_int_eq_self)
  have "sink_add epochs (of_int (200000 * sint v)) g1 = int_result (sint g1 + int epochs * (200000 * sint v))"
    using sink_add_positive [of "of_int (200000 * sint v)" g1 epochs] s assms g1 by simp
  also have "\<dots> = Undefined"
    using assms g1 by (simp add: int_result_undefined epochs_def)
  finally show ?thesis using Returns acc by (simp add: median_sink_def)
next
  case (Fail_Fast m)
  then show ?thesis
    using sink_add_positive [of v g inner] assms int_result_cases [of "sint g + int inner * sint v"] by auto
next
  case Throws
  then show ?thesis
    using sink_add_positive [of v g inner] assms int_result_cases [of "sint g + int inner * sint v"] by auto
qed (simp add: median_sink_def)

text \<open>
  C36. The benchmark's two validators compute the same number on every input, with or
  without hooks: the port of valid fields, and the negated code of the first failing check
  otherwise.  The measuring loop around them overflows a signed \<open>int\<close>: for every valid
  configuration whose port is at least 133, adding the results to \<open>g_sink\<close> is undefined
  during the first measurement.
\<close>

theorem config_bench_same_work:
  assumes "plain_site st"
  shows "run_jmpxx st loc s r = run_expected r \<and> run_jmpxx st loc s r = int_result (fields_ref r) \<and>
         (133 \<le> fields_ref r \<longrightarrow> bench_sink st loc s r = Undefined)"
proof -
  have "bench_sink st loc s r = Undefined" if "133 \<le> fields_ref r"
  proof -
    have "fields_ref r = sint (raw_port r)" using that by (auto simp: fields_ref_def split: if_splits)
    then have "run_jmpxx st loc s r = Returns (raw_port r)" "133 \<le> sint (raw_port r)"
      using that run_jmpxx_ref [OF assms] by (simp_all add: int_result_Returns_iff)
    then show ?thesis using median_sink_overflows [of "raw_port r" 0] by (simp add: bench_sink_def)
  qed
  then show ?thesis using run_expected_ref run_jmpxx_ref [OF assms] by simp
qed

theorem config_bench_same_work_witness:
  "run_jmpxx (shipped_site 0 False note_propagation_default) (\<lambda>n. n) () \<lparr>host_len = 9, raw_port = 8080, raw_workers = 4\<rparr> = Returns 8080 \<and>
   bench_sink (shipped_site 0 False note_propagation_default) (\<lambda>n. n) () \<lparr>host_len = 9, raw_port = 8080, raw_workers = 4\<rparr> = Undefined"
proof -
  let ?r = "\<lparr>host_len = 9, raw_port = 8080, raw_workers = 4\<rparr>" and ?st = "shipped_site 0 False note_propagation_default"
  have "fields_ref ?r = 8080" by (simp add: fields_ref_def)
  moreover have "run_jmpxx ?st (\<lambda>n. n) () ?r = int_result (fields_ref ?r)"
    "133 \<le> fields_ref ?r \<longrightarrow> bench_sink ?st (\<lambda>n. n) () ?r = Undefined"
    using config_bench_same_work [OF plain_shipped_site, of 0 False note_propagation_default "\<lambda>n. n" "()" ?r] by blast+
  ultimately show ?thesis by (simp add: int_result_def)
qed

end
