(* ===== verification/Verify_Harness.thy ===== *)
theory Verify_Harness
  imports Policy_Chains Reflect_Layer
begin

text \<open>
  The verification harness's reporter (\<open>verify/reporter.hpp\<close>) and two of its probes
  (\<open>verify/main.cpp\<close>): what a probe reports, as a human-readable page or as one JSON object
  on a line, and the exit status it ends with.
\<close>

datatype fmt = Human | Json

record probe_report =
  rp_fmt :: fmt
  rp_probe :: string
  rp_ok :: bool
  rp_metrics :: "(string \<times> string) list"
  rp_notes :: "string list"

definition dquote :: char where "dquote = CHR 0x22"
definition bslash :: char where "bslash = CHR 0x5C"
definition newline :: char where "newline = CHR 0x0A"

definition quote_char :: "char \<Rightarrow> string" where
  "quote_char c =
     (let o1 = (if c = dquote \<or> c = bslash then [bslash] else []) in
      if c = newline then o1 @ [bslash, CHR ''n''] else o1 @ [c])"

definition quote :: "string \<Rightarrow> string" where
  "quote s = [dquote] @ concat (map quote_char s) @ [dquote]"

definition report_new :: "fmt \<Rightarrow> string \<Rightarrow> probe_report" where
  "report_new f probe = \<lparr>rp_fmt = f, rp_probe = probe, rp_ok = True, rp_metrics = [], rp_notes = []\<rparr>"

definition report_num :: "string \<Rightarrow> int \<Rightarrow> probe_report \<Rightarrow> probe_report" where
  "report_num key v r = r\<lparr>rp_metrics := rp_metrics r @ [(key, show_int v)]\<rparr>"

definition report_boolean :: "string \<Rightarrow> bool \<Rightarrow> probe_report \<Rightarrow> probe_report" where
  "report_boolean key v r = r\<lparr>rp_metrics := rp_metrics r @ [(key, if v then ''true'' else ''false'')]\<rparr>"

definition report_str :: "string \<Rightarrow> string \<Rightarrow> probe_report \<Rightarrow> probe_report" where
  "report_str key v r = r\<lparr>rp_metrics := rp_metrics r @ [(key, quote v)]\<rparr>"

definition report_note :: "string \<Rightarrow> probe_report \<Rightarrow> probe_report" where
  "report_note n r = r\<lparr>rp_notes := rp_notes r @ [n]\<rparr>"

definition report_fail :: "string \<Rightarrow> probe_report \<Rightarrow> probe_report" where
  "report_fail why r = r\<lparr>rp_ok := False, rp_notes := rp_notes r @ [why]\<rparr>"

fun separated :: "string list \<Rightarrow> string" where
  "separated [] = []"
| "separated [x] = x"
| "separated (x # y # xs) = x @ '','' @ separated (y # xs)"

definition render_json :: "probe_report \<Rightarrow> string" where
  "render_json r =
     ''{'' @ quote ''probe'' @ '':'' @ quote (rp_probe r) @
     '','' @ quote ''ok'' @ '':'' @ (if rp_ok r then ''true'' else ''false'') @
     '','' @ quote ''metrics'' @ '':{'' @ separated (map (\<lambda>(k, v). quote k @ '':'' @ v) (rp_metrics r)) @
     ''},'' @ quote ''notes'' @ '':['' @ separated (map quote (rp_notes r)) @ '']}''"

definition render_human :: "probe_report \<Rightarrow> string" where
  "render_human r =
     ''['' @ c_str (rp_probe r) @ ''] '' @ (if rp_ok r then ''PASS'' else ''FAIL'') @ [newline] @
     concat (map (\<lambda>(k, v). ''    '' @ pad_right 28 (c_str k) @ '' '' @ c_str v @ [newline]) (rp_metrics r)) @
     concat (map (\<lambda>n. ''    note: '' @ c_str n @ [newline]) (rp_notes r))"

definition finish :: "probe_report \<Rightarrow> int \<times> string" where
  "finish r =
     (if rp_ok r then 0 else 1,
      case rp_fmt r of Json \<Rightarrow> c_str (render_json r) @ [newline] | Human \<Rightarrow> render_human r)"


text \<open>The text helpers (\<open>verify/support.hpp\<close>): \<open>trim\<close>, and the lines \<open>std::getline\<close> reads from a stream.\<close>

definition blank :: "char \<Rightarrow> bool" where
  "blank c \<longleftrightarrow> c = CHR '' '' \<or> c = CHR 0x09"

definition trim :: "string \<Rightarrow> string" where
  "trim s = rev (dropWhile blank (rev (dropWhile blank s)))"

fun getlines :: "string \<Rightarrow> string list" where
  "getlines [] = []"
| "getlines (c # cs) =
     (if c = newline then [] # getlines cs
      else (case getlines cs of
              [] \<Rightarrow> [[c]]
            | l # ls \<Rightarrow> (c # l) # ls))"


subsection \<open>Reading a report back\<close>

text \<open>
  The reference: a reader of JSON strings, which may not contain a control character, for
  the escapes other than \<open>\u\<close>, and of the object a probe prints.
\<close>

definition unescape :: "char \<Rightarrow> char option" where
  "unescape c =
     (if c = dquote \<or> c = bslash \<or> c = CHR ''/'' then Some c
      else if c = CHR ''n'' then Some newline
      else if c = CHR ''t'' then Some (CHR 0x09)
      else if c = CHR ''r'' then Some (CHR 0x0D)
      else if c = CHR ''b'' then Some (CHR 0x08)
      else if c = CHR ''f'' then Some (CHR 0x0C)
      else None)"

definition control :: "char \<Rightarrow> bool" where
  "control c \<longleftrightarrow> (of_char c :: nat) < 32"

definition prepend :: "char \<Rightarrow> (string \<times> string) option \<Rightarrow> (string \<times> string) option" where
  "prepend c = map_option (\<lambda>(s, rest). (c # s, rest))"

fun json_chars :: "string \<Rightarrow> (string \<times> string) option" where
  "json_chars [] = None"
| "json_chars (c # cs) =
     (if c = dquote then Some ([], cs)
      else if c = bslash then
        (case cs of
           [] \<Rightarrow> None
         | d # ds \<Rightarrow> (case unescape d of None \<Rightarrow> None | Some x \<Rightarrow> prepend x (json_chars ds)))
      else if control c then None
      else prepend c (json_chars cs))"

definition json_string :: "string \<Rightarrow> (string \<times> string) option" where
  "json_string s = (case s of [] \<Rightarrow> None | c # cs \<Rightarrow> if c = dquote then json_chars cs else None)"

datatype json_value = J_string string | J_word string

definition json_value :: "string \<Rightarrow> (json_value \<times> string) option" where
  "json_value s =
     (if take 1 s = [dquote] then map_option (\<lambda>(x, rest). (J_string x, rest)) (json_string s)
      else Some (J_word (takeWhile (\<lambda>c. c \<noteq> CHR '','' \<and> c \<noteq> CHR ''}'') s),
                 dropWhile (\<lambda>c. c \<noteq> CHR '','' \<and> c \<noteq> CHR ''}'') s))"

definition literally :: "string \<Rightarrow> string \<Rightarrow> string option" where
  "literally pat s = (if take (length pat) s = pat then Some (drop (length pat) s) else None)"

definition json_member :: "string \<Rightarrow> ((string \<times> json_value) \<times> string) option" where
  "json_member s =
     Option.bind (json_string s) (\<lambda>(k, s).
     Option.bind (literally '':'' s) (\<lambda>s.
     Option.bind (json_value s) (\<lambda>(v, s). Some ((k, v), s))))"

text \<open>Items up to a closing character; the fuel is at least the number of items.\<close>

fun json_items :: "(string \<Rightarrow> ('a \<times> string) option) \<Rightarrow> char \<Rightarrow> nat \<Rightarrow> string \<Rightarrow> ('a list \<times> string) option" where
  "json_items item close 0 s = None"
| "json_items item close (Suc n) s =
     (case item s of
        None \<Rightarrow> None
      | Some (x, s) \<Rightarrow>
          (case s of
             [] \<Rightarrow> None
           | c # cs \<Rightarrow>
               if c = close then Some ([x], cs)
               else if c = CHR '','' then map_option (\<lambda>(xs, rest). (x # xs, rest)) (json_items item close n cs)
               else None))"

definition json_list :: "(string \<Rightarrow> ('a \<times> string) option) \<Rightarrow> char \<Rightarrow> nat \<Rightarrow> string \<Rightarrow> ('a list \<times> string) option" where
  "json_list item close n s = (if take 1 s = [close] then Some ([], drop 1 s) else json_items item close n s)"

definition read_report :: "nat \<Rightarrow> string \<Rightarrow> (string \<times> string \<times> (string \<times> json_value) list \<times> string list) option" where
  "read_report n s =
     Option.bind (literally (''{'' @ quote ''probe'' @ '':'') s) (\<lambda>s.
     Option.bind (json_string s) (\<lambda>(probe, s).
     Option.bind (literally ('','' @ quote ''ok'' @ '':'') s) (\<lambda>s.
     Option.bind (json_value s) (\<lambda>(ok, s).
     Option.bind (literally ('','' @ quote ''metrics'' @ '':{'') s) (\<lambda>s.
     Option.bind (json_list json_member (CHR ''}'') n s) (\<lambda>(ms, s).
     Option.bind (literally ('','' @ quote ''notes'' @ '':['') s) (\<lambda>s.
     Option.bind (json_list json_string (CHR '']'') n s) (\<lambda>(ns, s).
     if s = ''}'' @ [newline] then
       (case ok of J_word w \<Rightarrow> Some (probe, w, ms, ns) | J_string _ \<Rightarrow> None)
     else None))))))))"

text \<open>What a probe does with its report, in order.\<close>

datatype report_op = R_num string int | R_boolean string bool | R_str string string | R_note string | R_fail string

primrec apply_report :: "report_op \<Rightarrow> probe_report \<Rightarrow> probe_report" where
  "apply_report (R_num k v) = report_num k v"
| "apply_report (R_boolean k v) = report_boolean k v"
| "apply_report (R_str k v) = report_str k v"
| "apply_report (R_note n) = report_note n"
| "apply_report (R_fail n) = report_fail n"

definition report_all :: "report_op list \<Rightarrow> probe_report \<Rightarrow> probe_report" where
  "report_all ops = fold apply_report ops"

primrec op_metric :: "report_op \<Rightarrow> (string \<times> json_value) list" where
  "op_metric (R_num k v) = [(k, J_word (show_int v))]"
| "op_metric (R_boolean k v) = [(k, J_word (if v then ''true'' else ''false''))]"
| "op_metric (R_str k v) = [(k, J_string v)]"
| "op_metric (R_note n) = []"
| "op_metric (R_fail n) = []"

primrec op_note :: "report_op \<Rightarrow> string list" where
  "op_note (R_num k v) = []"
| "op_note (R_boolean k v) = []"
| "op_note (R_str k v) = []"
| "op_note (R_note n) = [n]"
| "op_note (R_fail n) = [n]"

primrec op_failed :: "report_op \<Rightarrow> bool" where
  "op_failed (R_num k v) = False"
| "op_failed (R_boolean k v) = False"
| "op_failed (R_str k v) = False"
| "op_failed (R_note n) = False"
| "op_failed (R_fail n) = True"

text \<open>Text JSON can carry as the reporter escapes it: no control character but the newline.\<close>

definition plain_text :: "string \<Rightarrow> bool" where
  "plain_text s \<longleftrightarrow> list_all (\<lambda>c. control c \<longrightarrow> c = newline) s"

primrec op_plain :: "report_op \<Rightarrow> bool" where
  "op_plain (R_num k v) = plain_text k"
| "op_plain (R_boolean k v) = plain_text k"
| "op_plain (R_str k v) = (plain_text k \<and> plain_text v)"
| "op_plain (R_note n) = plain_text n"
| "op_plain (R_fail n) = plain_text n"

lemma json_chars_quote:
  "json_chars (concat (map quote_char s) @ dquote # rest) = (if plain_text s then Some (s, rest) else None)"
proof (induction s)
  case Nil
  then show ?case by (simp add: plain_text_def)
next
  case (Cons c s)
  have special: "dquote \<noteq> bslash" "newline \<noteq> dquote" "newline \<noteq> bslash" "control newline"
    "\<not> control dquote" "\<not> control bslash"
    by (simp_all add: dquote_def bslash_def newline_def control_def)
  consider "c = dquote \<or> c = bslash" | "c = newline" | "c \<noteq> dquote" "c \<noteq> bslash" "c \<noteq> newline" by blast
  then show ?case
  proof cases
    case 1
    then have q: "quote_char c = [bslash, c]" "unescape c = Some c" "\<not> control c"
      using special by (auto simp: quote_char_def unescape_def)
    then show ?thesis using Cons special by (simp add: prepend_def plain_text_def)
  next
    case 2
    have n: "unescape CHR ''n'' = Some newline" by (simp add: unescape_def dquote_def bslash_def)
    have q: "quote_char c = [bslash, CHR ''n'']" using 2 special by (simp add: quote_char_def)
    then show ?thesis using Cons special n 2 by (simp add: prepend_def plain_text_def)
  next
    case 3
    then have q: "quote_char c = [c]" by (simp add: quote_char_def)
    then show ?thesis using Cons 3 by (simp add: prepend_def plain_text_def)
  qed
qed

lemma json_string_quote: "json_string (quote s @ rest) = (if plain_text s then Some (s, rest) else None)"
  using json_chars_quote [of s rest] by (simp add: json_string_def quote_def)

definition ends_item :: "char \<Rightarrow> string \<Rightarrow> bool" where
  "ends_item close rest \<longleftrightarrow> (\<exists>cs. rest = CHR '','' # cs \<or> rest = close # cs)"

lemma ends_item_intros [simp]: "ends_item close (close # r)" "ends_item close (CHR '','' # r)"
  by (auto simp: ends_item_def)

lemma json_items_separated:
  assumes "\<And>x rest. x \<in> set xs \<Longrightarrow> ends_item close rest \<Longrightarrow> item (f x @ rest) = Some (g x, rest)"
    and "close \<noteq> CHR '',''" and "xs \<noteq> []" and "length xs \<le> n"
  shows "json_items item close n (separated (map f xs) @ close # rest) = Some (map g xs, rest)"
  using assms
proof (induction xs arbitrary: n)
  case (Cons x xs)
  obtain m where m: "n = Suc m" using Cons.prems(4) by (cases n) auto
  show ?case
  proof (cases xs)
    case Nil
    then show ?thesis using Cons.prems(1) [of x "close # rest"] m by simp
  next
    case (Cons y ys)
    have "item (f x @ CHR '','' # separated (map f xs) @ close # rest) =
        Some (g x, CHR '','' # separated (map f xs) @ close # rest)"
      using Cons.prems(1) by simp
    moreover have "json_items item close m (separated (map f xs) @ close # rest) = Some (map g xs, rest)"
      using Cons.IH [of m] Cons.prems m Cons by simp
    ultimately show ?thesis using m Cons Cons.prems(2) by simp
  qed
qed simp

lemma json_list_separated:
  assumes "\<And>x rest. x \<in> set xs \<Longrightarrow> ends_item close rest \<Longrightarrow> item (f x @ rest) = Some (g x, rest)"
    and "close \<noteq> CHR '',''" and "close \<noteq> dquote" and "length xs \<le> n"
    and "\<And>x. x \<in> set xs \<Longrightarrow> \<exists>t. f x = dquote # t"
  shows "json_list item close n (separated (map f xs) @ close # rest) = Some (map g xs, rest)"
proof (cases xs)
  case (Cons y ys)
  obtain t where t: "f y = dquote # t" using assms(5) Cons by auto
  then have "take 1 (separated (map f xs) @ close # rest) = [dquote]" using Cons by (cases ys) auto
  then show ?thesis
    using json_items_separated [where xs = xs and n = n and rest = rest and item = item and f = f and g = g, OF assms(1,2)] assms(3,4) Cons by (simp add: json_list_def)
qed (simp add: json_list_def)

text \<open>The raw text of a metric and the value it stands for.\<close>

definition word_text :: "string \<Rightarrow> bool" where
  "word_text v \<longleftrightarrow> (\<forall>c \<in> set v. c \<noteq> CHR '','' \<and> c \<noteq> CHR ''}'' \<and> c \<noteq> dquote \<and> c \<noteq> CHR 0x00)"

fun metric_text :: "string \<times> json_value \<Rightarrow> string" where
  "metric_text (k, J_string v) = quote k @ '':'' @ quote v"
| "metric_text (k, J_word w) = quote k @ '':'' @ w"

fun metric_plain :: "string \<times> json_value \<Rightarrow> bool" where
  "metric_plain (k, J_string v) \<longleftrightarrow> plain_text k \<and> plain_text v"
| "metric_plain (k, J_word w) \<longleftrightarrow> plain_text k \<and> word_text w"

lemma json_member_metric:
  assumes "metric_plain m" and "ends_item (CHR ''}'') rest"
  shows "json_member (metric_text m @ rest) = Some (m, rest)"
proof -
  obtain k v where m: "m = (k, v)" by (cases m)
  obtain c cs where r: "rest = c # cs" "c = CHR '','' \<or> c = CHR ''}''" using assms(2) by (auto simp: ends_item_def)
  show ?thesis
  proof (cases v)
    case (J_string x)
    then have "plain_text k" "plain_text x" using assms(1) m by simp_all
    moreover have "take 1 (quote x @ rest) = [dquote]" by (simp add: quote_def)
    ultimately show ?thesis
      using m J_string json_string_quote [of k "'':'' @ quote x @ rest"] json_string_quote [of x rest]
      by (simp add: json_member_def literally_def json_value_def)
  next
    case (J_word w)
    then have w: "plain_text k" "word_text w" using assms(1) m by simp_all
    have stop: "takeWhile (\<lambda>c. c \<noteq> CHR '','' \<and> c \<noteq> CHR ''}'') (w @ rest) = w"
      "dropWhile (\<lambda>c. c \<noteq> CHR '','' \<and> c \<noteq> CHR ''}'') (w @ rest) = rest"
      using w(2) r by (auto simp: word_text_def takeWhile_append2 dropWhile_append2)
    have "take 1 (w @ rest) \<noteq> [dquote]" using w(2) r by (cases w) (auto simp: word_text_def dquote_def)
    then show ?thesis
      using m J_word w(1) stop json_string_quote [of k "'':'' @ w @ rest"]
      by (simp add: json_member_def literally_def json_value_def)
  qed
qed


subsection \<open>The rendered report reads back\<close>

lemma number_words: "number_text w \<Longrightarrow> word_text w"
proof -
  assume "number_text w"
  then have "number_char c" if "c \<in> set w" for c using that by (auto simp: number_text_def list_all_iff)
  moreover have "\<not> number_char CHR '',''" "\<not> number_char CHR ''}''" "\<not> number_char dquote" "\<not> number_char CHR 0x00"
    by (simp_all add: number_char_def identifier_char_def letter_def dquote_def)
  ultimately show ?thesis unfolding word_text_def by blast
qed

lemma op_metric_plain: "op_plain x \<Longrightarrow> m \<in> set (op_metric x) \<Longrightarrow> metric_plain m"
proof -
  have "word_text (show_int v)" "word_text ''true''" "word_text ''false''" for v
    by (rule number_words [OF show_int_number]) (simp_all add: word_text_def dquote_def)
  then show "op_plain x \<Longrightarrow> m \<in> set (op_metric x) \<Longrightarrow> metric_plain m" by (cases x) auto
qed

lemma report_all_fields:
  "rp_fmt (report_all ops r) = rp_fmt r" "rp_probe (report_all ops r) = rp_probe r"
  "rp_ok (report_all ops r) \<longleftrightarrow> rp_ok r \<and> list_all (\<lambda>x. \<not> op_failed x) ops"
  "map (\<lambda>(k, v). quote k @ '':'' @ v) (rp_metrics (report_all ops r)) =
     map (\<lambda>(k, v). quote k @ '':'' @ v) (rp_metrics r) @ map metric_text (concat (map op_metric ops))"
  "rp_notes (report_all ops r) = rp_notes r @ concat (map op_note ops)"
proof (induction ops arbitrary: r)
  case (Cons x ops)
  note defs = report_all_def report_num_def report_boolean_def report_str_def report_note_def report_fail_def
  have step: "report_all (x # ops) r = report_all ops (apply_report x r)" for r by (simp add: report_all_def)
  {
    case 1 show ?case unfolding step Cons(1) by (cases x) (simp_all add: defs)
  next
    case 2 show ?case unfolding step Cons(2) by (cases x) (simp_all add: defs)
  next
    case 3 show ?case unfolding step Cons(3) by (cases x) (auto simp: defs)
  next
    case 4 show ?case unfolding step Cons(4) by (cases x) (simp_all add: defs)
  next
    case 5 show ?case unfolding step Cons(5) by (cases x) (simp_all add: defs)
  }
qed (simp_all add: report_all_def)

lemma metric_starts: "\<exists>t. metric_text m = dquote # t"
  by (cases m rule: metric_text.cases) (simp_all add: quote_def)

text \<open>A report's JSON over its own values, and the reader on it.\<close>

definition json_text :: "string \<Rightarrow> bool \<Rightarrow> (string \<times> json_value) list \<Rightarrow> string list \<Rightarrow> string" where
  "json_text probe ok ms ns =
     ''{'' @ quote ''probe'' @ '':'' @ quote probe @
     '','' @ quote ''ok'' @ '':'' @ (if ok then ''true'' else ''false'') @
     '','' @ quote ''metrics'' @ '':{'' @ separated (map metric_text ms) @
     ''},'' @ quote ''notes'' @ '':['' @ separated (map quote ns) @ '']}''"

lemma literally_append: "literally pat (pat @ s) = Some s"
  by (simp add: literally_def)

lemma json_value_flag:
  "json_value ((if ok then ''true'' else ''false'') @ CHR '','' # s) =
     Some (J_word (if ok then ''true'' else ''false''), CHR '','' # s)"
  by (simp add: json_value_def dquote_def)

lemma read_json_text:
  assumes "plain_text probe" and "\<And>m. m \<in> set ms \<Longrightarrow> metric_plain m" and "\<And>x. x \<in> set ns \<Longrightarrow> plain_text x"
    and "length ms \<le> n" and "length ns \<le> n"
  shows "read_report n (json_text probe ok ms ns @ [newline]) = Some (probe, if ok then ''true'' else ''false'', ms, ns)"
proof -
  let ?notes = "('','' @ quote ''notes'' @ '':['') @ separated (map quote ns) @ CHR '']'' # ''}'' @ [newline]"
  let ?metrics = "('','' @ quote ''metrics'' @ '':{'') @ separated (map metric_text ms) @ CHR ''}'' # ?notes"
  let ?ok = "('','' @ quote ''ok'' @ '':'') @ (if ok then ''true'' else ''false'') @ ?metrics"
  have line: "json_text probe ok ms ns @ [newline] = (''{'' @ quote ''probe'' @ '':'') @ quote probe @ ?ok"
    by (simp add: json_text_def)
  have probe: "json_string (quote probe @ ?ok) = Some (probe, ?ok)" using json_string_quote assms(1) by simp
  have flag: "json_value ((if ok then ''true'' else ''false'') @ ?metrics) =
      Some (J_word (if ok then ''true'' else ''false''), ?metrics)"
    using json_value_flag [of ok] by simp
  have "json_list json_member (CHR ''}'') n (separated (map metric_text ms) @ CHR ''}'' # ?notes) = Some (map (\<lambda>x. x) ms, ?notes)"
    by (rule json_list_separated) (simp_all add: json_member_metric assms(2,4) metric_starts, simp add: dquote_def)
  then have metrics: "json_list json_member (CHR ''}'') n (separated (map metric_text ms) @ CHR ''}'' # ?notes) = Some (ms, ?notes)"
    by simp
  have "json_list json_string (CHR '']'') n (separated (map quote ns) @ CHR '']'' # ''}'' @ [newline]) =
      Some (map (\<lambda>x. x) ns, ''}'' @ [newline])"
    by (rule json_list_separated) (simp_all add: json_string_quote assms(3,5), simp_all add: dquote_def quote_def)
  then have remarks: "json_list json_string (CHR '']'') n (separated (map quote ns) @ CHR '']'' # ''}'' @ [newline]) =
      Some (ns, ''}'' @ [newline])" by simp
  show ?thesis
    unfolding line read_report_def
    by (simp only: literally_append probe flag metrics remarks Option.bind.simps prod.case json_value.case simp_thms if_True)
qed

lemma plain_text_no_null: "plain_text s \<Longrightarrow> CHR 0x00 \<notin> set (quote s)"
proof -
  assume s: "plain_text s"
  have "control (CHR 0x00)" "CHR 0x00 \<noteq> newline" by (simp_all add: control_def newline_def)
  then have "c \<noteq> CHR 0x00" if "c \<in> set s" for c using s that by (auto simp: plain_text_def list_all_iff)
  moreover have "CHR 0x00 \<notin> set (quote_char c)" if "c \<noteq> CHR 0x00" for c
    using that by (simp add: quote_char_def Let_def bslash_def)
  ultimately show ?thesis by (auto simp: quote_def dquote_def)
qed

lemma separated_no_null: "\<forall>x \<in> set xs. c \<notin> set x \<Longrightarrow> c \<noteq> CHR '','' \<Longrightarrow> c \<notin> set (separated xs)"
  by (induction xs rule: separated.induct) auto

lemma json_text_no_null:
  assumes "plain_text probe" and "\<And>m. m \<in> set ms \<Longrightarrow> metric_plain m" and "\<And>x. x \<in> set ns \<Longrightarrow> plain_text x"
  shows "c_str (json_text probe ok ms ns) = json_text probe ok ms ns"
proof -
  have m: "CHR 0x00 \<notin> set (metric_text m)" if "m \<in> set ms" for m
    using assms(2) [OF that] plain_text_no_null by (cases m rule: metric_text.cases) (auto simp: word_text_def)
  have "CHR 0x00 \<notin> set (separated (map metric_text ms))" "CHR 0x00 \<notin> set (separated (map quote ns))"
    by (rule separated_no_null; use m assms(3) plain_text_no_null in auto)+
  moreover have "CHR 0x00 \<notin> set (quote t)" if "plain_text t" for t using plain_text_no_null that by blast
  moreover have "plain_text ''probe''" "plain_text ''ok''" "plain_text ''metrics''" "plain_text ''notes''"
    by (simp_all add: plain_text_def control_def)
  ultimately have "CHR 0x00 \<notin> set (json_text probe ok ms ns)" using assms(1) by (auto simp: json_text_def)
  then show ?thesis by (auto simp: c_str_def takeWhile_eq_all_conv)
qed

text \<open>
  C19. A probe's JSON report reads back as what the probe reported, whatever it does to the
  report and in whatever order: the probe's name, the verdict, every metric in order with
  its string, number or flag, and every note; and the exit status is 0 exactly when nothing
  failed.  This holds for text without control characters other than the newline, and such
  a character inside a string makes the line no JSON.
\<close>

theorem report_reads_back:
  assumes "plain_text probe" and "list_all op_plain ops" and "length ops \<le> n"
  shows "finish (report_all ops (report_new Json probe)) =
           (if list_all (\<lambda>x. \<not> op_failed x) ops then 0 else 1,
            snd (finish (report_all ops (report_new Json probe)))) \<and>
         read_report n (snd (finish (report_all ops (report_new Json probe)))) =
           Some (probe, if list_all (\<lambda>x. \<not> op_failed x) ops then ''true'' else ''false'',
                 concat (map op_metric ops), concat (map op_note ops)) \<and>
         (\<not> plain_text t \<longrightarrow> json_string (quote t @ rest) = None)"
proof -
  let ?r = "report_all ops (report_new Json probe)"
  let ?ms = "concat (map op_metric ops)" and ?ns = "concat (map op_note ops)"
  let ?ok = "list_all (\<lambda>x. \<not> op_failed x) ops"
  have f: "rp_fmt ?r = Json" "rp_ok ?r = ?ok" "render_json ?r = json_text probe ?ok ?ms ?ns"
    using report_all_fields [of ops "report_new Json probe"]
    by (simp_all add: report_new_def render_json_def json_text_def)
  have ms: "metric_plain m" if m: "m \<in> set ?ms" for m
  proof -
    obtain y where "y \<in> set ops" "m \<in> set (op_metric y)" using m by auto
    then show ?thesis using assms(2) op_metric_plain [of y m] by (simp add: list_all_iff)
  qed
  have ns: "plain_text x" if x: "x \<in> set ?ns" for x
  proof -
    obtain y where "y \<in> set ops" "x \<in> set (op_note y)" using x by auto
    moreover from this have "op_plain y" using assms(2) by (simp add: list_all_iff)
    ultimately show ?thesis by (cases y rule: report_op.exhaust) simp_all
  qed
  have "length ?ms \<le> length ops" "length ?ns \<le> length ops"
  proof -
    have "length (concat (map f xs)) \<le> length xs" if "\<And>x. length (f x) \<le> 1" for f :: "report_op \<Rightarrow> 'x list" and xs
    proof (induction xs)
      case (Cons x xs)
      then show ?case using that [of x] by simp
    qed simp
    moreover have "length (op_metric x) \<le> 1" "length (op_note x) \<le> 1" for x by (cases x; simp)+
    ultimately show "length ?ms \<le> length ops" "length ?ns \<le> length ops" by blast+
  qed
  then have l: "length ?ms \<le> n" "length ?ns \<le> n" using assms(3) by linarith+
  have "c_str (json_text probe ?ok ?ms ?ns) = json_text probe ?ok ?ms ?ns"
    by (rule json_text_no_null [OF assms(1) ms ns])
  then have "snd (finish ?r) = json_text probe ?ok ?ms ?ns @ [newline]"
    using f by (simp add: finish_def)
  then have "read_report n (snd (finish ?r)) = Some (probe, if ?ok then ''true'' else ''false'', ?ms, ?ns)"
    using read_json_text [where ms = ?ms and ns = ?ns and ok = ?ok and n = n, OF assms(1) ms ns l] by simp
  then show ?thesis using f by (simp add: finish_def json_string_quote)
qed

theorem report_reads_back_witness:
  "read_report 4 (snd (finish (report_all [R_num ''frames'' 8, R_str ''try.cost'' ''one branch'', R_fail ''off by one'']
      (report_new Json ''levels'')))) =
     Some (''levels'', ''false'', [(''frames'', J_word (show_int 8)), (''try.cost'', J_string ''one branch'')], [''off by one'']) \<and>
   json_string (quote [CHR 0x09]) = None"
  using report_reads_back [of "''levels''" "[R_num ''frames'' 8, R_str ''try.cost'' ''one branch'', R_fail ''off by one'']" 4 "[CHR 0x09]" "[]"]
  by (simp add: plain_text_def control_def newline_def)


subsection \<open>Two probes\<close>

definition fail_if :: "bool \<Rightarrow> string \<Rightarrow> report_op list" where
  "fail_if cond why = (if cond then [R_fail why] else [])"

text \<open>\<open>destructors\<close>: both runs of the instrumented chain, then the checks.\<close>

definition probe_destructors ::
    "(counted, c_int, error, 'loc) site \<Rightarrow> (nat \<Rightarrow> 'loc) \<Rightarrow> fmt \<Rightarrow> (int \<times> string) outcome" where
  "probe_destructors st loc f =
     (case d_chain st loc (- 1) \<lparr>ctor = 0, dtor = 0\<rparr> of (bad_run, after_fail) \<Rightarrow>
      case d_chain st loc 5 \<lparr>ctor = 0, dtor = 0\<rparr> of (ok_run, after_ok) \<Rightarrow>
      bind_outcome bad_run (\<lambda>bad.
      bind_outcome ok_run (\<lambda>ok.
      bind_outcome (if has_value bad then Returns True
          else map_outcome_value (\<lambda>e. err_code e \<noteq> 7) (error_checked bad)) (\<lambda>lost.
      Returns (finish (report_all
        ([R_num ''failure.constructed'' (ctor after_fail), R_num ''failure.destructed'' (dtor after_fail),
          R_num ''success.constructed'' (ctor after_ok), R_num ''success.destructed'' (dtor after_ok),
          R_num ''frames'' 8, R_num ''cases.asked'' 2, R_num ''cases.known'' 2] @
         fail_if (ctor after_fail \<noteq> dtor after_fail) ''failure path skipped or double-ran a destructor'' @
         fail_if (ctor after_ok \<noteq> dtor after_ok) ''success path skipped or double-ran a destructor'' @
         fail_if (ctor after_fail < 8) ''fewer than eight frames were exercised on the failure path'' @
         fail_if lost ''the originating failure was not delivered to the landing boundary'' @
         fail_if (\<not> has_value ok) ''the success value was not delivered to the landing boundary'')
        (report_new f ''destructors'')))))))"

text \<open>
  \<open>policies\<close>: the same chain over the three policies.  The type traits and sizes are facts
  of the compiled types and arguments.
\<close>

definition behaves ::
    "string \<Rightarrow> (c_int, 'e) result \<Rightarrow> (c_int, 'e) result \<Rightarrow> report_op list outcome" where
  "behaves name good bad =
     map_outcome_value (\<lambda>same.
         let ok = same \<and> \<not> has_value bad in
         R_boolean (name @ ''.identical_behavior'') ok #
         fail_if (\<not> ok) (name @ '': a policy changed observable behavior over identical source''))
       (if has_value good then map_outcome_value (\<lambda>v. v = 12) (value_checked good) else Returns False)"

record policy_traits =
  rich_trivial :: bool
  erased_trivial :: bool
  result_rich_trivial :: bool
  result_erased_trivial :: bool
  result_minimal_size :: int
  result_rich_size :: int

definition probe_policies ::
    "int \<Rightarrow> bool \<Rightarrow> bool \<Rightarrow> trace \<Rightarrow> addr \<Rightarrow> (nat \<Rightarrow> 'loc) \<Rightarrow> policy_traits \<Rightarrow> 'loc store \<Rightarrow> fmt \<Rightarrow>
     (int \<times> string) outcome" where
  "probe_policies mode diag trc t g loc T s f =
     (let minimal = pol_chain make_minimal (shipped_site mode diag note_propagation_default) loc;
          rich = pol_chain (make_rich trc t) (shipped_site mode diag note_propagation_rich) loc;
          erased = pol_chain (make_erased g) (shipped_site mode diag note_propagation_default) loc in
      bind_outcome (fst (minimal 5 ())) (\<lambda>m1. bind_outcome (fst (minimal (- 1) ())) (\<lambda>m2.
      bind_outcome (behaves ''minimal'' m1 m2) (\<lambda>minimal_ops.
      case rich 5 s of (r1, s1) \<Rightarrow> case rich (- 1) s1 of (r2, s2) \<Rightarrow>
      bind_outcome r1 (\<lambda>r1. bind_outcome r2 (\<lambda>r2.
      bind_outcome (behaves ''rich'' r1 r2) (\<lambda>rich_ops.
      bind_outcome (fst (erased 5 ())) (\<lambda>e1. bind_outcome (fst (erased (- 1) ())) (\<lambda>e2.
      bind_outcome (behaves ''erased'' e1 e2) (\<lambda>erased_ops.
      Returns (finish (report_all
        (minimal_ops @ rich_ops @ erased_ops @
         [R_boolean ''rich.trivially_copyable'' (rich_trivial T),
          R_boolean ''erased.trivially_copyable'' (erased_trivial T),
          R_boolean ''result_rich.trivially_copyable'' (result_rich_trivial T),
          R_boolean ''result_erased.trivially_copyable'' (result_erased_trivial T),
          R_num ''sizeof.result_minimal'' (result_minimal_size T),
          R_num ''sizeof.result_rich'' (result_rich_size T),
          R_num ''diagnostics_enabled'' (if diag then 1 else 0),
          R_num ''cases.asked'' 3, R_num ''cases.known'' 3] @
         fail_if (\<not> result_rich_trivial T \<or> \<not> result_erased_trivial T)
           ''a policy made the transport non-trivially-copyable'')
        (report_new f ''policies'')))))))))))))"

text \<open>The chains, as the probes run them.\<close>

lemma pol_chain_good: "plain_site st \<Longrightarrow> pol_chain mk st loc 5 s = (Returns (result_of_value 12), s)"
proof -
  assume st: "plain_site st"
  have "pol_leaf mk loc 5 s = (map_outcome_value result_of_value (int_result 10), s)"
    by (simp add: pol_leaf_def leaf_of_def c_negative_def c_mul_def)
  from wrappers_value [of st "pol_leaf mk loc 5" s _ _ loc 2, OF st this] show ?thesis
    by (simp add: pol_chain_wrappers int_result_def)
qed

lemma pol_chain_bad: "plain_site st \<Longrightarrow> \<exists>e s'. pol_chain mk st loc (- 1) s = (Returns (result_of_failure id (fail e)), s')"
proof -
  assume st: "plain_site st"
  obtain e s1 where m: "mk (loc 0) 42 7 s = (e, s1)" by (cases "mk (loc 0) 42 7 s")
  have "pol_leaf mk loc (- 1) s = (Returns (result_of_failure id (fail e)), s1)"
    unfolding pol_leaf_def by (rule leaf_of_failure) (simp_all add: c_negative_def m)
  from wrappers_failure [of st "pol_leaf mk loc (- 1)" s _ _ loc 2, OF st this] show ?thesis by (simp add: pol_chain_wrappers) blast
qed

lemma behaves_good: "behaves name (result_of_value 12) (result_of_failure id (fail e)) = Returns [R_boolean (name @ ''.identical_behavior'') True]"
  by (simp add: behaves_def fail_if_def value_checked_def require_value_def read_val_def transport_simps)

text \<open>
  The destructor and policy probes pass on the library as modelled: the instrumented chain
  is constructed and destroyed eight times on the failing and on the successful path, the
  failure and the value arrive, and each policy gives the same value and fails alike, in
  every hardening mode, with or without diagnostics; the probes never step into undefined
  behaviour and exit with 0 exactly when the compiled transport is trivially copyable.
\<close>

theorem harness_probes_pass:
  assumes "plain_site st" and "hook st = note_propagation_default"
  shows "(\<exists>page. probe_destructors st loc f = Returns (0, page)) \<and>
         (\<exists>page. probe_policies mode diag trc t g loc' T s f =
            Returns (if result_rich_trivial T \<and> result_erased_trivial T then 0 else 1, page))"
proof
  have "c_negative (- 1 :: c_int)" "\<not> c_negative 5" by (simp_all add: c_negative_def)
  then have bad: "d_chain st loc (- 1) \<lparr>ctor = 0, dtor = 0\<rparr> =
      (Returns (result_of_failure id (fail (mk_error 7 0))), bump 8 \<lparr>ctor = 0, dtor = 0\<rparr>)"
    using d_frames_failure [OF assms, of "- 1" loc 7] by (simp add: d_chain_def)
  obtain v where ok: "d_chain st loc 5 \<lparr>ctor = 0, dtor = 0\<rparr> = (Returns (result_of_value v), bump 8 \<lparr>ctor = 0, dtor = 0\<rparr>)"
    using d_frames_value [OF assms(1) \<open>\<not> c_negative 5\<close>, of 7 loc] by (auto simp: d_chain_def)
  have "error_checked (result_of_failure id (fail (mk_error 7 0)) :: (c_int, error) result) = Returns (mk_error 7 0)"
    by (simp add: error_checked_def require_error_def read_err_def transport_simps)
  then show "\<exists>page. probe_destructors st loc f = Returns (0, page)"
    by (simp add: probe_destructors_def bad ok bump_def fail_if_def mk_error_def finish_def report_all_fields
      report_new_def has_value_def transport_simps)
  obtain e1 s1 where m: "pol_chain make_minimal (shipped_site mode diag note_propagation_default) loc' (- 1) () =
      (Returns (result_of_failure id (fail e1)), s1)" using pol_chain_bad [where mk = "make_minimal" and loc = loc' and s = "()", OF plain_shipped_site] by blast
  obtain e2 s2 where r: "pol_chain (make_rich trc t) (shipped_site mode diag note_propagation_rich) loc' (- 1) s =
      (Returns (result_of_failure id (fail e2)), s2)" using pol_chain_bad [where mk = "make_rich trc t" and loc = loc' and s = "s", OF plain_shipped_site] by blast
  obtain e3 s3 where e: "pol_chain (make_erased g) (shipped_site mode diag note_propagation_default) loc' (- 1) () =
      (Returns (result_of_failure id (fail e3)), s3)" using pol_chain_bad [where mk = "make_erased g" and loc = loc' and s = "()", OF plain_shipped_site] by blast
  show "\<exists>page. probe_policies mode diag trc t g loc' T s f =
      Returns (if result_rich_trivial T \<and> result_erased_trivial T then 0 else 1, page)"
    by (simp add: probe_policies_def Let_def pol_chain_good m r e behaves_good fail_if_def finish_def report_all_fields
      report_new_def)
qed

theorem harness_probes_pass_witness:
  "\<exists>page. probe_destructors (shipped_site 0 False note_propagation_default) (\<lambda>n. n) Json = Returns (0, page)"
  using harness_probes_pass [OF plain_shipped_site, where f = Json and loc = "\<lambda>n. n" and s = blank_store] by simp

end
