(* ===== verification/App_Verify_Client.thy ===== *)
theory App_Verify_Client
  imports App_Manifest
begin

unbundle bit_operations_syntax

text \<open>
  The normal-world client of the trusted application
  (\<open>reference_app/optee_ta/host/verify_client.c\<close>): the manifest builder, one request, the layout
  report and the program, composed with the model of the application itself.

  A pointer to constant data is the list of bytes readable through it, so a C string is its
  characters and the null after them.  Reading or writing past an object is undefined
  behaviour, the value \<open>None\<close>.  The builder's and the request's buffers start with whatever the
  stack holds.  The TEE's client library is a parameter, the record \<open>tee_client\<close>; what it is
  relied on for is the locale \<open>tee_host\<close>.
\<close>

subsection \<open>The builder\<close>

record builder =
  b_buf :: "byte list"
  b_len :: nat

definition put :: "builder \<Rightarrow> byte list \<Rightarrow> nat \<Rightarrow> builder option" where
  "put b p n =
     (if n \<le> length p \<and> b_len b + n \<le> length (b_buf b) then
        Some (b\<lparr>b_buf := take (b_len b) (b_buf b) @ take n p @ drop (b_len b + n) (b_buf b), b_len := b_len b + n\<rparr>)
      else None)"

definition put_u8 :: "builder \<Rightarrow> byte \<Rightarrow> builder option" where
  "put_u8 b v = put b [v] 1"

definition put_u32 :: "builder \<Rightarrow> c_uint32 \<Rightarrow> builder option" where
  "put_u32 b v = put b [ucast v, ucast (drop_bit 8 v), ucast (drop_bit 16 v), ucast (drop_bit 24 v)] 4"

definition begin_manifest :: "builder \<Rightarrow> byte \<Rightarrow> byte list \<Rightarrow> byte \<Rightarrow> builder option" where
  "begin_manifest b count magic version = do {
     let b = b\<lparr>b_len := 0\<rparr>;
     b \<leftarrow> put b magic 4;
     b \<leftarrow> put_u8 b version;
     put_u8 b count
   }"

definition cstring :: "string \<Rightarrow> byte list" where
  "cstring t = ascii t @ [0]"

definition strlen :: "byte list \<Rightarrow> nat" where
  "strlen p = length (takeWhile (\<lambda>b. b \<noteq> 0) p)"

definition digest_img0 :: "byte list" where
  "digest_img0 =
     [0x15, 0x35, 0x70, 0xdf, 0x59, 0x72, 0x40, 0xec, 0x00, 0xb9, 0xbc, 0x2c, 0xf6, 0x8a, 0x63, 0x58,
      0x1f, 0x84, 0x4e, 0x81, 0x25, 0xbe, 0x64, 0x66, 0x17, 0x9e, 0xc7, 0x93, 0x24, 0x38, 0xbb, 0x16]"

definition digest_wrong :: "byte list" where
  "digest_wrong = [0xde, 0xad, 0xbe, 0xef] @ replicate 28 0"

definition client_image :: "byte list" where "client_image = cstring ''IMG0''"

text \<open>\<open>sizeof(image) - 1\<close>.\<close>

definition image_size :: c_uint32 where "image_size = of_nat (length client_image - 1)"

definition entry :: "builder \<Rightarrow> byte list \<Rightarrow> c_uint32 \<Rightarrow> byte list \<Rightarrow> byte list option \<Rightarrow> builder option" where
  "entry b name len digest rf = do {
     b \<leftarrow> put_u8 b (of_nat (strlen name));
     b \<leftarrow> put b name (strlen name);
     b \<leftarrow> put_u32 b len;
     b \<leftarrow> put b digest digest_bytes;
     b \<leftarrow> put_u8 b (case rf of Some r \<Rightarrow> of_nat (strlen r) | None \<Rightarrow> 0);
     b \<leftarrow> (case rf of Some r \<Rightarrow> put b r (strlen r) | None \<Rightarrow> Some b);
     put b client_image (unat len)
   }"


subsection \<open>What the builder appends\<close>

definition builder_ok :: "builder \<Rightarrow> bool" where
  "builder_ok b \<longleftrightarrow> length (b_buf b) = 4096 \<and> b_len b \<le> 4096"

definition built :: "builder \<Rightarrow> byte list" where
  "built b = take (b_len b) (b_buf b)"

definition appended :: "builder \<Rightarrow> byte list \<Rightarrow> builder" where
  "appended b xs =
     b\<lparr>b_buf := take (b_len b) (b_buf b) @ xs @ drop (b_len b + length xs) (b_buf b), b_len := b_len b + length xs\<rparr>"

lemma length_built: "builder_ok b \<Longrightarrow> length (built b) = b_len b"
  by (simp add: builder_ok_def built_def)

lemma appended_simps [simp]:
  assumes "builder_ok b" and "b_len b + length xs \<le> 4096"
  shows "builder_ok (appended b xs)" "built (appended b xs) = built b @ xs"
    "appended (appended b xs) ys = appended b (xs @ ys)"
  using assms by (simp_all add: builder_ok_def appended_def built_def ac_simps)

lemma b_len_appended [simp]: "b_len (appended b xs) = b_len b + length xs"
  by (simp add: appended_def)

lemma put_appends:
  "builder_ok b \<Longrightarrow> n \<le> length p \<Longrightarrow> b_len b + n \<le> 4096 \<Longrightarrow> put b p n = Some (appended b (take n p))"
  by (simp add: put_def builder_ok_def appended_def)

definition le32 :: "c_uint32 \<Rightarrow> byte list" where
  "le32 v = [ucast v, ucast (drop_bit 8 v), ucast (drop_bit 16 v), ucast (drop_bit 24 v)]"

lemma put_u8_appends: "builder_ok b \<Longrightarrow> b_len b < 4096 \<Longrightarrow> put_u8 b v = Some (appended b [v])"
  by (simp add: put_u8_def put_appends)

lemma put_u32_appends: "builder_ok b \<Longrightarrow> b_len b + 4 \<le> 4096 \<Longrightarrow> put_u32 b v = Some (appended b (le32 v))"
  by (simp add: put_u32_def put_appends le32_def)

lemmas put_simps = put_appends put_u8_appends put_u32_appends

text \<open>An entry as data: its name, image length, digest and reference.\<close>

record manifest_entry =
  me_name :: "byte list"
  me_len :: c_uint32
  me_digest :: "byte list"
  me_ref :: "byte list option"

definition entry_ok :: "manifest_entry \<Rightarrow> bool" where
  "entry_ok e \<longleftrightarrow> 0 \<notin> set (me_name e) \<and> length (me_name e) < 256 \<and> unat (me_len e) \<le> 5 \<and>
     length (me_digest e) = 32 \<and>
     (case me_ref e of None \<Rightarrow> True | Some r \<Rightarrow> 0 \<notin> set r \<and> length r < 256)"

definition ref_bytes :: "manifest_entry \<Rightarrow> byte list" where
  "ref_bytes e = (case me_ref e of None \<Rightarrow> [] | Some r \<Rightarrow> r)"

definition entry_bytes :: "manifest_entry \<Rightarrow> byte list" where
  "entry_bytes e =
     [of_nat (length (me_name e))] @ me_name e @ le32 (me_len e) @ me_digest e @
     [of_nat (length (ref_bytes e))] @ ref_bytes e @ take (unat (me_len e)) client_image"

definition put_entry :: "builder \<Rightarrow> manifest_entry \<Rightarrow> builder option" where
  "put_entry b e = entry b (me_name e @ [0]) (me_len e) (me_digest e) (map_option (\<lambda>r. r @ [0]) (me_ref e))"

primrec put_entries :: "manifest_entry list \<Rightarrow> builder \<Rightarrow> builder option" where
  "put_entries [] b = Some b"
| "put_entries (e # es) b = put_entry b e \<bind> put_entries es"

lemma put_entries_steps: "put_entries [] = Some" "put_entries (e # es) = (\<lambda>b. put_entry b e \<bind> put_entries es)"
  by (intro ext, simp)+

lemma strlen_terminated: "0 \<notin> set xs \<Longrightarrow> strlen (xs @ [0]) = length xs"
  unfolding strlen_def by (subst takeWhile_append2) auto

lemma length_image: "length client_image = 5"
  by (simp add: client_image_def cstring_def ascii_def)

lemma length_entry_bytes:
  "entry_ok e \<Longrightarrow> length (entry_bytes e) = 38 + length (me_name e) + length (ref_bytes e) + unat (me_len e)"
  by (simp add: entry_bytes_def entry_ok_def le32_def length_image)

lemma put_entry_appends:
  assumes "builder_ok b" and "entry_ok e" and "b_len b + length (entry_bytes e) \<le> 4096"
  shows "put_entry b e = Some (appended b (entry_bytes e))"
proof -
  have name: "strlen (me_name e @ [0]) = length (me_name e)"
    and rf: "me_ref e = Some r \<Longrightarrow> strlen (r @ [0]) = length r" for r
    using assms(2) by (simp_all add: entry_ok_def strlen_terminated)
  have size: "length (me_digest e) = 32" "unat (me_len e) \<le> 5" using assms(2) by (simp_all add: entry_ok_def)
  show ?thesis
    using assms(1,3) size
    by (cases "me_ref e")
      (simp_all add: put_entry_def entry_def put_simps name rf length_image digest_bytes_def ref_bytes_def le32_def
        length_entry_bytes [OF assms(2)] entry_bytes_def)
qed

lemma put_entries_appends:
  assumes "\<forall>e\<in>set es. entry_ok e" and "builder_ok b" and "b_len b + length (concat (map entry_bytes es)) \<le> 4096"
  shows "put_entries es b = Some (appended b (concat (map entry_bytes es)))"
  using assms
proof (induction es arbitrary: b)
  case Nil
  then show ?case by (simp add: appended_def)
next
  case (Cons e es)
  then show ?case by (simp add: put_entry_appends)
qed


subsection \<open>The application reads what the builder wrote\<close>

lemma le32_joins:
  "ucast (ucast v :: byte) OR push_bit 8 (ucast (ucast (drop_bit 8 v) :: byte)) OR
   push_bit 16 (ucast (ucast (drop_bit 16 v) :: byte)) OR push_bit 24 (ucast (ucast (drop_bit 24 v) :: byte)) = (v :: c_uint32)"
  (is "?w = v")
proof (rule bit_word_eqI)
  fix n
  assume "n < LENGTH(32)"
  then consider "n < 8" | "8 \<le> n" "n < 16" | "16 \<le> n" "n < 24" | "24 \<le> n" "n < 32" by force
  then show "bit ?w n = bit v n" by cases (auto simp: bit_simps)
qed

lemma reader_u32_le32: "reader_u32 (q @ le32 v @ rest) (length q) = Some v"
  using le32_joins [of v] by (simp add: reader_u32_def le32_def nth_append)

lemma head_at_written:
  assumes "length dg = 32" and "length rf < 256"
  shows "head_at (q @ le32 v @ dg @ of_nat (length rf) # rf @ rest) (length q) =
    Some \<lparr>image_length = v, expected_digest = dg, entry_ref = rf, image_start = length q + 37 + length rf\<rparr>"
proof -
  let ?buf = "q @ le32 v @ dg @ of_nat (length rf) # rf @ rest"
  have n: "unat (of_nat (length rf) :: byte) = length rf" using assms(2) by (simp add: unat_of_nat)
  have "?buf ! (length q + 36) = of_nat (length rf)" "take 32 (drop (length q + 4) ?buf) = dg"
    "drop (length q + 37) ?buf = rf @ rest"
    using assms(1) by (simp_all add: nth_append le32_def)
  then show ?thesis
    using assms(1) reader_u32_le32 [of q v] by (simp add: head_at_def n le32_def)
qed

text \<open>The position after an entry, the body of each entry, and the head the application reads there.\<close>

primrec entry_bodies :: "nat \<Rightarrow> manifest_entry list \<Rightarrow> (byte list \<times> nat) list" where
  "entry_bodies pos [] = []"
| "entry_bodies pos (e # es) = (me_name e, pos + 1 + length (me_name e)) # entry_bodies (pos + length (entry_bytes e)) es"

definition written_head :: "manifest_entry \<Rightarrow> nat \<Rightarrow> entry_head" where
  "written_head e body =
     \<lparr>image_length = me_len e, expected_digest = me_digest e, entry_ref = ref_bytes e,
      image_start = body + 37 + length (ref_bytes e)\<rparr>"

definition holds_entry :: "byte list \<Rightarrow> manifest_entry \<Rightarrow> nat \<Rightarrow> bool" where
  "holds_entry buf e body \<longleftrightarrow> head_at buf body = Some (written_head e body) \<and>
     image_start (written_head e body) + unat (me_len e) \<le> length buf \<and>
     take (unat (me_len e)) (drop (image_start (written_head e body)) buf) = take (unat (me_len e)) client_image"

lemma entry_written:
  assumes "entry_ok e"
  shows "holds_entry (pre @ entry_bytes e @ post) e (length pre + 1 + length (me_name e))"
    and "entry_at (pre @ entry_bytes e @ post) (length pre) =
      Some (me_name e, length pre + 1 + length (me_name e), length pre + length (entry_bytes e))"
proof -
  let ?buf = "pre @ entry_bytes e @ post" and ?q = "pre @ of_nat (length (me_name e)) # me_name e"
  have short: "length (me_digest e) = 32" "length (ref_bytes e) < 256" "length (me_name e) < 256" "unat (me_len e) \<le> 5"
    using assms by (auto simp: entry_ok_def ref_bytes_def split: option.splits)
  have n: "unat (of_nat (length (me_name e)) :: byte) = length (me_name e)" using short(3) by (simp add: unat_of_nat)
  have q: "length ?q = length pre + 1 + length (me_name e)" by simp
  have buf: "?buf = ?q @ le32 (me_len e) @ me_digest e @ of_nat (length (ref_bytes e)) # ref_bytes e @
      take (unat (me_len e)) client_image @ post"
    by (simp add: entry_bytes_def)
  have head: "head_at ?buf (length ?q) = Some (written_head e (length ?q))"
    unfolding buf by (simp only: head_at_written [OF short(1,2)] written_head_def)
  have "drop (image_start (written_head e (length ?q))) ?buf = take (unat (me_len e)) client_image @ post"
  proof -
    let ?r = "?q @ le32 (me_len e) @ me_digest e @ of_nat (length (ref_bytes e)) # ref_bytes e"
    have "image_start (written_head e (length ?q)) = length ?r" using short(1) by (simp add: written_head_def le32_def)
    moreover have "?buf = ?r @ take (unat (me_len e)) client_image @ post" by (simp add: buf)
    ultimately show ?thesis by (metis append_eq_conv_conj)
  qed
  then show "holds_entry ?buf e (length pre + 1 + length (me_name e))"
    using head short by (simp add: holds_entry_def q [symmetric] del: length_append) (simp add: written_head_def length_entry_bytes [OF assms] length_image)
  have "?buf ! length pre = of_nat (length (me_name e))" "take (length (me_name e)) (drop (length pre + 1) ?buf) = me_name e"
    "length pre < length ?buf"
    by (simp_all add: entry_bytes_def)
  then show "entry_at ?buf (length pre) =
      Some (me_name e, length pre + 1 + length (me_name e), length pre + length (entry_bytes e))"
    using head by (simp add: entry_at_def n q [symmetric] del: length_append) (simp add: written_head_def n length_entry_bytes [OF assms])
qed

lemma manifest_entries_written:
  "\<forall>e\<in>set es. entry_ok e \<Longrightarrow>
     manifest_entries (pre @ concat (map entry_bytes es)) (length es) (length pre) = entry_bodies (length pre) es"
proof (induction es arbitrary: pre)
  case (Cons e es)
  then show ?case
    using entry_written(2) [of e pre "concat (map entry_bytes es)"] Cons.IH [of "pre @ entry_bytes e"] by simp
qed simp

lemma entry_bodies_hold:
  assumes "\<forall>e\<in>set es. entry_ok e"
  shows "list_all2 (\<lambda>e (name, body). name = me_name e \<and> holds_entry (pre @ concat (map entry_bytes es)) e body)
    es (entry_bodies (length pre) es)"
  using assms
proof (induction es arbitrary: pre)
  case (Cons e es)
  then show ?case
    using entry_written(1) [of e pre "concat (map entry_bytes es)"] Cons.IH [of "pre @ entry_bytes e"] by simp
qed simp

definition manifest_bytes :: "byte \<Rightarrow> byte list \<Rightarrow> byte \<Rightarrow> manifest_entry list \<Rightarrow> byte list" where
  "manifest_bytes count magic version es = take 4 magic @ [version, count] @ concat (map entry_bytes es)"

lemma begin_appends:
  assumes "length (b_buf b) = 4096" and "4 \<le> length magic"
  shows "begin_manifest b count magic version = Some (appended (b\<lparr>b_len := 0\<rparr>) (take 4 magic @ [version, count]))"
proof -
  have "builder_ok (b\<lparr>b_len := 0\<rparr>)" using assms by (simp add: builder_ok_def)
  then show ?thesis using assms by (simp add: begin_manifest_def put_simps)
qed

lemma build_manifest:
  assumes "length (b_buf b) = 4096" and "4 \<le> length magic" and "\<forall>e\<in>set es. entry_ok e"
    and "length (manifest_bytes count magic version es) \<le> 4096"
  shows "\<exists>b'. begin_manifest b count magic version \<bind> put_entries es = Some b' \<and> builder_ok b' \<and>
    built b' = manifest_bytes count magic version es"
proof -
  let ?z = "b\<lparr>b_len := 0\<rparr>"
  have "builder_ok ?z" "built ?z = []" using assms(1) by (simp_all add: builder_ok_def built_def)
  then show ?thesis
    using assms by (simp add: begin_appends put_entries_appends manifest_bytes_def)
qed

text \<open>
  The builder and the trusted application agree on the layout: a manifest of up to 255
  well-formed entries that fits the builder is built without overrunning it, whatever the
  builder held before, and the application finds exactly its entries, in order, each with
  the name, length, digest and reference that were written and the image's bytes behind it.
\<close>

theorem built_manifest_reads_back:
  assumes "length (b_buf b) = 4096" and "\<forall>e\<in>set es. entry_ok e" and "length es < 256"
    and "length (manifest_bytes (of_nat (length es)) (ascii ''MFST'') 1 es) \<le> 4096"
  shows "\<exists>b'. begin_manifest b (of_nat (length es)) (ascii ''MFST'') 1 \<bind> put_entries es = Some b' \<and> builder_ok b' \<and>
    list_all2 (\<lambda>e (name, body). name = me_name e \<and> holds_entry (built b') e body)
      es (manifest_entries (built b') (unat (built b' ! 5)) 6)"
proof -
  let ?pre = "take 4 (ascii ''MFST'') @ [1, of_nat (length es)]"
  have pre: "length ?pre = 6" "4 \<le> length (ascii ''MFST'')" by (simp_all add: ascii_def)
  obtain b' where b': "begin_manifest b (of_nat (length es)) (ascii ''MFST'') 1 \<bind> put_entries es = Some b'" "builder_ok b'"
    "built b' = ?pre @ concat (map entry_bytes es)"
    using build_manifest [OF assms(1) pre(2) assms(2,4)] by (auto simp: manifest_bytes_def)
  have "unat (built b' ! 5) = length es" using assms(3) b'(3) by (simp add: ascii_def unat_of_nat nth_append)
  then show ?thesis
    using b' entry_bodies_hold [OF assms(2), of ?pre] manifest_entries_written [OF assms(2), of ?pre] pre(1) by auto
qed


subsection \<open>The verdict on a built manifest\<close>

text \<open>The application's verdict as a function of the entries alone, without the buffer.\<close>

function verdict_on ::
    "(nat \<Rightarrow> bool) \<Rightarrow> (byte list \<Rightarrow> byte list) \<Rightarrow> manifest_entry list \<Rightarrow> byte list list \<Rightarrow> nat \<Rightarrow> manifest_entry \<Rightarrow> nat \<Rightarrow>
     ta_fault option \<times> nat \<times> nat" where
  "verdict_on alloc sha256 es path held e d =
     (if me_name e \<in> set path then (Some (reference_cycle, me_name e, d), 0, d)
      else if length path > ta_max_depth then (Some (nesting_too_deep, me_name e, d), 0, d)
      else if \<not> alloc held then (Some (digest_unavailable, ascii ''digest'', d), 0, d)
      else if me_len e = 0 then (Some (length_implausible, me_name e, d), 0, d)
      else
        (case (if ref_bytes e = [] then (None, 0, d)
               else
                 (case find (\<lambda>x. me_name x = ref_bytes e) es of
                    None \<Rightarrow> (Some (reference_missing, ref_bytes e, d), 0, d)
                  | Some x \<Rightarrow> verdict_on alloc sha256 es (path @ [me_name e]) (held + 1) x (d + 1))) of
           (Some f, n, m) \<Rightarrow> (Some f, n, m)
         | (None, n, m) \<Rightarrow>
             if sha256 (take (unat (me_len e)) client_image) \<noteq> me_digest e
             then (Some (digest_mismatch, me_name e, d), n, m)
             else (None, n + 1, m)))"
  by pat_completeness auto

termination
  by (relation "measure (\<lambda>(alloc, sha256, es, path, held, e, d). ta_max_depth + 1 - length path)") auto

declare verdict_on.simps [simp del]

lemma small_wide: "length buf \<le> 4096 \<Longrightarrow> wide 64 buf"
  by (simp add: wide_def)

lemma find_in_bodies:
  "list_all2 (\<lambda>e (name, body). name = me_name e \<and> P e body) es bodies \<Longrightarrow>
     rel_option (\<lambda>e body. e \<in> set es \<and> P e body) (find (\<lambda>x. me_name x = want) es) (map_of bodies want)"
  by (induction rule: list_all2_induct) (auto elim!: option.rel_mono_strong)

lemma verify_ref_verdict:
  assumes lookup: "\<And>want. rel_option (\<lambda>e body. e \<in> set es \<and> holds_entry buf e body)
      (find (\<lambda>x. me_name x = want) es) (bodies want)"
    and found: "\<And>want. find_entry W buf want = Some (located_of (bodies want))"
    and ok: "\<forall>e\<in>set es. entry_ok e"
  shows "e \<in> set es \<Longrightarrow> holds_entry buf e body \<Longrightarrow>
    verify_ref alloc sha256 W buf path held (me_name e) body d = verdict_on alloc sha256 es path held e d"
proof (induction "ta_max_depth + 1 - length path" arbitrary: path held e body d rule: less_induct)
  case less
  let ?h = "written_head e body"
  have head: "head_at buf body = Some ?h" using less.prems(2) by (simp add: holds_entry_def)
  have "unat (me_len e) \<le> 5" using ok less.prems(1) by (auto simp: entry_ok_def)
  then have plausible: "plausible ?h \<longleftrightarrow> me_len e \<noteq> 0"
    by (simp add: plausible_def written_head_def max_image_bytes_def unat_gt_0)
  have ref: "entry_ref ?h = ref_bytes e" by (simp add: written_head_def)
  have image: "image_fault sha256 buf (me_name e) ?h d =
      (if sha256 (take (unat (me_len e)) client_image) \<noteq> me_digest e then Some (digest_mismatch, me_name e, d) else None)"
    using less.prems(2) by (simp add: image_fault_def holds_entry_def written_head_def)
  show ?case
  proof (cases "find (\<lambda>x. me_name x = ref_bytes e) es")
    case None
    then have "bodies (ref_bytes e) = None" using lookup [of "ref_bytes e"] by simp
    then show ?thesis
      using None found [of "ref_bytes e"]
      by (subst verify_ref.simps, subst verdict_on.simps)
        (simp add: head plausible ref image located_of_def absent_def)
  next
    case (Some x)
    then obtain bd where bd: "bodies (ref_bytes e) = Some bd" "x \<in> set es" "holds_entry buf x bd"
      using lookup [of "ref_bytes e"] by (auto simp: option_rel_Some1)
    have name: "me_name x = ref_bytes e" using Some by (simp add: find_Some_iff) metis
    have "verify_ref alloc sha256 W buf (path @ [me_name e]) (held + 1) (ref_bytes e) bd (d + 1) =
        verdict_on alloc sha256 es (path @ [me_name e]) (held + 1) x (d + 1)" if "length path \<le> ta_max_depth"
      using less.hyps [OF _ bd(2,3), of "path @ [me_name e]"] that name by simp
    then show ?thesis
      using Some found [of "ref_bytes e"] bd(1)
      by (subst verify_ref.simps, subst verdict_on.simps)
        (simp add: head plausible ref image located_of_def split: prod.split option.split)
  qed
qed

text \<open>
  For a manifest the client builds, the application's verdict is a function of the entries:
  it follows the references by name from the first entry, reports the first cycle, missing
  reference, empty image or wrong digest with the name and depth it belongs to, and counts
  the entries otherwise.
\<close>

lemma built_manifest_verdict:
  assumes "\<forall>x\<in>set (e # es). entry_ok x" and "length (e # es) < 256" and "me_name e \<noteq> []"
    and "length (manifest_bytes (of_nat (length (e # es))) (ascii ''MFST'') 1 (e # es)) \<le> 4096"
  shows "manifest_ref alloc sha256 64 (manifest_bytes (of_nat (length (e # es))) (ascii ''MFST'') 1 (e # es)) held =
    verdict_on alloc sha256 (e # es) [] held e 0"
proof -
  let ?n = "of_nat (length (e # es)) :: byte" and ?k = "of_nat (length (me_name e)) :: byte"
  let ?pre = "take 4 (ascii ''MFST'') @ [1, ?n] :: byte list" and ?rest = "concat (map entry_bytes es)"
  let ?buf = "?pre @ concat (map entry_bytes (e # es))"
  have buf: "manifest_bytes ?n (ascii ''MFST'') 1 (e # es) = ?buf" by (simp add: manifest_bytes_def)
  have pre: "length ?pre = 6" by (simp add: ascii_def)
  have unat: "unat ?n = length (e # es)" "unat ?k = length (me_name e)"
    using assms(1,2) by (simp_all add: unat_of_nat entry_ok_def del: of_nat_Suc)
  then have nonzero: "?n \<noteq> 0" "?k \<noteq> 0" using assms(3) by (metis length_0_conv list.distinct(1) unat_0)+
  have bytes: "?buf ! 5 = ?n" "?buf ! 4 = 1" "take 4 ?buf = ascii ''MFST''" "?buf ! 6 = ?k"
    "take (length (me_name e)) (drop 7 ?buf) = me_name e"
    by (simp_all add: ascii_def entry_bytes_def)
  have "7 + length (me_name e) \<le> length ?buf" using pre by (simp add: length_entry_bytes assms(1))
  then have first: "first_entry ?buf = Some (me_name e, 7 + length (me_name e))"
    using bytes unat nonzero by (simp add: first_entry_def del: of_nat_Suc)
  let ?bodies = "entry_bodies (length ?pre) (e # es)"
  have "length ?buf \<le> 4096" using assms(4) by (simp only: buf)
  then have wide: "wide 64 ?buf" by (rule small_wide)
  have found: "find_entry 64 ?buf want = Some (located_of (map_of ?bodies want))" for want
    using find_entry_entries [OF wide, of want] manifest_entries_written [OF assms(1), of ?pre] pre bytes(1) unat(1)
    by (simp del: of_nat_Suc)
  have "holds_entry ?buf e (7 + length (me_name e))"
    using entry_written(1) [of e ?pre ?rest] assms(1) pre by simp
  note agrees = verify_ref_verdict [OF find_in_bodies [OF entry_bodies_hold [OF assms(1), of ?pre]] found assms(1) _ this]
  show ?thesis unfolding buf manifest_ref_def first option.case prod.case by (rule agrees) simp
qed


subsection \<open>The client\<close>

text \<open>
  The TEE client library: the context, the one open session, and a command, which returns its
  result, its origin and the parameters as the TEE leaves them.
\<close>

record 't tee_client =
  teec_initialize :: "'t \<Rightarrow> c_uint32 \<times> 't"
  teec_open :: "'t \<Rightarrow> c_uint32 \<times> c_uint32 \<times> 't"
  teec_invoke :: "nat \<Rightarrow> tee_params \<Rightarrow> 't \<Rightarrow> c_uint32 \<times> c_uint32 \<times> tee_params \<times> 't"
  teec_close :: "'t \<Rightarrow> 't"
  teec_finalize :: "'t \<Rightarrow> 't"

definition TEEC_SUCCESS :: c_uint32 where "TEEC_SUCCESS = 0"

record 't client_run =
  cl_failures :: nat
  cl_printed :: "string list"
  cl_tee :: 't

definition say :: "string \<Rightarrow> 't client_run \<Rightarrow> 't client_run" where
  "say line st = st\<lparr>cl_printed := cl_printed st @ [line @ [char_of (10 :: nat)]]\<rparr>"

definition count_failure :: "'t client_run \<Rightarrow> 't client_run" where
  "count_failure st = st\<lparr>cl_failures := cl_failures st + 1\<rparr>"

text \<open>The \<open>%x\<close> conversion.\<close>

definition hex_digit :: "nat \<Rightarrow> char" where
  "hex_digit d = (if d < 10 then char_of (48 + d) else char_of (87 + d))"

fun show_hex :: "nat \<Rightarrow> string" where
  "show_hex n = (if n < 16 then [hex_digit n] else show_hex (n div 16) @ [hex_digit (n mod 16)])"

declare show_hex.simps [simp del]

definition client_fault_text :: "c_uint32 \<Rightarrow> string" where
  "client_fault_text f =
     (if f = 0 then ''verified''
      else if f = 1 then ''the manifest is truncated''
      else if f = 2 then ''the header is not MFST''
      else if f = 3 then ''the schema version is unsupported''
      else if f = 4 then ''an entry is malformed''
      else if f = 5 then ''an image length is implausible''
      else if f = 6 then ''a digest does not match''
      else if f = 7 then ''a referenced entry is absent''
      else if f = 8 then ''the references form a cycle''
      else if f = 9 then ''the reference nesting is too deep''
      else if f = 10 then ''a digest could not be started''
      else ''an unknown fault'')"

definition client_expect :: "bool \<Rightarrow> string \<Rightarrow> 't client_run \<Rightarrow> 't client_run" where
  "client_expect ok what st = (if ok then st else count_failure (say (''  FAIL: '' @ what) st))"

text \<open>A string printed from a buffer, which must hold its terminating null.\<close>

definition printed_string :: "byte list \<Rightarrow> string option" where
  "printed_string buf = (if 0 \<in> set buf then Some (map (\<lambda>b. char_of (unat b)) (takeWhile (\<lambda>b. b \<noteq> 0) buf)) else None)"

definition path_byte :: "byte list \<Rightarrow> nat \<Rightarrow> byte option" where
  "path_byte buf n = (if n < 2 then Some 0xFF else if n \<le> length buf then Some (buf ! (n - 1)) else None)"

definition verify_params :: "byte list \<Rightarrow> builder \<Rightarrow> tee_params" where
  "verify_params name_out b =
     \<lparr>param_types = [Memref_Input, Value_Output, Memref_Output, Param_None], in_buffer = Some (built b),
      value_a = 0, value_b = 0, out_buffer = name_out, out_size = length name_out\<rparr>"

definition run_client ::
    "'t tee_client \<Rightarrow> byte list \<Rightarrow> string \<Rightarrow> builder \<Rightarrow> c_uint32 \<Rightarrow> 't client_run \<Rightarrow> 't client_run option" where
  "run_client tee name_out label b want_fault st =
     (case teec_open tee (cl_tee st) of (res, orig, t) \<Rightarrow>
      let st = st\<lparr>cl_tee := t\<rparr> in
      if res \<noteq> TEEC_SUCCESS then
        Some (count_failure (say (''  '' @ pad_right 12 label @ '' session did not open (origin 0x'' @ show_hex (unat orig) @ '')'') st))
      else
        (case teec_invoke tee TA_MANIFEST_CMD_VERIFY (verify_params name_out b) (cl_tee st) of (res, orig, ps, t) \<Rightarrow>
         let st = st\<lparr>cl_tee := teec_close tee t\<rparr> in
         if res \<noteq> TEEC_SUCCESS then
           Some (count_failure (say (''  '' @ pad_right 12 label @ '' invoke failed: 0x'' @ show_hex (unat res) @
             '' origin 0x'' @ show_hex (unat orig)) st))
         else do {
           let fault = value_a ps;
           let detail = value_b ps;
           path_left \<leftarrow> path_byte (out_buffer ps) (out_size ps);
           st \<leftarrow> (if fault = 0 then
                    Some (say (''  '' @ pad_right 12 label @ '' verified, '' @ show_nat (unat detail) @ '' entr'' @
                      (if detail = 1 then ''y'' else ''ies'')) st)
                  else do {
                    name \<leftarrow> printed_string (out_buffer ps);
                    Some (say (''  '' @ pad_right 12 label @ '' fault '' @ show_nat (unat fault) @ '' at depth '' @
                      show_nat (unat detail) @ '' in '' @ [CHR 0x27] @ name @ [CHR 0x27] @ '': '' @ client_fault_text fault) st)
                  });
           let st = client_expect (fault = want_fault) ''the reported fault is the expected one'' st;
           Some (client_expect (path_left = 0) ''the trusted application left its reference path empty'' st)
         }))"

definition layout_params :: tee_params where
  "layout_params =
     \<lparr>param_types = [Value_Output, Param_None, Param_None, Param_None], in_buffer = None,
      value_a = 0, value_b = 0, out_buffer = [], out_size = 0\<rparr>"

definition report_layout :: "'t tee_client \<Rightarrow> 't client_run \<Rightarrow> 't client_run" where
  "report_layout tee st =
     (case teec_open tee (cl_tee st) of (res, orig, t) \<Rightarrow>
      let st = st\<lparr>cl_tee := t\<rparr> in
      if res \<noteq> TEEC_SUCCESS then say ''  layout      could not open a session'' st
      else
        (case teec_invoke tee TA_MANIFEST_CMD_LAYOUT layout_params (cl_tee st) of (res, orig, ps, t) \<Rightarrow>
         let st = st\<lparr>cl_tee := t\<rparr> in
         if res \<noteq> TEEC_SUCCESS then
           (let st = say ''  layout      the secure side did not report its layout'' st in
            st\<lparr>cl_tee := teec_close tee (cl_tee st)\<rparr>)
         else
           (let a = value_a ps; v = unat (value_b ps);
                st = say (''  layout      secure world: sizeof(error)='' @ show_nat (unat (a AND 0xff)) @
                  '' result<int,error>='' @ show_nat (unat (drop_bit 8 a AND 0xff)) @
                  '' alignof(error)='' @ show_nat (unat (drop_bit 16 a AND 0xff)) @
                  '' jmpxx '' @ show_nat (v div 10000) @ ''.'' @ show_nat (v div 100 mod 100) @ ''.'' @
                  show_nat (v mod 100)) st;
                st = (if a AND 0xff \<noteq> 8 \<or> drop_bit 8 a AND 0xff \<noteq> 12
                      then count_failure (say ''  layout      FAIL: the secure world does not observe the documented layout'' st)
                      else st) in
            st\<lparr>cl_tee := teec_close tee (cl_tee st)\<rparr>)))"

text \<open>The six manifests of the program; \<open>entry\<close> takes the image's size everywhere.\<close>

definition chain_manifest :: "byte list \<Rightarrow> builder \<Rightarrow> builder option" where
  "chain_manifest last_digest b = do {
     b \<leftarrow> begin_manifest b 3 (cstring ''MFST'') 1;
     b \<leftarrow> entry b (cstring ''boot'') image_size digest_img0 (Some (cstring ''runtime''));
     b \<leftarrow> entry b (cstring ''runtime'') image_size digest_img0 (Some (cstring ''app''));
     entry b (cstring ''app'') image_size last_digest None
   }"

definition dangling_manifest :: "builder \<Rightarrow> builder option" where
  "dangling_manifest b = do {
     b \<leftarrow> begin_manifest b 2 (cstring ''MFST'') 1;
     b \<leftarrow> entry b (cstring ''boot'') image_size digest_img0 (Some (cstring ''absent''));
     entry b (cstring ''runtime'') image_size digest_img0 None
   }"

definition cycle_manifest :: "builder \<Rightarrow> builder option" where
  "cycle_manifest b = do {
     b \<leftarrow> begin_manifest b 2 (cstring ''MFST'') 1;
     b \<leftarrow> entry b (cstring ''one'') image_size digest_img0 (Some (cstring ''two''));
     entry b (cstring ''two'') image_size digest_img0 (Some (cstring ''one''))
   }"

definition bad_header_manifest :: "builder \<Rightarrow> builder option" where
  "bad_header_manifest b = do {
     b \<leftarrow> begin_manifest b 1 (cstring ''XXXX'') 1;
     entry b (cstring ''boot'') image_size digest_img0 None
   }"

definition truncated_manifest :: "builder \<Rightarrow> builder option" where
  "truncated_manifest b = do {
     b \<leftarrow> begin_manifest b 2 (cstring ''MFST'') 1;
     b \<leftarrow> put_u8 b 4;
     b \<leftarrow> put b (cstring ''boot'') 4;
     b \<leftarrow> put_u32 b image_size;
     Some (b\<lparr>b_len := b_len b - 2\<rparr>)
   }"

text \<open>
  \<open>main\<close>.  The requests in order, each building into the one builder; \<open>stack n\<close> is what the
  request's output buffer holds before the call.
\<close>

type_synonym client_step = "string \<times> (builder \<Rightarrow> builder option) \<times> c_uint32"

definition client_steps :: "client_step list" where
  "client_steps =
     [(''valid'', chain_manifest digest_img0, 0),
      (''bad digest'', chain_manifest digest_wrong, 6),
      (''valid again'', chain_manifest digest_img0, 0),
      (''dangling'', dangling_manifest, 7),
      (''cycle'', cycle_manifest, 8),
      (''bad header'', bad_header_manifest, 2),
      (''truncated'', truncated_manifest, 1),
      (''valid last'', chain_manifest digest_img0, 0)]"

primrec run_steps ::
    "'t tee_client \<Rightarrow> (nat \<Rightarrow> byte list) \<Rightarrow> client_step list \<Rightarrow> builder \<Rightarrow> 't client_run \<Rightarrow> 't client_run option" where
  "run_steps tee stack [] b st = Some st"
| "run_steps tee stack (s # ss) b st = (case s of (label, build, want) \<Rightarrow> do {
     b \<leftarrow> build b;
     st \<leftarrow> run_client tee (stack (length ss)) label b want st;
     run_steps tee stack ss b st
   })"

definition client_main ::
    "'t tee_client \<Rightarrow> builder \<Rightarrow> (nat \<Rightarrow> byte list) \<Rightarrow> 't \<Rightarrow> (c_int \<times> 't client_run) option" where
  "client_main tee b stack t =
     (let st = say ''verify_client: driving the manifest verifier in the secure world''
                 \<lparr>cl_failures = 0, cl_printed = [], cl_tee = t\<rparr>;
          (res, t) = teec_initialize tee (cl_tee st);
          st = st\<lparr>cl_tee := t\<rparr> in
      if res \<noteq> TEEC_SUCCESS then Some (1, say ''verify_client: no TEE context; is OP-TEE running?'' st)
      else do {
        st \<leftarrow> run_steps tee stack client_steps b (report_layout tee st);
        let st = st\<lparr>cl_tee := teec_finalize tee (cl_tee st)\<rparr>;
        let st = say (''verify_client: '' @ (if cl_failures st = 0 then ''PASS'' else ''FAIL'')) st;
        Some (if cl_failures st = 0 then 0 else 1, st)
      })"


subsection \<open>What the client reads back\<close>

definition tee_code :: "tee_result \<Rightarrow> c_uint32" where
  "tee_code r =
     (case r of TEE_SUCCESS \<Rightarrow> 0 | TEE_ERROR_BAD_PARAMETERS \<Rightarrow> 0xFFFF0006 | TEE_ERROR_NOT_SUPPORTED \<Rightarrow> 0xFFFF000A
      | TEE_ERROR_SHORT_BUFFER \<Rightarrow> 0xFFFF0010)"

definition fault_of :: "ta_fault option \<Rightarrow> c_uint32" where
  "fault_of f = (case f of None \<Rightarrow> 0 | Some (k, name, d) \<Rightarrow> k)"

text \<open>The parameters as the application leaves them, given its verdict.\<close>

definition answered :: "ta_fault option \<Rightarrow> nat \<Rightarrow> tee_params \<Rightarrow> tee_params" where
  "answered f n ps =
     (let shown = (case f of None \<Rightarrow> [] | Some (k, name, d) \<Rightarrow> c_name name) in
      ps\<lparr>value_a := fault_of f, value_b := (case f of None \<Rightarrow> of_nat n | Some (k, name, d) \<Rightarrow> of_nat d),
         out_buffer := shown @ [0, 0] @ drop (length shown + 2) (out_buffer ps), out_size := length shown + 2\<rparr>)"

lemma length_c_name: "length (c_name name) \<le> ta_max_name"
  by (simp add: c_name_def) (metis length_take length_takeWhile_le min.cobounded2 le_trans)

lemma name_length_c_name: "name_length name = length (c_name name)"
  by (simp add: name_length_def c_name_def)

lemma take_noted: "take (length (c_name name)) (note_name name old) = c_name name"
  using take_name_length [of "note_name name old"] by (simp add: name_length_c_name c_name_noted)

lemma write_report_answers:
  assumes "instance_clean held w" and "manifest_ref alloc sha256 W buf held = (f, n, m)"
    and "26 \<le> out_size ps"
  shows "write_report (snd (manifest_plain alloc sha256 W buf w)) (fst (manifest_plain alloc sha256 W buf w)) ps =
    (TEE_SUCCESS, answered f n ps)"
proof -
  have clean: "visit_path w = []" "live_ops w = held" "fault_name w \<noteq> []" using assms(1) by (simp_all add: instance_clean_def)
  have none: "c_name ((fault_name w)[0 := 0]) = []" using clean(3) by (cases "fault_name w") (simp_all add: c_name_def ta_max_name_def)
  have enough: "\<not> out_size ps < length (c_name name) + 2" for name
    using assms(3) length_c_name [of name] by (simp add: ta_max_name_def)
  show ?thesis
  proof (cases f)
    case None
    then show ?thesis
      using clean none assms(2,3)
      by (simp add: manifest_plain_def landed_count_def ta_outcome_def ta_reset_def write_report_def answered_def fault_of_def
          name_length_c_name Let_def)
  next
    case (Some g)
    then obtain k name d where g: "f = Some (k, name, d)" by (cases g) auto
    show ?thesis
      using clean enough [of name] assms(2)
      by (simp add: g manifest_plain_def landed_count_def ta_outcome_def ta_reset_def faulted_def write_report_def answered_def
          fault_of_def name_length_c_name take_noted c_name_noted mk_error_def Let_def)
  qed
qed

definition verdict_line :: "string \<Rightarrow> ta_fault option \<Rightarrow> nat \<Rightarrow> string" where
  "verdict_line label f n =
     ''  '' @ pad_right 12 label @
     (case f of
        None \<Rightarrow> '' verified, '' @ show_nat n @ '' entr'' @ (if n = 1 then ''y'' else ''ies'')
      | Some (k, name, d) \<Rightarrow>
          '' fault '' @ show_nat (unat k) @ '' at depth '' @ show_nat d @ '' in '' @ [CHR 0x27] @
          map (\<lambda>b. char_of (unat b)) (c_name name) @ [CHR 0x27] @ '': '' @ client_fault_text k)"

definition counts_small :: "ta_fault option \<Rightarrow> nat \<Rightarrow> bool" where
  "counts_small f n \<longleftrightarrow> n < 2 ^ 32 \<and> (case f of None \<Rightarrow> True | Some (k, name, d) \<Rightarrow> k \<noteq> 0 \<and> d < 2 ^ 32)"

lemma printed_c_name: "printed_string (c_name name @ 0 # rest) = Some (map (\<lambda>b. char_of (unat b)) (c_name name))"
proof -
  have "\<forall>b\<in>set (c_name name). b \<noteq> 0" unfolding c_name_def by (auto dest: set_takeWhileD)
  then show ?thesis unfolding printed_string_def by (subst takeWhile_append2) auto
qed

lemma unat_small: "n < 2 ^ 32 \<Longrightarrow> unat (of_nat n :: c_uint32) = n"
  by (simp add: unat_of_nat)

lemma of_nat_one_iff: "n < 2 ^ 32 \<Longrightarrow> (of_nat n :: c_uint32) = 1 \<longleftrightarrow> n = 1"
  by (metis of_nat_1 unat_1 unat_small)

lemma answered_fields:
  "path_byte (out_buffer (answered f n ps)) (out_size (answered f n ps)) = Some 0"
  "value_a (answered f n ps) = fault_of f"
  by (simp_all add: answered_def path_byte_def Let_def nth_append split: option.split prod.split)

text \<open>
  A step of the program builds, from any builder, a manifest with the given verdict, and
  expects its fault.
\<close>

definition step_gives ::
    "(nat \<Rightarrow> bool) \<Rightarrow> (byte list \<Rightarrow> byte list) \<Rightarrow> nat \<Rightarrow> client_step \<Rightarrow> ta_fault option \<times> nat \<Rightarrow> bool" where
  "step_gives alloc sha256 held s v =
     (case s of (label, build, want) \<Rightarrow> case v of (f, n) \<Rightarrow>
        want = fault_of f \<and> counts_small f n \<and>
        (\<forall>b. length (b_buf b) = 4096 \<longrightarrow>
           (\<exists>b' m. build b = Some b' \<and> builder_ok b' \<and> built b' \<noteq> [] \<and> manifest_ref alloc sha256 64 (built b') held = (f, n, m))))"

definition layout_line :: string where
  "layout_line = ''  layout      secure world: sizeof(error)=8 result<int,error>=12 alignof(error)=4 jmpxx 0.1.5''"

lemma digits:
  "show_nat 0 = ''0''" "show_nat (Suc 0) = ''1''" "show_nat 2 = ''2''" "show_nat 3 = ''3''" "show_nat 4 = ''4''" "show_nat 5 = ''5''"
  "show_nat 6 = ''6''" "show_nat 7 = ''7''" "show_nat 8 = ''8''" "show_nat 12 = ''12''"
  by code_simp+

lemma say_simps [simp]:
  "cl_failures (say line st) = cl_failures st" "cl_tee (say line st) = cl_tee st"
  "cl_printed (say line st) = cl_printed st @ [line @ [char_of (10 :: nat)]]"
  "(say line st)\<lparr>cl_tee := t\<rparr> = say line (st\<lparr>cl_tee := t\<rparr>)"
  by (simp_all add: say_def)

text \<open>The entries of the program's manifests.\<close>

definition sample_entry :: "string \<Rightarrow> byte list \<Rightarrow> string option \<Rightarrow> manifest_entry" where
  "sample_entry name digest rf = \<lparr>me_name = ascii name, me_len = image_size, me_digest = digest, me_ref = map_option ascii rf\<rparr>"

lemma entry_sample: "entry b (cstring name) image_size digest (map_option cstring rf) = put_entry b (sample_entry name digest rf)"
  by (cases rf) (simp_all add: put_entry_def sample_entry_def cstring_def)

definition chain_entries :: "byte list \<Rightarrow> manifest_entry list" where
  "chain_entries last_digest =
     [sample_entry ''boot'' digest_img0 (Some ''runtime''), sample_entry ''runtime'' digest_img0 (Some ''app''),
      sample_entry ''app'' last_digest None]"

definition dangling_entries :: "manifest_entry list" where
  "dangling_entries = [sample_entry ''boot'' digest_img0 (Some ''absent''), sample_entry ''runtime'' digest_img0 None]"

definition cycle_entries :: "manifest_entry list" where
  "cycle_entries = [sample_entry ''one'' digest_img0 (Some ''two''), sample_entry ''two'' digest_img0 (Some ''one'')]"

lemmas entry_samples = entry_sample [of _ _ _ None, simplified] entry_sample [of _ _ _ "Some _", simplified]

lemma manifests_as_entries:
  "chain_manifest dg b = begin_manifest b 3 (cstring ''MFST'') 1 \<bind> put_entries (chain_entries dg)"
  "dangling_manifest b = begin_manifest b 2 (cstring ''MFST'') 1 \<bind> put_entries dangling_entries"
  "cycle_manifest b = begin_manifest b 2 (cstring ''MFST'') 1 \<bind> put_entries cycle_entries"
  "bad_header_manifest b = begin_manifest b 1 (cstring ''XXXX'') 1 \<bind> put_entries [sample_entry ''boot'' digest_img0 None]"
  by (simp_all add: chain_manifest_def dangling_manifest_def cycle_manifest_def bad_header_manifest_def chain_entries_def
      dangling_entries_def cycle_entries_def entry_samples put_entries_steps)

lemma image_size_value: "unat image_size = 4"
  by (simp add: image_size_def length_image)

lemma sample_entry_fields [simp]:
  "me_name (sample_entry name dg rf) = ascii name" "me_len (sample_entry name dg rf) = image_size"
  "me_digest (sample_entry name dg rf) = dg"
  "ref_bytes (sample_entry name dg rf) = (case rf of None \<Rightarrow> [] | Some r \<Rightarrow> ascii r)"
  by (simp_all add: sample_entry_def ref_bytes_def split: option.split)

lemma length_digests: "length digest_img0 = 32" "length digest_wrong = 32"
  by (simp_all add: digest_img0_def digest_wrong_def)

lemma samples_ok:
  "length dg = 32 \<Longrightarrow> \<forall>e\<in>set (chain_entries dg). entry_ok e"
  "\<forall>e\<in>set dangling_entries. entry_ok e" "\<forall>e\<in>set cycle_entries. entry_ok e"
  "entry_ok (sample_entry ''boot'' digest_img0 None)"
  by (simp_all add: chain_entries_def dangling_entries_def cycle_entries_def sample_entry_def entry_ok_def image_size_value
      length_digests ascii_def)

lemma magic_bytes: "manifest_bytes n (cstring t) v es = manifest_bytes n (ascii t) v es" if "length t = 4"
  using that by (simp add: manifest_bytes_def cstring_def ascii_def)

lemma step_from_entries:
  assumes "\<And>b. build b = begin_manifest b (of_nat (length (e # es))) (cstring ''MFST'') 1 \<bind> put_entries (e # es)"
    and "\<forall>x\<in>set (e # es). entry_ok x" and "length (e # es) < 256" and "me_name e \<noteq> []"
    and "length (concat (map entry_bytes (e # es))) \<le> 4090"
    and "verdict_on alloc sha256 (e # es) [] held e 0 = (f, n, m)" and "counts_small f n"
  shows "step_gives alloc sha256 held (label, build, fault_of f) (f, n)"
proof -
  let ?count = "of_nat (length (e # es)) :: byte"
  let ?buf = "manifest_bytes ?count (ascii ''MFST'') 1 (e # es)"
  have bytes: "manifest_bytes ?count (cstring ''MFST'') 1 (e # es) = ?buf" by (rule magic_bytes) simp
  have size: "length ?buf \<le> 4096" using assms(5) by (simp add: manifest_bytes_def ascii_def)
  then have size': "length (manifest_bytes ?count (cstring ''MFST'') 1 (e # es)) \<le> 4096" by (simp only: bytes)
  have magic: "4 \<le> length (cstring ''MFST'')" by (simp add: cstring_def ascii_def)
  have nonempty: "?buf \<noteq> []" by (simp add: manifest_bytes_def)
  have verdict: "manifest_ref alloc sha256 64 ?buf held = (f, n, m)"
    unfolding built_manifest_verdict [OF assms(2-4) size] by (rule assms(6))
  have "\<exists>b' m. build b = Some b' \<and> builder_ok b' \<and> built b' \<noteq> [] \<and> manifest_ref alloc sha256 64 (built b') held = (f, n, m)"
    if "length (b_buf b) = 4096" for b
  proof -
    from build_manifest [OF that magic assms(2) size'] obtain b' where b': "build b = Some b'" "builder_ok b'" "built b' = ?buf"
      unfolding bytes assms(1) by (elim exE conjE)
    show ?thesis using b'(1,2) nonempty verdict unfolding b'(3) [symmetric] by (intro exI conjI)
  qed
  then show ?thesis using assms(7) unfolding step_gives_def by simp
qed

lemma image_bytes_written: "take 4 client_image = ascii ''IMG0''"
  by (simp add: client_image_def cstring_def ascii_def)

lemma image_size_nonzero: "image_size \<noteq> 0"
  using image_size_value by auto

lemmas verdict_steps = verdict_on.simps ta_max_depth_def image_size_value image_size_nonzero image_bytes_written ascii_def

lemma chain_verdict:
  assumes "alloc held" and "alloc (held + 1)" and "alloc (held + 2)" and "sha256 (ascii ''IMG0'') = digest_img0"
  shows "verdict_on alloc sha256 (chain_entries dg) [] held (hd (chain_entries dg)) 0 =
    (if dg = digest_img0 then (None, 3, 2) else (Some (digest_mismatch, ascii ''app'', 2), 0, 2))"
  using assms by (simp add: chain_entries_def verdict_steps)

lemma dangling_verdict:
  assumes "alloc held"
  shows "verdict_on alloc sha256 dangling_entries [] held (hd dangling_entries) 0 =
    (Some (reference_missing, ascii ''absent'', 0), 0, 0)"
  using assms by (simp add: dangling_entries_def verdict_steps)

lemma cycle_verdict:
  assumes "alloc held" and "alloc (held + 1)"
  shows "verdict_on alloc sha256 cycle_entries [] held (hd cycle_entries) 0 =
    (Some (reference_cycle, ascii ''one'', 2), 0, 2)"
  using assms by (simp add: cycle_entries_def verdict_steps)

lemma entries_fit:
  "length dg = 32 \<Longrightarrow> length (concat (map entry_bytes (chain_entries dg))) \<le> 4090"
  "length (concat (map entry_bytes dangling_entries)) \<le> 4090" "length (concat (map entry_bytes cycle_entries)) \<le> 4090"
  by (simp_all add: chain_entries_def dangling_entries_def cycle_entries_def entry_bytes_def le32_def length_digests
      image_size_value length_image ascii_def)

lemmas fault_codes = digest_mismatch_def reference_missing_def reference_cycle_def header_bad_def manifest_truncated_def

lemma step_from_list:
  assumes "\<And>b. build b = begin_manifest b (of_nat (length es)) (cstring ''MFST'') 1 \<bind> put_entries es"
    and "\<forall>x\<in>set es. entry_ok x" and "length es < 256" and "es \<noteq> []" and "me_name (hd es) \<noteq> []"
    and "length (concat (map entry_bytes es)) \<le> 4090"
    and "verdict_on alloc sha256 es [] held (hd es) 0 = (f, n, m)" and "counts_small f n" and "want = fault_of f"
  shows "step_gives alloc sha256 held (label, build, want) (f, n)"
  using step_from_entries [where e = "hd es" and es = "tl es" and build = build] assms by simp

lemma chain_step:
  assumes "alloc held" "alloc (held + 1)" "alloc (held + 2)" "sha256 (ascii ''IMG0'') = digest_img0" "length dg = 32"
  shows "step_gives alloc sha256 held
    (label, chain_manifest dg, if dg = digest_img0 then 0 else 6)
    (if dg = digest_img0 then None else Some (digest_mismatch, ascii ''app'', 2), if dg = digest_img0 then 3 else 0)"
  by (rule step_from_list [where es = "chain_entries dg" and m = 2])
    (use assms in \<open>simp_all add: chain_verdict samples_ok entries_fit manifests_as_entries counts_small_def fault_codes fault_of_def\<close>,
      simp_all add: chain_entries_def ascii_def)

lemma dangling_step:
  assumes "alloc held"
  shows "step_gives alloc sha256 held (label, dangling_manifest, 7) (Some (reference_missing, ascii ''absent'', 0), 0)"
  by (rule step_from_list [where es = dangling_entries and m = 0])
    (use assms in \<open>simp_all add: dangling_verdict samples_ok entries_fit manifests_as_entries counts_small_def fault_codes fault_of_def\<close>,
      simp_all add: dangling_entries_def ascii_def)

lemma cycle_step:
  assumes "alloc held" "alloc (held + 1)"
  shows "step_gives alloc sha256 held (label, cycle_manifest, 8) (Some (reference_cycle, ascii ''one'', 2), 0)"
  by (rule step_from_list [where es = cycle_entries and m = 2])
    (use assms in \<open>simp_all add: cycle_verdict samples_ok entries_fit manifests_as_entries counts_small_def fault_codes fault_of_def\<close>,
      simp_all add: cycle_entries_def ascii_def)

lemma bad_header_step:
  "step_gives alloc sha256 held (label, bad_header_manifest, 2) (Some (header_bad, ascii ''root'', 0), 0)"
proof -
  let ?es = "[sample_entry ''boot'' digest_img0 None]"
  let ?buf = "manifest_bytes 1 (cstring ''XXXX'') 1 ?es"
  have size: "length ?buf \<le> 4096" "7 \<le> length ?buf"
    by (simp_all add: manifest_bytes_def entry_bytes_def le32_def length_digests image_size_value length_image cstring_def ascii_def)
  have "take 4 ?buf \<noteq> ascii ''MFST''" by (simp add: manifest_bytes_def cstring_def ascii_def)
  then have verdict: "manifest_ref alloc sha256 64 ?buf held = (Some (header_bad, ascii ''root'', 0), 0, 0)"
    using size(2) by (simp add: manifest_ref_def first_entry_def header_fault_def)
  have "\<exists>b' m. bad_header_manifest b = Some b' \<and> builder_ok b' \<and> built b' \<noteq> [] \<and>
      manifest_ref alloc sha256 64 (built b') held = (Some (header_bad, ascii ''root'', 0), 0, m)"
    if "length (b_buf b) = 4096" for b
    using build_manifest [OF that _ _ size(1)] samples_ok(4) size(2) verdict
    by (fastforce simp: manifests_as_entries cstring_def ascii_def)
  then show ?thesis by (simp add: step_gives_def fault_of_def fault_codes counts_small_def)
qed

text \<open>The last two bytes of the truncated manifest are those of the length that was cut.\<close>

definition truncated_bytes :: "byte list" where
  "truncated_bytes = ascii ''MFST'' @ [1, 2, 4] @ ascii ''boot'' @ [4, 0]"

lemma truncated_built:
  assumes "length (b_buf b) = 4096"
  shows "\<exists>b'. truncated_manifest b = Some b' \<and> builder_ok b' \<and> built b' = truncated_bytes"
proof -
  let ?z = "b\<lparr>b_len := 0\<rparr>"
  have z: "builder_ok ?z" "built ?z = []" using assms by (simp_all add: builder_ok_def built_def)
  let ?full = "ascii ''MFST'' @ [1, 2, 4] @ ascii ''boot'' @ [4, 0, 0, 0]"
  have le: "le32 image_size = [4, 0, 0, 0]" by (simp add: le32_def image_size_def length_image)
  have "truncated_manifest b = Some ((appended ?z ?full)\<lparr>b_len := 13\<rparr>)"
    using z(1) assms
    by (simp add: truncated_manifest_def begin_appends put_simps le cstring_def ascii_def)
  moreover have "built ((appended ?z ?full)\<lparr>b_len := 13\<rparr>) = truncated_bytes"
    using assms by (simp add: built_def appended_def truncated_bytes_def ascii_def)
  moreover have "builder_ok ((appended ?z ?full)\<lparr>b_len := 13\<rparr>)"
    using assms by (simp add: builder_ok_def appended_def ascii_def)
  ultimately show ?thesis by blast
qed

lemma truncated_step:
  assumes "alloc held"
  shows "step_gives alloc sha256 held (label, truncated_manifest, 1) (Some (manifest_truncated, ascii ''boot'', 0), 0)"
proof -
  have "first_entry truncated_bytes = Some (ascii ''boot'', 11)" "head_at truncated_bytes 11 = None" "truncated_bytes \<noteq> []"
    by (simp_all add: first_entry_def head_at_def truncated_bytes_def ascii_def)
  then have "manifest_ref alloc sha256 64 truncated_bytes held = (Some (manifest_truncated, ascii ''boot'', 0), 0, 0)"
    using assms by (simp add: manifest_ref_def verify_ref.simps ta_max_depth_def)
  then show ?thesis
    using truncated_built \<open>truncated_bytes \<noteq> []\<close>
    by (fastforce simp: step_gives_def fault_of_def fault_codes counts_small_def)
qed

subsection \<open>The host\<close>

text \<open>An instance ready for a command: nothing escaping, no path, the same operations held.\<close>

definition serving :: "nat \<Rightarrow> ta_state arm \<Rightarrow> bool" where
  "serving held s \<longleftrightarrow> arm_ok s \<and> \<not> in_flight s \<and> instance_clean held (world s)"

text \<open>
  What the client relies on: the context and a session come up, and a command is executed by the
  application's entry point on the instance, its result and its parameters carried back.
  Opening and closing sessions leave a ready instance ready, whether the TEE keeps the
  instance or makes a new one.
\<close>

locale tee_host =
  fixes tee :: "'t tee_client"
    and inst :: "'t \<Rightarrow> ta_state arm"
    and E :: escape_env
    and alloc :: "nat \<Rightarrow> bool"
    and sha256 :: "byte list \<Rightarrow> byte list"
    and held :: nat
  assumes target: "env_ok E"
    and initializes: "serving held (inst t) \<Longrightarrow>
      fst (teec_initialize tee t) = TEEC_SUCCESS \<and> serving held (inst (snd (teec_initialize tee t)))"
    and opens: "serving held (inst t) \<Longrightarrow>
      fst (teec_open tee t) = TEEC_SUCCESS \<and> serving held (inst (snd (snd (teec_open tee t))))"
    and closes: "serving held (inst t) \<Longrightarrow> serving held (inst (teec_close tee t))"
    and invokes: "TA_InvokeCommandEntryPoint E alloc sha256 64 cmd ps (inst t) = (Normal_Flow (r, ps'), s) \<Longrightarrow>
      \<exists>orig t'. teec_invoke tee cmd ps t = (tee_code r, orig, ps', t') \<and> inst t' = s"
begin

lemma opened:
  assumes "serving held (inst t)"
  obtains orig t' where "teec_open tee t = (TEEC_SUCCESS, orig, t')" "serving held (inst t')"
  using opens [OF assms] by (cases "teec_open tee t") auto

lemma verify_answered:
  assumes "serving held (inst t)" and "readable_command 64 ps" and "in_buffer ps = Some buf" and "26 \<le> out_size ps"
    and "manifest_ref alloc sha256 64 buf held = (f, n, m)"
  obtains orig t' where "teec_invoke tee TA_MANIFEST_CMD_VERIFY ps t = (TEEC_SUCCESS, orig, answered f n ps, t')"
    "serving held (inst t')"
proof -
  let ?s = "inst t" and ?x = "manifest_plain alloc sha256 64 buf (world (inst t))"
  have s: "arm_ok ?s" "\<not> in_flight ?s" "instance_clean held (world ?s)" using assms(1) by (simp_all add: serving_def)
  have "TA_InvokeCommandEntryPoint E alloc sha256 64 TA_MANIFEST_CMD_VERIFY ps ?s =
      (Normal_Flow (TEE_SUCCESS, answered f n ps), ?s\<lparr>world := snd ?x\<rparr>)"
    using ta.serves_one [OF conjI [OF target assms(2)] s, of alloc sha256] assms(3)
      write_report_answers [OF s(3) assms(5,4)]
    by (simp add: invoke_serves [OF assms(2)])
  with invokes obtain orig t' where t': "teec_invoke tee TA_MANIFEST_CMD_VERIFY ps t = (tee_code TEE_SUCCESS, orig, answered f n ps, t')"
    "inst t' = ?s\<lparr>world := snd ?x\<rparr>" by blast
  have "instance_clean held (snd ?x)"
    using ta.stays_clean [OF conjI [OF target assms(2)] s(3), of alloc sha256] assms(3) by simp
  then have "serving held (inst t')" using s t'(2) by (simp add: serving_def)
  then show ?thesis using that t'(1) by (simp add: tee_code_def TEEC_SUCCESS_def)
qed

lemma run_client_prints:
  assumes "serving held (inst (cl_tee st))" and "builder_ok b" and "built b \<noteq> []" and "length name_out = 64"
    and "manifest_ref alloc sha256 64 (built b) held = (f, n, m)" and "counts_small f n"
  obtains t where "run_client tee name_out label b (fault_of f) st = Some (say (verdict_line label f n) (st\<lparr>cl_tee := t\<rparr>))"
    "serving held (inst t)"
proof -
  let ?ps = "verify_params name_out b"
  obtain orig t where t: "teec_open tee (cl_tee st) = (TEEC_SUCCESS, orig, t)" "serving held (inst t)"
    using opened [OF assms(1)] .
  have "length (built b) \<le> 4096" using assms(2) length_built [OF assms(2)] by (simp add: builder_ok_def)
  then have "readable_command 64 ?ps"
    using assms(3) wide_fits [OF small_wide] by (simp add: readable_command_def verify_params_def)
  moreover have "in_buffer ?ps = Some (built b)" "26 \<le> out_size ?ps" using assms(4) by (simp_all add: verify_params_def)
  ultimately obtain orig' t' where t': "teec_invoke tee TA_MANIFEST_CMD_VERIFY ?ps t = (TEEC_SUCCESS, orig', answered f n ?ps, t')"
    "serving held (inst t')"
    using verify_answered [OF t(2) _ _ _ assms(5)] by blast
  have "run_client tee name_out label b (fault_of f) st =
      Some (say (verdict_line label f n) (st\<lparr>cl_tee := teec_close tee t'\<rparr>))"
  proof (cases f)
    case None
    then have "value_b (answered f n ?ps) = of_nat n" by (simp add: answered_def)
    with None show ?thesis
      using assms(6) t(1) t'(1)
      by (simp add: run_client_def answered_fields fault_of_def client_expect_def verdict_line_def counts_small_def
          unat_small of_nat_one_iff Let_def)
  next
    case (Some g)
    then obtain k name d where g: "f = Some (k, name, d)" by (cases g) auto
    have "value_b (answered f n ?ps) = of_nat d"
      "printed_string (out_buffer (answered f n ?ps)) = Some (map (\<lambda>b. char_of (unat b)) (c_name name))"
      by (simp_all add: g answered_def printed_c_name Let_def)
    moreover have "unat (of_nat d :: c_uint32) = d" "k \<noteq> 0" using assms(6) by (simp_all add: g counts_small_def unat_small)
    ultimately show ?thesis
      using t(1) t'(1) by (simp add: run_client_def answered_fields client_expect_def Let_def) (simp add: g fault_of_def verdict_line_def)
  qed
  then show ?thesis using that closes [OF t'(2)] by blast
qed

lemma layout_reported:
  assumes "serving held (inst (cl_tee st))"
  obtains t where "report_layout tee st = say layout_line (st\<lparr>cl_tee := t\<rparr>)" "serving held (inst t)"
proof -
  obtain orig t where t: "teec_open tee (cl_tee st) = (TEEC_SUCCESS, orig, t)" "serving held (inst t)"
    using opened [OF assms] .
  let ?ps = "layout_params\<lparr>value_a := layout_word, value_b := of_nat jmpxx_version\<rparr>"
  have "TA_InvokeCommandEntryPoint E alloc sha256 64 TA_MANIFEST_CMD_LAYOUT layout_params (inst t) =
      (Normal_Flow (TEE_SUCCESS, ?ps), inst t)"
    by (simp add: TA_InvokeCommandEntryPoint_def layout_params_def ret_def)
  then obtain orig' t' where t': "teec_invoke tee TA_MANIFEST_CMD_LAYOUT layout_params t = (TEEC_SUCCESS, orig', ?ps, t')"
    "inst t' = inst t"
    using invokes by (fastforce simp: tee_code_def TEEC_SUCCESS_def)
  have bits: "layout_word AND 0xff = 8" "drop_bit 8 layout_word AND 0xff = 12" "drop_bit 16 layout_word AND 0xff = 4"
    "unat (of_nat jmpxx_version :: c_uint32) = 105"
    by (simp_all add: layout_word_def jmpxx_version_def)
  have "report_layout tee st = say layout_line (st\<lparr>cl_tee := teec_close tee t'\<rparr>)"
    using t(1) t'(1)
    by (simp add: report_layout_def bits layout_line_def digits)
  moreover have "serving held (inst (teec_close tee t'))" using closes t(2) t'(2) by simp
  ultimately show ?thesis using that by blast
qed

lemma run_steps_print:
  assumes "list_all2 (step_gives alloc sha256 held) steps vs" and "\<forall>i. length (stack i) = 64"
    and "length (b_buf b) = 4096" and "serving held (inst (cl_tee st))"
  shows "\<exists>t. run_steps tee stack steps b st =
    Some (fold (\<lambda>(s, v). say (verdict_line (fst s) (fst v) (snd v))) (zip steps vs) (st\<lparr>cl_tee := t\<rparr>)) \<and> serving held (inst t)"
  using assms(1,3,4)
proof (induction arbitrary: b st rule: list_all2_induct)
  case Nil
  then show ?case by (auto intro!: exI [of _ "cl_tee st"])
next
  case (Cons s ss v vs)
  obtain label build f n where sv: "s = (label, build, fault_of f)" "v = (f, n)" "counts_small f n"
    and build: "\<forall>b. length (b_buf b) = 4096 \<longrightarrow>
      (\<exists>b' m. build b = Some b' \<and> builder_ok b' \<and> built b' \<noteq> [] \<and> manifest_ref alloc sha256 64 (built b') held = (f, n, m))"
    using Cons.hyps(1) by (cases s; cases v) (auto simp: step_gives_def)
  obtain b' m where b': "build b = Some b'" "builder_ok b'" "built b' \<noteq> []"
    "manifest_ref alloc sha256 64 (built b') held = (f, n, m)"
    using build Cons.prems(1) by blast
  obtain t where t: "run_client tee (stack (length ss)) label b' (fault_of f) st = Some (say (verdict_line label f n) (st\<lparr>cl_tee := t\<rparr>))"
    "serving held (inst t)"
    using run_client_prints [OF Cons.prems(2) b'(2,3) _ b'(4) sv(3)] assms(2) by blast
  have "length (b_buf b') = 4096" using b'(2) by (simp add: builder_ok_def)
  with Cons.IH [of b' "say (verdict_line label f n) (st\<lparr>cl_tee := t\<rparr>)"] t show ?case
    using b'(1) by (auto simp: sv)
qed

lemma client_main_prints:
  assumes "list_all2 (step_gives alloc sha256 held) client_steps vs" and "\<forall>i. length (stack i) = 64"
    and "length (b_buf b) = 4096" and "serving held (inst t)"
  shows "\<exists>st. client_main tee b stack t = Some (0, st) \<and> cl_failures st = 0 \<and>
    cl_printed st = map (\<lambda>line. line @ [char_of (10 :: nat)])
      (''verify_client: driving the manifest verifier in the secure world'' # layout_line #
       map (\<lambda>(s, v). verdict_line (fst s) (fst v) (snd v)) (zip client_steps vs) @ [''verify_client: PASS''])"
proof -
  let ?st0 = "say ''verify_client: driving the manifest verifier in the secure world'' \<lparr>cl_failures = 0, cl_printed = [], cl_tee = t\<rparr>"
  obtain t1 where t1: "teec_initialize tee t = (TEEC_SUCCESS, t1)" "serving held (inst t1)"
    using initializes [OF assms(4)] by (cases "teec_initialize tee t") auto
  have "serving held (inst (cl_tee (?st0\<lparr>cl_tee := t1\<rparr>)))" using t1(2) by simp
  then obtain t2 where t2: "report_layout tee (?st0\<lparr>cl_tee := t1\<rparr>) = say layout_line (?st0\<lparr>cl_tee := t2\<rparr>)" "serving held (inst t2)"
    by (rule layout_reported) simp
  have ready: "serving held (inst (cl_tee (say layout_line (?st0\<lparr>cl_tee := t2\<rparr>))))" using t2(2) by simp
  obtain t3 where run: "run_steps tee stack client_steps b (say layout_line (?st0\<lparr>cl_tee := t2\<rparr>)) =
      Some (fold (\<lambda>(s, v). say (verdict_line (fst s) (fst v) (snd v))) (zip client_steps vs) (say layout_line (?st0\<lparr>cl_tee := t3\<rparr>)))"
    using run_steps_print [OF assms(1-3) ready] by (auto simp only: say_simps client_run.simps)
  have folded: "cl_failures (fold (\<lambda>(s, v). say (verdict_line (fst s) (fst v) (snd v))) svs x) = cl_failures x"
    "cl_printed (fold (\<lambda>(s, v). say (verdict_line (fst s) (fst v) (snd v))) svs x) =
      cl_printed x @ map (\<lambda>line. line @ [char_of (10 :: nat)]) (map (\<lambda>(s, v). verdict_line (fst s) (fst v) (snd v)) svs)"
    for svs :: "(client_step \<times> ta_fault option \<times> nat) list" and x :: "'t client_run"
    by (induction svs arbitrary: x) auto
  show ?thesis
    using t1(1) t2(1) run by (simp add: client_main_def folded)
qed

end

text \<open>
  The direct connection: the TEE's state is the instance itself, and every call of the client
  library reaches it at once.
\<close>

definition direct_tee :: "escape_env \<Rightarrow> (nat \<Rightarrow> bool) \<Rightarrow> (byte list \<Rightarrow> byte list) \<Rightarrow> ta_state arm tee_client" where
  "direct_tee E alloc sha256 =
     \<lparr>teec_initialize = (\<lambda>s. (TEEC_SUCCESS, s)), teec_open = (\<lambda>s. (TEEC_SUCCESS, 0, s)),
      teec_invoke = (\<lambda>cmd ps s.
        case TA_InvokeCommandEntryPoint E alloc sha256 64 cmd ps s of
          (Normal_Flow (r, ps'), s') \<Rightarrow> (tee_code r, 4, ps', s')
        | (_, s') \<Rightarrow> (0xFFFF3024, 3, ps, s')),
      teec_close = id, teec_finalize = id\<rparr>"

lemma direct_tee_host: "env_ok E \<Longrightarrow> tee_host (direct_tee E alloc sha256) id E alloc sha256 held"
  by unfold_locales (auto simp: direct_tee_def)

interpretation direct: tee_host "direct_tee hosted_env alloc sha256" id hosted_env alloc sha256 held
  by (rule direct_tee_host) simp

definition client_transcript :: "string list" where
  "client_transcript = map (\<lambda>line. line @ [char_of (10 :: nat)])
     [''verify_client: driving the manifest verifier in the secure world'',
      ''  layout      secure world: sizeof(error)=8 result<int,error>=12 alignof(error)=4 jmpxx 0.1.5'',
      ''  valid        verified, 3 entries'',
      ''  bad digest   fault 6 at depth 2 in '' @ [CHR 0x27] @ ''app'' @ [CHR 0x27] @ '': a digest does not match'',
      ''  valid again  verified, 3 entries'',
      ''  dangling     fault 7 at depth 0 in '' @ [CHR 0x27] @ ''absent'' @ [CHR 0x27] @ '': a referenced entry is absent'',
      ''  cycle        fault 8 at depth 2 in '' @ [CHR 0x27] @ ''one'' @ [CHR 0x27] @ '': the references form a cycle'',
      ''  bad header   fault 2 at depth 0 in '' @ [CHR 0x27] @ ''root'' @ [CHR 0x27] @ '': the header is not MFST'',
      ''  truncated    fault 1 at depth 0 in '' @ [CHR 0x27] @ ''boot'' @ [CHR 0x27] @ '': the manifest is truncated'',
      ''  valid last   verified, 3 entries'',
      ''verify_client: PASS'']"

text \<open>The verdicts of the eight requests, and the lines they print.\<close>

definition client_verdicts :: "(ta_fault option \<times> nat) list" where
  "client_verdicts =
     [(None, 3), (Some (digest_mismatch, ascii ''app'', 2), 0), (None, 3), (Some (reference_missing, ascii ''absent'', 0), 0),
      (Some (reference_cycle, ascii ''one'', 2), 0), (Some (header_bad, ascii ''root'', 0), 0),
      (Some (manifest_truncated, ascii ''boot'', 0), 0), (None, 3)]"

lemma client_steps_give:
  assumes "alloc held" "alloc (held + 1)" "alloc (held + 2)" "sha256 (ascii ''IMG0'') = digest_img0"
  shows "list_all2 (step_gives alloc sha256 held) client_steps client_verdicts"
proof -
  have wrong: "digest_wrong \<noteq> digest_img0" by (simp add: digest_wrong_def digest_img0_def)
  show ?thesis
    using chain_step [where alloc = alloc and held = held and ?sha256.0 = sha256, OF assms length_digests(1)]
      chain_step [where alloc = alloc and held = held and ?sha256.0 = sha256, OF assms length_digests(2)] wrong
      dangling_step [of alloc held] cycle_step [of alloc held] truncated_step [of alloc held] bad_header_step assms(1,2)
    by (simp add: client_steps_def client_verdicts_def)
qed

lemma client_lines:
  "map (\<lambda>line. line @ [char_of (10 :: nat)])
     (''verify_client: driving the manifest verifier in the secure world'' # layout_line #
      map (\<lambda>(s, v). verdict_line (fst s) (fst v) (snd v)) (zip client_steps client_verdicts) @ [''verify_client: PASS'']) =
   client_transcript"
  by code_simp

text \<open>
  C27. The client's whole conversation with the application succeeds: over any TEE that carries
  its commands to the application, with SHA-256 giving the image the digest the client
  holds for it and three digest operations granted, the program runs without undefined
  behaviour whatever its buffers held, gets for each of its eight manifests exactly the
  expected fault, name and depth, on an instance that every failed request leaves ready,
  and exits with status 0.
\<close>

theorem verify_client_passes:
  assumes "tee_host tee inst E alloc sha256 held" and "serving held (inst t)"
    and "alloc held" "alloc (held + 1)" "alloc (held + 2)" and "sha256 (ascii ''IMG0'') = digest_img0"
    and "length (b_buf b) = 4096" and "\<forall>i. length (stack i) = 64"
  shows "\<exists>st. client_main tee b stack t = Some (0, st) \<and> cl_failures st = 0 \<and> cl_printed st = client_transcript"
  using tee_host.client_main_prints [OF assms(1) client_steps_give [where alloc = alloc and held = held and ?sha256.0 = sha256, OF assms(3-6)] assms(8,7,2)]
  unfolding client_lines .

theorem verify_client_passes_witness:
  "\<exists>st. client_main (direct_tee hosted_env (\<lambda>n. n < 8) (\<lambda>_. digest_img0)) \<lparr>b_buf = replicate 4096 7, b_len = 9\<rparr>
      (\<lambda>_. replicate 64 1) (initial_arm (fresh_instance 0)) = Some (0, st) \<and>
    cl_failures st = 0 \<and> cl_printed st = client_transcript"
  by (rule verify_client_passes [OF direct.tee_host_axioms, of 0])
    (simp_all add: serving_def instance_clean_def fresh_instance_def)

theorem built_manifest_reads_back_witness:
  "\<exists>b'. begin_manifest \<lparr>b_buf = replicate 4096 7, b_len = 9\<rparr> (of_nat (length cycle_entries)) (ascii ''MFST'') 1 \<bind>
      put_entries cycle_entries = Some b' \<and> builder_ok b' \<and>
    list_all2 (\<lambda>e (name, body). name = me_name e \<and> holds_entry (built b') e body)
      cycle_entries (manifest_entries (built b') (unat (built b' ! 5)) 6)"
proof (rule built_manifest_reads_back)
  show "length (manifest_bytes (of_nat (length cycle_entries)) (ascii ''MFST'') 1 cycle_entries) \<le> 4096"
    using entries_fit(3) by (simp add: manifest_bytes_def ascii_def)
qed (simp_all add: samples_ok(3) cycle_entries_def [THEN arg_cong [of _ _ length]])

end
