(* ===== verification/App_Unwinder_Hooks.thy ===== *)
theory App_Unwinder_Hooks
  imports Jmpxx_Prelude
begin

text \<open>
  The hooks the trusted application gives libgcc's unwinder
  (\<open>reference_app/optee_ta/ta/unwinder_hooks.c\<close>).

  Pointers are 64-bit addresses with \<open>NULL\<close> as \<open>0\<close>; their sums wrap.  A pointer to an object
  the caller may leave out is an option.  \<open>dl_iterate_phdr\<close> belongs to the TEE's library and is
  a parameter: it takes the callback and the probe and returns the last status with the
  probe as the callbacks left it.
\<close>

subsection \<open>The threading and environment hooks\<close>

text \<open>
  \<open>pthread_once\<close>: the control word, the initializer (a null pointer is \<open>None\<close>) and the state
  it works on; the control word is set before the initializer runs.
\<close>

definition pthread_once :: "('w \<Rightarrow> 'w) option \<Rightarrow> c_int option \<times> 'w \<Rightarrow> c_int \<times> c_int option \<times> 'w" where
  "pthread_once init cw =
     (case cw of (control, w) \<Rightarrow>
        (case control of
           None \<Rightarrow> (0, control, w)
         | Some c \<Rightarrow>
             if c = 0 then (0, Some 1, case init of None \<Rightarrow> w | Some f \<Rightarrow> f w) else (0, control, w)))"

definition pthread_cond_wait :: "addr \<Rightarrow> addr \<Rightarrow> c_int" where "pthread_cond_wait cond mutex = 0"

definition pthread_cond_broadcast :: "addr \<Rightarrow> c_int" where "pthread_cond_broadcast cond = 0"

definition secure_getenv :: "string \<Rightarrow> string option" where "secure_getenv name = None"

definition isoc23_strtoul :: "(string \<Rightarrow> c_int \<Rightarrow> addr \<times> string) \<Rightarrow> string \<Rightarrow> c_int \<Rightarrow> addr \<times> string" where
  "isoc23_strtoul strtoul s base = strtoul s base"


subsection \<open>Finding the object that covers an address\<close>

definition PT_LOAD :: c_uint32 where "PT_LOAD = 1"
definition PT_GNU_EH_FRAME :: c_uint32 where "PT_GNU_EH_FRAME = 0x6474e550"

record elf_phdr =
  p_type :: c_uint32
  p_vaddr :: addr
  p_memsz :: addr

record dl_phdr_info =
  dlpi_addr :: addr
  dlpi_phdr :: "elf_phdr list"

record dl_find_object =
  dlfo_flags :: addr
  dlfo_map_start :: addr
  dlfo_map_end :: addr
  dlfo_link_map :: addr
  dlfo_eh_frame :: addr
  dlfo_reserved :: "addr list"

record jmpxx_probe =
  probe_want :: addr
  probe_start :: addr
  probe_end :: addr
  probe_eh_frame :: addr
  probe_found :: c_int

text \<open>The loop over the program headers, with \<open>lo\<close>, \<open>hi\<close> and \<open>eh_frame\<close> as its state.\<close>

definition cover_step :: "addr \<Rightarrow> elf_phdr \<Rightarrow> addr \<times> addr \<times> addr \<Rightarrow> addr \<times> addr \<times> addr" where
  "cover_step base ph st =
     (case st of (lo, hi, eh) \<Rightarrow>
        if p_type ph = PT_LOAD then
          let s = base + p_vaddr ph; e = s + p_memsz ph in
          (if lo = 0 \<or> s < lo then s else lo, if hi = 0 \<or> e > hi then e else hi, eh)
        else if p_type ph = PT_GNU_EH_FRAME then (lo, hi, base + p_vaddr ph)
        else (lo, hi, eh))"

definition jmpxx_cover :: "dl_phdr_info \<Rightarrow> jmpxx_probe \<Rightarrow> c_int \<times> jmpxx_probe" where
  "jmpxx_cover info p =
     (case fold (cover_step (dlpi_addr info)) (dlpi_phdr info) (0, 0, 0) of
        (lo, hi, eh) \<Rightarrow>
          if lo = 0 \<or> probe_want p < lo \<or> probe_want p \<ge> hi then (0, p)
          else (1, p\<lparr>probe_start := lo, probe_end := hi, probe_eh_frame := eh, probe_found := 1\<rparr>))"

type_synonym phdr_iterator =
  "(dl_phdr_info \<Rightarrow> jmpxx_probe \<Rightarrow> c_int \<times> jmpxx_probe) \<Rightarrow> jmpxx_probe \<Rightarrow> c_int \<times> jmpxx_probe"

definition dl_find_object :: "phdr_iterator \<Rightarrow> addr \<Rightarrow> dl_find_object option \<Rightarrow> c_int \<times> dl_find_object option" where
  "dl_find_object dl_iterate_phdr a result =
     (let p = snd (dl_iterate_phdr jmpxx_cover
                (\<lparr>probe_want = a, probe_start = 0, probe_end = 0, probe_eh_frame = 0, probe_found = 0\<rparr>)) in
      if probe_found p = 0 \<or> probe_eh_frame p = 0 then (- 1, result)
      else
        (0, map_option (\<lambda>r. r\<lparr>dlfo_flags := 0, dlfo_map_start := probe_start p, dlfo_map_end := probe_end p,
                             dlfo_link_map := 0, dlfo_eh_frame := probe_eh_frame p,
                             dlfo_reserved := replicate 7 0\<rparr>) result))"


subsection \<open>The reference\<close>

text \<open>
  What the library documents of \<open>dl_iterate_phdr\<close>: it calls back for every loaded object in
  its order until a callback returns a non-zero status.
\<close>

primrec visit_objects :: "dl_phdr_info list \<Rightarrow> phdr_iterator" where
  "visit_objects [] callback p = (0, p)"
| "visit_objects (info # infos) callback p =
     (case callback info p of (status, p) \<Rightarrow> if status \<noteq> 0 then (status, p) else visit_objects infos callback p)"

definition enumerates :: "phdr_iterator \<Rightarrow> dl_phdr_info list \<Rightarrow> bool" where
  "enumerates it objs \<longleftrightarrow> (\<forall>callback p. it callback p = visit_objects objs callback p)"

definition load_spans :: "dl_phdr_info \<Rightarrow> (addr \<times> addr) list" where
  "load_spans info =
     map (\<lambda>ph. (dlpi_addr info + p_vaddr ph, dlpi_addr info + p_vaddr ph + p_memsz ph))
       (filter (\<lambda>ph. p_type ph = PT_LOAD) (dlpi_phdr info))"

text \<open>A loadable segment neither starts at address \<open>0\<close> nor wraps around the address space.\<close>

definition laid_out :: "dl_phdr_info \<Rightarrow> bool" where
  "laid_out info \<longleftrightarrow> (\<forall>(s, e)\<in>set (load_spans info). 0 < s \<and> s \<le> e)"

definition object_start :: "dl_phdr_info \<Rightarrow> addr" where
  "object_start info = Min (set (map fst (load_spans info)))"

definition object_end :: "dl_phdr_info \<Rightarrow> addr" where
  "object_end info = Max (set (map snd (load_spans info)))"

definition covers :: "addr \<Rightarrow> dl_phdr_info \<Rightarrow> bool" where
  "covers a info \<longleftrightarrow> load_spans info \<noteq> [] \<and> object_start info \<le> a \<and> a < object_end info"

definition frame_headers :: "dl_phdr_info \<Rightarrow> elf_phdr list" where
  "frame_headers info = filter (\<lambda>ph. p_type ph = PT_GNU_EH_FRAME) (dlpi_phdr info)"

definition eh_frame_of :: "dl_phdr_info \<Rightarrow> addr" where
  "eh_frame_of info = (if frame_headers info = [] then 0 else dlpi_addr info + p_vaddr (last (frame_headers info)))"

definition object_report :: "dl_phdr_info \<Rightarrow> dl_find_object" where
  "object_report info =
     \<lparr>dlfo_flags = 0, dlfo_map_start = object_start info, dlfo_map_end = object_end info, dlfo_link_map = 0,
      dlfo_eh_frame = eh_frame_of info, dlfo_reserved = replicate 7 0\<rparr>"


subsection \<open>The walk over one object\<close>

text \<open>The bounds of the spans seen so far, \<open>0\<close> while there is none.\<close>

definition low_of :: "addr list \<Rightarrow> addr" where "low_of xs = (if xs = [] then 0 else Min (set xs))"
definition high_of :: "addr list \<Rightarrow> addr" where "high_of xs = (if xs = [] then 0 else Max (set xs))"

lemma low_of_positive: "\<forall>x\<in>set xs. 0 < x \<Longrightarrow> xs \<noteq> [] \<Longrightarrow> 0 < low_of xs"
  by (simp add: low_of_def Min_gr_iff)

lemma low_of_snoc: "\<forall>x\<in>set xs. 0 < x \<Longrightarrow> low_of (xs @ [s]) = (if low_of xs = 0 \<or> s < low_of xs then s else low_of xs)"
proof (cases "xs = []")
  case False
  then have "Min (insert s (set xs)) = min s (Min (set xs))" "low_of xs = Min (set xs)"
    by (simp_all add: low_of_def Min_insert)
  moreover assume "\<forall>x\<in>set xs. 0 < x"
  then have "0 < low_of xs" using False by (rule low_of_positive)
  ultimately show ?thesis 
    by (auto simp: low_of_def [of "xs @ [s]"] min_def not_less simp del: Min_less_iff Min_gr_iff Min_le_iff Min_ge_iff)
qed (simp add: low_of_def)

lemma high_of_snoc: "\<forall>x\<in>set xs. 0 < x \<Longrightarrow> high_of (xs @ [e]) = (if high_of xs = 0 \<or> e > high_of xs then e else high_of xs)"
proof (cases "xs = []")
  case False
  then have "Max (insert e (set xs)) = max e (Max (set xs))" "high_of xs = Max (set xs)" "Max (set xs) \<in> set xs"
    by (simp_all add: high_of_def Max_insert)
  moreover assume "\<forall>x\<in>set xs. 0 < x"
  ultimately show ?thesis
    by (auto simp: high_of_def [of "xs @ [e]"] max_def not_less not_le simp del: Max_less_iff Max_gr_iff Max_le_iff Max_ge_iff)
qed (simp add: high_of_def)

lemma laid_out_positive:
  assumes "laid_out info"
  shows "\<forall>x\<in>set (map fst (load_spans info)). 0 < x" "\<forall>x\<in>set (map snd (load_spans info)). 0 < x"
  using assms by (force simp: laid_out_def)+

lemma cover_fold:
  "laid_out \<lparr>dlpi_addr = base, dlpi_phdr = phs\<rparr> \<Longrightarrow>
    fold (cover_step base) phs (0, 0, 0) =
      (low_of (map fst (load_spans \<lparr>dlpi_addr = base, dlpi_phdr = phs\<rparr>)),
       high_of (map snd (load_spans \<lparr>dlpi_addr = base, dlpi_phdr = phs\<rparr>)),
       eh_frame_of \<lparr>dlpi_addr = base, dlpi_phdr = phs\<rparr>)"
proof (induction phs rule: rev_induct)
  case Nil
  then show ?case by (simp add: low_of_def high_of_def load_spans_def eh_frame_of_def frame_headers_def)
next
  case (snoc ph phs)
  let ?i = "\<lambda>phs. \<lparr>dlpi_addr = base, dlpi_phdr = phs\<rparr>"
  have out: "laid_out (?i phs)" using snoc.prems by (auto simp: laid_out_def load_spans_def)
  note pos = laid_out_positive [OF out]
  have step: "fold (cover_step base) (phs @ [ph]) (0, 0, 0) =
      cover_step base ph (low_of (map fst (load_spans (?i phs))), high_of (map snd (load_spans (?i phs))), eh_frame_of (?i phs))"
    using snoc.IH [OF out] by simp
  consider (load) "p_type ph = PT_LOAD" | (frame) "p_type ph = PT_GNU_EH_FRAME"
    | (other) "p_type ph \<noteq> PT_LOAD" "p_type ph \<noteq> PT_GNU_EH_FRAME" by blast
  then show ?case
  proof cases
    case load
    let ?s = "base + p_vaddr ph" and ?e = "base + p_vaddr ph + p_memsz ph"
    have "load_spans (?i (phs @ [ph])) = load_spans (?i phs) @ [(?s, ?e)]" using load by (simp add: load_spans_def)
    moreover have "eh_frame_of (?i (phs @ [ph])) = eh_frame_of (?i phs)"
      using load by (simp add: eh_frame_of_def frame_headers_def PT_LOAD_def PT_GNU_EH_FRAME_def)
    ultimately show ?thesis
      using load low_of_snoc [OF pos(1), of ?s] high_of_snoc [OF pos(2), of ?e]
      by (simp only: step) (simp add: cover_step_def Let_def)
  next
    case frame
    then show ?thesis
      by (simp only: step) (simp add: cover_step_def load_spans_def eh_frame_of_def frame_headers_def PT_LOAD_def PT_GNU_EH_FRAME_def)
  next
    case other
    then show ?thesis
      by (simp only: step) (simp add: cover_step_def load_spans_def eh_frame_of_def frame_headers_def)
  qed
qed

lemma jmpxx_cover_covers:
  assumes "laid_out info"
  shows "jmpxx_cover info p =
    (if covers (probe_want p) info
     then (1, p\<lparr>probe_start := object_start info, probe_end := object_end info, probe_eh_frame := eh_frame_of info,
               probe_found := 1\<rparr>)
     else (0, p))"
proof -
  have walk: "fold (cover_step (dlpi_addr info)) (dlpi_phdr info) (0, 0, 0) =
      (low_of (map fst (load_spans info)), high_of (map snd (load_spans info)), eh_frame_of info)"
    using assms cover_fold by (cases info) simp
  show ?thesis
  proof (cases "load_spans info = []")
    case True
    then show ?thesis by (simp add: jmpxx_cover_def walk low_of_def covers_def)
  next
    case False
    then have "low_of (map fst (load_spans info)) = object_start info" "high_of (map snd (load_spans info)) = object_end info"
      by (simp_all add: low_of_def high_of_def object_start_def object_end_def)
    moreover from low_of_positive [OF laid_out_positive(1) [OF assms]] False
    have "low_of (map fst (load_spans info)) \<noteq> 0" by (metis less_irrefl map_is_Nil_conv)
    ultimately show ?thesis using False by (simp add: jmpxx_cover_def walk covers_def not_le not_less)
  qed
qed

lemma visit_objects_cover:
  assumes "\<forall>info\<in>set objs. laid_out info" and "probe_found p = 0"
  shows "snd (visit_objects objs jmpxx_cover p) =
    (case find (covers (probe_want p)) objs of
       None \<Rightarrow> p
     | Some info \<Rightarrow> p\<lparr>probe_start := object_start info, probe_end := object_end info,
                       probe_eh_frame := eh_frame_of info, probe_found := 1\<rparr>)"
  using assms by (induction objs) (auto simp: jmpxx_cover_covers)

text \<open>
  C29. The unwinder's question is answered truthfully: for any enumeration of loaded objects
  whose segments neither start at address zero nor wrap, \<open>_dl_find_object\<close> reports the load
  range and the exception-frame header of the first object that covers the address, and
  answers -1, leaving the result as it was, exactly when no object covers it or that object
  has no such header.
\<close>

theorem find_object_reports_covering_object:
  assumes "enumerates dl_iterate_phdr objs" and "\<forall>info\<in>set objs. laid_out info"
  shows "dl_find_object dl_iterate_phdr a result =
    (case find (covers a) objs of
       None \<Rightarrow> (- 1, result)
     | Some info \<Rightarrow>
         if eh_frame_of info = 0 then (- 1, result) else (0, map_option (\<lambda>_. object_report info) result))"
  using visit_objects_cover [OF assms(2), of "\<lparr>probe_want = a, probe_start = 0, probe_end = 0, probe_eh_frame = 0, probe_found = 0\<rparr>"]
    assms(1)
  by (auto simp: dl_find_object_def enumerates_def object_report_def split: option.split intro!: option.map_cong)

definition sample_object :: dl_phdr_info where
  "sample_object =
     \<lparr>dlpi_addr = 0x40000000,
      dlpi_phdr =
        [\<lparr>p_type = PT_LOAD, p_vaddr = 0x1000, p_memsz = 0x2000\<rparr>,
         \<lparr>p_type = PT_GNU_EH_FRAME, p_vaddr = 0x2800, p_memsz = 0x100\<rparr>,
         \<lparr>p_type = PT_LOAD, p_vaddr = 0, p_memsz = 0x800\<rparr>]\<rparr>"

theorem find_object_reports_covering_object_witness:
  "fst (dl_find_object (visit_objects [sample_object]) 0x40001234 None) = 0 \<and>
   fst (dl_find_object (visit_objects [sample_object]) 0x40003000 None) = - 1"
proof -
  have spans: "load_spans sample_object = [(0x40001000, 0x40003000), (0x40000000, 0x40000800)]"
    by (simp add: load_spans_def sample_object_def PT_LOAD_def PT_GNU_EH_FRAME_def)
  then have "laid_out sample_object" by (simp add: laid_out_def)
  then have out: "\<forall>info\<in>set [sample_object]. laid_out info" by simp
  have "enumerates (visit_objects [sample_object]) [sample_object]" by (simp add: enumerates_def)
  note ok = find_object_reports_covering_object [OF this out, of _ None]
  have "covers 0x40001234 sample_object" "\<not> covers 0x40003000 sample_object"
    by (simp_all add: covers_def object_start_def object_end_def spans)
  moreover have "eh_frame_of sample_object = 0x40002800"
    by (simp add: eh_frame_of_def frame_headers_def sample_object_def PT_LOAD_def PT_GNU_EH_FRAME_def)
  ultimately show ?thesis by (simp add: ok)
qed

text \<open>
  However often it is called on one control word, \<open>pthread_once\<close> runs the initializer once, and
  every call returns success.
\<close>

theorem pthread_once_runs_once:
  "fst (pthread_once init cw) = 0"
  "((\<lambda>cw. snd (pthread_once (Some f) cw)) ^^ Suc n) (Some 0, w) = (Some 1, f w)"
proof -
  show "fst (pthread_once init cw) = 0" by (simp add: pthread_once_def split: prod.split option.split)
  show "((\<lambda>cw. snd (pthread_once (Some f) cw)) ^^ Suc n) (Some 0, w) = (Some 1, f w)"
    by (induction n) (simp_all add: pthread_once_def)
qed

end
