(* ===== verification/Lint_Checks.thy ===== *)
theory Lint_Checks
  imports Jmpxx_Prelude "HOL-Library.Char_ord" "HOL-Library.List_Lexorder" "HOL-Library.Product_Lexorder"
    "HOL-Library.Multiset"
begin

text \<open>
  The companion check set (\<open>lint/jmpxx_lint.cpp\<close>): the callback that Clang's matchers drive,
  the order of its findings and what it prints.

  Clang is a parameter.  The matchers' results arrive as a list, one \<open>match_result\<close> per call
  of \<open>run\<close>, holding what \<open>Nodes.getNodeAs\<close> finds under each of the five names; an expression
  or statement is represented by its begin location, a variable by its declaration's address.
  The source manager is a record of the functions the callback asks.
\<close>

subsection \<open>Findings and their order\<close>

record finding =
  f_file :: string
  f_line :: c_uint32
  f_col :: c_uint32
  f_check :: string
  f_message :: string

definition finding_less :: "finding \<Rightarrow> finding \<Rightarrow> bool" where
  "finding_less f g =
     (if f_file f \<noteq> f_file g then f_file f < f_file g
      else if f_line f \<noteq> f_line g then f_line f < f_line g
      else if f_col f \<noteq> f_col g then f_col f < f_col g
      else f_check f < f_check g)"

text \<open>\<open>std::sort\<close> with \<open>operator<\<close>, as an insertion sort; that the algorithm does not matter is shown below.\<close>

primrec insert_finding :: "finding \<Rightarrow> finding list \<Rightarrow> finding list" where
  "insert_finding f [] = [f]"
| "insert_finding f (g # gs) = (if finding_less g f then g # insert_finding f gs else f # g # gs)"

primrec sort_findings :: "finding list \<Rightarrow> finding list" where
  "sort_findings [] = []"
| "sort_findings (f # fs) = insert_finding f (sort_findings fs)"


subsection \<open>The callback\<close>

record 'loc source_manager =
  isMacroID :: "'loc \<Rightarrow> bool"
  getSpellingLoc :: "'loc \<Rightarrow> 'loc"
  getFilename :: "'loc \<Rightarrow> string"
  getSpellingLineNumber :: "'loc \<Rightarrow> c_uint32"
  getSpellingColumnNumber :: "'loc \<Rightarrow> c_uint32"

record ('loc, 'var) match_result =
  node_discard :: "'loc option"
  node_manualprop :: "'loc option"
  node_checkedvar :: "'var option"
  node_access :: "'loc option"
  node_accessvar :: "'var option"

record 'var checks =
  lint_findings :: "finding list"
  lint_checked :: "'var set"
  lint_pending :: "(finding \<times> 'var option) list"

definition fresh_checks :: "'var checks" where
  "fresh_checks = \<lparr>lint_findings = [], lint_checked = {}, lint_pending = []\<rparr>"

definition discarded_result :: string where "discarded_result = ''jmpxx-discarded-result''"
definition discarded_message :: string where
  "discarded_message = ''a produced result is discarded; inspect it or propagate it with JMPXX_TRY''"
definition manual_propagation :: string where "manual_propagation = ''jmpxx-manual-propagation''"
definition manual_message :: string where
  "manual_message = ''this hand-written failure forward is one JMPXX_TRY; replace it''"
definition unchecked_access :: string where "unchecked_access = ''jmpxx-unchecked-access''"
definition unchecked_message :: string where
  "unchecked_message = ''result value taken through a narrow accessor with no success check; guard it or use JMPXX_TRY''"

definition lint_fill :: "'loc source_manager \<Rightarrow> 'loc \<Rightarrow> string \<Rightarrow> string \<Rightarrow> finding option" where
  "lint_fill sm loc check msg =
     (let s = getSpellingLoc sm loc in
      if getFilename sm s = [] then None
      else Some \<lparr>f_file = getFilename sm s, f_line = getSpellingLineNumber sm s,
                 f_col = getSpellingColumnNumber sm s, f_check = check, f_message = msg\<rparr>)"

definition lint_record :: "'loc source_manager \<Rightarrow> 'loc \<Rightarrow> string \<Rightarrow> string \<Rightarrow> 'var checks \<Rightarrow> 'var checks" where
  "lint_record sm loc check msg st =
     (case lint_fill sm loc check msg of
        None \<Rightarrow> st
      | Some f \<Rightarrow> st\<lparr>lint_findings := lint_findings st @ [f]\<rparr>)"

definition lint_run :: "'loc source_manager \<Rightarrow> ('loc, 'var) match_result \<Rightarrow> 'var checks \<Rightarrow> 'var checks" where
  "lint_run sm r st =
     (let st = (case node_discard r of
                  None \<Rightarrow> st
                | Some d \<Rightarrow> if isMacroID sm d then st else lint_record sm d discarded_result discarded_message st);
          st = (case node_manualprop r of
                  None \<Rightarrow> st
                | Some mp \<Rightarrow> if isMacroID sm mp then st else lint_record sm mp manual_propagation manual_message st);
          st = (case node_checkedvar r of None \<Rightarrow> st | Some cv \<Rightarrow> st\<lparr>lint_checked := insert cv (lint_checked st)\<rparr>) in
      case node_access r of
        None \<Rightarrow> st
      | Some acc \<Rightarrow>
          if isMacroID sm acc then st
          else
            (case lint_fill sm acc unchecked_access unchecked_message of
               None \<Rightarrow> st
             | Some f \<Rightarrow> st\<lparr>lint_pending := lint_pending st @ [(f, node_accessvar r)]\<rparr>))"

text \<open>\<open>checked_.count(var)\<close>; the set never holds a null pointer.\<close>

definition var_checked :: "'var set \<Rightarrow> 'var option \<Rightarrow> bool" where
  "var_checked checked v = (case v of None \<Rightarrow> False | Some v \<Rightarrow> v \<in> checked)"

definition print_finding :: "finding \<Rightarrow> string" where
  "print_finding f =
     f_file f @ '':'' @ show_nat (unat (f_line f)) @ '':'' @ show_nat (unat (f_col f)) @ '': '' @ f_check f @ '': '' @
     f_message f @ [char_of (10 :: nat)]"

definition print_report :: "finding list \<Rightarrow> string" where
  "print_report fs =
     concat (map print_finding fs) @ ''jmpxx-lint: '' @ show_nat (length fs) @ '' finding(s)'' @ [char_of (10 :: nat)]"

definition onEndOfTranslationUnit :: "'var checks \<Rightarrow> string \<times> 'var checks" where
  "onEndOfTranslationUnit st =
     (let fs = lint_findings st @ map fst (filter (\<lambda>(f, v). \<not> var_checked (lint_checked st) v) (lint_pending st));
          fs = sort_findings fs in
      (print_report fs, st\<lparr>lint_findings := fs\<rparr>))"

text \<open>
  One translation unit is its matches and then the end of the unit; the tool runs one
  callback object over the units of the command line.
\<close>

definition lint_unit :: "'loc source_manager \<Rightarrow> ('loc, 'var) match_result list \<Rightarrow> 'var checks \<Rightarrow> string \<times> 'var checks" where
  "lint_unit sm ms st = onEndOfTranslationUnit (fold (lint_run sm) ms st)"

primrec lint_units ::
    "('loc source_manager \<times> ('loc, 'var) match_result list) list \<Rightarrow> 'var checks \<Rightarrow> string list" where
  "lint_units [] st = []"
| "lint_units (u # us) st =
     (let (out, st) = lint_unit (fst u) (snd u) st in out # lint_units us st)"

text \<open>
  \<open>main\<close>: the command line parsed by the tooling library is an argument, as is the status its
  run returns.
\<close>

definition lint_main ::
    "string + ('loc source_manager \<times> ('loc, 'var) match_result list) list \<Rightarrow> c_int \<Rightarrow> string list \<times> string \<times> c_int" where
  "lint_main parsed run_status =
     (case parsed of
        Inl message \<Rightarrow> ([], message, 2)
      | Inr units \<Rightarrow> (lint_units units fresh_checks, [], run_status))"


subsection \<open>The order\<close>

definition finding_key :: "finding \<Rightarrow> string \<times> c_uint32 \<times> c_uint32 \<times> string" where
  "finding_key f = (f_file f, f_line f, f_col f, f_check f)"

lemma finding_less_key: "finding_less f g \<longleftrightarrow> finding_key f < finding_key g"
  by (auto simp: finding_less_def finding_key_def)

lemma insert_finding_key: "insert_finding f fs = insort_key finding_key f fs"
  by (induction fs) (auto simp: finding_less_key not_less)

lemma sort_findings_key: "sort_findings fs = sort_key finding_key fs"
  by (induction fs) (simp_all add: insert_finding_key)

lemma finding_order_strict_weak:
  "\<not> finding_less f f"
  "finding_less f g \<Longrightarrow> finding_less g h \<Longrightarrow> finding_less f h"
  "finding_less f g \<Longrightarrow> finding_less f h \<or> finding_less h g"
  by (auto simp: finding_less_key)

text \<open>Each check has one message, so findings that the order does not separate are equal.\<close>

definition own_message :: "finding \<Rightarrow> bool" where
  "own_message f \<longleftrightarrow>
     (f_check f, f_message f) \<in> {(discarded_result, discarded_message), (manual_propagation, manual_message),
                                 (unchecked_access, unchecked_message)}"

lemmas check_names = discarded_result_def manual_propagation_def unchecked_access_def

lemma own_message_key: "own_message f \<Longrightarrow> own_message g \<Longrightarrow> finding_key f = finding_key g \<Longrightarrow> f = g"
  by (auto simp: own_message_def finding_key_def check_names intro!: finding.equality)

definition in_source_order :: "finding list \<Rightarrow> bool" where
  "in_source_order fs \<longleftrightarrow> sorted_wrt (\<lambda>f g. \<not> finding_less g f) fs"

lemma in_source_order_key: "in_source_order fs \<longleftrightarrow> sorted (map finding_key fs)"
  by (simp add: in_source_order_def sorted_map finding_less_key not_less)

lemma in_source_order_unique:
  assumes "in_source_order fs" and "mset fs = mset gs" and "\<forall>f\<in>set gs. own_message f"
  shows "fs = sort_findings gs"
proof -
  have "inj_on finding_key (set gs)" using assms(3) by (intro inj_onI) (simp add: own_message_key)
  then show ?thesis
    using assms(1,2) sort_key_inj_key_eq [of gs fs finding_key] by (simp add: in_source_order_key sort_findings_key)
qed


subsection \<open>What a unit reports\<close>

definition discard_of :: "'loc source_manager \<Rightarrow> ('loc, 'var) match_result \<Rightarrow> finding list" where
  "discard_of sm r =
     (case node_discard r of
        None \<Rightarrow> []
      | Some d \<Rightarrow> if isMacroID sm d then [] else case_option [] (\<lambda>f. [f]) (lint_fill sm d discarded_result discarded_message))"

definition manual_of :: "'loc source_manager \<Rightarrow> ('loc, 'var) match_result \<Rightarrow> finding list" where
  "manual_of sm r =
     (case node_manualprop r of
        None \<Rightarrow> []
      | Some d \<Rightarrow> if isMacroID sm d then [] else case_option [] (\<lambda>f. [f]) (lint_fill sm d manual_propagation manual_message))"

definition access_of :: "'loc source_manager \<Rightarrow> ('loc, 'var) match_result \<Rightarrow> finding list" where
  "access_of sm r =
     (case node_access r of
        None \<Rightarrow> []
      | Some d \<Rightarrow> if isMacroID sm d then [] else case_option [] (\<lambda>f. [f]) (lint_fill sm d unchecked_access unchecked_message))"

text \<open>The variables some match of the unit binds as checked.\<close>

definition checked_in :: "('loc, 'var) match_result list \<Rightarrow> 'var set" where
  "checked_in ms = {v. \<exists>r\<in>set ms. node_checkedvar r = Some v}"

definition unchecked_of :: "'loc source_manager \<Rightarrow> ('loc, 'var) match_result list \<Rightarrow> ('loc, 'var) match_result \<Rightarrow> finding list" where
  "unchecked_of sm ms r = (if \<exists>v\<in>checked_in ms. node_accessvar r = Some v then [] else access_of sm r)"

definition reported_of :: "'loc source_manager \<Rightarrow> ('loc, 'var) match_result list \<Rightarrow> ('loc, 'var) match_result \<Rightarrow> finding list" where
  "reported_of sm ms r = discard_of sm r @ manual_of sm r @ unchecked_of sm ms r"

lemma lint_run_fields:
  "lint_findings (lint_run sm r st) = lint_findings st @ discard_of sm r @ manual_of sm r"
  "lint_checked (lint_run sm r st) = set_option (node_checkedvar r) \<union> lint_checked st"
  "lint_pending (lint_run sm r st) = lint_pending st @ map (\<lambda>f. (f, node_accessvar r)) (access_of sm r)"
  by (simp_all add: lint_run_def lint_record_def discard_of_def manual_of_def access_of_def Let_def split: option.split)

lemma lint_fold_fields:
  "lint_findings (fold (lint_run sm) ms st) = lint_findings st @ concat (map (\<lambda>r. discard_of sm r @ manual_of sm r) ms)"
  "lint_checked (fold (lint_run sm) ms st) = checked_in ms \<union> lint_checked st"
  "lint_pending (fold (lint_run sm) ms st) =
     lint_pending st @ concat (map (\<lambda>r. map (\<lambda>f. (f, node_accessvar r)) (access_of sm r)) ms)"
  by (induction ms arbitrary: st) (auto simp: lint_run_fields checked_in_def elem_set)

text \<open>The findings a state prints when the unit ends, before they are sorted.\<close>

definition due :: "'var checks \<Rightarrow> finding list" where
  "due st = lint_findings st @ map fst (filter (\<lambda>(f, v). \<not> var_checked (lint_checked st) v) (lint_pending st))"

lemma end_of_unit: "onEndOfTranslationUnit st = (print_report (sort_findings (due st)), st\<lparr>lint_findings := sort_findings (due st)\<rparr>)"
  by (simp add: onEndOfTranslationUnit_def due_def Let_def)

lemma var_checked_iff: "var_checked checked v \<longleftrightarrow> (\<exists>x\<in>checked. v = Some x)"
  by (auto simp: var_checked_def split: option.split)

lemma unchecked_pending:
  "map fst (filter (\<lambda>(f, v). \<not> var_checked (checked_in ms) v) (concat (map (\<lambda>r. map (\<lambda>f. (f, node_accessvar r)) (access_of sm r)) ns))) =
     concat (map (unchecked_of sm ms) ns)"
  by (induction ns) (simp_all add: unchecked_of_def var_checked_iff [symmetric] comp_def)

lemma due_fresh:
  "mset (due (fold (lint_run sm) ms fresh_checks)) = mset (concat (map (reported_of sm ms) ms))"
proof -
  have split: "mset (concat (map (\<lambda>r. discard_of sm r @ manual_of sm r) ns)) + mset (concat (map (unchecked_of sm ms) ns)) =
      mset (concat (map (reported_of sm ms) ns))" for ns
    by (induction ns) (simp_all add: reported_of_def)
  show ?thesis
    by (simp add: due_def lint_fold_fields fresh_checks_def unchecked_pending split)
qed

lemma lint_fill_own: "lint_fill sm loc c m = Some f \<Longrightarrow> f_check f = c \<and> f_message f = m"
  by (auto simp: lint_fill_def Let_def split: if_splits)

lemma reported_own: "f \<in> set (reported_of sm ms r) \<Longrightarrow> own_message f"
  by (auto simp: reported_of_def discard_of_def manual_of_def unchecked_of_def access_of_def own_message_def
      split: option.splits if_splits dest!: lint_fill_own)

text \<open>The reference depends on the matches of the unit, not on their order.\<close>

lemma reported_perm:
  assumes "mset ms' = mset ms"
  shows "mset (concat (map (reported_of sm ms') ms')) = mset (concat (map (reported_of sm ms) ms))"
proof -
  have "set ms' = set ms" using assms mset_eq_setD by blast
  then have same: "reported_of sm ms' = reported_of sm ms"
    by (intro ext) (simp add: reported_of_def unchecked_of_def checked_in_def)
  have "mset (concat (map g xs)) = \<Sum>\<^sub># (image_mset (\<lambda>r. mset (g r)) (mset xs))"
    for g :: "('a, 'b) match_result \<Rightarrow> finding list" and xs
    by (induction xs) simp_all
  then show ?thesis by (simp add: same assms)
qed

text \<open>
  C28. A lint run over one source file reports every discarded result, every hand-written
  forward and every narrow access whose variable no match of the file checks, each exactly
  as often as it was matched, and nothing that a macro wrote or that has no file.  The
  report is the only arrangement of these findings in source order, whatever algorithm
  sorts them, and does not depend on the order in which Clang delivers the matches: a guard
  counts wherever it stands.
\<close>

theorem lint_reports_exactly:
  assumes "mset ms' = mset ms"
  shows "\<exists>fs. fst (lint_unit sm ms' fresh_checks) = print_report fs \<and>
    mset fs = mset (concat (map (reported_of sm ms) ms)) \<and> in_source_order fs \<and>
    (\<forall>gs. mset gs = mset fs \<and> in_source_order gs \<longrightarrow> gs = fs)"
proof -
  let ?fs = "due (fold (lint_run sm) ms' fresh_checks)"
  have all: "mset ?fs = mset (concat (map (reported_of sm ms) ms))"
    by (simp only: due_fresh reported_perm [OF assms])
  then have "set ?fs = set (concat (map (reported_of sm ms) ms))" by (rule mset_eq_setD)
  then have own: "\<forall>f\<in>set ?fs. own_message f" by (auto dest: reported_own)
  have sorted: "in_source_order (sort_findings ?fs)" "mset (sort_findings ?fs) = mset ?fs"
    by (simp_all add: in_source_order_key sort_findings_key)
  have printed: "fst (lint_unit sm ms' fresh_checks) = print_report (sort_findings ?fs)"
    by (simp add: lint_unit_def end_of_unit)
  have "gs = sort_findings ?fs" if "mset gs = mset (sort_findings ?fs)" "in_source_order gs" for gs
    by (rule in_source_order_unique [OF that(2) trans [OF that(1) sorted(2)] own])
  then have "\<forall>gs. mset gs = mset (sort_findings ?fs) \<and> in_source_order gs \<longrightarrow> gs = sort_findings ?fs" by blast
  with printed trans [OF sorted(2) all] sorted(1) show ?thesis by (intro exI conjI)
qed

definition plain_sources :: "(c_uint32 \<times> c_uint32) source_manager" where
  "plain_sources = \<lparr>isMacroID = (\<lambda>l. fst l = 0), getSpellingLoc = id, getFilename = (\<lambda>_. ''a.cpp''),
     getSpellingLineNumber = fst, getSpellingColumnNumber = snd\<rparr>"

definition no_match :: "('loc, 'var) match_result" where
  "no_match = \<lparr>node_discard = None, node_manualprop = None, node_checkedvar = None, node_access = None,
     node_accessvar = None\<rparr>"

text \<open>Two accesses, a discarded call, and a guard of the first variable delivered last.\<close>

definition sample_matches :: "(c_uint32 \<times> c_uint32, nat) match_result list" where
  "sample_matches =
     [no_match\<lparr>node_access := Some (4, 10), node_accessvar := Some 7\<rparr>,
      no_match\<lparr>node_access := Some (9, 3), node_accessvar := Some 8\<rparr>,
      no_match\<lparr>node_discard := Some (2, 3)\<rparr>,
      no_match\<lparr>node_checkedvar := Some 7\<rparr>]"

theorem lint_reports_exactly_witness:
  "\<exists>fs. fst (lint_unit plain_sources (rev sample_matches) fresh_checks) = print_report fs \<and>
    map (\<lambda>f. (f_line f, f_check f)) fs = [(2, discarded_result), (9, unchecked_access)]"
proof -
  let ?a = "\<lparr>f_file = ''a.cpp'', f_line = 2, f_col = 3, f_check = discarded_result, f_message = discarded_message\<rparr>"
    and ?b = "\<lparr>f_file = ''a.cpp'', f_line = 9, f_col = 3, f_check = unchecked_access, f_message = unchecked_message\<rparr>"
  obtain fs where fs: "fst (lint_unit plain_sources (rev sample_matches) fresh_checks) = print_report fs"
    "mset fs = mset (concat (map (reported_of plain_sources sample_matches) sample_matches))"
    and only: "\<forall>gs. mset gs = mset fs \<and> in_source_order gs \<longrightarrow> gs = fs"
    using lint_reports_exactly [OF mset_rev [of sample_matches], of plain_sources] by (elim exE conjE) (rule that)
  have "concat (map (reported_of plain_sources sample_matches) sample_matches) = [?b, ?a]"
    by (simp add: sample_matches_def reported_of_def discard_of_def manual_of_def unchecked_of_def access_of_def
        checked_in_def no_match_def plain_sources_def lint_fill_def)
  then have "mset [?a, ?b] = mset fs" using fs(2) by (simp add: add_mset_commute)
  moreover have "in_source_order [?a, ?b]" by (simp add: in_source_order_def finding_less_def)
  ultimately have "[?a, ?b] = fs" using only by blast
  then show ?thesis using fs(1) by (intro exI [of _ fs]) auto
qed

subsection \<open>Several files\<close>

text \<open>
  The callback object after some units, and what it has then accumulated: what each unit
  reports directly, the accesses of all units with the declarations they go through, and the
  declarations that some unit checks.  Declarations of different units are compared by their
  addresses, which may coincide.
\<close>

type_synonym ('loc, 'var) lint_input = "'loc source_manager \<times> ('loc, 'var) match_result list"

definition after_units :: "('loc, 'var) lint_input list \<Rightarrow> 'var checks \<Rightarrow> 'var checks" where
  "after_units us st = fold (\<lambda>u st. snd (lint_unit (fst u) (snd u) st)) us st"

definition direct_in :: "('loc, 'var) lint_input \<Rightarrow> finding list" where
  "direct_in u = concat (map (\<lambda>r. discard_of (fst u) r @ manual_of (fst u) r) (snd u))"

definition accesses_in :: "('loc, 'var) lint_input \<Rightarrow> (finding \<times> 'var option) list" where
  "accesses_in u = concat (map (\<lambda>r. map (\<lambda>f. (f, node_accessvar r)) (access_of (fst u) r)) (snd u))"

definition checked_among :: "('loc, 'var) lint_input list \<Rightarrow> 'var set" where
  "checked_among us = (\<Union>u\<in>set us. checked_in (snd u))"

definition open_accesses :: "('loc, 'var) lint_input list \<Rightarrow> finding list" where
  "open_accesses us =
     map fst (filter (\<lambda>(f, v). \<not> (\<exists>x\<in>checked_among us. v = Some x)) (concat (map accesses_in us)))"

lemma after_units_snoc: "after_units (us @ [u]) st = snd (lint_unit (fst u) (snd u) (after_units us st))"
  by (simp add: after_units_def)

lemma lint_units_reports:
  "lint_units us st = map (\<lambda>i. print_report (lint_findings (after_units (take (Suc i) us) st))) [0..<length us]"
proof (induction us arbitrary: st)
  case (Cons u us)
  have "fst (lint_unit sm ms st) = print_report (lint_findings (snd (lint_unit sm ms st)))" for sm ms
    by (simp add: lint_unit_def end_of_unit)
  then show ?case
    using Cons by (simp add: case_prod_beta map_upt_Suc after_units_def del: upt_Suc)
qed simp

lemma accumulated:
  "lint_checked (after_units us fresh_checks) = checked_among us \<and>
   lint_pending (after_units us fresh_checks) = concat (map accesses_in us) \<and>
   mset (lint_findings (after_units us fresh_checks)) =
     mset (concat (map direct_in us)) + (\<Sum>j<length us. mset (open_accesses (take (Suc j) us)))"
proof (induction us rule: rev_induct)
  case Nil
  show ?case by (simp add: after_units_def fresh_checks_def checked_among_def)
next
  case (snoc u us)
  let ?st = "fold (lint_run (fst u)) (snd u) (after_units us fresh_checks)"
  have st: "lint_checked ?st = checked_among (us @ [u])" "lint_pending ?st = concat (map accesses_in (us @ [u]))"
    "lint_findings ?st = lint_findings (after_units us fresh_checks) @ direct_in u"
    using snoc
    by (auto simp: lint_fold_fields checked_among_def accesses_in_def [of u, symmetric] direct_in_def [of u, symmetric])
  have "due ?st = lint_findings ?st @ open_accesses (us @ [u])"
    by (simp only: due_def open_accesses_def st var_checked_iff)
  then have "mset (lint_findings (after_units (us @ [u]) fresh_checks)) =
      mset (lint_findings (after_units us fresh_checks)) + mset (direct_in u) + mset (open_accesses (us @ [u]))"
    by (simp add: after_units_snoc lint_unit_def end_of_unit sort_findings_key st(3))
  moreover have "(\<Sum>j<length us. mset (open_accesses (take (Suc j) (us @ [u])))) =
      (\<Sum>j<length us. mset (open_accesses (take (Suc j) us)))"
    by (rule sum.cong) simp_all
  ultimately show ?case
    using snoc st(1,2) by (simp add: after_units_snoc lint_unit_def end_of_unit add_ac)
qed

text \<open>
  C37. The callback is not reset between the files of one command line.  For any files with any
  matches, the report of a file holds the discarded results and hand-written forwards of
  that file and of every file before it, and, once for itself and once for every file
  before it, the accesses that were open when that file ended: those of the files up to it
  through a declaration whose address none of these files checks.  So every report contains
  all earlier reports, and an access stays listed, one time more per file, unless a later
  file checks a declaration that has the same address; then it is not added again, but not
  taken back either.
\<close>

theorem lint_repeats_earlier_files:
  "\<exists>reps. lint_units us fresh_checks = map print_report reps \<and> length reps = length us \<and>
    (\<forall>i<length us. mset (reps ! i) =
       mset (concat (map direct_in (take (Suc i) us))) + (\<Sum>j\<le>i. mset (open_accesses (take (Suc j) us)))) \<and>
    (\<forall>i<length us. \<forall>j\<le>i. mset (reps ! j) \<subseteq># mset (reps ! i))"
proof -
  define reps where "reps = map (\<lambda>i. lint_findings (after_units (take (Suc i) us) fresh_checks)) [0..<length us]"
  have account: "mset (reps ! i) =
      mset (concat (map direct_in (take (Suc i) us))) + (\<Sum>j\<le>i. mset (open_accesses (take (Suc j) us)))"
    if "i < length us" for i
  proof -
    have len: "length (take (Suc i) us) = Suc i" using that by simp
    have "(\<Sum>j<Suc i. mset (open_accesses (take (Suc j) (take (Suc i) us)))) = (\<Sum>j\<le>i. mset (open_accesses (take (Suc j) us)))"
      unfolding lessThan_Suc_atMost by (rule sum.cong) (simp_all add: min_def)
    then show ?thesis
      using that accumulated [of "take (Suc i) us", unfolded len] by (simp add: reps_def del: sum.lessThan_Suc sum.atMost_Suc)
  qed
  have "mset (reps ! j) \<subseteq># mset (reps ! i)" if "i < length us" "j \<le> i" for i j
  proof -
    have "take (Suc i) us = take (Suc j) us @ drop (Suc j) (take (Suc i) us)"
      using that by (metis append_take_drop_id min.absorb1 Suc_le_mono take_take)
    then have "mset (concat (map direct_in (take (Suc j) us))) \<subseteq># mset (concat (map direct_in (take (Suc i) us)))"
      by (metis concat_append map_append mset_append mset_subset_eq_add_left)
    moreover have "(\<Sum>j\<le>j. mset (open_accesses (take (Suc j) us))) \<subseteq># (\<Sum>j\<le>i. mset (open_accesses (take (Suc j) us)))"
      using that(2)
    proof (induction i rule: dec_induct)
      case (step n)
      then show ?case by (simp add: subset_mset.add_increasing2)
    qed simp
    ultimately show ?thesis using that by (simp add: account subset_mset.add_mono)
  qed
  with account show ?thesis
    by (intro exI [of _ reps]) (simp add: lint_units_reports reps_def)
qed

text \<open>
  Three files: the sample; one in which nothing matches; one that checks a declaration at the
  address of the sample's open access.
\<close>

theorem lint_repeats_earlier_files_witness:
  "\<exists>reps. lint_units [(plain_sources, sample_matches), (plain_sources, []), (plain_sources, [no_match\<lparr>node_checkedvar := Some 8\<rparr>])]
      fresh_checks = map print_report reps \<and> map length reps = [2, 3, 3]"
proof -
  let ?us = "[(plain_sources, sample_matches), (plain_sources, []), (plain_sources, [no_match\<lparr>node_checkedvar := Some (8 :: nat)\<rparr>])]"
  obtain reps where reps: "lint_units ?us fresh_checks = map print_report reps" "length reps = 3"
    and account: "\<And>i. i < 3 \<Longrightarrow> mset (reps ! i) =
       mset (concat (map direct_in (take (Suc i) ?us))) + (\<Sum>j\<le>i. mset (open_accesses (take (Suc j) ?us)))"
    using lint_repeats_earlier_files [of ?us] by auto
  have direct: "length (direct_in (plain_sources, sample_matches)) = 1" "direct_in (plain_sources, [] :: (_, nat) match_result list) = []"
    "direct_in (plain_sources, [no_match\<lparr>node_checkedvar := Some (8 :: nat)\<rparr>]) = []"
    by (simp_all add: direct_in_def sample_matches_def discard_of_def manual_of_def no_match_def plain_sources_def lint_fill_def)
  note unfolds = open_accesses_def accesses_in_def checked_among_def checked_in_def sample_matches_def access_of_def no_match_def
    plain_sources_def lint_fill_def
  have opened: "length (open_accesses (take (Suc 0) ?us)) = 1" "length (open_accesses (take (Suc 1) ?us)) = 1"
    "length (open_accesses (take (Suc 2) ?us)) = 0"
    by (simp_all add: unfolds)
  have sized: "length (reps ! i) = length (concat (map direct_in (take (Suc i) ?us))) + (\<Sum>j\<le>i. length (open_accesses (take (Suc j) ?us)))"
    if "i < 3" for i
    using arg_cong [OF account [OF that], of size] by (simp only: size_mset size_union size_multiset_sum)
  have sums: "(\<Sum>j\<le>0. g j) = g 0" "(\<Sum>j\<le>1. g j) = g 0 + g 1" "(\<Sum>j\<le>2. g j) = g 0 + g 1 + g 2" for g :: "nat \<Rightarrow> nat"
    by (simp_all add: numeral_2_eq_2)
  have "length (reps ! 0) = 2" using sized [of 0] direct opened by (simp add: sums)
  moreover have "length (reps ! 1) = 3" using sized [of 1] direct opened by simp
  moreover have "length (reps ! 2) = 3" using sized [of 2] direct opened by (simp add: sums)
  moreover obtain a b c where "reps = [a, b, c]"
    using reps(2) by (auto simp: length_Suc_conv numeral_3_eq_3)
  ultimately have "map length reps = [2, 3, 3]" by simp
  with reps(1) show ?thesis by (intro exI [of _ reps] conjI)
qed

end
