(* ===== verification/Verify_Shell.thy ===== *)
theory Verify_Shell
  imports Verify_Harness
begin

text \<open>
  What the probes that run tools are written over: processes, files, the environment and the
  clock as parameters, the options of a command line (\<open>verify/main.cpp\<close>, \<open>verify/unwind_probes.cpp\<close>)
  and the choice of the pinned compiler.

  The world of a probe is whatever its processes and files live in; running a command, writing
  a file and reading the clock may change it.  A number given on the command line is the
  integer it denotes; one that does not fit its type is undefined behaviour of \<open>atoi\<close> and
  \<open>atoll\<close> and outside the model.
\<close>

record 'w shell =
  sh_system :: "string \<Rightarrow> 'w \<Rightarrow> int \<times> 'w"
  sh_read :: "string \<Rightarrow> 'w \<Rightarrow> string"
  sh_write :: "string \<Rightarrow> string \<Rightarrow> 'w \<Rightarrow> bool \<times> 'w"
  sh_clock :: "'w \<Rightarrow> int \<times> 'w"
  sh_env :: "string \<Rightarrow> string option"
  sh_include :: string
  sh_kernels :: string

text \<open>
  The loop over a probe's arguments: an option that takes the next argument, the empty string
  when there is none, and an option that does not.
\<close>

fun parse_args :: "(string \<Rightarrow> (string \<Rightarrow> 'o \<Rightarrow> 'o) option) \<Rightarrow> (string \<Rightarrow> 'o \<Rightarrow> 'o) \<Rightarrow> string list \<Rightarrow> 'o \<Rightarrow> 'o" where
  "parse_args valued plain [] opts = opts"
| "parse_args valued plain (a # rest) opts =
     (case valued a of
        Some set_to \<Rightarrow>
          (case rest of
             [] \<Rightarrow> set_to [] opts
           | x # rest \<Rightarrow> parse_args valued plain rest (set_to x opts))
      | None \<Rightarrow> parse_args valued plain rest (plain a opts))"

text \<open>The compiler of an architecture, empty when there is none.\<close>

definition select_cxx :: "'w shell \<Rightarrow> string \<Rightarrow> string" where
  "select_cxx S arch =
     (case sh_env S ''JMPXX_CG_CXX'' of
        Some cxx \<Rightarrow> cxx
      | None \<Rightarrow>
          if arch = ''x86_64'' then ''g++-13''
          else if arch = ''aarch64'' then ''aarch64-linux-gnu-g++''
          else [])"

text \<open>
  The behaviour of files and tools the statements rely on: a file that was written holds what was
  written, and a command that leaves some files succeeds everywhere, leaves the same contents in
  them and touches no other file.
\<close>

definition files_hold :: "'w shell \<Rightarrow> bool" where
  "files_hold S \<longleftrightarrow> (\<forall>path c w w'. sh_write S path c w = (True, w') \<longrightarrow> sh_read S path w' = c)"

definition leaves :: "'w shell \<Rightarrow> string \<Rightarrow> (string \<times> string) list \<Rightarrow> bool" where
  "leaves S cmd outs \<longleftrightarrow>
     (\<forall>w. \<exists>w'. sh_system S cmd w = (0, w') \<and> (\<forall>(path, c)\<in>set outs. sh_read S path w' = c) \<and>
        (\<forall>path. path \<notin> fst ` set outs \<longrightarrow> sh_read S path w' = sh_read S path w))"

lemma leavesE:
  assumes "leaves S cmd outs"
  obtains w' where "sh_system S cmd w = (0, w')" "\<And>path c. (path, c) \<in> set outs \<Longrightarrow> sh_read S path w' = c"
    "\<And>path. path \<notin> fst ` set outs \<Longrightarrow> sh_read S path w' = sh_read S path w"
proof -
  from assms obtain w' where "sh_system S cmd w = (0, w')" "\<forall>(path, c)\<in>set outs. sh_read S path w' = c"
    "\<forall>path. path \<notin> fst ` set outs \<longrightarrow> sh_read S path w' = sh_read S path w"
    unfolding leaves_def by blast
  then show thesis by (intro that [of w']) auto
qed

text \<open>The verdict of a report.\<close>

abbreviation passing :: "report_op list \<Rightarrow> bool" where
  "passing ops \<equiv> list_all (\<lambda>x. \<not> op_failed x) ops"

lemma report_status:
  "fst (finish (report_all ops (report_new f probe))) = (if passing ops then 0 else 1)"
  by (simp add: finish_def report_all_fields report_new_def)

lemma passing_fail_if [simp]: "passing (fail_if b why) \<longleftrightarrow> \<not> b"
  by (simp add: fail_if_def)

text \<open>A shell over files alone, on which a command succeeds and leaves given files.\<close>

type_synonym files = "string \<Rightarrow> string"

definition put_files :: "(string \<times> string) list \<Rightarrow> files \<Rightarrow> files" where
  "put_files outs w = fold (\<lambda>(path, c) w. w(path := c)) outs w"

definition file_shell :: "(string \<Rightarrow> (string \<times> string) list) \<Rightarrow> files shell" where
  "file_shell tool =
     \<lparr>sh_system = (\<lambda>cmd w. (0, put_files (tool cmd) w)), sh_read = (\<lambda>path w. w path),
      sh_write = (\<lambda>path c w. (True, w(path := c))), sh_clock = (\<lambda>w. (0, w)), sh_env = (\<lambda>_. None),
      sh_include = ''include'', sh_kernels = ''kernels''\<rparr>"

lemma put_files_other: "path \<notin> fst ` set outs \<Longrightarrow> put_files outs w path = w path"
  unfolding put_files_def by (induction outs arbitrary: w) auto

lemma put_files_same: "distinct (map fst outs) \<Longrightarrow> (path, c) \<in> set outs \<Longrightarrow> put_files outs w path = c"
proof (induction outs arbitrary: w)
  case (Cons x outs)
  show ?case
  proof (cases "x = (path, c)")
    case True
    then have "path \<notin> fst ` set outs" using Cons.prems(1) by auto
    from put_files_other [OF this, of "w(path := c)"] show ?thesis using True by (simp add: put_files_def)
  next
    case False
    then show ?thesis using Cons by (auto simp: put_files_def)
  qed
qed simp

lemma file_shell_holds: "files_hold (file_shell tool)"
  by (auto simp: files_hold_def file_shell_def)

lemma file_shell_leaves: "distinct (map fst (tool cmd)) \<Longrightarrow> leaves (file_shell tool) cmd (tool cmd)"
  by (auto simp: leaves_def file_shell_def put_files_other put_files_same)

end
