(* ===== verification/Verify_Codegen.thy ===== *)
theory Verify_Codegen
  imports Verify_Shell "HOL-Library.Char_ord"
begin

text \<open>
  The assembly-comparing probes of the verification harness (\<open>verify/main.cpp\<close>): slicing and
  normalizing a function's assembly, renaming local labels, and the \<open>codegen\<close> and \<open>release-diff\<close>
  probes built on them.

  The toolchain and the files are the parameters of a shell.
\<close>

subsection \<open>Normalizing assembly\<close>

definition starts :: "string \<Rightarrow> string \<Rightarrow> bool" where
  "starts pat t \<longleftrightarrow> take (length pat) t = pat"

definition contains :: "string \<Rightarrow> string \<Rightarrow> bool" where
  "contains pat t \<longleftrightarrow> find_sub pat t \<noteq> None"

record normalized =
  n_text :: string
  n_instructions :: int
  n_spilled :: bool
  n_found :: bool

definition hash :: char where "hash = CHR 0x23"

text \<open>The cut at the first \<open>#\<close>.\<close>

definition strip_comment :: "string \<Rightarrow> string" where
  "strip_comment t = (if hash \<in> set t then trim (takeWhile (\<lambda>c. c \<noteq> hash) t) else t)"

definition spills :: "bool \<Rightarrow> string \<Rightarrow> bool" where
  "spills x86 t \<longleftrightarrow>
     (if x86 then contains ''(%rsp)'' t \<or> contains ''(%rbp)'' t \<or> starts ''push'' t \<or> starts ''pop'' t
      else contains ''[sp'' t \<or> contains ''[x29'' t \<or> starts ''stp'' t \<or> starts ''ldp'' t)"

primrec normalize_lines :: "bool \<Rightarrow> string \<Rightarrow> string list \<Rightarrow> bool \<Rightarrow> normalized \<Rightarrow> normalized" where
  "normalize_lines x86 start [] inside n = n"
| "normalize_lines x86 start (line # ls) inside n =
     (let t = trim line in
      if \<not> inside then
        (if t = start then normalize_lines x86 start ls True (n\<lparr>n_found := True\<rparr>)
         else normalize_lines x86 start ls False n)
      else if starts ''.size'' t \<or> starts ''.cfi_endproc'' t then n
      else
        (let t = strip_comment t in
         if t = [] then normalize_lines x86 start ls inside n
         else if hd t = CHR ''.'' \<and> last t \<noteq> CHR '':'' then normalize_lines x86 start ls inside n
         else
           (let n = n\<lparr>n_text := n_text n @ t @ [newline]\<rparr> in
            if last t = CHR '':'' then normalize_lines x86 start ls inside n
            else
              (let n = n\<lparr>n_instructions := n_instructions n + 1\<rparr> in
               normalize_lines x86 start ls inside (if spills x86 t then n\<lparr>n_spilled := True\<rparr> else n)))))"

definition normalize :: "string \<Rightarrow> string \<Rightarrow> string \<Rightarrow> normalized" where
  "normalize asm_text symbol arch =
     normalize_lines (arch = ''x86_64'') (symbol @ '':'') (getlines asm_text) False
       \<lparr>n_text = [], n_instructions = 0, n_spilled = False, n_found = False\<rparr>"


subsection \<open>Canonical labels\<close>

definition label_char :: "char \<Rightarrow> bool" where
  "label_char c \<longleftrightarrow> (CHR ''A'' \<le> c \<and> c \<le> CHR ''Z'') \<or> (CHR ''a'' \<le> c \<and> c \<le> CHR ''z'') \<or>
     (CHR ''0'' \<le> c \<and> c \<le> CHR ''9'') \<or> c = CHR ''_'' \<or> c = CHR ''$''"

text \<open>
  The table \<open>seen\<close> as the list of its tokens in the order they were added, so that a token's
  canonical number is its position.
\<close>

definition position :: "string \<Rightarrow> string list \<Rightarrow> nat" where
  "position tok seen = length (takeWhile (\<lambda>t. t \<noteq> tok) seen)"

definition canonical :: "nat \<Rightarrow> string" where
  "canonical k = ''.L#'' @ show_nat k"

definition at_label :: "string \<Rightarrow> bool" where
  "at_label s \<longleftrightarrow> (case s of c # d # e # _ \<Rightarrow> c = CHR ''.'' \<and> d = CHR ''L'' \<and> label_char e | _ \<Rightarrow> False)"

lemma at_label_length: "at_label s \<Longrightarrow> 3 \<le> length s"
  by (auto simp: at_label_def split: list.splits)

lemma dropWhile_drop_less: "s \<noteq> [] \<Longrightarrow> at_label s \<Longrightarrow> length (dropWhile P (drop 2 s)) < length s"
  using at_label_length [of s] length_dropWhile_le [of P "drop 2 s"] by simp

function canon_loop :: "string list \<Rightarrow> string \<Rightarrow> string" where
  "canon_loop seen s =
     (if s = [] then []
      else if at_label s then
        (let tok = take 2 s @ takeWhile label_char (drop 2 s);
             seen' = (if tok \<in> set seen then seen else seen @ [tok]) in
         canonical (position tok seen') @ canon_loop seen' (dropWhile label_char (drop 2 s)))
      else hd s # canon_loop seen (tl s))"
  by pat_completeness auto

termination
  by (relation "measure (\<lambda>(seen, s). length s)") (auto simp: dropWhile_drop_less)

declare canon_loop.simps [simp del]

definition canon_labels :: "string \<Rightarrow> string" where
  "canon_labels body = canon_loop [] body"


subsection \<open>The pieces of a body\<close>

text \<open>The reference: a body is a sequence of characters and local labels.\<close>

datatype 'l piece = Ch char | Label 'l

function pieces :: "string \<Rightarrow> string piece list" where
  "pieces s =
     (if s = [] then []
      else if at_label s then
        Label (take 2 s @ takeWhile label_char (drop 2 s)) # pieces (dropWhile label_char (drop 2 s))
      else Ch (hd s) # pieces (tl s))"
  by pat_completeness auto

termination
  by (relation "measure length") (auto simp: dropWhile_drop_less)

declare pieces.simps [simp del]

primrec number :: "string list \<Rightarrow> string piece list \<Rightarrow> nat piece list" where
  "number seen [] = []"
| "number seen (p # ps) =
     (case p of
        Ch c \<Rightarrow> Ch c # number seen ps
      | Label t \<Rightarrow>
          (let seen' = (if t \<in> set seen then seen else seen @ [t]) in Label (position t seen') # number seen' ps))"

primrec show_piece :: "nat piece \<Rightarrow> string" where
  "show_piece (Ch c) = [c]"
| "show_piece (Label k) = canonical k"

lemma canon_loop_pieces: "canon_loop seen s = concat (map show_piece (number seen (pieces s)))"
proof (induction seen s rule: canon_loop.induct)
  case (1 seen s)
  then show ?case
    by (subst canon_loop.simps, subst pieces.simps) (auto simp: Let_def)
qed

text \<open>
  A piece sequence that a body can have: no \<open>#\<close>, and a label is not followed by a character
  that would belong to it.
\<close>

primrec parted :: "'l piece list \<Rightarrow> bool" where
  "parted [] \<longleftrightarrow> True"
| "parted (p # ps) \<longleftrightarrow>
     parted ps \<and>
     (case p of
        Ch c \<Rightarrow> c \<noteq> hash
      | Label _ \<Rightarrow> (case ps of Ch c # _ \<Rightarrow> \<not> label_char c | _ \<Rightarrow> True))"

lemma parted_Cons: "parted (p # ps) \<Longrightarrow> p \<noteq> Ch hash \<and> parted ps"
  by (cases p) simp_all

lemma not_label_char [simp]: "\<not> label_char (CHR ''.'')" "\<not> label_char hash"
  by (simp_all add: label_char_def hash_def less_eq_char_def)

lemma show_nat_label_chars: "list_all label_char (show_nat k)"
proof (induction k rule: show_nat.induct)
  case (1 n)
  have "label_char (show_digit d)" if "d < 10" for d
  proof -
    have "d \<in> {0, 1, 2, 3, 4, 5, 6, 7, 8, 9}" using that by auto
    then show ?thesis by (auto simp: show_digit_def label_char_def less_eq_char_def)
  qed
  then show ?case using 1 by (subst show_nat.simps) simp
qed

lemma show_piece_nonempty: "show_piece p \<noteq> []"
  by (cases p) (simp_all add: canonical_def)

lemma after_label:
  assumes "parted (Label k # ps)"
  shows "takeWhile label_char (show_nat k @ concat (map show_piece ps)) = show_nat k"
proof -
  have "concat (map show_piece ps) = [] \<or> \<not> label_char (hd (concat (map show_piece ps)))"
  proof (cases ps)
    case (Cons p qs)
    then show ?thesis using assms by (cases p) (simp_all add: canonical_def)
  qed simp
  then have "takeWhile label_char (concat (map show_piece ps)) = []" unfolding takeWhile_eq_Nil_iff .
  then show ?thesis using show_nat_label_chars [of k] by (simp add: takeWhile_append list_all_iff)
qed

lemma no_canonical_from_characters:
  assumes "parted (Ch c # ps)"
  shows "concat (map show_piece (Ch c # ps)) \<noteq> canonical k @ rest"
proof
  assume eq: "concat (map show_piece (Ch c # ps)) = canonical k @ rest"
  then have "concat (map show_piece ps) = CHR ''L'' # hash # show_nat k @ rest" by (simp add: canonical_def hash_def)
  moreover from this obtain p qs where ps: "ps = p # qs" by (cases ps) auto
  ultimately have p: "p = Ch (CHR ''L'')" and "concat (map show_piece qs) = hash # show_nat k @ rest"
    by (cases p; simp add: canonical_def)+
  moreover from this obtain p' rs where qs: "qs = p' # rs" by (cases qs) auto
  ultimately have "p' = Ch hash" by (cases p') (auto simp: canonical_def hash_def)
  moreover have "parted qs" using parted_Cons [OF assms] ps parted_Cons [of p qs] by simp
  ultimately show False using parted_Cons [of p' rs] qs by simp
qed

lemma show_pieces_inj:
  "parted ps \<Longrightarrow> parted qs \<Longrightarrow> concat (map show_piece ps) = concat (map show_piece qs) \<Longrightarrow> ps = qs"
proof (induction ps arbitrary: qs)
  case Nil
  then show ?case by (cases qs) (simp_all add: show_piece_nonempty)
next
  case (Cons p ps)
  obtain q qs' where qs: "qs = q # qs'" using Cons.prems(3) by (cases qs) (simp_all add: show_piece_nonempty)
  note tails = parted_Cons [OF Cons.prems(1)] parted_Cons [OF Cons.prems(2) [unfolded qs]]
  show ?case
  proof (cases p)
    case (Ch c)
    show ?thesis
    proof (cases q)
      case (Ch d)
      then show ?thesis using \<open>p = Ch c\<close> Cons.prems(3) qs tails Cons.IH [of qs'] by simp
    next
      case (Label m)
      then show ?thesis
        using no_canonical_from_characters [of c ps m] Cons.prems(1,3) qs \<open>p = Ch c\<close> by simp
    qed
  next
    case (Label k)
    show ?thesis
    proof (cases q)
      case (Ch d)
      then show ?thesis
        using no_canonical_from_characters [of d qs' k] Cons.prems(2,3) qs \<open>p = Label k\<close> by (metis concat.simps(2) list.simps(9) show_piece.simps(2))
    next
      case (Label m)
      have eq: "show_nat k @ concat (map show_piece ps) = show_nat m @ concat (map show_piece qs')"
        using Cons.prems(3) qs Label \<open>p = Label k\<close> by (simp add: canonical_def)
      then have "show_nat k = show_nat m"
        using after_label [of k ps] after_label [of m qs'] Cons.prems(1,2) qs Label \<open>p = Label k\<close> by metis
      then show ?thesis using eq tails Cons.IH [of qs'] qs Label \<open>p = Label k\<close> by simp
    qed
  qed
qed

text \<open>The pieces of a text without \<open>#\<close> are parted, and numbering keeps that.\<close>

lemma pieces_first: "pieces r = Ch c # ps \<Longrightarrow> r \<noteq> [] \<and> c = hd r"
  using pieces.simps [of r] by (cases "r = []"; cases "at_label r") simp_all

lemma parted_pieces: "hash \<notin> set s \<Longrightarrow> parted (pieces s)"
proof (induction s rule: pieces.induct)
  case (1 s)
  show ?case
  proof (cases "s \<noteq> [] \<and> at_label s")
    case True
    let ?rest = "dropWhile label_char (drop 2 s)"
    have "hash \<notin> set ?rest" using 1(3) by (meson in_set_dropD set_dropWhileD)
    then have rest: "parted (pieces ?rest)" using 1(1) True by simp
    have "\<not> label_char c" if "pieces ?rest = Ch c # ps" for c ps
    proof -
      have "?rest \<noteq> []" "c = hd ?rest" using pieces_first [OF that] by simp_all
      then show ?thesis using hd_dropWhile [of label_char "drop 2 s"] by simp
    qed
    then have "parted (Label l # pieces ?rest)" for l :: string
      using rest by (auto split: list.split piece.split)
    then show ?thesis using True by (subst pieces.simps) simp
  next
    case False
    show ?thesis
    proof (cases "s = []")
      case True
      then show ?thesis by (simp add: pieces.simps)
    next
      case s: False
      then have "parted (pieces (tl s))" "hd s \<noteq> hash"
        using 1(2,3) False by (auto dest: list.set_sel)
      then show ?thesis using s False by (subst pieces.simps) simp
    qed
  qed
qed

lemma parted_map_piece: "parted (map (map_piece f) ps) \<longleftrightarrow> parted ps"
  by (induction ps) (auto split: piece.splits list.splits)

lemma number_shape: "map (map_piece (\<lambda>_. ())) (number seen ps) = map (map_piece (\<lambda>_. ())) ps"
  by (induction ps arbitrary: seen) (auto simp: Let_def split: piece.split)

lemma parted_number: "parted (number seen ps) \<longleftrightarrow> parted ps"
  using parted_map_piece [of "\<lambda>_. ()" "number seen ps"] parted_map_piece [of "\<lambda>_. ()" ps] by (simp add: number_shape)

lemma canon_labels_number:
  assumes "hash \<notin> set a" and "hash \<notin> set b"
  shows "canon_labels a = canon_labels b \<longleftrightarrow> number [] (pieces a) = number [] (pieces b)"
  using show_pieces_inj [of "number [] (pieces a)" "number [] (pieces b)"] parted_pieces assms
  by (auto simp: canon_labels_def canon_loop_pieces parted_number)


subsection \<open>Equal up to the names of labels\<close>

definition labels_of :: "'l piece list \<Rightarrow> 'l set" where
  "labels_of ps = {l. Label l \<in> set ps}"

definition relabelled :: "string \<Rightarrow> string \<Rightarrow> bool" where
  "relabelled a b \<longleftrightarrow> (\<exists>f. inj_on f (labels_of (pieces a)) \<and> map (map_piece f) (pieces a) = pieces b)"

lemma position_nth: "t \<in> set seen \<Longrightarrow> position t seen < length seen \<and> seen ! position t seen = t"
  unfolding position_def by (induction seen) auto

lemma position_append: "t \<in> set seen \<Longrightarrow> position t (seen @ others) = position t seen"
  using takeWhile_append1 [of t seen "\<lambda>x. x \<noteq> t" others] by (simp add: position_def)

lemma position_new: "t \<notin> set seen \<Longrightarrow> position t (seen @ [t]) = length seen"
  unfolding position_def by (induction seen) auto

lemma position_map:
  "inj_on f (insert t (set seen)) \<Longrightarrow> position (f t) (map f seen) = position t seen"
  unfolding position_def by (induction seen) (auto simp: inj_on_def)

text \<open>Renaming labels injectively does not change their numbers.\<close>

lemma number_map:
  "inj_on f (set seen \<union> labels_of ps) \<Longrightarrow> number (map f seen) (map (map_piece f) ps) = number seen ps"
proof (induction ps arbitrary: seen)
  case (Cons p ps)
  show ?case
  proof (cases p)
    case (Ch c)
    then have "labels_of (p # ps) = labels_of ps" by (simp add: labels_of_def)
    then show ?thesis using Cons Ch by simp
  next
    case (Label t)
    let ?seen = "if t \<in> set seen then seen else seen @ [t]"
    have labels: "labels_of (p # ps) = insert t (labels_of ps)" using Label by (auto simp: labels_of_def)
    then have inj: "inj_on f (set ?seen \<union> labels_of ps)" "inj_on f (insert t (set ?seen))" "inj_on f (insert t (set seen))"
      using Cons.prems by (auto elim: inj_on_subset)
    have "f t \<in> f ` set seen \<longleftrightarrow> t \<in> set seen" using inj(3) by (auto simp: inj_on_def)
    then have "(if f t \<in> set (map f seen) then map f seen else map f seen @ [f t]) = map f ?seen" by simp
    then show ?thesis
      using Label Cons.IH [OF inj(1)] position_map [OF inj(2)] by (simp add: Let_def)
  qed
qed simp

text \<open>Equal numbers give a renaming: the tokens of one table to those of the other, by position.\<close>

definition extend :: "string list \<Rightarrow> string \<Rightarrow> string list" where
  "extend seen t = (if t \<in> set seen then seen else seen @ [t])"

lemma extend_facts:
  "t \<in> set (extend seen t)" "distinct seen \<Longrightarrow> distinct (extend seen t)" "\<exists>xs. extend seen t = seen @ xs"
  "length (extend seen t) = (if position t (extend seen t) = length seen then Suc (length seen) else length seen)"
  using position_nth [of t seen] position_new [of t seen] by (auto simp: extend_def)

lemma number_Label: "number seen (Label t # ps) = Label (position t (extend seen t)) # number (extend seen t) ps"
  by (simp add: extend_def Let_def)

definition by_position :: "string list \<Rightarrow> string list \<Rightarrow> string \<Rightarrow> string" where
  "by_position sa sb t = sb ! position t sa"

lemma number_eq_renames:
  assumes "number sa ps = number sb qs" and "length sa = length sb" and "distinct sa" and "distinct sb"
  shows "\<exists>xs ys. length xs = length ys \<and> distinct (sa @ xs) \<and> distinct (sb @ ys) \<and> labels_of ps \<subseteq> set (sa @ xs) \<and>
    qs = map (map_piece (by_position (sa @ xs) (sb @ ys))) ps"
  using assms
proof (induction ps arbitrary: qs sa sb)
  case Nil
  then have "qs = []" by (cases qs) (auto split: piece.splits simp: Let_def)
  then show ?case using Nil.prems by (auto simp: labels_of_def intro!: exI [of _ "[]"])
next
  case (Cons p ps)
  obtain q qs' where qs: "qs = q # qs'" using Cons.prems(1) by (cases qs; cases p) (auto simp: Let_def)
  show ?case
  proof (cases p)
    case (Ch c)
    then have q: "q = Ch c" and eq: "number sa ps = number sb qs'"
      using Cons.prems(1) qs by (cases q; simp add: Let_def)+
    have "labels_of (p # ps) = labels_of ps" using Ch by (simp add: labels_of_def)
    then show ?thesis using Cons.IH [OF eq Cons.prems(2-4)] qs q Ch by auto
  next
    case (Label t)
    then obtain u where q: "q = Label u" using Cons.prems(1) qs by (cases q) (auto simp: Let_def)
    let ?sa = "extend sa t" and ?sb = "extend sb u"
    have pos: "position t ?sa = position u ?sb" and eq: "number ?sa ps = number ?sb qs'"
      using Cons.prems(1) unfolding qs q Label number_Label by simp_all
    have len: "length ?sa = length ?sb" using pos Cons.prems(2) by (simp add: extend_facts(4))
    obtain xs ys where xy: "length xs = length ys" "distinct (?sa @ xs)" "distinct (?sb @ ys)" "labels_of ps \<subseteq> set (?sa @ xs)"
      "qs' = map (map_piece (by_position (?sa @ xs) (?sb @ ys))) ps"
      using Cons.IH [OF eq len extend_facts(2) [OF Cons.prems(3)] extend_facts(2) [OF Cons.prems(4)]] by blast
    obtain xa ya where ext: "?sa = sa @ xa" "?sb = sb @ ya" using extend_facts(3) by metis
    have "by_position (?sa @ xs) (?sb @ ys) t = u"
      using position_append [OF extend_facts(1), of t sa xs] position_nth [OF extend_facts(1) [of u sb]] pos
      by (simp add: by_position_def nth_append)
    moreover have "labels_of (p # ps) \<subseteq> set (?sa @ xs)"
      using xy(4) extend_facts(1) [of t sa] Label by (auto simp: labels_of_def)
    ultimately have "labels_of (p # ps) \<subseteq> set (sa @ xa @ xs)"
      "qs = map (map_piece (by_position (sa @ xa @ xs) (sb @ ya @ ys))) (p # ps)"
      using xy(5) qs q Label ext by simp_all
    moreover have "length (xa @ xs) = length (ya @ ys)" using xy(1) len ext Cons.prems(2) by simp
    moreover have "distinct (sa @ xa @ xs)" "distinct (sb @ ya @ ys)" using xy(2,3) ext by simp_all
    ultimately show ?thesis by (intro exI [of _ "xa @ xs"] exI [of _ "ya @ ys"] conjI)
  qed
qed

lemma by_position_inj:
  assumes "distinct sb" and "length sa = length sb"
  shows "inj_on (by_position sa sb) (set sa)"
proof (rule inj_onI)
  fix s t
  assume st: "s \<in> set sa" "t \<in> set sa" "by_position sa sb s = by_position sa sb t"
  have "position s sa < length sb" "position t sa < length sb"
    using position_nth st(1,2) unfolding assms(2) [symmetric] by blast+
  then have "position s sa = position t sa"
    using st(3) nth_eq_iff_index_eq [OF assms(1)] unfolding by_position_def by blast
  then show "s = t" using position_nth st(1,2) by metis
qed

lemma canon_labels_relabelled:
  assumes "hash \<notin> set a" and "hash \<notin> set b"
  shows "canon_labels a = canon_labels b \<longleftrightarrow> relabelled a b"
proof
  assume "canon_labels a = canon_labels b"
  then have "number [] (pieces a) = number [] (pieces b)" using canon_labels_number [of a b] assms by simp
  then obtain xs ys where xy: "length xs = length ys" "distinct ys" "labels_of (pieces a) \<subseteq> set xs"
    "pieces b = map (map_piece (by_position xs ys)) (pieces a)"
    using number_eq_renames [of "[]" "pieces a" "[]" "pieces b"] by auto
  then have "inj_on (by_position xs ys) (labels_of (pieces a))" using by_position_inj inj_on_subset by metis
  then show "relabelled a b" unfolding relabelled_def using xy(4) by metis
next
  assume "relabelled a b"
  then obtain f where "inj_on f (labels_of (pieces a))" "map (map_piece f) (pieces a) = pieces b"
    by (auto simp: relabelled_def)
  then have "number [] (pieces b) = number [] (pieces a)" using number_map [of f "[]" "pieces a"] by simp
  then show "canon_labels a = canon_labels b" using canon_labels_number [of a b] assms by simp
qed

text \<open>
  C21. The label-canonicalized comparison is exact: two bodies without \<open>#\<close>, which is what the
  normalization produces, have the same canonical text if and only if one becomes the other
  by an injective renaming of its local labels.
\<close>

theorem canon_labels_equal_iff_relabelled:
  assumes "CHR 0x23 \<notin> set a" and "CHR 0x23 \<notin> set b"
  shows "canon_labels a = canon_labels b \<longleftrightarrow>
    (\<exists>f. inj_on f (labels_of (pieces a)) \<and> map (map_piece f) (pieces a) = pieces b)"
  using canon_labels_relabelled [of a b] assms by (simp add: hash_def relabelled_def)

theorem canon_labels_equal_iff_relabelled_witness:
  "relabelled ''jmp .L3 jne .L12 .L3:'' ''jmp .L7 jne .LC0 .L7:'' \<and>
   \<not> relabelled ''jmp .L3 jne .L12 .L3:'' ''jmp .L3 jne .L3 .L3:''"
proof -
  have "canon_labels ''jmp .L3 jne .L12 .L3:'' = canon_labels ''jmp .L7 jne .LC0 .L7:''"
    "canon_labels ''jmp .L3 jne .L12 .L3:'' \<noteq> canon_labels ''jmp .L3 jne .L3 .L3:''"
    by code_simp+
  then show ?thesis
    using canon_labels_equal_iff_relabelled [of "''jmp .L3 jne .L12 .L3:''" "''jmp .L7 jne .LC0 .L7:''"]
      canon_labels_equal_iff_relabelled [of "''jmp .L3 jne .L12 .L3:''" "''jmp .L3 jne .L3 .L3:''"]
    by (simp add: relabelled_def)
qed


subsection \<open>The probes\<close>

definition pick_cxx :: "'w shell \<Rightarrow> string \<Rightarrow> string option" where
  "pick_cxx S arch =
     (case sh_env S ''JMPXX_CG_CXX'' of
        Some cxx \<Rightarrow> Some cxx
      | None \<Rightarrow>
          if arch = ''x86_64'' then Some ''g++-13''
          else if arch = ''aarch64'' then Some ''aarch64-linux-gnu-g++''
          else None)"

record codegen_options =
  cg_fixture :: string
  cg_symbol :: string
  cg_golden :: string
  cg_arch :: string
  cg_update :: bool
  cg_forbid_spill :: bool
  cg_max_insns :: int

definition codegen_args :: "string list \<Rightarrow> codegen_options" where
  "codegen_args args =
     parse_args
       (\<lambda>a. if a = ''--fixture'' then Some (\<lambda>x opts. opts\<lparr>cg_fixture := x\<rparr>)
            else if a = ''--symbol'' then Some (\<lambda>x opts. opts\<lparr>cg_symbol := x\<rparr>)
            else if a = ''--golden'' then Some (\<lambda>x opts. opts\<lparr>cg_golden := x\<rparr>)
            else if a = ''--arch'' then Some (\<lambda>x opts. opts\<lparr>cg_arch := x\<rparr>)
            else if a = ''--max-insns'' then Some (\<lambda>x opts. opts\<lparr>cg_max_insns := decimal x\<rparr>)
            else None)
       (\<lambda>a opts. if a = ''--update'' then opts\<lparr>cg_update := True\<rparr>
                 else if a = ''--forbid-spill'' then opts\<lparr>cg_forbid_spill := True\<rparr>
                 else opts)
       args
       \<lparr>cg_fixture = [], cg_symbol = [], cg_golden = [], cg_arch = ''x86_64'', cg_update = False, cg_forbid_spill = False,
        cg_max_insns = - 1\<rparr>"

definition codegen_command :: "'w shell \<Rightarrow> string \<Rightarrow> string \<Rightarrow> string" where
  "codegen_command S cxx fixture =
     cxx @ '' -std=c++20 -O2 -fno-exceptions -fno-rtti -fno-asynchronous-unwind-tables -fno-ident -S -I'' @ sh_include S @
     '' -o '' @ ''/tmp/jmpxx_cg.s'' @ '' '' @ fixture @ '' 2> '' @ ''/tmp/jmpxx_cg.err''"

text \<open>The assertions that hold with and without \<open>--update\<close>.\<close>

definition codegen_asserts :: "codegen_options \<Rightarrow> normalized \<Rightarrow> report_op list" where
  "codegen_asserts opts n =
     [R_num ''instructions'' (n_instructions n), R_boolean ''spilled'' (n_spilled n)] @
     fail_if (cg_forbid_spill opts \<and> n_spilled n) ''a stack spill or frame appeared on a path declared zero-overhead'' @
     fail_if (cg_max_insns opts \<ge> 0 \<and> n_instructions n > cg_max_insns opts)
       (''instruction count '' @ show_int (n_instructions n) @ '' exceeds the budget '' @ show_int (cg_max_insns opts))"

definition codegen_golden :: "'w shell \<Rightarrow> codegen_options \<Rightarrow> normalized \<Rightarrow> 'w \<Rightarrow> report_op list \<times> 'w" where
  "codegen_golden S opts n w =
     (if cg_update opts then
        (case sh_write S (cg_golden opts) (n_text n) w of
           (written, w) \<Rightarrow>
             ([if \<not> written then R_fail (''could not write golden '' @ cg_golden opts)
               else R_note (''golden updated: '' @ cg_golden opts)], w))
      else
        (let matches = (sh_read S (cg_golden opts) w = n_text n) in
         (R_boolean ''golden_match'' matches #
          fail_if (\<not> matches) ''optimized codegen diverged from the committed golden'', w)))"

definition probe_codegen :: "'w shell \<Rightarrow> fmt \<Rightarrow> string list \<Rightarrow> 'w \<Rightarrow> (int \<times> string) \<times> 'w" where
  "probe_codegen S f args w =
     (let opts = codegen_args args;
          r = report_new f ''codegen'';
          asked = [R_str ''fixture'' (cg_fixture opts), R_str ''symbol'' (cg_symbol opts), R_str ''arch'' (cg_arch opts),
                   R_num ''cases.asked'' 1, R_num ''cases.known'' 1] in
      if cg_fixture opts = [] \<or> cg_symbol opts = [] \<or> cg_golden opts = [] then
        (finish (report_all (asked @ [R_fail ''codegen requires --fixture, --symbol, and --golden'']) r), w)
      else
        (case pick_cxx S (cg_arch opts) of
           None \<Rightarrow> (finish (report_all (asked @ [R_fail ''unknown --arch (expected x86_64 or aarch64)'']) r), w)
         | Some cxx \<Rightarrow>
             (let asked = asked @ [R_str ''compiler'' cxx] in
              case sh_system S (codegen_command S cxx (cg_fixture opts)) w of
                (rc, w) \<Rightarrow>
                  if rc \<noteq> 0 then
                    (finish (report_all (asked @
                       [R_fail (''fixture failed to compile: '' @ trim (sh_read S ''/tmp/jmpxx_cg.err'' w))]) r), w)
                  else
                    (let n = normalize (sh_read S ''/tmp/jmpxx_cg.s'' w) (cg_symbol opts) (cg_arch opts) in
                     if \<not> n_found n then
                       (finish (report_all (asked @
                          [R_fail (''symbol '' @ [CHR 0x27] @ cg_symbol opts @ [CHR 0x27] @
                             '' not found in the emitted assembly'')]) r), w)
                     else
                       (case codegen_golden S opts n w of
                          (settled, w) \<Rightarrow> (finish (report_all (asked @ codegen_asserts opts n @ settled) r), w))))))"

record release_options =
  rd_fixture :: string
  rd_fixture_b :: string
  rd_symbol_a :: string
  rd_symbol_b :: string
  rd_arch :: string
  rd_expect :: string
  rd_forbid :: "string list"

definition release_args :: "string list \<Rightarrow> release_options" where
  "release_args args =
     (let opts =
        parse_args
          (\<lambda>a. if a = ''--fixture'' then Some (\<lambda>x opts. opts\<lparr>rd_fixture := x\<rparr>)
               else if a = ''--fixture-b'' then Some (\<lambda>x opts. opts\<lparr>rd_fixture_b := x\<rparr>)
               else if a = ''--symbol-a'' then Some (\<lambda>x opts. opts\<lparr>rd_symbol_a := x\<rparr>)
               else if a = ''--symbol-b'' then Some (\<lambda>x opts. opts\<lparr>rd_symbol_b := x\<rparr>)
               else if a = ''--arch'' then Some (\<lambda>x opts. opts\<lparr>rd_arch := x\<rparr>)
               else if a = ''--expect'' then Some (\<lambda>x opts. opts\<lparr>rd_expect := x\<rparr>)
               else if a = ''--forbid-string'' then Some (\<lambda>x opts. opts\<lparr>rd_forbid := rd_forbid opts @ [x]\<rparr>)
               else None)
          (\<lambda>_ opts. opts) args
          \<lparr>rd_fixture = [], rd_fixture_b = [], rd_symbol_a = [], rd_symbol_b = [], rd_arch = ''x86_64'', rd_expect = ''equal'',
           rd_forbid = []\<rparr> in
      if rd_symbol_b opts = [] then opts\<lparr>rd_symbol_b := rd_symbol_a opts\<rparr> else opts)"

definition release_command :: "'w shell \<Rightarrow> string \<Rightarrow> string \<Rightarrow> string \<Rightarrow> string" where
  "release_command S cxx out fixture =
     cxx @ '' -std=c++20 -O2 -DNDEBUG -fno-exceptions -fno-rtti -fno-asynchronous-unwind-tables -fno-ident -S -I'' @
     sh_include S @ '' -I'' @ sh_kernels S @ '' -o '' @ out @ '' '' @ fixture @ '' 2> '' @ ''/tmp/jmpxx_rd.err''"

text \<open>Whether an emitted string directive holds the mark.\<close>

definition leaks :: "string \<Rightarrow> string \<Rightarrow> bool" where
  "leaks mark emitted \<longleftrightarrow>
     list_ex (\<lambda>line. let t = trim line in (starts ''.string'' t \<or> starts ''.ascii'' t) \<and> contains mark t) (getlines emitted)"

definition release_checks :: "release_options \<Rightarrow> string \<Rightarrow> string \<Rightarrow> report_op list" where
  "release_checks opts asm asm_b =
     (let a = normalize asm (rd_symbol_a opts) (rd_arch opts);
          b = normalize asm_b (rd_symbol_b opts) (rd_arch opts) in
      if \<not> n_found a \<or> \<not> n_found b then [R_fail ''a target symbol was not found in the emitted assembly'']
      else
        (let identical = (canon_labels (n_text a) = canon_labels (n_text b)) in
         [R_num ''a.instructions'' (n_instructions a), R_num ''b.instructions'' (n_instructions b),
          R_boolean ''bodies_identical'' identical] @
         fail_if (rd_expect opts = ''equal'' \<and> \<not> identical)
           (if rd_fixture_b opts = [] then ''release codegen of the rich policy diverged from the minimal policy''
            else ''the jmpxx form and the hand-written form no longer compile to the same instructions'') @
         fail_if (rd_expect opts = ''differ'' \<and> identical)
           ''expected the two forms to diverge but their release codegen was identical'' @
         concat (map (\<lambda>mark.
           let leaked = (leaks mark asm \<or> leaks mark asm_b) in
           R_boolean (''leaked.'' @ mark) leaked #
           fail_if leaked (''a debug-only string leaked into release read-only data: '' @ mark)) (rd_forbid opts))))"

definition probe_release_diff :: "'w shell \<Rightarrow> fmt \<Rightarrow> string list \<Rightarrow> 'w \<Rightarrow> (int \<times> string) \<times> 'w" where
  "probe_release_diff S f args w =
     (let opts = release_args args;
          r = report_new f ''release-diff'';
          asked = [R_str ''fixture'' (rd_fixture opts), R_str ''fixture_b'' (rd_fixture_b opts),
                   R_str ''symbol_a'' (rd_symbol_a opts), R_str ''symbol_b'' (rd_symbol_b opts), R_str ''expect'' (rd_expect opts),
                   R_num ''cases.asked'' 2, R_num ''cases.known'' 2] in
      if rd_fixture opts = [] \<or> rd_symbol_a opts = [] \<or> rd_symbol_b opts = [] then
        (finish (report_all (asked @ [R_fail ''release-diff requires --fixture, --symbol-a, and --symbol-b'']) r), w)
      else
        (case pick_cxx S (rd_arch opts) of
           None \<Rightarrow> (finish (report_all (asked @ [R_fail ''unknown --arch (expected x86_64 or aarch64)'']) r), w)
         | Some cxx \<Rightarrow>
             (let asked = asked @ [R_str ''compiler'' cxx] in
              case sh_system S (release_command S cxx ''/tmp/jmpxx_rd.s'' (rd_fixture opts)) w of
                (rc, w) \<Rightarrow>
                  if rc \<noteq> 0 then
                    (finish (report_all (asked @
                       [R_fail (''fixture failed to compile: '' @ trim (sh_read S ''/tmp/jmpxx_rd.err'' w))]) r), w)
                  else
                    (let asm = sh_read S ''/tmp/jmpxx_rd.s'' w in
                     if rd_fixture_b opts = [] then (finish (report_all (asked @ release_checks opts asm asm) r), w)
                     else
                       (case sh_system S (release_command S cxx ''/tmp/jmpxx_rd_b.s'' (rd_fixture_b opts)) w of
                          (rc, w) \<Rightarrow>
                            if rc \<noteq> 0 then
                              (finish (report_all (asked @
                                 [R_fail (''second fixture failed to compile: '' @ trim (sh_read S ''/tmp/jmpxx_rd.err'' w))]) r), w)
                            else
                              (finish (report_all (asked @ release_checks opts asm (sh_read S ''/tmp/jmpxx_rd_b.s'' w)) r),
                               w))))))"


subsection \<open>The verdicts\<close>

lemma set_trim: "set (trim s) \<subseteq> set s"
  unfolding trim_def set_rev by (metis set_dropWhileD set_rev subsetI)

lemma strip_comment_no_hash: "hash \<notin> set (strip_comment t)"
proof (cases "hash \<in> set t")
  case True
  have "hash \<notin> set (takeWhile (\<lambda>c. c \<noteq> hash) t)" using set_takeWhileD by fastforce
  then show ?thesis using True set_trim by (auto simp: strip_comment_def)
qed (simp add: strip_comment_def)

lemma normalize_lines_no_hash:
  "hash \<notin> set (n_text n) \<Longrightarrow> hash \<notin> set (n_text (normalize_lines x86 start ls inside n))"
proof (induction ls arbitrary: start inside n)
  case (Cons line ls)
  have "hash \<noteq> newline" by (simp add: hash_def newline_def)
  then show ?case using Cons.prems by (auto simp: Let_def strip_comment_no_hash intro!: Cons.IH)
qed simp

lemma normalize_no_hash: "hash \<notin> set (n_text (normalize asm symbol arch))"
  unfolding normalize_def by (rule normalize_lines_no_hash) simp

lemma release_checks_pass:
  assumes "a = normalize asm (rd_symbol_a opts) (rd_arch opts)" and "b = normalize asm_b (rd_symbol_b opts) (rd_arch opts)"
  shows "passing (release_checks opts asm asm_b) \<longleftrightarrow>
    n_found a \<and> n_found b \<and> (rd_expect opts = ''equal'' \<longrightarrow> relabelled (n_text a) (n_text b)) \<and>
    (rd_expect opts = ''differ'' \<longrightarrow> \<not> relabelled (n_text a) (n_text b)) \<and>
    (\<forall>mark\<in>set (rd_forbid opts). \<not> leaks mark asm \<and> \<not> leaks mark asm_b)"
proof -
  have same: "canon_labels (n_text a) = canon_labels (n_text b) \<longleftrightarrow> relabelled (n_text a) (n_text b)"
    using canon_labels_relabelled normalize_no_hash unfolding assms by metis
  have marks: "passing (concat (map (\<lambda>mark.
      let leaked = (leaks mark asm \<or> leaks mark asm_b) in
      R_boolean (''leaked.'' @ mark) leaked #
      fail_if leaked (''a debug-only string leaked into release read-only data: '' @ mark)) marks)) \<longleftrightarrow>
    (\<forall>mark\<in>set marks. \<not> leaks mark asm \<and> \<not> leaks mark asm_b)" for marks
    by (induction marks) (auto simp: Let_def)
  show ?thesis
    using assms same marks [of "rd_forbid opts"]
    by (auto simp: release_checks_def Let_def)
qed

text \<open>
  C22. The release comparison decides what it is for: when its fixtures compile, \<open>release-diff\<close> passes
  exactly when both functions are found, their bodies are equal up to the names of local
  labels if equality is expected and not if a difference is, and no forbidden string reaches
  a string directive of either unit.
\<close>

theorem release_diff_verdict:
  assumes "opts = release_args args" and "rd_fixture opts \<noteq> []" and "rd_symbol_a opts \<noteq> []"
    and "pick_cxx S (rd_arch opts) = Some cxx"
    and "sh_system S (release_command S cxx ''/tmp/jmpxx_rd.s'' (rd_fixture opts)) w = (0, w1)"
    and "asm = sh_read S ''/tmp/jmpxx_rd.s'' w1"
    and "if rd_fixture_b opts = [] then asm_b = asm
         else sh_system S (release_command S cxx ''/tmp/jmpxx_rd_b.s'' (rd_fixture_b opts)) w1 = (0, w2) \<and>
              asm_b = sh_read S ''/tmp/jmpxx_rd_b.s'' w2"
    and "a = normalize asm (rd_symbol_a opts) (rd_arch opts)" and "b = normalize asm_b (rd_symbol_b opts) (rd_arch opts)"
  shows "fst (fst (probe_release_diff S f args w)) = 0 \<longleftrightarrow>
    n_found a \<and> n_found b \<and> (rd_expect opts = ''equal'' \<longrightarrow> relabelled (n_text a) (n_text b)) \<and>
    (rd_expect opts = ''differ'' \<longrightarrow> \<not> relabelled (n_text a) (n_text b)) \<and>
    (\<forall>mark\<in>set (rd_forbid opts). \<not> leaks mark asm \<and> \<not> leaks mark asm_b)"
proof -
  have "rd_symbol_b opts \<noteq> []" using assms(3) unfolding assms(1) by (auto simp: release_args_def Let_def split: if_splits)
  then have "fst (fst (probe_release_diff S f args w)) = 0 \<longleftrightarrow> passing (release_checks opts asm asm_b)"
    using assms(2-7) unfolding assms(1)
    by (cases "rd_fixture_b (release_args args) = []") (simp_all add: probe_release_diff_def Let_def report_status)
  then show ?thesis by (simp only: release_checks_pass [OF assms(8,9)])
qed

text \<open>A unit with two functions that differ in their labels and their immediate operands.\<close>

definition sample_asm :: string where
  "sample_asm = concat (map (\<lambda>l. l @ [newline])
     [''f:'', ''  mov w0, #1'', ''  b .L3'', ''.L3:'', ''  ret'', ''.size f, .-f'',
      ''g:'', ''  mov w0, #2'', ''  b .L9'', ''.L9:'', ''  ret'', ''.size g, .-g'', ''.string ok''])"

definition sample_shell :: "files shell" where
  "sample_shell = file_shell (\<lambda>cmd. [(''/tmp/jmpxx_rd.s'', sample_asm), (''/tmp/jmpxx_rd.err'', [])])"

text \<open>
  The normalization cuts every line at the first \<open>#\<close> on every architecture; the two functions
  pass as identical although they return different numbers.
\<close>

theorem release_diff_verdict_witness:
  "fst (fst (probe_release_diff sample_shell Human
     [''--fixture'', ''f.cpp'', ''--symbol-a'', ''f'', ''--symbol-b'', ''g'', ''--arch'', ''aarch64'', ''--forbid-string'', ''source_location'']
     (\<lambda>_. []))) = 0"
proof -
  let ?args = "[''--fixture'', ''f.cpp'', ''--symbol-a'', ''f'', ''--symbol-b'', ''g'', ''--arch'', ''aarch64'', ''--forbid-string'', ''source_location'']"
  let ?f = "normalize sample_asm ''f'' ''aarch64''" and ?g = "normalize sample_asm ''g'' ''aarch64''"
  let ?opts = "\<lparr>rd_fixture = ''f.cpp'', rd_fixture_b = [], rd_symbol_a = ''f'', rd_symbol_b = ''g'', rd_arch = ''aarch64'',
      rd_expect = ''equal'', rd_forbid = [''source_location'']\<rparr>"
  let ?cmd = "release_command sample_shell ''aarch64-linux-gnu-g++'' ''/tmp/jmpxx_rd.s'' ''f.cpp''"
  define w1 where "w1 = snd (sh_system sample_shell ?cmd (\<lambda>_. []))"
  have opts: "?opts = release_args ?args" by (simp add: release_args_def Let_def)
  have "canon_labels (n_text ?f) = canon_labels (n_text ?g)" by code_simp
  then have same: "relabelled (n_text ?f) (n_text ?g)"
    using canon_labels_relabelled [OF normalize_no_hash normalize_no_hash] by blast
  have found: "n_found ?f" "n_found ?g" and clean: "\<not> leaks ''source_location'' sample_asm" by code_simp+
  have run: "sh_system sample_shell ?cmd (\<lambda>_. []) = (0, w1)" by (simp add: w1_def sample_shell_def file_shell_def)
  have asm: "sample_asm = sh_read sample_shell ''/tmp/jmpxx_rd.s'' w1"
    by (simp add: w1_def sample_shell_def file_shell_def put_files_def)
  have cxx: "pick_cxx sample_shell ''aarch64'' = Some ''aarch64-linux-gnu-g++''"
    by (simp add: pick_cxx_def sample_shell_def file_shell_def)
  show ?thesis
    using release_diff_verdict [OF opts, where S = sample_shell and cxx = "''aarch64-linux-gnu-g++''" and w = "\<lambda>_. []" and ?w1.0 = w1 and asm = sample_asm and asm_b = sample_asm
        and a = ?f and b = ?g and f = Human] run asm cxx same found clean
    by simp
qed

lemma codegen_check_verdict:
  assumes "opts = codegen_args args" and "cg_fixture opts \<noteq> []" and "cg_symbol opts \<noteq> []" and "cg_golden opts \<noteq> []"
    and "pick_cxx S (cg_arch opts) = Some cxx"
    and cmd: "leaves S (codegen_command S cxx (cg_fixture opts)) [(''/tmp/jmpxx_cg.s'', asm), (''/tmp/jmpxx_cg.err'', err)]"
    and other: "cg_golden opts \<notin> {''/tmp/jmpxx_cg.s'', ''/tmp/jmpxx_cg.err''}"
    and "n = normalize asm (cg_symbol opts) (cg_arch opts)" and "\<not> cg_update opts"
  shows "fst (fst (probe_codegen S f args w)) = 0 \<longleftrightarrow>
    n_found n \<and> passing (codegen_asserts opts n) \<and> sh_read S (cg_golden opts) w = n_text n"
proof -
  obtain w1 where w1: "sh_system S (codegen_command S cxx (cg_fixture opts)) w = (0, w1)"
    "sh_read S ''/tmp/jmpxx_cg.s'' w1 = asm" "sh_read S (cg_golden opts) w1 = sh_read S (cg_golden opts) w"
    by (rule leavesE [OF cmd, of w]) (use other in auto)
  then show ?thesis
    using assms(2-5,8,9) unfolding assms(1)
    by (auto simp: probe_codegen_def codegen_golden_def Let_def report_status)
qed

text \<open>
  C25. A golden that \<open>codegen --update\<close> wrote is the one the next run accepts: with a compiler that
  reproduces its output and files that hold what was written to them, an update that passes is
  followed by a check of the same fixture that passes.  And a check passes exactly when the
  function is found, spills only if it may, stays within its budget and normalizes to the golden.
\<close>

theorem codegen_golden_settles:
  assumes "opts = codegen_args args" and "cg_fixture opts \<noteq> []" and "cg_symbol opts \<noteq> []" and "cg_golden opts \<noteq> []"
    and "pick_cxx S (cg_arch opts) = Some cxx" and "files_hold S"
    and "leaves S (codegen_command S cxx (cg_fixture opts)) [(''/tmp/jmpxx_cg.s'', asm), (''/tmp/jmpxx_cg.err'', err)]"
    and "cg_golden opts \<notin> {''/tmp/jmpxx_cg.s'', ''/tmp/jmpxx_cg.err''}"
    and "n = normalize asm (cg_symbol opts) (cg_arch opts)"
  shows "(\<not> cg_update opts \<longrightarrow>
            (fst (fst (probe_codegen S f args w)) = 0 \<longleftrightarrow>
               n_found n \<and> (cg_forbid_spill opts \<longrightarrow> \<not> n_spilled n) \<and>
               (cg_max_insns opts \<ge> 0 \<longrightarrow> n_instructions n \<le> cg_max_insns opts) \<and>
               sh_read S (cg_golden opts) w = n_text n)) \<and>
         (cg_update opts \<longrightarrow> fst (fst (probe_codegen S f args w)) = 0 \<longrightarrow> codegen_args args' = opts\<lparr>cg_update := False\<rparr> \<longrightarrow>
            fst (fst (probe_codegen S f' args' (snd (probe_codegen S f args w)))) = 0)"
proof (intro conjI impI)
  assume "\<not> cg_update opts"
  from codegen_check_verdict [OF assms(1-5,7-9) this]
  show "fst (fst (probe_codegen S f args w)) = 0 \<longleftrightarrow>
      n_found n \<and> (cg_forbid_spill opts \<longrightarrow> \<not> n_spilled n) \<and>
      (cg_max_insns opts \<ge> 0 \<longrightarrow> n_instructions n \<le> cg_max_insns opts) \<and> sh_read S (cg_golden opts) w = n_text n"
    by (auto simp: codegen_asserts_def)
next
  assume upd: "cg_update opts" and ok: "fst (fst (probe_codegen S f args w)) = 0"
    and next_run: "codegen_args args' = opts\<lparr>cg_update := False\<rparr>"
  obtain w1 where w1: "sh_system S (codegen_command S cxx (cg_fixture opts)) w = (0, w1)" "sh_read S ''/tmp/jmpxx_cg.s'' w1 = asm"
    by (rule leavesE [OF assms(7), of w]) auto
  obtain written w2 where wr: "sh_write S (cg_golden opts) (n_text n) w1 = (written, w2)"
    by (cases "sh_write S (cg_golden opts) (n_text n) w1")
  have passed: "n_found n \<and> passing (codegen_asserts opts n) \<and> written \<and> snd (probe_codegen S f args w) = w2"
    using ok upd w1 wr assms(2-5,9) unfolding assms(1)
    by (auto simp: probe_codegen_def codegen_golden_def Let_def report_status split: if_splits)
  then have "sh_read S (cg_golden opts) w2 = n_text n" using wr assms(6) by (auto simp: files_hold_def)
  moreover have "codegen_asserts (opts\<lparr>cg_update := False\<rparr>) n = codegen_asserts opts n" by (simp add: codegen_asserts_def)
  ultimately show "fst (fst (probe_codegen S f' args' (snd (probe_codegen S f args w)))) = 0"
    using passed assms(2-5,7-9) codegen_check_verdict [OF next_run [symmetric], of S cxx asm err n f' w2] by simp
qed

definition sample_codegen :: "string list" where
  "sample_codegen = [''--fixture'', ''f.cpp'', ''--symbol'', ''f'', ''--golden'', ''f.golden'', ''--arch'', ''aarch64'',
     ''--forbid-spill'', ''--max-insns'', ''3'']"

definition codegen_shell :: "files shell" where
  "codegen_shell = file_shell (\<lambda>cmd. [(''/tmp/jmpxx_cg.s'', sample_asm), (''/tmp/jmpxx_cg.err'', [])])"

theorem codegen_golden_settles_witness:
  "fst (fst (probe_codegen codegen_shell Json sample_codegen
     (snd (probe_codegen codegen_shell Human (sample_codegen @ [''--update'']) (\<lambda>_. []))))) = 0"
proof -
  let ?opts = "\<lparr>cg_fixture = ''f.cpp'', cg_symbol = ''f'', cg_golden = ''f.golden'', cg_arch = ''aarch64'', cg_update = True,
      cg_forbid_spill = True, cg_max_insns = 3\<rparr>"
  let ?cmd = "codegen_command codegen_shell ''aarch64-linux-gnu-g++'' ''f.cpp''"
  have three: "decimal ''3'' = 3" by code_simp
  have opts: "?opts = codegen_args (sample_codegen @ [''--update''])" "codegen_args sample_codegen = ?opts\<lparr>cg_update := False\<rparr>"
    by (simp_all add: codegen_args_def sample_codegen_def three)
  have cxx: "pick_cxx codegen_shell ''aarch64'' = Some ''aarch64-linux-gnu-g++''"
    by (simp add: pick_cxx_def codegen_shell_def file_shell_def)
  have cmd: "leaves codegen_shell ?cmd [(''/tmp/jmpxx_cg.s'', sample_asm), (''/tmp/jmpxx_cg.err'', [])]"
    unfolding codegen_shell_def by (rule file_shell_leaves) simp
  have holds: "files_hold codegen_shell" unfolding codegen_shell_def by (rule file_shell_holds)
  have "normalize sample_asm ''f'' ''aarch64'' =
      \<lparr>n_text = ''mov w0,'' @ [newline] @ ''b .L3'' @ [newline] @ ''.L3:'' @ [newline] @ ''ret'' @ [newline],
       n_instructions = 3, n_spilled = False, n_found = True\<rparr>"
    by code_simp
  then have "fst (fst (probe_codegen codegen_shell Human (sample_codegen @ [''--update'']) (\<lambda>_. []))) = 0"
    using opts(1) [symmetric] cxx
    by (simp add: probe_codegen_def codegen_golden_def codegen_asserts_def Let_def report_status codegen_shell_def file_shell_def put_files_def)
  then show ?thesis
    using codegen_golden_settles [OF opts(1), where S = codegen_shell and cxx = "''aarch64-linux-gnu-g++''" and asm = sample_asm and err = "[]"
        and f = Human and w = "\<lambda>_. []" and f' = Json and args' = sample_codegen and n = "normalize sample_asm ''f'' ''aarch64''"] cxx cmd opts(2) holds
    by simp
qed

end
