(* ===== verification/Verify_Size.thy ===== *)
theory Verify_Size
  imports Verify_Shell
begin

text \<open>
  The cost and layout gates of the verification harness (\<open>verify/main.cpp\<close>): object sizes read from
  the output of \<open>size\<close>, the \<open>size-delta\<close> probe, the count of template instantiations and the
  \<open>compile-cost\<close> probe, and the \<open>abi-layout\<close> probe.

  Compilers, tools, files and the clock are the parameters of a shell; the quotient of two
  durations is computed in floating point and an argument.
\<close>

subsection \<open>Object sizes\<close>

text \<open>Extraction of a \<open>long long\<close> from a stream: the number and the rest, or failure.\<close>

definition extract_ll :: "string \<Rightarrow> (int \<times> string) option" where
  "extract_ll t =
     (let t = dropWhile is_space t;
          digits = (if t \<noteq> [] \<and> (hd t = CHR ''-'' \<or> hd t = CHR ''+'') then tl t else t);
          i = decimal t in
      if takeWhile is_digit digits = [] \<or> i < - (2 ^ 63) \<or> i \<ge> 2 ^ 63 then None
      else Some (i, dropWhile is_digit digits))"

record obj_size =
  os_text :: int
  os_total :: int
  os_found :: bool

definition no_size :: obj_size where
  "no_size = \<lparr>os_text = 0, os_total = 0, os_found = False\<rparr>"

text \<open>The second line of the tool's output.\<close>

definition read_size :: "string \<Rightarrow> obj_size" where
  "read_size out =
     (case getlines out of
        _ # line # _ \<Rightarrow>
          (case extract_ll line of
             None \<Rightarrow> no_size
           | Some (txt, nums) \<Rightarrow>
               (case extract_ll nums of
                  None \<Rightarrow> no_size
                | Some (data, nums) \<Rightarrow>
                    (case extract_ll nums of
                       None \<Rightarrow> no_size
                     | Some (bss, nums) \<Rightarrow>
                         (case extract_ll nums of
                            None \<Rightarrow> no_size
                          | Some (dec, _) \<Rightarrow> \<lparr>os_text = txt, os_total = dec, os_found = True\<rparr>))))
      | _ \<Rightarrow> no_size)"

definition measure_command :: "string \<Rightarrow> string \<Rightarrow> string" where
  "measure_command size_tool obj = size_tool @ '' '' @ obj @ '' > '' @ ''/tmp/jmpxx_size.txt'' @ '' 2>/dev/null''"

definition measure_obj :: "'w shell \<Rightarrow> string \<Rightarrow> string \<Rightarrow> 'w \<Rightarrow> obj_size \<times> 'w" where
  "measure_obj S obj size_tool w =
     (case sh_system S (measure_command size_tool obj) w of
        (rc, w) \<Rightarrow> (if rc \<noteq> 0 then no_size else read_size (sh_read S ''/tmp/jmpxx_size.txt'' w), w))"

record size_options =
  sd_fixture :: string
  sd_baseline :: string
  sd_arch :: string
  sd_tool :: string
  sd_max_text :: int
  sd_max_total :: int
  sd_have_text :: bool
  sd_have_total :: bool

definition size_args :: "string list \<Rightarrow> size_options" where
  "size_args args =
     parse_args
       (\<lambda>a. if a = ''--fixture'' then Some (\<lambda>x opts. opts\<lparr>sd_fixture := x\<rparr>)
            else if a = ''--baseline'' then Some (\<lambda>x opts. opts\<lparr>sd_baseline := x\<rparr>)
            else if a = ''--arch'' then Some (\<lambda>x opts. opts\<lparr>sd_arch := x\<rparr>)
            else if a = ''--size-tool'' then Some (\<lambda>x opts. opts\<lparr>sd_tool := x\<rparr>)
            else if a = ''--max-text-delta'' then Some (\<lambda>x opts. opts\<lparr>sd_max_text := decimal x, sd_have_text := True\<rparr>)
            else if a = ''--max-total-delta'' then Some (\<lambda>x opts. opts\<lparr>sd_max_total := decimal x, sd_have_total := True\<rparr>)
            else None)
       (\<lambda>_ opts. opts) args
       \<lparr>sd_fixture = [], sd_baseline = [], sd_arch = ''x86_64'', sd_tool = ''size'', sd_max_text = 0, sd_max_total = 0,
        sd_have_text = False, sd_have_total = False\<rparr>"

definition size_command :: "'w shell \<Rightarrow> string \<Rightarrow> string \<Rightarrow> string \<Rightarrow> string" where
  "size_command S cxx obj src =
     cxx @ '' -std=c++20 -O2 -DNDEBUG -fno-exceptions -fno-rtti -fno-ident -c -I'' @ sh_include S @ '' -I'' @ sh_kernels S @ '' '' @
     ''-o '' @ obj @ '' '' @ src @ '' 2> '' @ ''/tmp/jmpxx_sd.err''"

text \<open>The checks once both objects are measured.\<close>

definition size_checks :: "size_options \<Rightarrow> obj_size \<Rightarrow> obj_size \<Rightarrow> report_op list" where
  "size_checks opts f b =
     (if \<not> os_found f \<or> \<not> os_found b then
        [R_fail (''could not measure object size (is '' @ [CHR 0x27] @ sd_tool opts @ [CHR 0x27] @ '' available?)'')]
      else
        (let dtext = os_text f - os_text b; dtotal = os_total f - os_total b in
         [R_num ''fixture.text'' (os_text f), R_num ''baseline.text'' (os_text b), R_num ''delta.text'' dtext,
          R_num ''fixture.total'' (os_total f), R_num ''baseline.total'' (os_total b), R_num ''delta.total'' dtotal] @
         (if sd_have_text opts then
            R_num ''budget.text_delta'' (sd_max_text opts) #
            fail_if (dtext > sd_max_text opts)
              (''text grew '' @ show_int dtext @ '' bytes over the hand-written baseline, above the budget '' @
               show_int (sd_max_text opts))
          else []) @
         (if sd_have_total opts then
            R_num ''budget.total_delta'' (sd_max_total opts) #
            fail_if (dtotal > sd_max_total opts)
              (''section bytes grew '' @ show_int dtotal @ '' over the hand-written baseline, above the budget '' @
               show_int (sd_max_total opts))
          else [])))"

definition probe_size_delta :: "'w shell \<Rightarrow> fmt \<Rightarrow> string list \<Rightarrow> 'w \<Rightarrow> (int \<times> string) \<times> 'w" where
  "probe_size_delta S f args w =
     (let opts = size_args args;
          r = report_new f ''size-delta'';
          asked = [R_str ''fixture'' (sd_fixture opts), R_str ''baseline'' (sd_baseline opts), R_str ''arch'' (sd_arch opts),
                   R_num ''cases.asked'' 2, R_num ''cases.known'' 2];
          cxx = select_cxx S (sd_arch opts) in
      if sd_fixture opts = [] \<or> sd_baseline opts = [] then
        (finish (report_all (asked @ [R_fail ''size-delta requires --fixture and --baseline'']) r), w)
      else if cxx = [] then
        (finish (report_all (asked @ [R_fail ''unknown --arch (expected x86_64 or aarch64)'']) r), w)
      else
        (let asked = asked @ [R_str ''compiler'' cxx];
             fobj = ''/tmp/jmpxx_sd_fixture.o''; bobj = ''/tmp/jmpxx_sd_baseline.o'' in
         case sh_system S (size_command S cxx fobj (sd_fixture opts)) w of
           (rc, w) \<Rightarrow>
             if rc \<noteq> 0 then
               (finish (report_all (asked @
                  [R_fail (''fixture failed to compile: '' @ trim (sh_read S ''/tmp/jmpxx_sd.err'' w))]) r), w)
             else
               (case sh_system S (size_command S cxx bobj (sd_baseline opts)) w of
                  (rc, w) \<Rightarrow>
                    if rc \<noteq> 0 then
                      (finish (report_all (asked @
                         [R_fail (''baseline failed to compile: '' @ trim (sh_read S ''/tmp/jmpxx_sd.err'' w))]) r), w)
                    else
                      (case measure_obj S fobj (sd_tool opts) w of
                         (fs, w) \<Rightarrow>
                           (case measure_obj S bobj (sd_tool opts) w of
                              (bs, w) \<Rightarrow> (finish (report_all (asked @ size_checks opts fs bs) r), w))))))"


subsection \<open>What \<open>size\<close> prints\<close>

text \<open>
  The Berkeley format: a header line, then a line with the numbers of bytes of text, data, bss
  and of all sections in this order.  White space, however much and of whatever kind, separates
  the numbers; there may be some before the first, and more columns may follow the last.
\<close>

definition spaces :: "string \<Rightarrow> bool" where
  "spaces t \<longleftrightarrow> list_all is_space t \<and> newline \<notin> set t"

definition berkeley_page :: "string \<Rightarrow> nat \<Rightarrow> nat \<Rightarrow> nat \<Rightarrow> nat \<Rightarrow> bool" where
  "berkeley_page out txt data bss dec \<longleftrightarrow>
     (\<exists>header s1 s2 s3 s4 rest.
        out = header @ newline # s1 @ show_nat txt @ s2 @ show_nat data @ s3 @ show_nat bss @ s4 @ show_nat dec @ rest @ [newline] \<and>
        newline \<notin> set header \<and> list_all spaces [s1, s2, s3, s4] \<and> [] \<notin> set [s2, s3, s4] \<and>
        newline \<notin> set rest \<and> (rest = [] \<or> is_space (hd rest)) \<and>
        list_all (\<lambda>n. n < 2 ^ 63) [txt, data, bss, dec])"

lemma newline_not_digit: "\<not> is_digit newline"
  by (simp add: is_digit_def newline_def)

lemma space_not_digit: "is_space c \<Longrightarrow> \<not> is_digit c"
  by (auto simp: is_space_def is_digit_def)

lemma getlines_line: "newline \<notin> set l \<Longrightarrow> getlines (l @ newline # rest) = l # getlines rest"
  by (induction l) auto

lemma extract_number:
  assumes "spaces sp" and "n < 2 ^ 63" and "rest = [] \<or> \<not> is_digit (hd rest)"
  shows "extract_ll (sp @ show_nat n @ rest) = Some (int n, rest)"
proof -
  obtain c cs where c: "show_nat n = c # cs" "is_digit c" "\<not> is_space c" "c \<noteq> CHR ''-''" "c \<noteq> CHR ''+''"
    using show_nat_first [of n] by blast
  have "dropWhile is_space (sp @ show_nat n @ rest) = dropWhile is_space (show_nat n @ rest)"
    using assms(1) by (simp add: spaces_def list_all_iff dropWhile_append2)
  then have start: "dropWhile is_space (sp @ show_nat n @ rest) = show_nat n @ rest" using c by simp
  have "dropWhile is_digit (show_nat n @ rest) = dropWhile is_digit rest"
    using show_nat_digits(1) [of n] by (simp add: dropWhile_append2)
  moreover have "dropWhile is_digit rest = rest" using assms(3) by (cases rest) auto
  moreover have "takeWhile is_digit (show_nat n @ rest) \<noteq> []" unfolding takeWhile_digits [OF assms(3)] using show_nat_digits(2) .
  moreover have "decimal (show_nat n @ rest) = int n" by (rule decimal_show_nat [OF assms(3)])
  moreover have "hd (show_nat n @ rest) \<noteq> CHR ''-''" "hd (show_nat n @ rest) \<noteq> CHR ''+''" using c by simp_all
  ultimately show ?thesis using assms(2) by (simp add: extract_ll_def start Let_def)
qed

lemma read_size_berkeley:
  assumes "berkeley_page out txt data bss dec"
  shows "read_size out = \<lparr>os_text = int txt, os_total = int dec, os_found = True\<rparr>"
proof -
  from assms [unfolded berkeley_page_def] obtain header s1 s2 s3 s4 rest
    where out: "out = header @ newline # s1 @ show_nat txt @ s2 @ show_nat data @ s3 @ show_nat bss @ s4 @ show_nat dec @ rest @ [newline]"
      and header: "newline \<notin> set header" and sps: "list_all spaces [s1, s2, s3, s4]" and somes: "[] \<notin> set [s2, s3, s4]"
      and rest: "newline \<notin> set rest" "rest = [] \<or> is_space (hd rest)"
      and smalls: "list_all (\<lambda>n. n < 2 ^ 63) [txt, data, bss, dec]"
    by (elim exE conjE)
  have sp: "spaces s1" "spaces s2" "spaces s3" "spaces s4" using sps by simp_all
  have some: "s2 \<noteq> []" "s3 \<noteq> []" "s4 \<noteq> []" using somes by auto
  have small: "txt < 2 ^ 63" "data < 2 ^ 63" "bss < 2 ^ 63" "dec < 2 ^ 63" using smalls by simp_all
  let ?line = "s1 @ show_nat txt @ s2 @ show_nat data @ s3 @ show_nat bss @ s4 @ show_nat dec @ rest"
  have digits: "newline \<notin> set (show_nat n)" for n using show_nat_digits(1) [of n] newline_not_digit by auto
  have "newline \<notin> set ?line" using sp rest(1) digits by (simp add: spaces_def)
  then have lines: "getlines out = [header, ?line]"
    using getlines_line [OF header, of "?line @ [newline]"] getlines_line [of ?line "[]"] by (simp add: out)
  have stop: "\<not> is_digit (hd (s @ x))" if "spaces s" "s \<noteq> []" for s x
    using that space_not_digit by (cases s) (auto simp: spaces_def)
  have "extract_ll ?line = Some (int txt, s2 @ show_nat data @ s3 @ show_nat bss @ s4 @ show_nat dec @ rest)"
    by (rule extract_number [OF sp(1) small(1)]) (simp add: stop [OF sp(2) some(1)])
  moreover have "extract_ll (s2 @ show_nat data @ s3 @ show_nat bss @ s4 @ show_nat dec @ rest) =
      Some (int data, s3 @ show_nat bss @ s4 @ show_nat dec @ rest)"
    by (rule extract_number [OF sp(2) small(2)]) (simp add: stop [OF sp(3) some(2)])
  moreover have "extract_ll (s3 @ show_nat bss @ s4 @ show_nat dec @ rest) = Some (int bss, s4 @ show_nat dec @ rest)"
    by (rule extract_number [OF sp(3) small(3)]) (simp add: stop [OF sp(4) some(3)])
  moreover have "extract_ll (s4 @ show_nat dec @ rest) = Some (int dec, rest)"
    by (rule extract_number [OF sp(4) small(4)]) (use rest(2) space_not_digit in auto)
  ultimately show ?thesis by (simp add: read_size_def lines)
qed

lemma size_checks_pass:
  "passing (size_checks opts f b) \<longleftrightarrow>
     os_found f \<and> os_found b \<and> (sd_have_text opts \<longrightarrow> os_text f - os_text b \<le> sd_max_text opts) \<and>
     (sd_have_total opts \<longrightarrow> os_total f - os_total b \<le> sd_max_total opts)"
  by (auto simp: size_checks_def Let_def)

text \<open>
  C24. The size gate measures what it says: when both sources compile and the tool prints sizes in
  the Berkeley format, whatever its padding, \<open>size-delta\<close> passes exactly when the growth in text bytes and in section
  bytes over the hand-written baseline stays within the budgets that were given.
\<close>

theorem size_delta_verdict:
  assumes "opts = size_args args" and "sd_fixture opts \<noteq> []" and "sd_baseline opts \<noteq> []"
    and "cxx = select_cxx S (sd_arch opts)" and "cxx \<noteq> []"
    and "sh_system S (size_command S cxx ''/tmp/jmpxx_sd_fixture.o'' (sd_fixture opts)) w = (0, w1)"
    and "sh_system S (size_command S cxx ''/tmp/jmpxx_sd_baseline.o'' (sd_baseline opts)) w1 = (0, w2)"
    and "sh_system S (measure_command (sd_tool opts) ''/tmp/jmpxx_sd_fixture.o'') w2 = (0, w3)"
    and "sh_system S (measure_command (sd_tool opts) ''/tmp/jmpxx_sd_baseline.o'') w3 = (0, w4)"
    and "berkeley_page (sh_read S ''/tmp/jmpxx_size.txt'' w3) ftext fdata fbss ftotal"
    and "berkeley_page (sh_read S ''/tmp/jmpxx_size.txt'' w4) btext bdata bbss btotal"
  shows "fst (fst (probe_size_delta S f args w)) = 0 \<longleftrightarrow>
    (sd_have_text opts \<longrightarrow> int ftext - int btext \<le> sd_max_text opts) \<and>
    (sd_have_total opts \<longrightarrow> int ftotal - int btotal \<le> sd_max_total opts)"
proof -
  let ?f = "\<lparr>os_text = int ftext, os_total = int ftotal, os_found = True\<rparr>"
  let ?b = "\<lparr>os_text = int btext, os_total = int btotal, os_found = True\<rparr>"
  have "measure_obj S ''/tmp/jmpxx_sd_fixture.o'' (sd_tool opts) w2 = (?f, w3)"
    "measure_obj S ''/tmp/jmpxx_sd_baseline.o'' (sd_tool opts) w3 = (?b, w4)"
    using assms(8-11) by (simp_all add: measure_obj_def read_size_berkeley)
  then have "fst (fst (probe_size_delta S f args w)) = 0 \<longleftrightarrow> passing (size_checks opts ?f ?b)"
    using assms(1-7) by (simp add: probe_size_delta_def Let_def report_status)
  then show ?thesis by (simp add: size_checks_pass)
qed

text \<open>The pages GNU \<open>size\<close> prints: right-aligned columns of seven, with tabs between them.\<close>

definition size_page :: "nat \<Rightarrow> nat \<Rightarrow> string \<Rightarrow> string" where
  "size_page txt dec rest =
     (let tab = CHR 0x09 in
      (''   text'' @ tab # ''   data'' @ tab # ''    bss'' @ tab # ''    dec'' @ tab # ''    hex'' @ tab # ''filename'') @ newline #
      ''    '' @ show_nat txt @ (tab # ''      '') @ show_nat 0 @ (tab # ''      '') @ show_nat 0 @ (tab # ''    '') @
      show_nat dec @ (tab # rest) @ [newline])"

lemma size_page_berkeley:
  assumes "newline \<notin> set rest" and "txt < 2 ^ 63" and "dec < 2 ^ 63"
  shows "berkeley_page (size_page txt dec rest) txt 0 0 dec"
proof -
  have "newline \<notin> set (''   text'' @ CHR 0x09 # ''   data'' @ CHR 0x09 # ''    bss'' @ CHR 0x09 # ''    dec'' @ CHR 0x09 # ''    hex'' @ CHR 0x09 # ''filename'')"
    "list_all spaces [''    '', CHR 0x09 # ''      '', CHR 0x09 # ''      '', CHR 0x09 # ''    '']"
    by (simp_all add: newline_def spaces_def is_space_def)
  moreover have "newline \<notin> set (CHR 0x09 # rest)" "is_space (hd (CHR 0x09 # rest))"
    using assms(1) by (simp_all add: newline_def is_space_def)
  moreover have "list_all (\<lambda>n. n < 2 ^ 63) [txt, 0, 0, dec]" using assms(2,3) by simp
  moreover have "[] \<notin> set [CHR 0x09 # ''      '', CHR 0x09 # ''      '', CHR 0x09 # ''    '']" by simp
  ultimately show ?thesis unfolding berkeley_page_def size_page_def Let_def by blast
qed

definition size_shell :: "files shell" where
  "size_shell = file_shell (\<lambda>cmd.
     if cmd = measure_command ''size'' ''/tmp/jmpxx_sd_fixture.o'' then [(''/tmp/jmpxx_size.txt'', size_page 136 160 (''     a0'' @ CHR 0x09 # ''/tmp/jmpxx_sd_fixture.o''))]
     else if cmd = measure_command ''size'' ''/tmp/jmpxx_sd_baseline.o'' then [(''/tmp/jmpxx_size.txt'', size_page 120 152 (''     98'' @ CHR 0x09 # ''/tmp/jmpxx_sd_baseline.o''))]
     else [])"

text \<open>A text that grew by sixteen bytes fails a budget of zero and passes without one.\<close>

theorem size_delta_verdict_witness:
  "fst (fst (probe_size_delta size_shell Human
     [''--fixture'', ''a.cpp'', ''--baseline'', ''b.cpp'', ''--max-text-delta'', ''0''] (\<lambda>_. []))) \<noteq> 0 \<and>
   fst (fst (probe_size_delta size_shell Json
     [''--fixture'', ''a.cpp'', ''--baseline'', ''b.cpp'', ''--max-total-delta'', ''8''] (\<lambda>_. []))) = 0"
proof -
  let ?fo = "''/tmp/jmpxx_sd_fixture.o''" and ?bo = "''/tmp/jmpxx_sd_baseline.o''"
  define step where "step cmd w = snd (sh_system size_shell cmd w)" for cmd w
  define w1 where "w1 = step (size_command size_shell ''g++-13'' ?fo ''a.cpp'') (\<lambda>_. [])"
  define w2 where "w2 = step (size_command size_shell ''g++-13'' ?bo ''b.cpp'') w1"
  define w3 where "w3 = step (measure_command ''size'' ?fo) w2"
  define w4 where "w4 = step (measure_command ''size'' ?bo) w3"
  have run: "sh_system size_shell cmd w = (0, step cmd w)" for cmd w by (simp add: step_def size_shell_def file_shell_def)
  have runs: "sh_system size_shell (size_command size_shell ''g++-13'' ?fo ''a.cpp'') (\<lambda>_. []) = (0, w1)"
    "sh_system size_shell (size_command size_shell ''g++-13'' ?bo ''b.cpp'') w1 = (0, w2)"
    "sh_system size_shell (measure_command ''size'' ?fo) w2 = (0, w3)" "sh_system size_shell (measure_command ''size'' ?bo) w3 = (0, w4)"
    by (simp_all only: run w1_def w2_def w3_def w4_def)
  have "sh_read size_shell ''/tmp/jmpxx_size.txt'' w3 = size_page 136 160 (''     a0'' @ CHR 0x09 # ?fo)"
    "sh_read size_shell ''/tmp/jmpxx_size.txt'' w4 = size_page 120 152 (''     98'' @ CHR 0x09 # ?bo)"
    by (simp_all add: w3_def w4_def step_def size_shell_def file_shell_def put_files_def measure_command_def)
  then have pages: "berkeley_page (sh_read size_shell ''/tmp/jmpxx_size.txt'' w3) 136 0 0 160"
    "berkeley_page (sh_read size_shell ''/tmp/jmpxx_size.txt'' w4) 120 0 0 152"
    by (simp_all only:) (rule size_page_berkeley; simp add: newline_def)+
  have cxx: "select_cxx size_shell ''x86_64'' = ''g++-13''" by (simp add: select_cxx_def size_shell_def file_shell_def)
  have nums: "decimal ''0'' = 0" "decimal ''8'' = 8" by code_simp+
  note verdict = size_delta_verdict [OF refl _ _ _ _ _ _ _ _ pages, where w = "\<lambda>_. []" and cxx = "''g++-13''" and ?w1.0 = w1 and ?w2.0 = w2]
  show ?thesis
    using verdict [where args = "[''--fixture'', ''a.cpp'', ''--baseline'', ''b.cpp'', ''--max-text-delta'', ''0'']" and f = Human]
      verdict [where args = "[''--fixture'', ''a.cpp'', ''--baseline'', ''b.cpp'', ''--max-total-delta'', ''8'']" and f = Json]
      runs cxx nums
    by (simp add: size_args_def)
qed


subsection \<open>Compile cost\<close>

text \<open>The two event names counted in a trace, and the search for one from a position on.\<close>

datatype needle = Instantiate_Class | Instantiate_Function

primrec needle_text :: "needle \<Rightarrow> string" where
  "needle_text Instantiate_Class =
     [CHR 0x22] @ ''name'' @ [CHR 0x22] @ '':'' @ [CHR 0x22] @ ''InstantiateClass'' @ [CHR 0x22]"
| "needle_text Instantiate_Function =
     [CHR 0x22] @ ''name'' @ [CHR 0x22] @ '':'' @ [CHR 0x22] @ ''InstantiateFunction'' @ [CHR 0x22]"

lemma needle_text_nonempty: "0 < length (needle_text k)"
  by (cases k) simp_all

lemma find_sub_bound: "find_sub pat s = Some i \<Longrightarrow> i + length pat \<le> length s"
proof (induction s arbitrary: i)
  case (Cons c cs)
  show ?case
  proof (cases "take (length pat) (c # cs) = pat")
    case True
    then have "length pat \<le> length (c # cs)" by (metis length_take min.cobounded1)
    then show ?thesis using True Cons.prems by simp
  next
    case False
    then show ?thesis using Cons by auto
  qed
qed (simp split: if_splits)

lemma find_from_bound: "find_from s pat pos = Some i \<Longrightarrow> pos \<le> i \<and> i + length pat \<le> length s"
  by (auto simp: find_from_def dest!: find_sub_bound split: if_splits)

lemma needle_advances:
  "find_from s (needle_text k) pos = Some i \<Longrightarrow> pos < i + length (needle_text k) \<and> i + length (needle_text k) \<le> length s"
  using needle_text_nonempty [of k] find_from_bound [of s "needle_text k" pos i] by linarith

function count_needle :: "needle \<Rightarrow> string \<Rightarrow> nat \<Rightarrow> int \<Rightarrow> int" where
  "count_needle k trace pos n =
     (case find_from trace (needle_text k) pos of
        None \<Rightarrow> n
      | Some p \<Rightarrow> count_needle k trace (p + length (needle_text k)) (n + 1))"
  by pat_completeness auto

termination
  by (relation "measure (\<lambda>(k, trace, pos, n). Suc (length trace) - pos)") (auto dest: needle_advances)

declare count_needle.simps [simp del]

definition count_command :: "string \<Rightarrow> string \<Rightarrow> string \<Rightarrow> string \<Rightarrow> string \<Rightarrow> string" where
  "count_command cxx flags src obj err_out =
     cxx @ flags @ '' -ftime-trace -ftime-trace-granularity=0 -c -o '' @ obj @ '' '' @ src @ '' 2> '' @ err_out"

definition count_instantiations ::
    "'w shell \<Rightarrow> string \<Rightarrow> string \<Rightarrow> string \<Rightarrow> string \<Rightarrow> string \<Rightarrow> string \<Rightarrow> 'w \<Rightarrow> int \<times> 'w" where
  "count_instantiations S cxx flags src obj json err_out w =
     (case sh_system S (count_command cxx flags src obj err_out) w of
        (rc, w) \<Rightarrow>
          if rc \<noteq> 0 then (- 1, w)
          else
            (let trace = sh_read S json w in
             if trace = [] then (- 1, w)
             else (count_needle Instantiate_Function trace 0 (count_needle Instantiate_Class trace 0 0), w)))"

text \<open>One timed compilation in milliseconds; the clock counts nanoseconds and does not run back.\<close>

definition compile_once ::
    "'w shell \<Rightarrow> string \<Rightarrow> string \<Rightarrow> string \<Rightarrow> string \<Rightarrow> string \<Rightarrow> 'w \<Rightarrow> int \<times> 'w" where
  "compile_once S cxx flags src obj err_out w =
     (case sh_clock S w of
        (t0, w) \<Rightarrow>
          (case sh_system S (cxx @ flags @ '' -c -o '' @ obj @ '' '' @ src @ '' 2> '' @ err_out) w of
             (rc, w) \<Rightarrow>
               (case sh_clock S w of
                  (t1, w) \<Rightarrow> (if rc \<noteq> 0 then - 1 else (t1 - t0) div 1000000, w))))"

record cost_options =
  cc_fixture :: string
  cc_baseline :: string
  cc_cxx :: string
  cc_std :: string
  cc_runs :: int
  cc_max_inst :: int

definition cost_args :: "string list \<Rightarrow> cost_options" where
  "cost_args args =
     parse_args
       (\<lambda>a. if a = ''--fixture'' then Some (\<lambda>x opts. opts\<lparr>cc_fixture := x\<rparr>)
            else if a = ''--baseline'' then Some (\<lambda>x opts. opts\<lparr>cc_baseline := x\<rparr>)
            else if a = ''--cxx'' then Some (\<lambda>x opts. opts\<lparr>cc_cxx := x\<rparr>)
            else if a = ''--std'' then Some (\<lambda>x opts. opts\<lparr>cc_std := x\<rparr>)
            else if a = ''--runs'' then Some (\<lambda>x opts. opts\<lparr>cc_runs := decimal x\<rparr>)
            else if a = ''--max-instantiations'' then Some (\<lambda>x opts. opts\<lparr>cc_max_inst := decimal x\<rparr>)
            else None)
       (\<lambda>_ opts. opts) args
       \<lparr>cc_fixture = [], cc_baseline = [], cc_cxx = [], cc_std = ''c++20'', cc_runs = 5, cc_max_inst = - 1\<rparr>"

definition cost_flags :: "'w shell \<Rightarrow> string \<Rightarrow> string" where
  "cost_flags S std = '' -std='' @ std @ '' -O0 -I'' @ sh_include S @ '' -I'' @ sh_kernels S"

definition keep_min :: "int \<Rightarrow> int \<Rightarrow> int" where
  "keep_min least t = (if least < 0 \<or> t < least then t else least)"

text \<open>The interleaved runs: the least times of baseline and fixture, or the message of a failure.\<close>

primrec timed_runs ::
    "'w shell \<Rightarrow> string \<Rightarrow> string \<Rightarrow> string \<Rightarrow> string \<Rightarrow> nat \<Rightarrow> int \<Rightarrow> int \<Rightarrow> 'w \<Rightarrow> (string + int \<times> int) \<times> 'w" where
  "timed_runs S cxx flags baseline fixture 0 bmin fmin w = (Inr (bmin, fmin), w)"
| "timed_runs S cxx flags baseline fixture (Suc n) bmin fmin w =
     (case compile_once S cxx flags baseline ''/tmp/jmpxx_cc_baseline.o'' ''/tmp/jmpxx_cc.err'' w of
        (b, w) \<Rightarrow>
          if b < 0 then (Inl (''baseline failed to compile: '' @ trim (sh_read S ''/tmp/jmpxx_cc.err'' w)), w)
          else
            (case compile_once S cxx flags fixture ''/tmp/jmpxx_cc_fixture.o'' ''/tmp/jmpxx_cc.err'' w of
               (f, w) \<Rightarrow>
                 if f < 0 then (Inl (''fixture failed to compile: '' @ trim (sh_read S ''/tmp/jmpxx_cc.err'' w)), w)
                 else timed_runs S cxx flags baseline fixture n (keep_min bmin b) (keep_min fmin f) w))"

definition cost_budget :: "int \<Rightarrow> int \<Rightarrow> report_op list" where
  "cost_budget max_inst finst =
     (if max_inst \<ge> 0 then
        R_num ''budget.instantiations'' max_inst #
        (if finst < 0 then
           [R_fail ''an instantiation budget was set but the count could not be measured (use a Clang compiler for the compile-cost gate)'']
         else
           R_boolean ''within_budget'' (finst \<le> max_inst) #
           fail_if (finst > max_inst)
             (''the fixture instantiates '' @ show_int finst @ '' templates, above the budget '' @ show_int max_inst))
      else [])"

definition probe_compile_cost ::
    "'w shell \<Rightarrow> (int \<Rightarrow> int \<Rightarrow> int) \<Rightarrow> fmt \<Rightarrow> string list \<Rightarrow> 'w \<Rightarrow> (int \<times> string) \<times> 'w" where
  "probe_compile_cost S ratio_x100 f args w =
     (let opts = cost_args args;
          r = report_new f ''compile-cost'';
          asked = [R_str ''fixture'' (cc_fixture opts), R_str ''baseline'' (cc_baseline opts),
                   R_num ''cases.asked'' 2, R_num ''cases.known'' 2];
          cxx = (if cc_cxx opts = [] then (case sh_env S ''JMPXX_CC_CXX'' of Some env \<Rightarrow> env | None \<Rightarrow> ''clang++'')
                 else cc_cxx opts);
          runs = (if cc_runs opts < 1 then 1 else cc_runs opts);
          flags = cost_flags S (cc_std opts) in
      if cc_fixture opts = [] \<or> cc_baseline opts = [] then
        (finish (report_all (asked @ [R_fail ''compile-cost requires --fixture and --baseline'']) r), w)
      else
        (let asked = asked @ [R_str ''compiler'' cxx, R_num ''runs'' runs] in
         case count_instantiations S cxx flags (cc_fixture opts) ''/tmp/jmpxx_cc_fixture.o'' ''/tmp/jmpxx_cc_fixture.json''
                ''/tmp/jmpxx_cc.err'' w of
           (finst, w) \<Rightarrow>
             (case count_instantiations S cxx flags (cc_baseline opts) ''/tmp/jmpxx_cc_baseline.o''
                     ''/tmp/jmpxx_cc_baseline.json'' ''/tmp/jmpxx_cc.err'' w of
                (binst, w) \<Rightarrow>
                  (let counted = asked @
                         (if finst \<ge> 0 \<and> binst \<ge> 0 then
                            [R_num ''baseline.instantiations'' binst, R_num ''fixture.instantiations'' finst,
                             R_num ''instantiations.delta'' (finst - binst)]
                          else [R_note ''instantiation count unavailable (compiler is not a Clang with -ftime-trace)'']) in
                   case timed_runs S cxx flags (cc_baseline opts) (cc_fixture opts) (nat runs) (- 1) (- 1) w of
                     (Inl why, w) \<Rightarrow> (finish (report_all (counted @ [R_fail why]) r), w)
                   | (Inr (bmin, fmin), w) \<Rightarrow>
                       (finish (report_all (counted @
                          [R_num ''baseline.min_ms'' bmin, R_num ''fixture.min_ms'' fmin,
                           R_num ''walltime.ratio_x100'' (ratio_x100 fmin bmin)] @
                          cost_budget (cc_max_inst opts) finst) r), w)))))"

text \<open>The reference count: the positions at which the event name stands.\<close>

definition occurs_at :: "string \<Rightarrow> string \<Rightarrow> nat \<Rightarrow> bool" where
  "occurs_at pat s i \<longleftrightarrow> take (length pat) (drop i s) = pat"

definition apart :: "string \<Rightarrow> string \<Rightarrow> bool" where
  "apart pat s \<longleftrightarrow> (\<forall>i<length s. \<forall>j<length s. occurs_at pat s i \<and> occurs_at pat s j \<and> i < j \<longrightarrow> i + length pat \<le> j)"

lemma occurs_at_bound: "occurs_at pat s i \<Longrightarrow> 0 < length pat \<Longrightarrow> i < length s"
  by (rule ccontr) (simp add: occurs_at_def)

lemma occurs_at_Cons [simp]: "occurs_at pat (c # cs) (Suc i) \<longleftrightarrow> occurs_at pat cs i"
  by (simp add: occurs_at_def)

lemma find_sub_first:
  "find_sub pat s = Some i \<Longrightarrow> occurs_at pat s i \<and> (\<forall>j<i. \<not> occurs_at pat s j)"
proof (induction s arbitrary: i)
  case (Cons c cs)
  show ?case
  proof (cases "take (length pat) (c # cs) = pat")
    case False
    then obtain i' where i': "i = Suc i'" "find_sub pat cs = Some i'" using Cons.prems by auto
    then show ?thesis using Cons.IH [OF i'(2)] False by (auto simp: less_Suc_eq_0_disj occurs_at_def [of _ _ 0])
  qed (use Cons.prems in \<open>simp add: occurs_at_def\<close>)
qed (simp add: occurs_at_def split: if_splits)

lemma find_sub_None: "find_sub pat s = None \<Longrightarrow> \<not> occurs_at pat s i"
proof (induction s arbitrary: i)
  case (Cons c cs)
  then show ?case by (cases i) (auto simp: occurs_at_def [of _ _ 0] split: if_splits)
qed (simp add: occurs_at_def split: if_splits)

lemma occurs_at_drop: "occurs_at pat (drop pos s) i \<longleftrightarrow> occurs_at pat s (pos + i)"
  by (simp add: occurs_at_def add.commute)

lemma find_from_first:
  assumes "find_from s pat pos = Some i"
  shows "occurs_at pat s i" and "pos \<le> j \<Longrightarrow> j < i \<Longrightarrow> \<not> occurs_at pat s j"
proof -
  obtain d where d: "i = pos + d" "find_sub pat (drop pos s) = Some d" using assms by (auto simp: find_from_def split: if_splits)
  from find_sub_first [OF d(2)] show "occurs_at pat s i" by (simp add: d(1) occurs_at_drop)
  assume "pos \<le> j" "j < i"
  then have "j = pos + (j - pos)" "j - pos < d" using d(1) by simp_all
  then show "\<not> occurs_at pat s j" using find_sub_first [OF d(2)] by (metis occurs_at_drop)
qed

lemma find_from_None:
  assumes "find_from s pat pos = None" and "0 < length pat" and "pos \<le> j"
  shows "\<not> occurs_at pat s j"
proof
  assume o: "occurs_at pat s j"
  then have "pos \<le> length s" using occurs_at_bound assms(2,3) by fastforce
  then have "find_sub pat (drop pos s) = None" using assms(1) by (simp add: find_from_def split: if_splits)
  from find_sub_None [OF this, of "j - pos"] show False using o assms(3) by (simp add: occurs_at_drop)
qed

lemma needle_at_bound: "occurs_at (needle_text k) s i \<Longrightarrow> i < length s"
  by (erule occurs_at_bound) (rule needle_text_nonempty)

lemma count_needle_reference:
  assumes "apart (needle_text k) trace"
  shows "count_needle k trace pos n = n + int (card {i. pos \<le> i \<and> occurs_at (needle_text k) trace i})"
  using assms
proof (induction k trace pos n rule: count_needle.induct)
  case (1 k trace pos n)
  let ?key = "needle_text k"
  let ?from = "\<lambda>pos. {i. pos \<le> i \<and> occurs_at ?key trace i}"
  have fin: "finite (?from pos)" for pos
    by (rule finite_subset [of _ "{..<length trace}"]) (auto intro: needle_at_bound)
  show ?case
  proof (cases "find_from trace ?key pos")
    case None
    then have "?from pos = {}" using find_from_None [OF None needle_text_nonempty] by blast
    then have "card (?from pos) = 0" by (simp only: card.empty)
    then show ?thesis using None by (subst count_needle.simps) (simp only: option.case of_nat_0 add_0_right)
  next
    case (Some p)
    have p: "occurs_at ?key trace p" "pos \<le> p" using find_from_first(1) [OF Some] find_from_bound [OF Some] by simp_all
    have "?from pos = insert p (?from (p + length ?key))"
    proof (intro subset_antisym subsetI)
      fix i assume "i \<in> ?from pos"
      then have i: "pos \<le> i" "occurs_at ?key trace i" by simp_all
      then have "\<not> i < p" using find_from_first(2) [OF Some, of i] by blast
      moreover have "i < length trace" "p < length trace" using i(2) p(1) needle_at_bound by blast+
      ultimately have "i = p \<or> p + length ?key \<le> i"
        using "1.prems" i(2) p(1) unfolding apart_def by (metis linorder_neqE_nat)
      then show "i \<in> insert p (?from (p + length ?key))" using i by simp
    qed (use p in auto)
    moreover have "p \<notin> ?from (p + length ?key)" using needle_text_nonempty [of k] by simp
    ultimately have "card (?from pos) = Suc (card (?from (p + length ?key)))" using fin by simp
    then show ?thesis using "1.IH" [OF Some "1.prems"] Some by (subst count_needle.simps) simp
  qed
qed

definition instantiations :: "string \<Rightarrow> nat" where
  "instantiations trace =
     length (filter (occurs_at (needle_text Instantiate_Class) trace) [0..<length trace]) +
     length (filter (occurs_at (needle_text Instantiate_Function) trace) [0..<length trace])"

lemma card_occurrences:
  "card {i. 0 \<le> i \<and> occurs_at (needle_text k) trace i} = length (filter (occurs_at (needle_text k) trace) [0..<length trace])"
proof -
  have "{i. 0 \<le> i \<and> occurs_at (needle_text k) trace i} = set (filter (occurs_at (needle_text k) trace) [0..<length trace])"
    by (auto intro: needle_at_bound)
  then show ?thesis by (metis distinct_card distinct_filter distinct_upt)
qed

text \<open>
  The gate on translation cost is on the number of instantiations: when the fixture's trace
  can be produced and its events do not overlap, \<open>compile-cost\<close> passes exactly when every timed
  compilation succeeds and the events that instantiate a class or a function are no more than
  the budget, if there is one; the measured times do not matter.
\<close>

theorem compile_cost_verdict:
  assumes "opts = cost_args args" and "cc_fixture opts \<noteq> []" and "cc_baseline opts \<noteq> []"
    and "cxx = (if cc_cxx opts = [] then (case sh_env S ''JMPXX_CC_CXX'' of Some env \<Rightarrow> env | None \<Rightarrow> ''clang++'') else cc_cxx opts)"
    and "flags = cost_flags S (cc_std opts)"
    and "sh_system S (count_command cxx flags (cc_fixture opts) ''/tmp/jmpxx_cc_fixture.o'' ''/tmp/jmpxx_cc.err'') w = (0, w1)"
    and "sh_read S ''/tmp/jmpxx_cc_fixture.json'' w1 = trace" and "trace \<noteq> []"
    and "apart (needle_text Instantiate_Class) trace" and "apart (needle_text Instantiate_Function) trace"
    and "count_instantiations S cxx flags (cc_baseline opts) ''/tmp/jmpxx_cc_baseline.o'' ''/tmp/jmpxx_cc_baseline.json''
           ''/tmp/jmpxx_cc.err'' w1 = (binst, w2)"
    and "timed_runs S cxx flags (cc_baseline opts) (cc_fixture opts) (nat (max 1 (cc_runs opts))) (- 1) (- 1) w2 = (timed, w3)"
  shows "fst (fst (probe_compile_cost S ratio_x100 f args w)) = 0 \<longleftrightarrow>
    \<not> isl timed \<and> (cc_max_inst opts \<ge> 0 \<longrightarrow> int (instantiations trace) \<le> cc_max_inst opts)"
proof -
  have "count_needle Instantiate_Function trace 0 (count_needle Instantiate_Class trace 0 0) = int (instantiations trace)"
    unfolding count_needle_reference [OF assms(9)] count_needle_reference [OF assms(10)] card_occurrences instantiations_def by simp
  then have counted: "count_instantiations S cxx flags (cc_fixture opts) ''/tmp/jmpxx_cc_fixture.o'' ''/tmp/jmpxx_cc_fixture.json''
      ''/tmp/jmpxx_cc.err'' w = (int (instantiations trace), w1)"
    using assms(6-8) by (simp add: count_instantiations_def Let_def)
  have runs: "(if cc_runs opts < 1 then 1 else cc_runs opts) = max 1 (cc_runs opts)" by simp
  show ?thesis
    using assms(2,3,11,12) counted
    unfolding probe_compile_cost_def Let_def assms(1) [symmetric] assms(4) [symmetric] assms(5) [symmetric] runs
    by (cases timed) (auto simp: report_status cost_budget_def split: if_splits)
qed

definition cost_trace :: string where
  "cost_trace = ''{'' @ needle_text Instantiate_Class @ ''},{'' @ needle_text Instantiate_Function @ ''}''"

definition cost_shell :: "files shell" where
  "cost_shell = file_shell (\<lambda>cmd. [(''/tmp/jmpxx_cc_fixture.json'', cost_trace)])"

lemma apart_single: "length (filter (occurs_at pat s) [0..<length s]) \<le> 1 \<Longrightarrow> apart pat s"
proof -
  assume single: "length (filter (occurs_at pat s) [0..<length s]) \<le> 1"
  let ?l = "filter (occurs_at pat s) [0..<length s]"
  have "i = j" if "i \<in> set ?l" "j \<in> set ?l" for i j
    using single that by (cases ?l) (auto simp: length_Suc_conv)
  then have "i = j" if "i < length s" "j < length s" "occurs_at pat s i" "occurs_at pat s j" for i j using that by simp
  then show "apart pat s" unfolding apart_def by blast
qed

theorem compile_cost_verdict_witness:
  "fst (fst (probe_compile_cost cost_shell (\<lambda>_ _. 100) Json
     [''--fixture'', ''a.cpp'', ''--baseline'', ''b.cpp'', ''--runs'', ''1'', ''--max-instantiations'', ''2''] (\<lambda>_. []))) = 0"
proof -
  let ?args = "[''--fixture'', ''a.cpp'', ''--baseline'', ''b.cpp'', ''--runs'', ''1'', ''--max-instantiations'', ''2'']"
  let ?opts = "\<lparr>cc_fixture = ''a.cpp'', cc_baseline = ''b.cpp'', cc_cxx = [], cc_std = ''c++20'', cc_runs = 1, cc_max_inst = 2\<rparr>"
  let ?flags = "cost_flags cost_shell ''c++20''"
  have nums: "decimal ''1'' = 1" "decimal ''2'' = 2" by code_simp+
  have opts: "?opts = cost_args ?args" by (simp add: cost_args_def nums)
  have counts: "length (filter (occurs_at (needle_text Instantiate_Class) cost_trace) [0..<length cost_trace]) = 1"
    "length (filter (occurs_at (needle_text Instantiate_Function) cost_trace) [0..<length cost_trace]) = 1" by code_simp+
  define w1 where "w1 = snd (sh_system cost_shell (count_command ''clang++'' ?flags ''a.cpp'' ''/tmp/jmpxx_cc_fixture.o'' ''/tmp/jmpxx_cc.err'') (\<lambda>_. []))"
  obtain binst w2 where base: "count_instantiations cost_shell ''clang++'' ?flags ''b.cpp'' ''/tmp/jmpxx_cc_baseline.o'' ''/tmp/jmpxx_cc_baseline.json''
      ''/tmp/jmpxx_cc.err'' w1 = (binst, w2)" by fastforce
  obtain b t w3 where timed: "timed_runs cost_shell ''clang++'' ?flags ''b.cpp'' ''a.cpp'' 1 (- 1) (- 1) w2 = (Inr (b, t), w3)"
    by (simp add: compile_once_def cost_shell_def file_shell_def)
  have run: "sh_system cost_shell (count_command ''clang++'' ?flags ''a.cpp'' ''/tmp/jmpxx_cc_fixture.o'' ''/tmp/jmpxx_cc.err'') (\<lambda>_. []) = (0, w1)"
    and trace: "sh_read cost_shell ''/tmp/jmpxx_cc_fixture.json'' w1 = cost_trace" and env: "sh_env cost_shell = (\<lambda>_. None)"
    by (simp_all add: w1_def cost_shell_def file_shell_def put_files_def)
  have total: "instantiations cost_trace = 2" unfolding instantiations_def counts by simp
  have some: "cost_trace \<noteq> []" by (simp add: cost_trace_def)
  have timed': "timed_runs cost_shell ''clang++'' ?flags (cc_baseline ?opts) (cc_fixture ?opts) (nat (max 1 (cc_runs ?opts))) (- 1) (- 1) w2 = (Inr (b, t), w3)"
    using timed by simp
  show ?thesis
    using compile_cost_verdict [OF opts _ _ _ _ _ trace some apart_single apart_single _ timed', where w = "\<lambda>_. []" and ?ratio_x100.0 = "\<lambda>_ _. 100" and f = Json and binst = binst]
      counts run base env total
    by simp
qed


subsection \<open>The layout of the public types\<close>

record layout_options =
  al_fixture :: string
  al_golden :: string
  al_arch :: string
  al_update :: bool

definition layout_args :: "string list \<Rightarrow> layout_options" where
  "layout_args args =
     parse_args
       (\<lambda>a. if a = ''--fixture'' then Some (\<lambda>x opts. opts\<lparr>al_fixture := x\<rparr>)
            else if a = ''--golden'' then Some (\<lambda>x opts. opts\<lparr>al_golden := x\<rparr>)
            else if a = ''--arch'' then Some (\<lambda>x opts. opts\<lparr>al_arch := x\<rparr>)
            else None)
       (\<lambda>a opts. if a = ''--update'' then opts\<lparr>al_update := True\<rparr> else opts) args
       \<lparr>al_fixture = [], al_golden = [], al_arch = ''x86_64'', al_update = False\<rparr>"

definition layout_command :: "'w shell \<Rightarrow> string \<Rightarrow> string \<Rightarrow> string" where
  "layout_command S cxx fixture =
     cxx @ '' -std=c++20 -O2 -DNDEBUG -fno-exceptions -fno-rtti -I'' @ sh_include S @ '' -o '' @ ''/tmp/jmpxx_abi_descriptor'' @ '' '' @
     fixture @ '' 2> '' @ ''/tmp/jmpxx_abi.err''"

definition descriptor_command :: string where
  "descriptor_command = ''/tmp/jmpxx_abi_descriptor'' @ '' > '' @ ''/tmp/jmpxx_abi_layout.txt'' @ '' 2>> '' @ ''/tmp/jmpxx_abi.err''"

text \<open>The lines that describe a type, and the metric of one.\<close>

definition described :: "string \<Rightarrow> string list" where
  "described emitted = filter (\<lambda>t. t \<noteq> [] \<and> hd t \<noteq> CHR 0x23) (map trim (getlines emitted))"

definition layout_metric :: "string \<Rightarrow> report_op list" where
  "layout_metric t =
     (let name = (case find_sub '' '' t of None \<Rightarrow> t | Some sp \<Rightarrow> take sp t) in
      if name = ''pointer_bits'' then
        [R_num ''pointer_bits'' (decimal (case find_sub ''='' t of None \<Rightarrow> t | Some i \<Rightarrow> drop (i + 1) t))]
      else
        (case find_sub ''sizeof='' t of
           None \<Rightarrow> []
         | Some sz \<Rightarrow> [R_num (name @ ''.sizeof'') (decimal (drop (sz + 7) t))]))"

definition descriptor_lines :: "string \<Rightarrow> int" where
  "descriptor_lines emitted = int (length (described emitted))"

definition layout_checks :: "string \<Rightarrow> string \<Rightarrow> report_op list" where
  "layout_checks want emitted =
     [R_num ''cases.asked'' (descriptor_lines emitted), R_num ''cases.known'' (descriptor_lines want)] @
     fail_if (descriptor_lines emitted \<noteq> descriptor_lines want)
       (''the descriptor reported '' @ show_int (descriptor_lines emitted) @ '' types and the golden holds '' @
        show_int (descriptor_lines want)) @
     [R_boolean ''golden_match'' (want = emitted)] @
     (if want \<noteq> emitted then
        [R_fail ''the observed type layout diverged from the committed ABI golden; an unversioned layout change under a fixed policy'',
         R_note (''expected:'' @ [newline] @ want), R_note (''observed:'' @ [newline] @ emitted)]
      else [])"

definition layout_golden :: "'w shell \<Rightarrow> layout_options \<Rightarrow> string \<Rightarrow> 'w \<Rightarrow> report_op list \<times> 'w" where
  "layout_golden S opts emitted w =
     (if al_update opts then
        (case sh_write S (al_golden opts) emitted w of
           (written, w) \<Rightarrow>
             ([if \<not> written then R_fail (''could not write golden '' @ al_golden opts)
               else R_note (''golden updated: '' @ al_golden opts)], w))
      else (layout_checks (sh_read S (al_golden opts) w) emitted, w))"

definition probe_abi_layout :: "'w shell \<Rightarrow> fmt \<Rightarrow> string list \<Rightarrow> 'w \<Rightarrow> (int \<times> string) \<times> 'w" where
  "probe_abi_layout S f args w =
     (let opts = layout_args args;
          r = report_new f ''abi-layout'';
          asked = [R_str ''fixture'' (al_fixture opts), R_str ''golden'' (al_golden opts)];
          cxx = select_cxx S (al_arch opts) in
      if al_fixture opts = [] \<or> al_golden opts = [] then
        (finish (report_all (asked @ [R_fail ''abi-layout requires --fixture and --golden'']) r), w)
      else if cxx = [] then
        (finish (report_all (asked @ [R_fail ''unknown --arch (expected x86_64 or aarch64)'']) r), w)
      else
        (let asked = asked @ [R_str ''compiler'' cxx] in
         case sh_system S (layout_command S cxx (al_fixture opts)) w of
           (rc, w) \<Rightarrow>
             if rc \<noteq> 0 then
               (finish (report_all (asked @
                  [R_fail (''descriptor fixture failed to compile: '' @ trim (sh_read S ''/tmp/jmpxx_abi.err'' w))]) r), w)
             else
               (case sh_system S descriptor_command w of
                  (rc, w) \<Rightarrow>
                    if rc \<noteq> 0 then
                      (finish (report_all (asked @
                         [R_fail (''descriptor fixture failed to run: '' @ trim (sh_read S ''/tmp/jmpxx_abi.err'' w))]) r), w)
                    else
                      (let emitted = sh_read S ''/tmp/jmpxx_abi_layout.txt'' w in
                       case layout_golden S opts emitted w of
                         (settled, w) \<Rightarrow>
                           (finish (report_all (asked @ concat (map layout_metric (described emitted)) @ settled) r), w)))))"

lemma layout_metrics_pass: "passing (concat (map layout_metric ts))"
  by (induction ts) (auto simp: layout_metric_def Let_def split: option.splits)

lemma layout_checks_pass: "passing (layout_checks want emitted) \<longleftrightarrow> want = emitted"
  by (auto simp: layout_checks_def)

lemma layout_run:
  assumes "opts = layout_args args" and "al_fixture opts \<noteq> []" and "al_golden opts \<noteq> []"
    and "cxx = select_cxx S (al_arch opts)" and "cxx \<noteq> []"
    and "leaves S (layout_command S cxx (al_fixture opts)) [(''/tmp/jmpxx_abi_descriptor'', exe), (''/tmp/jmpxx_abi.err'', err)]"
    and "leaves S descriptor_command [(''/tmp/jmpxx_abi_layout.txt'', emitted), (''/tmp/jmpxx_abi.err'', err')]"
    and "al_golden opts \<notin> {''/tmp/jmpxx_abi_descriptor'', ''/tmp/jmpxx_abi.err'', ''/tmp/jmpxx_abi_layout.txt''}"
  obtains w2 where "sh_read S (al_golden opts) w2 = sh_read S (al_golden opts) w"
    "fst (fst (probe_abi_layout S f args w)) = 0 \<longleftrightarrow> passing (fst (layout_golden S opts emitted w2))"
    "snd (probe_abi_layout S f args w) = snd (layout_golden S opts emitted w2)"
proof -
  obtain w1 where w1: "sh_system S (layout_command S cxx (al_fixture opts)) w = (0, w1)"
    "sh_read S (al_golden opts) w1 = sh_read S (al_golden opts) w"
    by (rule leavesE [OF assms(6), of w]) (use assms(8) in auto)
  obtain w2 where w2: "sh_system S descriptor_command w1 = (0, w2)" "sh_read S ''/tmp/jmpxx_abi_layout.txt'' w2 = emitted"
    "sh_read S (al_golden opts) w2 = sh_read S (al_golden opts) w1"
    by (rule leavesE [OF assms(7), of w1]) (use assms(8) in auto)
  obtain settled w3 where "layout_golden S opts emitted w2 = (settled, w3)" by fastforce
  then show thesis
    using assms(2-5) w1 w2 layout_metrics_pass [of "described emitted"]
    by (intro that [of w2]) (simp_all add: probe_abi_layout_def Let_def report_status assms(1) [symmetric])
qed

text \<open>
  The layout gate passes exactly when the descriptor prints the golden, and a golden that
  \<open>abi-layout --update\<close> wrote is accepted by the next run.
\<close>

theorem abi_layout_settles:
  assumes "opts = layout_args args" and "al_fixture opts \<noteq> []" and "al_golden opts \<noteq> []"
    and "cxx = select_cxx S (al_arch opts)" and "cxx \<noteq> []" and "files_hold S"
    and "leaves S (layout_command S cxx (al_fixture opts)) [(''/tmp/jmpxx_abi_descriptor'', exe), (''/tmp/jmpxx_abi.err'', err)]"
    and "leaves S descriptor_command [(''/tmp/jmpxx_abi_layout.txt'', emitted), (''/tmp/jmpxx_abi.err'', err')]"
    and "al_golden opts \<notin> {''/tmp/jmpxx_abi_descriptor'', ''/tmp/jmpxx_abi.err'', ''/tmp/jmpxx_abi_layout.txt''}"
  shows "(\<not> al_update opts \<longrightarrow>
            (fst (fst (probe_abi_layout S f args w)) = 0 \<longleftrightarrow> sh_read S (al_golden opts) w = emitted)) \<and>
         (al_update opts \<longrightarrow> fst (fst (probe_abi_layout S f args w)) = 0 \<longrightarrow>
            sh_read S (al_golden opts) (snd (probe_abi_layout S f args w)) = emitted)"
proof -
  obtain w2 where w2: "sh_read S (al_golden opts) w2 = sh_read S (al_golden opts) w"
    "fst (fst (probe_abi_layout S f args w)) = 0 \<longleftrightarrow> passing (fst (layout_golden S opts emitted w2))"
    "snd (probe_abi_layout S f args w) = snd (layout_golden S opts emitted w2)"
    using layout_run [OF assms(1-5,7-9)] by blast
  show ?thesis
    using w2 assms(6)
    by (auto simp: layout_golden_def layout_checks_pass files_hold_def split: prod.splits if_splits)
qed

end
