(* ===== verification/Verify_Probes.thy ===== *)
theory Verify_Probes
  imports Interop_Bridges Reflect_Layer Verify_Shell
begin

unbundle bit_operations_syntax

text \<open>
  The probes of \<open>verify/main.cpp\<close> that run the library itself, over its model: \<open>size\<close>,
  \<open>semantics\<close>, \<open>levels\<close>, \<open>diagnostics\<close>, \<open>interop\<close>, \<open>reflect\<close> and \<open>platform\<close>, and the dispatch of
  \<open>main\<close>.

  What the compiler decides about types, their sizes and whether they are trivially copyable,
  is a parameter.
\<close>

subsection \<open>Sizes\<close>

text \<open>
  The compiler's answers for a pair of types: the size of the transport and of the
  hand-written form, whether the payloads are trivially copyable and whether the transport
  is; and the size of the transport with one word more.
\<close>

record compiled_sizes =
  got_size :: "string \<Rightarrow> nat"
  budget_size :: "string \<Rightarrow> nat"
  inputs_trivial :: "string \<Rightarrow> bool"
  transport_trivial :: "string \<Rightarrow> bool"
  widened_size :: nat

definition size_check :: "string \<Rightarrow> nat \<Rightarrow> nat \<Rightarrow> bool \<Rightarrow> bool \<Rightarrow> report_op list" where
  "size_check name got budget triv_inputs triv_result =
     [R_num (name @ ''.sizeof'') (int got), R_num (name @ ''.budget'') (int budget)] @
     fail_if (got > budget) (name @ '': transport exceeds the no-overhead budget'') @
     fail_if (triv_inputs \<and> \<not> triv_result)
       (name @ '': trivially copyable inputs did not yield a trivially copyable transport'')"

definition size_pairs :: "string list" where
  "size_pairs = [''int,int'', ''int,error'', ''double,error'', ''char,char'', ''void,error'']"

definition probe_size :: "compiled_sizes \<Rightarrow> fmt \<Rightarrow> string list \<Rightarrow> int \<times> string" where
  "probe_size C f args =
     (let inject = list_ex (\<lambda>a. a = ''--inject-oversize'') args;
          pairs = concat (map (\<lambda>name.
            size_check name (got_size C name) (budget_size C name) (inputs_trivial C name) (transport_trivial C name)) size_pairs);
          injected = (if inject then
            size_check ''int,error.injected_widening'' (widened_size C) (budget_size C ''int,error'') True True
          else []);
          asked = length size_pairs + (if inject then 1 else 0);
          known = (if inject then 6 else 5) in
      finish (report_all
        (pairs @ injected @ [R_num ''cases.asked'' (int asked), R_num ''cases.known'' (int known)] @
         fail_if (asked \<noteq> known)
           (''the size probe measured '' @ show_nat asked @ '' type pairs and the gate expects '' @
            (if inject then ''6'' else ''5'')))
        (report_new f ''size'')))"

text \<open>The transport of a pair costs nothing: it is within the budget and keeps triviality.\<close>

definition costs_nothing :: "compiled_sizes \<Rightarrow> string \<Rightarrow> bool" where
  "costs_nothing C name \<longleftrightarrow>
     got_size C name \<le> budget_size C name \<and> (inputs_trivial C name \<longrightarrow> transport_trivial C name)"

lemma size_pairs_pass:
  "passing (concat (map (\<lambda>name.
     size_check name (got_size C name) (budget_size C name) (inputs_trivial C name) (transport_trivial C name)) ns)) \<longleftrightarrow>
   (\<forall>name\<in>set ns. costs_nothing C name)"
  by (induction ns) (auto simp: size_check_def costs_nothing_def)

lemma probe_size_verdict:
  "fst (probe_size C f args) =
     (if (\<forall>name\<in>set size_pairs. costs_nothing C name) \<and>
         (''--inject-oversize'' \<in> set args \<longrightarrow> widened_size C \<le> budget_size C ''int,error'') then 0 else 1)"
proof -
  have "length size_pairs = 5" by (simp add: size_pairs_def)
  then show ?thesis
    using size_pairs_pass [of C size_pairs]
    by (auto simp: probe_size_def Let_def report_status size_check_def list_ex_iff)
qed


subsection \<open>Semantics and levels\<close>

text \<open>
  Copy and move construction of a result in the form that is viable: the defaulted one copies the
  object.  An expression that does not compile has no behaviour, which \<open>Undefined\<close> stands for.
\<close>

definition construct_copy :: "'v payload \<Rightarrow> 'e payload \<Rightarrow> ('v, 'e) result \<Rightarrow> ('v, 'e) result outcome" where
  "construct_copy V E r =
     (case copy_ctor_forms V E of
        [Defaulted] \<Rightarrow> Returns r
      | [Hand_Written] \<Rightarrow> copy_ctor V E r
      | _ \<Rightarrow> Undefined)"

definition construct_move :: "'v payload \<Rightarrow> 'e payload \<Rightarrow> ('v, 'e) result \<Rightarrow> (('v, 'e) result \<times> ('v, 'e) result) outcome" where
  "construct_move V E r =
     (case move_ctor_forms V E of
        [Defaulted] \<Rightarrow> Returns (r, r)
      | [Hand_Written] \<Rightarrow> move_ctor V E r
      | _ \<Rightarrow> Undefined)"

definition assigned :: "('v, 'e) assignment step_result option \<Rightarrow> ('v, 'e) result outcome" where
  "assigned r =
     (case r of
        Some (Next s) \<Rightarrow> Returns (this s)
      | Some (Unwind s) \<Rightarrow> Throws
      | _ \<Rightarrow> Undefined)"

text \<open>The operator \<open>&&\<close>, and a check on a value or an error that must be held.\<close>

definition and_also :: "bool outcome \<Rightarrow> bool outcome \<Rightarrow> bool outcome" where
  "and_also a b = bind_outcome a (\<lambda>x. if x then b else Returns False)"

definition holds_value :: "('v, 'e) result \<Rightarrow> 'v \<Rightarrow> bool outcome" where
  "holds_value r x = and_also (Returns (has_value r)) (map_outcome_value (\<lambda>v. v = x) (value_checked r))"

definition holds_code :: "('v, error) result \<Rightarrow> c_int \<Rightarrow> bool outcome" where
  "holds_code r c = and_also (Returns (\<not> has_value r)) (map_outcome_value (\<lambda>e. err_code e = c) (error_checked r))"

primrec run_checks :: "(bool outcome \<times> string) list \<Rightarrow> report_op list outcome" where
  "run_checks [] = Returns []"
| "run_checks (c # cs) =
     bind_outcome (fst c) (\<lambda>ok. map_outcome_value (\<lambda>ops. fail_if (\<not> ok) (snd c) @ ops) (run_checks cs))"

text \<open>The checks; \<open>I\<close>, \<open>E\<close> and \<open>U\<close> are the payload operations of \<open>int\<close>, \<open>error\<close> and \<open>detail::unit\<close>.\<close>

definition semantics_checks ::
    "c_int payload \<Rightarrow> error payload \<Rightarrow> (bool outcome \<times> string) list outcome" where
  "semantics_checks I E =
     (let v = result_of_value 7; e = result_of_failure id (fail (mk_error 9 0)) in
      bind_outcome (construct_copy I E v) (\<lambda>c.
      bind_outcome (construct_move I E c) (\<lambda>(m, _).
      bind_outcome (assigned (assign_failure I E id v (fail (mk_error 5 0)))) (\<lambda>v1.
      bind_outcome (assigned (assign_value I E v1 11)) (\<lambda>v2.
      let ok = (result_void :: (unit, error) result); verr = (result_of_failure id (fail (mk_error 2 0)) :: (unit, error) result) in
      Returns
        [(and_also (Returns (has_value v)) (and_also (holds_value v 7) (map_outcome_value (\<lambda>x. x = 7) (deref_checked v))), ''value access''),
         (and_also (Returns (\<not> has_value e)) (holds_code e 9), ''error access''),
         (and_also (map_outcome_value (\<lambda>x. x = 7) (value_or I id v 0)) (map_outcome_value (\<lambda>x. x = - 1) (value_or I id e (- 1))), ''value_or''),
         (holds_value c 7, ''copy keeps the value''),
         (holds_value m 7, ''move keeps the value''),
         (holds_code v1 5, ''value-to-error assignment''),
         (holds_value v2 11, ''error-to-value assignment''),
         (Returns (has_value ok), ''void success''),
         (holds_code verr 2, ''void failure''),
         (result_eq_value (=) (result_of_value 3 :: (c_int, error) result) 3, ''equality against a value''),
         (result_eq_failure error_eq (result_of_failure id (fail (mk_error 4 0)) :: (c_int, error) result) (fail (mk_error 4 0)),
          ''equality against a failure''),
         (result_eq (=) error_eq (result_of_value 3 :: (c_int, error) result) (result_of_value 3), ''equality against a result'')])))))"

definition probe_semantics :: "c_int payload \<Rightarrow> error payload \<Rightarrow> fmt \<Rightarrow> (int \<times> string) outcome" where
  "probe_semantics I E f =
     bind_outcome (semantics_checks I E) (\<lambda>cs.
     bind_outcome (run_checks cs) (\<lambda>ops.
     let checks = int (length cs) in
     Returns (finish (report_all
       (ops @ [R_num ''checks'' checks, R_num ''cases.asked'' checks, R_num ''cases.known'' 12] @
        fail_if (checks \<noteq> 12) (''the semantics probe ran '' @ show_int checks @ '' checks and the gate expects 12''))
       (report_new f ''semantics'')))))"

definition probe_levels :: "fmt \<Rightarrow> int \<times> string" where
  "probe_levels f =
     finish (report_all
       [R_str ''try.cost'' ''one conditional branch; no allocation; no frame'',
        R_str ''try.reach'' ''propagates one frame per use and composes to any depth'',
        R_str ''scope.cost'' ''one call frame unless inlined; no allocation'',
        R_str ''scope.reach'' ''one typed landing boundary for a region'',
        R_num ''cases.asked'' 4, R_num ''cases.known'' 4]
       (report_new f ''levels''))"

lemma probe_semantics_pass: "\<exists>page. probe_semantics trivial_payload trivial_payload f = Returns (0, page)"
  by (simp add: probe_semantics_def semantics_checks_def construct_copy_def construct_move_def copy_ctor_forms_def move_ctor_forms_def shipped_simps
      assigned_def assign_failure_def assign_value_def operator_assign_move_def destroy_temporary_def destroy_def log_event_def
      and_also_def holds_value_def holds_code_def value_checked_def error_checked_def deref_checked_def value_or_def copy_out_def
      result_eq_def result_eq_value_def result_eq_failure_def error_eq_def mk_error_def transport_simps finish_def report_all_fields report_new_def)

lemma probe_levels_pass: "fst (probe_levels f) = 0"
  by (simp add: probe_levels_def report_status)


subsection \<open>Diagnostics\<close>

text \<open>
  The probe in its body after \<open>landing root\<close>; \<open>trc\<close> is \<open>JMPXX_STACKTRACE\<close>, \<open>avail\<close> what
  \<open>trace_available()\<close> says, \<open>at\<close> the source locations of the chain.
\<close>

definition diagnostics_body ::
    "int \<Rightarrow> bool \<Rightarrow> bool \<Rightarrow> trace \<Rightarrow> (nat \<Rightarrow> source_location) \<Rightarrow> fmt \<Rightarrow> (source_location store, int \<times> string) computation" where
  "diagnostics_body mode trc avail t at f =
     (let r = report_new f ''diagnostics'';
          chain = di_chain trc t (shipped_site mode True note_propagation_rich) at;
          bounds = [R_num ''diagnostics_enabled'' 1, R_num ''max_chain'' (int max_chain), R_num ''max_inflight'' (int max_inflight)] in
      after (chain (- 1)) (\<lambda>bad.
      if has_value bad then
        (\<lambda>s. (Returns (finish (report_all (bounds @ [R_fail ''the failure did not propagate to the landing boundary'']) r)), s))
      else
        after (\<lambda>s. (map_outcome_value (\<lambda>e. inspect trc no_location e s) (error_checked bad), s)) (\<lambda>c.
        let shown = bounds @ [R_boolean ''context_available'' (available c)] in
        if \<not> available c then
          (\<lambda>s. (Returns (finish (report_all (shown @ [R_fail ''no diagnostic context was captured for the failure'']) r)), s))
        else
          after (chain 5) (\<lambda>ok.
          after (\<lambda>s. (map_outcome_value rich_base (error_checked bad), s)) (\<lambda>decayed s.
          (Returns (finish (report_all
             (shown @
              [R_str ''origin.function'' (function_name (ctx_origin c)), R_num ''origin.line'' (uint (loc_line (ctx_origin c))),
               R_num ''chain.hops'' (int (ctx_hop_count c)), R_boolean ''chain.truncated'' (ctx_hops_truncated c)] @
              fail_if (ctx_hop_count c \<noteq> 7)
                (''the causal chain did not record each propagation hop (expected 7, got '' @ show_nat (ctx_hop_count c) @ '')'') @
              [R_boolean ''trace_available'' avail] @
              fail_if (\<not> has_value ok) ''the success path did not deliver its value'' @
              fail_if (err_code decayed \<noteq> 7 \<or> err_domain decayed \<noteq> 3)
                ''the rich error did not decay to the minimal error losslessly'')
             r)), s))))))"

definition probe_diagnostics ::
    "int \<Rightarrow> bool \<Rightarrow> bool \<Rightarrow> bool \<Rightarrow> trace \<Rightarrow> (nat \<Rightarrow> source_location) \<Rightarrow> fmt \<Rightarrow> (source_location store, int \<times> string) computation" where
  "probe_diagnostics mode diag trc avail t at f s =
     (if diag then with_landing (diagnostics_body mode trc avail t at f) s
      else
        (Returns (finish (report_all
           [R_num ''diagnostics_enabled'' 0,
            R_note ''diagnostic layer compiled out in this build; the rich policy is identical to the minimal policy'']
           (report_new f ''diagnostics''))), s))"

lemma di_chain_good: "plain_site st \<Longrightarrow> di_chain trc t st at 5 s = (Returns (result_of_value 17), s)"
proof -
  assume st: "plain_site st"
  have "di_leaf trc t at 5 s = (map_outcome_value result_of_value (int_result 10), s)"
    by (simp add: di_leaf_def leaf_of_def c_negative_def c_mul_def)
  from wrappers_value [of st "di_leaf trc t at 5" s _ _ at 7, OF st this] show ?thesis
    by (simp add: di_chain_def int_result_def)
qed

text \<open>
  The diagnostics probe passes from any arena with room.  From a full arena the failure has no
  context, unless a live record happens to have the handle the failure gets.
\<close>

lemma probe_diagnostics_pass:
  assumes "store_ok s" and "depth s < max_inflight"
  shows "\<exists>page s'. probe_diagnostics mode diag trc avail t at f s = (Returns (0, page), s')"
proof (cases diag)
  case True
  let ?st = "shipped_site mode True note_propagation_rich"
  have "c_negative (- 1)" by (simp add: c_negative_def)
  then obtain e s' where e: "di_chain trc t ?st at (- 1) s = (Returns (result_of_failure id (fail e)), s')" "rich_base e = mk_error 7 3"
    "ctx_hop_count (inspect trc no_location e s') = 7"
    using rich_chain_reports_every_hop [OF assms, of "- 1" mode at trc t 7 3 7 no_location] by blast
  have "available (inspect trc no_location e s')"
    using e(3) by (simp add: inspect_def Let_def split: option.splits)
  note e = e this
  have held: "error_checked (result_of_failure id (fail e) :: (c_int, rich_error) result) = Returns e"
    "\<not> has_value (result_of_failure id (fail e) :: (c_int, rich_error) result)" "has_value (result_of_value 17 :: (c_int, rich_error) result)"
    by (simp_all add: error_checked_def transport_simps)
  have "\<exists>page. diagnostics_body mode trc avail t at f s = (Returns (0, page), s')"
    using e
    by (simp add: diagnostics_body_def Let_def after_def held di_chain_good [OF plain_shipped_site] mk_error_def finish_def report_all_fields report_new_def)
  then show ?thesis
    using True by (auto simp: probe_diagnostics_def with_landing_def with_scope_def landing_ctor_def)
qed (simp add: probe_diagnostics_def finish_def report_all_fields report_new_def)

lemma propagate_rich_lost: "store_find (rich_handle e) s = None \<Longrightarrow> propagate_rich e ls s = s"
  by (induction ls) (simp_all add: note_propagation_rich_def add_hop_def)

lemma probe_diagnostics_full:
  assumes "max_inflight \<le> depth s" and "store_find (next_id s) s = None"
  shows "\<exists>page s'. probe_diagnostics mode True trc avail t at f s = (Returns (1, page), s')"
proof -
  let ?st = "shipped_site mode True note_propagation_rich"
  obtain e s1 where m: "make_rich trc t (at 0) 7 3 s = (e, s1)" by (cases "make_rich trc t (at 0) 7 3 s")
  then have lost: "store_find (rich_handle e) s1 = None"
    using assms by (auto simp: make_rich_def mk_rich_def store_open_def store_find_def rich_handle_def Let_def)
  have "di_leaf trc t at (- 1) s = (Returns (result_of_failure id (fail e)), s1)"
    unfolding di_leaf_def by (rule leaf_of_failure) (simp_all add: c_negative_def m)
  from wrappers_failure [of ?st "di_leaf trc t at (- 1)" s e s1, OF plain_shipped_site this, of at 7]
  have chain: "di_chain trc t ?st at (- 1) s = (Returns (result_of_failure id (fail e)), s1)"
    by (simp only: di_chain_def shipped_site_sel fold_detail_hop_rich propagate_rich_lost [OF lost])
  have held: "error_checked (result_of_failure id (fail e) :: (c_int, rich_error) result) = Returns e"
    "\<not> has_value (result_of_failure id (fail e) :: (c_int, rich_error) result)"
    by (simp_all add: error_checked_def transport_simps)
  have "\<not> available (inspect trc no_location e s1)" using lost by (simp add: inspect_def)
  then have "\<exists>page. diagnostics_body mode trc avail t at f s = (Returns (1, page), s1)"
    by (simp add: diagnostics_body_def Let_def after_def chain held finish_def report_all_fields report_new_def)
  then show ?thesis
    by (auto simp: probe_diagnostics_def with_landing_def with_scope_def landing_ctor_def)
qed


subsection \<open>Interoperability\<close>

text \<open>
  The sections of the probe.  \<open>a2\<close> and \<open>a3\<close> are the addresses the allocator gives the categories
  of domains 2 and 3, \<open>generic\<close> the address of \<open>std::generic_category()\<close>.
\<close>

definition interop_expected :: "int \<Rightarrow> c_int payload \<Rightarrow> error payload \<Rightarrow> report_op list outcome" where
  "interop_expected mode I E =
     (let rv = result_of_value 7; re = result_of_failure id (fail (mk_error 9 3));
          back = (\<lambda>r. bind_outcome (to_expected_const mode I E r) (\<lambda>x. map_outcome_value fst (from_expected_rvalue I E x))) in
      map_outcome_value (\<lambda>ok.
          R_boolean ''expected.roundtrip_lossless'' ok # fail_if (\<not> ok) ''std::expected round-trip lost information'')
        (and_also (bind_outcome (back rv) (\<lambda>r. map_outcome_value (\<lambda>v. v = 7) (value_checked r)))
                  (bind_outcome (back re) (\<lambda>r. map_outcome_value (\<lambda>e. error_eq e (mk_error 9 3)) (error_checked r)))))"

definition interop_error_code :: "addr \<Rightarrow> addr \<Rightarrow> addr \<Rightarrow> category_table \<Rightarrow> report_op list outcome \<times> category_table" where
  "interop_error_code a2 a3 generic t =
     (let e = mk_error 5 2;
          (ec, t) = to_error_code a2 e t;
          expose = (error_eq (from_error_code ec t) e \<and> is_jmpxx ec t);
          foreign = \<lparr>ec_value = 22, ec_category = generic\<rparr>;
          carried = (result_of_failure id (fail foreign) :: (c_int, error_code) result);
          foreign_is_jmpxx = is_jmpxx foreign t;
          (p1, t) = category_get a2 2 t; (p2, t) = category_get a2 2 t;
          (p3, t) = category_get a2 2 t; (p4, t) = category_get a3 3 t;
          identity = (p1 = p2 \<and> p3 \<noteq> p4) in
      (map_outcome_value (\<lambda>same.
           let verbatim = (same \<and> \<not> foreign_is_jmpxx) in
           [R_boolean ''error_code.expose_recover_lossless'' expose, R_boolean ''error_code.verbatim_carry'' verbatim,
            R_boolean ''error_code.category_identity_stable'' identity] @
           fail_if (\<not> expose \<or> \<not> verbatim \<or> \<not> identity) ''std::error_code bridge lost fidelity'')
         (map_outcome_value (\<lambda>x. x = foreign) (error_checked carried)), t))"

definition interop_exception :: "int \<Rightarrow> c_int payload \<Rightarrow> error payload \<Rightarrow> report_op list outcome" where
  "interop_exception mode I E =
     (let bad = result_of_failure id (fail (mk_error 42 7)) in
      bind_outcome (construct_copy I E bad) (\<lambda>arg.
      bind_outcome (value_or_throw mode I E arg) (\<lambda>call.
      bind_outcome (catch_into_result I E call (Returns (mk_error (- 1) 0))) (\<lambda>back.
      map_outcome_value (\<lambda>ok.
          R_boolean ''exception.roundtrip_lossless'' ok # fail_if (\<not> ok) ''exception bridge round-trip lost information'')
        (and_also (Returns (\<not> has_value back))
           (map_outcome_value (\<lambda>e. error_eq e (mk_error 42 7)) (error_checked back)))))))"

definition interop_adapt :: "c_int payload \<Rightarrow> report_op list outcome" where
  "interop_adapt I =
     bind_outcome
       (and_also
          (bind_outcome (from_optional_lvalue I (Some 7) (Returns (mk_error 1 0))) (\<lambda>r. map_outcome_value (\<lambda>v. v = 7) (value_checked r)))
          (map_outcome_value (\<lambda>r. \<not> has_value r) (from_optional_lvalue I None (Returns (mk_error 2 0))))) (\<lambda>opt.
     bind_outcome
       (bind_outcome (from_condition I True (Returns 5) (Returns (mk_error 3 0))) (\<lambda>r. map_outcome_value (\<lambda>v. v = 5) (value_checked r))) (\<lambda>cond.
     Returns ([R_boolean ''adapt.from_optional'' opt, R_boolean ''adapt.from_condition'' cond] @
       fail_if (\<not> opt \<or> \<not> cond) ''optional-like adapter failed'')))"

definition probe_interop ::
    "int \<Rightarrow> bool \<Rightarrow> bool \<Rightarrow> c_int payload \<Rightarrow> error payload \<Rightarrow> addr \<Rightarrow> addr \<Rightarrow> addr \<Rightarrow> fmt \<Rightarrow>
     (category_table, int \<times> string) computation" where
  "probe_interop mode has_expected has_bridge I E a2 a3 generic f =
     after (pure_step (if has_expected then interop_expected mode I E else Returns [])) (\<lambda>expected.
     after (interop_error_code a2 a3 generic) (\<lambda>code.
     after (pure_step (if has_bridge then interop_exception mode I E else Returns [])) (\<lambda>exn.
     after (pure_step (interop_adapt I)) (\<lambda>adapt.
     pure_step (Returns (finish (report_all
       ([R_boolean ''expected.available'' has_expected] @ expected @ code @ [R_boolean ''exception.available'' has_bridge] @ exn @ adapt)
       (report_new f ''interop'')))))))) "

lemma interop_sections_pass:
  fixes E :: "error payload"
  assumes "I = trivial_payload" and "E = trivial_payload"
  shows "\<exists>ops. interop_expected mode I E = Returns ops \<and> passing ops"
    and "\<exists>ops. interop_exception mode I E = Returns ops \<and> passing ops"
    and "\<exists>ops. interop_adapt I = Returns ops \<and> passing ops"
  unfolding assms
  by (simp_all add: interop_expected_def interop_exception_def interop_adapt_def Let_def to_expected_const_def from_expected_rvalue_def
      assume_value_def assume_error_def move_out_def copy_out_def and_also_def value_checked_def error_checked_def
      construct_copy_def copy_ctor_forms_def value_or_throw_def catch_into_result_def terminate_noexcept_def
      from_optional_lvalue_def from_condition_def error_eq_def mk_error_def shipped_simps transport_simps)

lemma interop_error_code_pass:
  assumes "table_ok t" and "by_address t a2 = None" and "by_address t a3 = None" and "a2 \<noteq> a3"
    and "by_address t generic = None" and "generic \<noteq> a2"
  shows "\<exists>ops t'. interop_error_code a2 a3 generic t = (Returns ops, t') \<and> passing ops"
proof -
  obtain q t1 where q: "category_get a2 2 t = (q, t1)" by fastforce
  have t1: "table_ok t1" "by_address t1 a3 = None" "by_address t1 generic = None" "by_address t1 q = Some 2"
    using category_get_ok [OF assms(1,2), of 2] category_get_absent [of t a3 a2 2] category_get_absent [of t generic a2 2]
      category_get_entry [OF assms(1,2) q] assms(3-6) by (simp_all add: q)
  then have "by_domain t1 2 = Some q" by (simp add: table_ok_def)
  then have again: "category_get a2 2 t1 = (q, t1)" by (simp add: category_get_def)
  obtain p t2 where p: "category_get a3 3 t1 = (p, t2)" by fastforce
  have "by_address t2 p = Some 3" "by_address t2 q = Some 2"
    using category_get_entry [OF t1(1,2) p] category_get_keeps [OF t1(4,2), of 3] by (simp_all add: p)
  then have "q \<noteq> p" by auto
  moreover have "domain_of q t1 = 2" "domain_of generic t1 = - 1" using t1(3,4) by (simp_all add: domain_of_def)
  ultimately show ?thesis
    by (simp add: interop_error_code_def Let_def to_error_code_def mk_error_def q again p from_error_code_def is_jmpxx_def error_eq_def
      error_checked_def transport_simps)
qed

text \<open>The interop probe passes in every configuration, whatever categories were created before it.\<close>

lemma probe_interop_pass:
  assumes "table_ok t" and "by_address t a2 = None" and "by_address t a3 = None" and "a2 \<noteq> a3"
    and "by_address t generic = None" and "generic \<noteq> a2"
  shows "\<exists>page t'. probe_interop mode has_expected has_bridge trivial_payload trivial_payload a2 a3 generic f t = (Returns (0, page), t')"
proof -
  obtain ops1 ops2 ops3 where ops: "interop_expected mode trivial_payload trivial_payload = Returns ops1" "passing ops1"
    "interop_exception mode trivial_payload trivial_payload = Returns ops2" "passing ops2"
    "interop_adapt trivial_payload = Returns ops3" "passing ops3"
    using interop_sections_pass [OF refl refl] by metis
  obtain code t' where "interop_error_code a2 a3 generic t = (Returns code, t')" "passing code"
    using interop_error_code_pass [OF assms] by blast
  then show ?thesis
    using ops by (simp add: probe_interop_def after_def pure_step_def finish_def report_all_fields report_new_def)
qed


subsection \<open>Reflection and platform\<close>

definition status_enum :: enum_decl where
  "status_enum = \<lparr>enum_type_name = ''status'',
     enumerators = [(''ok'', 0), (''denied'', 7), (''not_found'', 2), (''timeout'', 5)],
     enum_bits = 32, enum_signed = True, scan_min = default_min, scan_max = default_max\<rparr>"

text \<open>\<open>p\<close> is the address of the derived domain's instance and \<open>ds\<close> the program's descriptors.\<close>

definition probe_reflect ::
    "bool \<Rightarrow> bool \<Rightarrow> (int \<Rightarrow> string) \<Rightarrow> string \<Rightarrow> int \<Rightarrow> domains \<Rightarrow> addr \<Rightarrow> fmt \<Rightarrow> (int \<times> string) outcome" where
  "probe_reflect reflection msvc sig type_sig mode ds p f =
     (let D = status_enum;
          name = enum_name reflection msvc sig D;
          ty = type_name reflection msvc type_sig D;
          count = enum_count reflection msvc sig D;
          cast = enum_cast reflection msvc sig D ''denied'';
          fs = failures reflection msvc sig D;
          e = as_erased p 2 in
      bind_outcome (erased_domain_name mode ds e) (\<lambda>domain_name.
      bind_outcome (erased_message mode ds e) (\<lambda>msg.
      let ok = (name 5 = ''timeout'' \<and> ty = ''status'' \<and> count = 4 \<and> length fs = 4 \<and>
                fi_value (fs ! 0) = 0 \<and> fi_name (fs ! 0) = ''ok'' \<and> fi_value (fs ! 3) = 7 \<and> fi_name (fs ! 3) = ''denied'' \<and>
                domain_name = ''status'' \<and> msg = ''not_found'' \<and> cast = Some 7) in
      Returns (finish (report_all
        ([R_num ''reflection_enabled'' (if reflection then 1 else 0), R_str ''type_name'' ty, R_num ''enum_count'' (int count),
          R_str ''name.timeout'' (name 5), R_boolean ''name.unmatched_empty'' (name (to_enum D 99) = []),
          R_boolean ''cast.denied'' (cast = Some 7), R_num ''failures'' (int (length fs)),
          R_num ''enum_range.min'' (scan_min D), R_num ''enum_range.max'' (scan_max D),
          R_str ''erased.domain'' domain_name, R_str ''erased.message'' msg] @
         fail_if (\<not> ok) ''reflection-derived metadata did not match the sample enum'')
        (report_new f ''reflect''))))))"

lemma status_enum_scanned: "well_scanned status_enum"
  by (simp add: well_scanned_def status_enum_def enumerator_scanned_def to_enum_def default_min_def default_max_def range_span_def
      signed_take_bit_int_eq_self is_identifier_def identifier_char_def letter_def)

lemma probe_reflect_pass:
  assumes "prints_enum msvc q status_enum sig" and "compiler_prints msvc ''T = '' (t @ ''status'') type_sig" and "scope_text t"
    and "ds p = Some (reflected_domain reflection msvc sig type_sig status_enum)" and "p \<noteq> 0"
  shows "\<exists>page. probe_reflect reflection msvc sig type_sig mode ds p f = Returns (0, page)"
proof -
  note D = status_enum_scanned
  have id: "is_identifier ''status''" by (simp add: is_identifier_def identifier_char_def letter_def)
  have ty: "type_name reflection msvc type_sig status_enum = ''status''"
    using type_spelling_printed [OF assms(2)] qualified_name_stripped [OF assms(3) id]
    by (simp add: type_name_def status_enum_def)
  have keep: "to_enum status_enum 5 = 5" "to_enum status_enum 99 = 99"
    by (simp_all add: to_enum_def status_enum_def signed_take_bit_int_eq_self)
  have name: "enum_name reflection msvc sig status_enum 5 = ''timeout''"
    using scan_name_agrees [OF D assms(1) keep(1)] by (simp add: enum_name_def meta_name_def status_enum_def)
  have cast: "enum_cast reflection msvc sig status_enum ''denied'' = Some 7"
    using scan_value_agrees [OF D assms(1), of "''denied''"] by (simp add: enum_cast_def meta_cast_def status_enum_def)
  have count: "enum_count reflection msvc sig status_enum = 4"
    using count_agrees [OF D assms(1)] by (simp add: enum_count_def meta_count_def status_enum_def)
  have fails: "failures reflection msvc sig status_enum =
      [\<lparr>fi_value = 0, fi_name = ''ok''\<rparr>, \<lparr>fi_value = 2, fi_name = ''not_found''\<rparr>, \<lparr>fi_value = 5, fi_name = ''timeout''\<rparr>,
       \<lparr>fi_value = 7, fi_name = ''denied''\<rparr>]"
    using build_failures_agrees [OF D assms(1)]
    by (simp add: failures_def meta_failures_def status_enum_def enum_to_int_def signed_take_bit_int_eq_self)
  have "meta_message status_enum 2 = ''not_found''"
    by (simp add: meta_message_def status_enum_def enum_to_int_def signed_take_bit_int_eq_self)
  then have msg: "(if reflection then meta_message status_enum 2 else table_message msvc sig status_enum 2) = ''not_found''"
    using table_message_agrees [OF D assms(1), of 2] meta_message_agrees [OF D, of 2] by simp
  have "erased_domain_name mode ds (as_erased p 2) = Returns ''status''" "erased_message mode ds (as_erased p 2) = Returns ''not_found''"
    using assms(4,5) ty msg by (cases reflection; simp add: as_erased_def policy_simps reflected_domain_def)+
  then show ?thesis
    by (simp add: probe_reflect_def Let_def ty name cast count fails finish_def report_all_fields report_new_def)
qed

definition version_string :: string where
  "version_string = show_int version_major @ ''.'' @ show_int version_minor @ ''.'' @ show_int version_patch"

definition probe_platform :: "macros \<Rightarrow> bool \<Rightarrow> bool \<Rightarrow> fmt \<Rightarrow> int \<times> string" where
  "probe_platform m has_expected has_bridge f =
     finish (report_all
       [R_str ''compiler'' (compiler_name m), R_str ''os'' (os_name m), R_str ''arch'' (arch_name m),
        R_boolean ''hosted'' (is_hosted m), R_num ''cpp_standard'' (jmpxx_cplusplus m),
        R_boolean ''diagnostics_enabled'' (diagnostics_enabled m \<noteq> 0), R_boolean ''exceptions_enabled'' (has_exceptions m),
        R_boolean ''expected_bridge'' has_expected, R_boolean ''exception_bridge'' has_bridge,
        R_str ''version'' version_string, R_num ''version_number'' jmpxx_version]
       (report_new f ''platform''))"

lemma probe_platform_pass: "fst (probe_platform m has_expected has_bridge f) = 0"
  by (simp add: probe_platform_def report_status)


subsection \<open>The program\<close>

text \<open>The command line: the format, the command and the arguments after it.\<close>

primrec main_args :: "string list \<Rightarrow> fmt \<times> string \<times> string list \<Rightarrow> fmt \<times> string \<times> string list" where
  "main_args [] acc = acc"
| "main_args (a # argv) acc =
     (case acc of
        (f, cmd, rest) \<Rightarrow>
          if a = ''--format=json'' then main_args argv (Json, cmd, rest)
          else if a = ''--format=human'' then main_args argv (Human, cmd, rest)
          else if cmd = [] then main_args argv (f, a, rest)
          else main_args argv (f, cmd, rest @ [a]))"

definition commands :: "string list" where
  "commands =
     [''size'', ''alloc'', ''destructors'', ''semantics'', ''levels'', ''policies'', ''diagnostics'', ''interop'', ''reflect'', ''platform'',
      ''unwind'', ''unwind-matrix'', ''unwind-stress'', ''unwind-scale'', ''codegen'', ''release-diff'', ''size-delta'', ''compile-cost'',
      ''abi-layout'']"

text \<open>The probes that \<open>all\<close> runs, in its order.\<close>

definition all_commands :: "string list" where
  "all_commands =
     [''size'', ''alloc'', ''destructors'', ''semantics'', ''levels'', ''policies'', ''diagnostics'', ''interop'', ''reflect'', ''platform'',
      ''unwind'']"

text \<open>
  \<open>main\<close> over the probes, each a function of the format and its arguments on the process's state;
  the result is the exit status and what was printed.
\<close>

type_synonym 'w probes = "string \<Rightarrow> fmt \<Rightarrow> string list \<Rightarrow> 'w \<Rightarrow> (int \<times> string) \<times> 'w"

primrec run_all :: "'w probes \<Rightarrow> fmt \<Rightarrow> string list \<Rightarrow> int \<Rightarrow> 'w \<Rightarrow> (int \<times> string) \<times> 'w" where
  "run_all P f [] rc w = ((rc, []), w)"
| "run_all P f (c # cs) rc w =
     (case P c f [] w of
        ((st, page), w) \<Rightarrow> (case run_all P f cs (rc OR st) w of ((rc, pages), w) \<Rightarrow> ((rc, page @ pages), w)))"

definition harness_main :: "'w probes \<Rightarrow> string list \<Rightarrow> 'w \<Rightarrow> (int \<times> string) \<times> 'w" where
  "harness_main P argv w =
     (case main_args argv (Human, [], []) of
        (f, cmd, rest) \<Rightarrow>
          if cmd \<in> set commands then P cmd f rest w
          else if cmd = ''all'' then run_all P f all_commands 0 w
          else ((2, []), w))"

lemma run_all_status:
  "fst (fst (run_all P f cs rc w)) = 0 \<longleftrightarrow>
     rc = 0 \<and> (\<forall>i<length cs. fst (fst (P (cs ! i) f [] (fold (\<lambda>c w. snd (P c f [] w)) (take i cs) w))) = 0)"
proof (induction cs arbitrary: rc w)
  case (Cons c cs)
  have split: "(\<forall>i<length (c # cs). Q i) \<longleftrightarrow> Q 0 \<and> (\<forall>i<length cs. Q (Suc i))" for Q
    by (auto simp: less_Suc_eq_0_disj)
  show ?case unfolding split using Cons by (auto simp: case_prod_beta or_eq_0_iff)
qed simp

text \<open>The state a computation of the library runs in, and the status it ends with.\<close>

definition ends_with :: "int \<Rightarrow> (int \<times> string) outcome \<Rightarrow> bool" where
  "ends_with st r \<longleftrightarrow> (\<exists>page. r = Returns (st, page))"

text \<open>
  C23. The verdicts of the probes that measure the library, in every hardening mode and build
  configuration and without undefined behaviour, a fail-fast stop or an exception.  The size
  probe passes exactly when every measured transport is within the budget of the hand-written
  form and keeps triviality, and its inverted run only if the widened transport were within
  the budget too.  The destructor probe passes.  The policy probe passes exactly when the
  results over the rich and the erased error are trivially copyable.  The diagnostics probe
  passes without the diagnostic layer and from any arena with room, and fails from a full
  arena in which the next handle is not in use.  The interoperability probe passes whatever
  categories exist, and the reflection probe on the fallback and on the reflection path.
\<close>

theorem library_probes_verdict:
  assumes "plain_site st" and "hook st = note_propagation_default"
    and "store_ok s"
    and "table_ok tab" and "by_address tab a2 = None" and "by_address tab a3 = None" and "a2 \<noteq> a3"
    and "by_address tab generic = None" and "generic \<noteq> a2"
    and "prints_enum msvc q status_enum sig" and "compiler_prints msvc ''T = '' (scope @ ''status'') type_sig" and "scope_text scope"
    and "ds p = Some (reflected_domain reflection msvc sig type_sig status_enum)" and "p \<noteq> 0"
  shows "(fst (probe_size C f args) = 0 \<longleftrightarrow>
            (\<forall>name\<in>set size_pairs. costs_nothing C name) \<and>
            (''--inject-oversize'' \<in> set args \<longrightarrow> widened_size C \<le> budget_size C ''int,error'')) \<and>
         ends_with 0 (probe_destructors st loc f) \<and>
         ends_with (if result_rich_trivial T \<and> result_erased_trivial T then 0 else 1) (probe_policies mode diag trc t g at T s f) \<and>
         ends_with 0 (fst (probe_diagnostics mode False trc avail t at f s)) \<and>
         (depth s < max_inflight \<longrightarrow> ends_with 0 (fst (probe_diagnostics mode diag trc avail t at f s))) \<and>
         (max_inflight \<le> depth s \<and> store_find (next_id s) s = None \<longrightarrow>
            ends_with 1 (fst (probe_diagnostics mode True trc avail t at f s))) \<and>
         ends_with 0 (fst (probe_interop mode has_expected has_bridge trivial_payload trivial_payload a2 a3 generic f tab)) \<and>
         ends_with 0 (probe_reflect reflection msvc sig type_sig mode ds p f)"
proof -
  have "ends_with 0 (probe_destructors st loc f)"
    "ends_with (if result_rich_trivial T \<and> result_erased_trivial T then 0 else 1) (probe_policies mode diag trc t g at T s f)"
    using harness_probes_pass [OF assms(1,2), of loc f mode diag trc t g at T s] by (simp_all add: ends_with_def)
  moreover have "ends_with 0 (fst (probe_diagnostics mode False trc avail t at f s))"
    by (simp add: ends_with_def probe_diagnostics_def finish_def report_all_fields report_new_def)
  moreover have "ends_with 0 (fst (probe_diagnostics mode diag trc avail t at f s))" if "depth s < max_inflight"
    using probe_diagnostics_pass [OF assms(3) that, of mode diag trc avail t at f] by (auto simp: ends_with_def)
  moreover have "ends_with 1 (fst (probe_diagnostics mode True trc avail t at f s))"
    if "max_inflight \<le> depth s" "store_find (next_id s) s = None"
    using probe_diagnostics_full [OF that, of mode trc avail t at f] by (auto simp: ends_with_def)
  moreover have "ends_with 0 (fst (probe_interop mode has_expected has_bridge trivial_payload trivial_payload a2 a3 generic f tab))"
    using probe_interop_pass [OF assms(4-9), of mode has_expected has_bridge f] by (auto simp: ends_with_def)
  moreover have "ends_with 0 (probe_reflect reflection msvc sig type_sig mode ds p f)"
    using probe_reflect_pass [where ds = ds and p = p, OF assms(10-14)] by (simp add: ends_with_def)
  moreover have "fst (probe_size C f args) = 0 \<longleftrightarrow>
      (\<forall>name\<in>set size_pairs. costs_nothing C name) \<and>
      (''--inject-oversize'' \<in> set args \<longrightarrow> widened_size C \<le> budget_size C ''int,error'')"
    by (simp add: probe_size_verdict)
  ultimately show ?thesis by blast
qed

theorem library_probes_verdict_witness:
  "ends_with 0 (fst (probe_diagnostics 2 True False False empty_trace here Json blank_location_store)) \<and>
   ends_with 1 (probe_policies 2 True False empty_trace 0 here
     \<lparr>rich_trivial = False, erased_trivial = True, result_rich_trivial = False, result_erased_trivial = True,
      result_minimal_size = 12, result_rich_size = 16\<rparr> blank_location_store Json) \<and>
   ends_with 0 (fst (probe_interop 2 True True trivial_payload trivial_payload 4096 8192 64 Json empty_table)) \<and>
   ends_with 0 (probe_reflect False False (gcc_signature status_enum) ''type_spelling() [with T = app::status]'' 2
     [4096 \<mapsto> reflected_domain False False (gcc_signature status_enum) ''type_spelling() [with T = app::status]'' status_enum] 4096 Json)"
proof -
  have prints: "prints_enum False ''app::status::'' status_enum (gcc_signature status_enum)"
    by (rule gcc_prints) (simp add: status_enum_def is_identifier_def identifier_char_def letter_def)
  have ty: "compiler_prints False ''T = '' (''app::'' @ ''status'') ''type_spelling() [with T = app::status]''"
    unfolding compiler_prints_def
    by simp (rule exI [of _ "''type_spelling() [with ''"], rule exI [of _ "CHR '']''"], simp)
  have scope: "scope_text ''app::''" by (auto simp: scope_text_def intro!: exI [of _ "''app''"])
  have table: "table_ok empty_table" "by_address empty_table x = None" for x by (simp_all add: table_ok_def empty_table_def)
  have room: "store_ok blank_location_store" "depth blank_location_store < max_inflight"
    by (simp_all add: blank_location_store_def initial_store_def store_ok_def record_ok_def max_inflight_def)
  note all = library_probes_verdict [OF plain_shipped_site [of 0 False note_propagation_default] _ room(1) table(1) table(2) table(2) _ table(2) _ prints ty scope,
      where ?a2.0 = 4096 and ?a3.0 = 8192 and generic = 64 and p = 4096 and reflection = False and mode = 2 and diag = True and trc = False
        and avail = False and t = empty_trace and at = here and loc = here and g = 0 and f = Json and has_expected = True and has_bridge = True
        and args = "[]" and C = "\<lparr>got_size = (\<lambda>_. 12), budget_size = (\<lambda>_. 12), inputs_trivial = (\<lambda>_. True), transport_trivial = (\<lambda>_. True), widened_size = 16\<rparr>"
        and T = "\<lparr>rich_trivial = False, erased_trivial = True, result_rich_trivial = False, result_erased_trivial = True,
          result_minimal_size = 12, result_rich_size = 16\<rparr>"
        and ds = "[4096 \<mapsto> reflected_domain False False (gcc_signature status_enum) ''type_spelling() [with T = app::status]'' status_enum]"]
  show ?thesis using all room(2) by simp
qed

text \<open>
  The dispatch: the format options may stand anywhere, the first other argument is the command and
  the rest are its arguments.  A known command runs its probe, \<open>all\<close> passes exactly when each
  of its eleven probes passes in the state the ones before it left, and anything else exits
  with status 2.
\<close>

definition is_format :: "string \<Rightarrow> bool" where
  "is_format a \<longleftrightarrow> a = ''--format=json'' \<or> a = ''--format=human''"

lemma main_args_rest:
  assumes "cmd \<noteq> []"
  shows "snd (main_args argv (f, cmd, rest)) = (cmd, rest @ filter (\<lambda>a. \<not> is_format a) argv)"
  using assms by (induction argv arbitrary: f rest) (auto simp: is_format_def)

lemma main_args_command:
  assumes "filter (\<lambda>a. \<not> is_format a) argv = c # rest" and "c \<noteq> []"
  shows "snd (main_args argv (f, [], [])) = (c, rest)"
  using assms
proof (induction argv arbitrary: f)
  case (Cons a argv)
  then show ?case
    using main_args_rest [of c argv f "[]"] by (cases "is_format a") (auto simp: is_format_def)
qed simp

theorem harness_main_dispatch:
  assumes "filter (\<lambda>a. \<not> is_format a) argv = c # rest" and "c \<noteq> []" and "f = fst (main_args argv (Human, [], []))"
  shows "(c \<in> set commands \<longrightarrow> harness_main P argv w = P c f rest w) \<and>
         (c = ''all'' \<longrightarrow> (fst (fst (harness_main P argv w)) = 0 \<longleftrightarrow>
            (\<forall>i<length all_commands. fst (fst (P (all_commands ! i) f []
               (fold (\<lambda>c w. snd (P c f [] w)) (take i all_commands) w))) = 0))) \<and>
         (c \<notin> insert ''all'' (set commands) \<longrightarrow> harness_main P argv w = ((2, []), w))"
proof -
  have args: "main_args argv (Human, [], []) = (f, c, rest)"
    using main_args_command [OF assms(1,2), of Human] assms(3) by (metis prod.collapse)
  have "''all'' \<notin> set commands" by (simp add: commands_def)
  then show ?thesis by (auto simp: harness_main_def args run_all_status [of P f all_commands 0 w, simplified])
qed

end
