(* ===== verification/Unwind_Probes.thy ===== *)
theory Unwind_Probes
  imports App_Escape Verify_Shell "HOL-Library.Signed_Division"
begin

unbundle bit_operations_syntax

text \<open>
  The unwind probes of the verification harness (\<open>verify/unwind_probes.cpp\<close>), run on the model of
  the unwind arm: the destructor count of \<open>unwind\<close>, the randomized campaign of \<open>unwind-stress\<close> and
  the classification of \<open>unwind-matrix\<close>.

  The fixture that the matrix runs as a separate process is reached through a shell; the time a
  campaign took is an argument.  Threads share only a flag they read, so a
  campaign is one run of each thread on its own thread-local state.  Counters of type \<open>long
  long\<close> are integers, as no run reaches \<open>2 ^ 63\<close> steps; sums of type \<open>int\<close> outside its range are
  undefined behaviour.
\<close>

subsection \<open>Counting cleanups over one escape\<close>

record unwind_counts =
  c_ctor :: int
  c_dtor :: int

definition with_counted_frame :: "(unwind_counts, 'a) code \<Rightarrow> (unwind_counts, 'a) code" where
  "with_counted_frame body =
     seq (upd (\<lambda>w. w\<lparr>c_ctor := c_ctor w + 1\<rparr>)) (\<lambda>_. guarded (\<lambda>w. w\<lparr>c_dtor := c_dtor w + 1\<rparr>) body)"

primrec cnt_chain :: "escape_env \<Rightarrow> nat \<Rightarrow> (unwind_counts, c_int) code" where
  "cnt_chain E 0 = with_counted_frame (eject_error E (mk_error 7 0))"
| "cnt_chain E (Suc d) = with_counted_frame (cnt_chain E d)"

definition unwind_depth :: nat where "unwind_depth = 8"

definition escape_checks :: "escape_env \<Rightarrow> (unwind_counts, report_op list) code" where
  "escape_checks E =
     seq (upd (\<lambda>w. w\<lparr>c_ctor := 0, c_dtor := 0\<rparr>)) (\<lambda>_.
     seq (landing_scope E (cnt_chain E unwind_depth)) (\<lambda>cr.
     look id (\<lambda>w.
     let balanced = (c_ctor w = c_dtor w \<and> c_ctor w = int unwind_depth + 1) in
     ret ([R_num ''escape.frames'' (int unwind_depth + 1), R_num ''escape.constructed'' (c_ctor w),
           R_num ''escape.destructed'' (c_dtor w), R_boolean ''escape.balanced'' balanced] @
          fail_if (case cr of Inr _ \<Rightarrow> True | Inl e \<Rightarrow> err_code e \<noteq> 7) ''the escape did not deliver its error to the landing'' @
          fail_if (\<not> balanced) ''a destructor was skipped or double-run on the escape path''))))"


subsection \<open>The campaign\<close>

record stress_thread =
  t_ctor :: int
  t_dtor :: int
  t_sink :: int

definition guard_dtor :: "bool \<Rightarrow> nat \<Rightarrow> stress_thread \<Rightarrow> stress_thread" where
  "guard_dtor inject i w =
     (let w = (if \<not> (inject \<and> i = 3) then w\<lparr>t_dtor := t_dtor w + 1\<rparr> else w) in w\<lparr>t_sink := t_sink w + int i\<rparr>)"

definition with_stress_guard :: "bool \<Rightarrow> nat \<Rightarrow> (stress_thread, 'a) code \<Rightarrow> (stress_thread, 'a) code" where
  "with_stress_guard inject i body =
     seq (upd (\<lambda>w. w\<lparr>t_ctor := t_ctor w + 1\<rparr>)) (\<lambda>_. guarded (guard_dtor inject i) body)"

primrec descend :: "escape_env \<Rightarrow> bool \<Rightarrow> bool \<Rightarrow> error \<Rightarrow> nat \<Rightarrow> (stress_thread, c_int) code" where
  "descend E inject escaping payload 0 =
     with_stress_guard inject 0 (
     seq (upd (\<lambda>w. w\<lparr>t_sink := t_sink w + 0\<rparr>)) (\<lambda>_.
     branch escaping (eject_error E payload) (ret 0)))"
| "descend E inject escaping payload (Suc d) =
     with_stress_guard inject (Suc d) (
     seq (upd (\<lambda>w. w\<lparr>t_sink := t_sink w + int (Suc d)\<rparr>)) (\<lambda>_.
     seq (descend E inject escaping payload d) (\<lambda>v. ret (v + 1))))"

text \<open>The generator: the new state and the number drawn.\<close>

definition stress_step :: "c_uint32 \<Rightarrow> c_uint32 \<times> c_uint32" where
  "stress_step state = (let state = state * 1664525 + 1013904223 in (state, drop_bit 16 state))"

record stress_stats =
  st_iterations :: int
  st_escapes :: int
  st_successes :: int
  st_nested :: int
  st_constructed :: int
  st_destructed :: int
  st_wrong_payload :: int
  st_imbalance :: int
  st_leaked_scope :: int
  st_deepest :: int

definition no_stats :: stress_stats where
  "no_stats = \<lparr>st_iterations = 0, st_escapes = 0, st_successes = 0, st_nested = 0, st_constructed = 0,
     st_destructed = 0, st_wrong_payload = 0, st_imbalance = 0, st_leaked_scope = 0, st_deepest = 0\<rparr>"

definition merge_stats :: "stress_stats \<Rightarrow> stress_stats \<Rightarrow> stress_stats" where
  "merge_stats a b =
     \<lparr>st_iterations = st_iterations a + st_iterations b, st_escapes = st_escapes a + st_escapes b,
      st_successes = st_successes a + st_successes b, st_nested = st_nested a + st_nested b,
      st_constructed = st_constructed a + st_constructed b, st_destructed = st_destructed a + st_destructed b,
      st_wrong_payload = st_wrong_payload a + st_wrong_payload b, st_imbalance = st_imbalance a + st_imbalance b,
      st_leaked_scope = st_leaked_scope a + st_leaked_scope b,
      st_deepest = (if st_deepest b > st_deepest a then st_deepest b else st_deepest a)\<rparr>"

definition int_value :: "int \<Rightarrow> c_int option" where
  "int_value i = (if - (2 ^ 31) \<le> i \<and> i < 2 ^ 31 then Some (of_int i) else None)"

definition value_or_code :: "error + c_int \<Rightarrow> c_int" where
  "value_or_code r = (case r of Inr v \<Rightarrow> v | Inl e \<Rightarrow> err_code e)"

definition nested_body :: "escape_env \<Rightarrow> nat \<Rightarrow> (stress_thread, c_int) code \<Rightarrow> (stress_thread, c_int) code" where
  "nested_body E nesting body =
     (if nesting = 0 then body
      else
        seq (landing_scope E
               (if nesting = 1 then body
                else seq (landing_scope E body) (\<lambda>innermost. ret (value_or_code innermost))))
          (\<lambda>inner. ret (value_or_code inner)))"

text \<open>The accounting after the escape.\<close>

definition account ::
    "nat \<Rightarrow> bool \<Rightarrow> nat \<Rightarrow> error \<Rightarrow> error + c_int \<Rightarrow> stress_thread \<Rightarrow> stress_stats \<Rightarrow> stress_stats" where
  "account dep escaping nesting payload r w s =
     (let s = s\<lparr>st_iterations := st_iterations s + 1, st_nested := st_nested s + (if nesting \<noteq> 0 then 1 else 0),
                st_constructed := st_constructed s + t_ctor w, st_destructed := st_destructed s + t_dtor w\<rparr>;
          s = (if int dep > st_deepest s then s\<lparr>st_deepest := int dep\<rparr> else s);
          s = (if t_ctor w \<noteq> t_dtor w then s\<lparr>st_imbalance := st_imbalance s + 1\<rparr> else s);
          wrong = (\<lambda>s. s\<lparr>st_wrong_payload := st_wrong_payload s + 1\<rparr>) in
      if escaping \<and> nesting = 0 then
        (let s = s\<lparr>st_escapes := st_escapes s + 1\<rparr> in
         case r of
           Inr _ \<Rightarrow> wrong s
         | Inl e \<Rightarrow> if err_code e \<noteq> err_code payload \<or> err_domain e \<noteq> of_nat dep then wrong s else s)
      else if escaping then
        (let s = s\<lparr>st_escapes := st_escapes s + 1\<rparr> in
         case r of Inl _ \<Rightarrow> wrong s | Inr v \<Rightarrow> if v \<noteq> err_code payload then wrong s else s)
      else
        (let s = s\<lparr>st_successes := st_successes s + 1\<rparr> in
         case r of Inl _ \<Rightarrow> wrong s | Inr _ \<Rightarrow> s))"

definition one_iteration ::
    "escape_env \<Rightarrow> bool \<Rightarrow> int \<Rightarrow> int \<Rightarrow> c_uint32 \<Rightarrow> stress_stats \<Rightarrow> (stress_thread, c_uint32 \<times> stress_stats) code" where
  "one_iteration E inject thread_id index state s =
     (let (state, r1) = stress_step state; dep = unat (r1 mod 16);
          (state, r2) = stress_step state; escaping = (r2 AND 1 \<noteq> 0);
          (state, r3) = stress_step state; nesting = unat (r3 mod 3) in
      checked (int_value (100000 + thread_id * 1000 + index mod 1000)) (\<lambda>code.
      let payload = mk_error code (of_nat dep) in
      seq (upd (\<lambda>w. w\<lparr>t_ctor := 0, t_dtor := 0\<rparr>)) (\<lambda>_.
      seq (landing_scope E (nested_body E nesting (descend E inject escaping payload dep))) (\<lambda>r.
      look id (\<lambda>w. ret (state, account dep escaping nesting payload r w s))))))"

text \<open>The loops of a thread: iterations from an index on, seeds from a seed on.\<close>

primrec run_iterations ::
    "escape_env \<Rightarrow> bool \<Rightarrow> int \<Rightarrow> nat \<Rightarrow> int \<Rightarrow> c_uint32 \<Rightarrow> stress_stats \<Rightarrow> (stress_thread, stress_stats) code" where
  "run_iterations E inject thread_id 0 i state s = ret s"
| "run_iterations E inject thread_id (Suc n) i state s =
     seq (one_iteration E inject thread_id i state s) (\<lambda>(state, s). run_iterations E inject thread_id n (i + 1) state s)"

primrec run_seeds ::
    "escape_env \<Rightarrow> bool \<Rightarrow> int \<Rightarrow> nat \<Rightarrow> nat \<Rightarrow> int \<Rightarrow> stress_stats \<Rightarrow> (stress_thread, stress_stats) code" where
  "run_seeds E inject thread_id n 0 seed s = ret s"
| "run_seeds E inject thread_id n (Suc k) seed s =
     checked (int_value (thread_id * 7919 + seed * 104729 + 1)) (\<lambda>state.
     seq (run_iterations E inject thread_id n 0 state s) (\<lambda>s. run_seeds E inject thread_id n k (seed + 1) s))"

definition run_thread :: "escape_env \<Rightarrow> bool \<Rightarrow> int \<Rightarrow> nat \<Rightarrow> nat \<Rightarrow> (stress_thread, stress_stats) code" where
  "run_thread E inject thread_id n seeds =
     seq (run_seeds E inject thread_id n seeds 0 no_stats) (\<lambda>s st.
     ret (if active st \<noteq> 0 then s\<lparr>st_leaked_scope := st_leaked_scope s + 1\<rparr> else s) st)"

definition thread_start :: "stress_thread arm" where
  "thread_start = initial_arm \<lparr>t_ctor = 0, t_dtor = 0, t_sink = 0\<rparr>"

text \<open>The threads one after another; \<open>None\<close> when one does not come back with its statistics.\<close>

primrec run_threads :: "escape_env \<Rightarrow> bool \<Rightarrow> nat \<Rightarrow> nat \<Rightarrow> nat list \<Rightarrow> stress_stats list option" where
  "run_threads E inject n seeds [] = Some []"
| "run_threads E inject n seeds (t # ts) =
     (case run_thread E inject (int t) n seeds thread_start of
        (Normal_Flow s, _) \<Rightarrow> map_option (\<lambda>ss. s # ss) (run_threads E inject n seeds ts)
      | _ \<Rightarrow> None)"

record stress_options =
  o_iterations :: int
  o_threads :: int
  o_seeds :: int
  o_inject :: bool

definition stress_args :: "string list \<Rightarrow> stress_options" where
  "stress_args args =
     parse_args
       (\<lambda>a. if a = ''--iterations'' then Some (\<lambda>x opts. opts\<lparr>o_iterations := decimal x\<rparr>)
            else if a = ''--threads'' then Some (\<lambda>x opts. opts\<lparr>o_threads := decimal x\<rparr>)
            else if a = ''--seeds'' then Some (\<lambda>x opts. opts\<lparr>o_seeds := decimal x\<rparr>)
            else None)
       (\<lambda>a opts. if a = ''--inject-imbalance'' then opts\<lparr>o_inject := True\<rparr> else opts) args
       \<lparr>o_iterations = 100000, o_threads = 4, o_seeds = 3, o_inject = False\<rparr>"

text \<open>
  A number outside the range of its type is undefined behaviour, in \<open>atoi\<close> and \<open>atoll\<close> as in
  the sum that spreads the iterations over the threads and seeds: the run has no value.
\<close>

definition fits_int :: "int \<Rightarrow> bool" where
  "fits_int i \<longleftrightarrow> - (2 ^ 31) \<le> i \<and> i < 2 ^ 31"

definition fits_long_long :: "int \<Rightarrow> bool" where
  "fits_long_long i \<longleftrightarrow> - (2 ^ 63) \<le> i \<and> i < 2 ^ 63"

definition probe_unwind_stress :: "escape_env \<Rightarrow> int \<Rightarrow> fmt \<Rightarrow> string list \<Rightarrow> (int \<times> string) option" where
  "probe_unwind_stress E elapsed f args =
     (let opts = stress_args args;
          threads = (if o_threads opts < 1 then 1 else o_threads opts);
          seeds = (if o_seeds opts < 1 then 1 else o_seeds opts);
          r = report_new f ''unwind-stress'' in
      if \<not> (fits_long_long (o_iterations opts) \<and> fits_int (o_threads opts) \<and> fits_int (o_seeds opts)) then None
      else if env_backend E = Backend_None then
        Some (finish (report_note ''the unwind arm has no backend on this target; nothing to drive'' r))
      else if \<not> fits_long_long (o_iterations opts + threads * seeds) then None
      else
        (let per_thread = (o_iterations opts + threads * seeds - 1) sdiv (threads * seeds) in
         map_option (\<lambda>per.
           let total = fold (\<lambda>s t. merge_stats t s) per no_stats in
           finish (report_all
             ([R_num ''cases.asked'' (threads * seeds), R_num ''cases.known'' (threads * seeds),
               R_num ''threads'' threads, R_num ''seeds'' seeds,
               R_num ''iterations'' (st_iterations total), R_num ''escapes'' (st_escapes total),
               R_num ''successes'' (st_successes total), R_num ''nested_scopes'' (st_nested total),
               R_num ''deepest_frame_count'' (st_deepest total), R_num ''constructed'' (st_constructed total),
               R_num ''destructed'' (st_destructed total), R_num ''wrong_payload'' (st_wrong_payload total),
               R_num ''cleanup_imbalance'' (st_imbalance total), R_num ''leaked_landing_stack'' (st_leaked_scope total),
               R_num ''elapsed_ms'' elapsed] @
              fail_if (st_wrong_payload total \<noteq> 0) ''an escape landed with the wrong payload'' @
              fail_if (st_imbalance total \<noteq> 0) ''a destructor was skipped or double-run during the campaign'' @
              fail_if (st_leaked_scope total \<noteq> 0) ''a thread finished with a landing scope still active'' @
              fail_if (st_escapes total + st_successes total \<noteq> st_iterations total)
                ''the campaign did not account for every iteration'')
             r))
           (run_threads E (o_inject opts) (nat per_thread) (nat seeds) [0..<nat threads])))"


subsection \<open>What the probes compute on the arm\<close>

lemma with_counted_frame_embed:
  assumes "body (s\<lparr>world := (world s)\<lparr>c_ctor := c_ctor (world s) + 1\<rparr>\<rparr>) = embed s (r, w)"
  shows "with_counted_frame body s = embed s (r, w\<lparr>c_dtor := c_dtor w + 1\<rparr>)"
proof -
  let ?t = "s\<lparr>world := (world s)\<lparr>c_ctor := c_ctor (world s) + 1\<rparr>\<rparr>"
  have "body ?t = embed ?t (r, w)" using assms by simp
  then have "guarded (\<lambda>w. w\<lparr>c_dtor := c_dtor w + 1\<rparr>) body ?t = embed ?t (r, w\<lparr>c_dtor := c_dtor w + 1\<rparr>)"
    by (rule guarded_embed)
  then show ?thesis by (simp add: with_counted_frame_def)
qed

lemma with_stress_guard_embed:
  assumes "body (s\<lparr>world := (world s)\<lparr>t_ctor := t_ctor (world s) + 1\<rparr>\<rparr>) = embed s (r, w)"
  shows "with_stress_guard inject i body s = embed s (r, guard_dtor inject i w)"
proof -
  let ?t = "s\<lparr>world := (world s)\<lparr>t_ctor := t_ctor (world s) + 1\<rparr>\<rparr>"
  have "body ?t = embed ?t (r, w)" using assms by simp
  then have "guarded (guard_dtor inject i) body ?t = embed ?t (r, guard_dtor inject i w)" by (rule guarded_embed)
  then show ?thesis by (simp add: with_stress_guard_def)
qed

lemma cnt_chain_embed:
  assumes "env_ok E" and "in_scope E s"
  shows "cnt_chain E d s =
    embed s (Inl (mk_error 7 0), (world s)\<lparr>c_ctor := c_ctor (world s) + int d + 1, c_dtor := c_dtor (world s) + int d + 1\<rparr>)"
  using assms(2)
proof (induction d arbitrary: s)
  case 0
  have "cnt_chain E 0 s = embed s (Inl (mk_error 7 0),
      ((world s)\<lparr>c_ctor := c_ctor (world s) + 1\<rparr>)\<lparr>c_dtor := c_dtor ((world s)\<lparr>c_ctor := c_ctor (world s) + 1\<rparr>) + 1\<rparr>)"
    unfolding cnt_chain.simps by (rule with_counted_frame_embed) (use 0 in \<open>simp add: eject_embed [OF assms(1)]\<close>)
  then show ?case by simp
next
  case (Suc d)
  let ?w = "(world s)\<lparr>c_ctor := c_ctor (world s) + int d + 2, c_dtor := c_dtor (world s) + int d + 1\<rparr>"
  have "cnt_chain E (Suc d) s = embed s (Inl (mk_error 7 0), ?w\<lparr>c_dtor := c_dtor ?w + 1\<rparr>)"
    unfolding cnt_chain.simps by (rule with_counted_frame_embed) (use Suc in \<open>simp add: algebra_simps\<close>)
  then show ?case by (simp add: algebra_simps)
qed

definition after_descent :: "bool \<Rightarrow> nat \<Rightarrow> stress_thread \<Rightarrow> stress_thread" where
  "after_descent inject d w =
     w\<lparr>t_ctor := t_ctor w + int d + 1, t_dtor := t_dtor w + int d + 1 - (if inject \<and> 3 \<le> d then 1 else 0),
       t_sink := t_sink w + int (d * (d + 1))\<rparr>"

lemma stress_descend_embed:
  assumes "env_ok E" and "in_scope E s"
  shows "descend E inject escaping payload d s =
    embed s (if escaping then Inl payload else Inr (of_nat d), after_descent inject d (world s))"
  using assms(2)
proof (induction d arbitrary: s)
  case 0
  let ?w = "(world s)\<lparr>t_ctor := t_ctor (world s) + 1\<rparr>"
  have "descend E inject escaping payload 0 s = embed s (if escaping then Inl payload else Inr 0, guard_dtor inject 0 ?w)"
    unfolding descend.simps
    by (rule with_stress_guard_embed) (use 0 in \<open>simp add: branch_def ret_embed eject_embed [OF assms(1)]\<close>)
  then show ?case by (simp add: guard_dtor_def after_descent_def)
next
  case (Suc d)
  let ?u = "s\<lparr>world := (world s)\<lparr>t_ctor := t_ctor (world s) + 1, t_sink := t_sink (world s) + int (Suc d)\<rparr>\<rparr>"
  let ?w = "after_descent inject d (world ?u)"
  have d: "descend E inject escaping payload d ?u = embed ?u (if escaping then Inl payload else Inr (of_nat d), ?w)"
    by (rule Suc.IH) (use Suc.prems in simp)
  then have "seq (descend E inject escaping payload d) (\<lambda>v. ret (v + 1)) ?u =
      embed s (if escaping then Inl payload else Inr (of_nat (Suc d)), ?w)"
    by (cases escaping) (simp_all add: seq_escape seq_value ret_embed add.commute)
  then have "descend E inject escaping payload (Suc d) s =
      embed s (if escaping then Inl payload else Inr (of_nat (Suc d)), guard_dtor inject (Suc d) ?w)"
    unfolding descend.simps by (intro with_stress_guard_embed) simp
  then show ?case by (auto simp: guard_dtor_def after_descent_def Let_def algebra_simps)
qed

lemma nested_body_embed:
  assumes "env_ok E" and "in_scope E s" and "\<And>t. in_scope E t \<Longrightarrow> world t = world s \<Longrightarrow> body t = embed t (r, w)"
  shows "nested_body E nesting body s = embed s (if nesting = 0 then r else Inr (value_or_code r), w)"
proof -
  have land: "landing_scope E c t = (Normal_Flow r', t\<lparr>world := w'\<rparr>)"
    if "in_scope E t" "\<And>u. in_scope E u \<Longrightarrow> world u = world t \<Longrightarrow> c u = embed u (r', w')" for c t r' w'
    using landing_embed [OF assms(1), where body = c and x = "(r', w')" and s = t] that by (simp add: in_scope_def)
  have val: "seq (landing_scope E c) (\<lambda>x. ret (value_or_code x)) t = embed t (Inr (value_or_code r'), w')"
    if "in_scope E t" "\<And>u. in_scope E u \<Longrightarrow> world u = world t \<Longrightarrow> c u = embed u (r', w')" for c t r' w'
    using land [OF that] by (simp add: seq_def bind_flow_def ret_def embed_def)
  have idem: "value_or_code (Inr x) = x" for x by (simp add: value_or_code_def)
  consider "nesting = 0" | "nesting = 1" | "nesting \<noteq> 0" "nesting \<noteq> 1" by blast
  then show ?thesis
  proof cases
    case 1
    then show ?thesis using assms(2,3) by (simp add: nested_body_def)
  next
    case 2
    then show ?thesis using val [OF assms(2,3)] by (simp add: nested_body_def)
  next
    case 3
    have "seq (landing_scope E body) (\<lambda>x. ret (value_or_code x)) u = embed u (Inr (value_or_code r), w)"
      if "in_scope E u" "world u = world s" for u
      using val [OF that(1)] assms(3) that(2) by simp
    from val [OF assms(2) this] 3 show ?thesis by (simp add: nested_body_def idem)
  qed
qed


subsection \<open>The campaign is the tally of its draws\<close>

text \<open>What an iteration draws: the depth, whether it escapes, and the nesting of scopes.\<close>

definition draw :: "c_uint32 \<Rightarrow> c_uint32 \<times> nat \<times> bool \<times> nat" where
  "draw state =
     (let (s1, r1) = stress_step state; (s2, r2) = stress_step s1; (s3, r3) = stress_step s2 in
      (s3, unat (r1 mod 16), r2 AND 1 \<noteq> 0, unat (r3 mod 3)))"

primrec drawn :: "nat \<Rightarrow> c_uint32 \<Rightarrow> (nat \<times> bool \<times> nat) list" where
  "drawn 0 state = []"
| "drawn (Suc n) state = (case draw state of (state, x) \<Rightarrow> x # drawn n state)"

definition caught :: "bool \<Rightarrow> nat \<times> bool \<times> nat \<Rightarrow> bool" where
  "caught inject x \<longleftrightarrow> inject \<and> 3 \<le> fst x"

definition tally :: "bool \<Rightarrow> nat \<times> bool \<times> nat \<Rightarrow> stress_stats \<Rightarrow> stress_stats" where
  "tally inject x s =
     (case x of (d, escaping, nesting) \<Rightarrow>
        s\<lparr>st_iterations := st_iterations s + 1,
          st_escapes := st_escapes s + (if escaping then 1 else 0),
          st_successes := st_successes s + (if escaping then 0 else 1),
          st_nested := st_nested s + (if nesting \<noteq> 0 then 1 else 0),
          st_constructed := st_constructed s + int d + 1,
          st_destructed := st_destructed s + int d + 1 - (if caught inject x then 1 else 0),
          st_imbalance := st_imbalance s + (if caught inject x then 1 else 0),
          st_deepest := max (st_deepest s) (int d)\<rparr>)"

lemma account_tally:
  assumes "t_ctor w = 0" and "t_dtor w = 0" and "err_domain payload = of_nat d"
  shows "account d escaping nesting payload
      (if nesting = 0 then (if escaping then Inl payload else Inr v)
       else Inr (value_or_code (if escaping then Inl payload else Inr v)))
      (after_descent inject d w) s = tally inject (d, escaping, nesting) s"
  using assms
  by (simp add: account_def tally_def after_descent_def caught_def value_or_code_def max_def Let_def)

lemma one_iteration_tally:
  assumes "env_ok E" and "arm_ok st" and "\<not> in_flight st"
    and "0 \<le> tid" and "tid \<le> 2147000" and "0 \<le> i"
  shows "\<exists>w. one_iteration E inject tid i state s st =
    (Normal_Flow (fst (draw state), tally inject (snd (draw state)) s), st\<lparr>world := w\<rparr>)"
proof -
  obtain s1 r1 s2 r2 s3 r3 where steps: "stress_step state = (s1, r1)" "stress_step s1 = (s2, r2)" "stress_step s2 = (s3, r3)"
    by (metis surj_pair)
  let ?d = "unat (r1 mod 16)" and ?e = "r2 AND 1 \<noteq> 0" and ?n = "unat (r3 mod 3)"
  have mod: "0 \<le> i mod 1000" "i mod 1000 < 1000" by simp_all
  then have "100000 + tid * 1000 + i mod 1000 < 2 ^ 31" using assms(5) by simp
  then obtain code where code: "int_value (100000 + tid * 1000 + i mod 1000) = Some code"
    using mod assms(4) by (simp add: int_value_def)
  let ?p = "mk_error code (of_nat ?d)" and ?w = "(world st)\<lparr>t_ctor := 0, t_dtor := 0\<rparr>"
  let ?x = "(if ?n = 0 then (if ?e then Inl ?p else Inr (of_nat ?d))
     else Inr (value_or_code (if ?e then Inl ?p else Inr (of_nat ?d))), after_descent inject ?d ?w)"
  have "nested_body E ?n (descend E inject ?e ?p ?d) t = embed t ?x" if "in_scope E t" "world t = ?w" for t
    using nested_body_embed [OF assms(1) that(1), where body = "descend E inject ?e ?p ?d"] stress_descend_embed [OF assms(1)] that(2)
    by simp
  then have "landing_scope E (nested_body E ?n (descend E inject ?e ?p ?d)) (st\<lparr>world := ?w\<rparr>) =
      (Normal_Flow (fst ?x), st\<lparr>world := snd ?x\<rparr>)"
    using landing_embed [OF assms(1), where s = "st\<lparr>world := ?w\<rparr>" and x = ?x] assms(2,3) by simp
  moreover have "account ?d ?e ?n ?p (fst ?x) (snd ?x) s = tally inject (?d, ?e, ?n) s"
    unfolding fst_conv snd_conv by (rule account_tally) (simp_all add: mk_error_def)
  ultimately show ?thesis
    by (simp add: one_iteration_def steps code draw_def seq_def [of "landing_scope _ _"] bind_flow_def ret_def Let_def) blast
qed

lemma run_iterations_tally:
  assumes "env_ok E" and "0 \<le> tid" and "tid \<le> 2147000"
  shows "arm_ok st \<Longrightarrow> \<not> in_flight st \<Longrightarrow> 0 \<le> i \<Longrightarrow>
    \<exists>w. run_iterations E inject tid n i state s st = (Normal_Flow (fold (tally inject) (drawn n state) s), st\<lparr>world := w\<rparr>)"
proof (induction n arbitrary: i state s st)
  case 0
  then show ?case by (auto simp: ret_def intro!: exI [of _ "world st"])
next
  case (Suc n)
  obtain state' x where x: "draw state = (state', x)" by (cases "draw state")
  obtain w where w: "one_iteration E inject tid i state s st = (Normal_Flow (state', tally inject x s), st\<lparr>world := w\<rparr>)"
    using one_iteration_tally [OF assms(1) Suc.prems(1,2) assms(2,3) Suc.prems(3), of inject state s] x by auto
  obtain w' where "run_iterations E inject tid n (i + 1) state' (tally inject x s) (st\<lparr>world := w\<rparr>) =
      (Normal_Flow (fold (tally inject) (drawn n state') (tally inject x s)), st\<lparr>world := w'\<rparr>)"
    using Suc.IH [of "st\<lparr>world := w\<rparr>" "i + 1"] Suc.prems by force
  then show ?case by (simp add: w x seq_def [of "one_iteration _ _ _ _ _ _"] bind_flow_def) blast
qed

text \<open>Every number a thread is seeded with stays in the range of \<open>int\<close>.\<close>

definition seeds_fit :: "int \<Rightarrow> int \<Rightarrow> bool" where
  "seeds_fit tid seeds \<longleftrightarrow> 0 \<le> tid \<and> tid \<le> 2147000 \<and> tid * 7919 + (seeds - 1) * 104729 + 1 < 2 ^ 31"

text \<open>
  A campaign whose arithmetic stays in range: the options are numbers of their types, the
  seeds fit, and there are few enough iterations that the 64-bit counters, which grow by at
  most 240 in one iteration, cannot overflow.
\<close>

definition campaign_fits :: "stress_options \<Rightarrow> bool" where
  "campaign_fits opts \<longleftrightarrow>
     (let threads = max 1 (o_threads opts); seeds = max 1 (o_seeds opts) in
      - (2 ^ 63) \<le> o_iterations opts \<and> - (2 ^ 31) \<le> o_threads opts \<and> - (2 ^ 31) \<le> o_seeds opts \<and>
      seeds_fit (threads - 1) seeds \<and> o_iterations opts + threads * seeds < 2 ^ 55)"

lemma campaign_fitsD:
  assumes "campaign_fits opts" and "threads = max 1 (o_threads opts)" and "seeds = max 1 (o_seeds opts)"
  shows "seeds_fit (threads - 1) seeds" "fits_long_long (o_iterations opts)" "fits_int (o_threads opts)"
    "fits_int (o_seeds opts)" "fits_long_long (o_iterations opts + threads * seeds)"
proof -
  have pos: "1 \<le> threads" "1 \<le> seeds" using assms(2,3) by simp_all
  then have N: "1 \<le> threads * seeds" using mult_mono [of 1 threads 1 seeds] by simp
  show fit: "seeds_fit (threads - 1) seeds" using assms by (simp add: campaign_fits_def Let_def)
  have lo: "- (2 ^ 63) \<le> o_iterations opts" "- (2 ^ 31) \<le> o_threads opts" "- (2 ^ 31) \<le> o_seeds opts"
    and hi: "o_iterations opts + threads * seeds < 2 ^ 55"
    using assms by (simp_all add: campaign_fits_def Let_def)
  show "fits_long_long (o_iterations opts)" "fits_long_long (o_iterations opts + threads * seeds)"
    using lo(1) hi N by (simp_all add: fits_long_long_def)
  have "threads \<le> 2147001" "(seeds - 1) * 104729 < 2 ^ 31"
    using fit pos by (simp_all add: seeds_fit_def)
  then have "o_threads opts < 2 ^ 31" "o_seeds opts < 2 ^ 31" using assms(2,3) by simp_all
  then show "fits_int (o_threads opts)" "fits_int (o_seeds opts)" using lo by (simp_all add: fits_int_def)
qed

definition thread_draws :: "int \<Rightarrow> nat \<Rightarrow> int \<Rightarrow> nat \<Rightarrow> (nat \<times> bool \<times> nat) list" where
  "thread_draws tid n seed k = concat (map (\<lambda>j. drawn n (of_int (tid * 7919 + (seed + int j) * 104729 + 1))) [0..<k])"

lemma thread_draws_Suc:
  "thread_draws tid n seed (Suc k) = drawn n (of_int (tid * 7919 + seed * 104729 + 1)) @ thread_draws tid n (seed + 1) k"
  unfolding thread_draws_def map_upt_Suc_shift by (simp add: add.assoc)

lemma run_seeds_tally:
  assumes "env_ok E"
  shows "seeds_fit tid (seed + int k) \<Longrightarrow> 0 \<le> seed \<Longrightarrow> arm_ok st \<Longrightarrow> \<not> in_flight st \<Longrightarrow>
    \<exists>w. run_seeds E inject tid n k seed s st = (Normal_Flow (fold (tally inject) (thread_draws tid n seed k) s), st\<lparr>world := w\<rparr>)"
proof (induction k arbitrary: seed s st)
  case 0
  then show ?case by (auto simp: thread_draws_def ret_def intro!: exI [of _ "world st"])
next
  case (Suc k)
  define z where "z = (of_int (tid * 7919 + seed * 104729 + 1) :: c_int)"
  have tid: "0 \<le> tid" "tid \<le> 2147000" and room: "tid * 7919 + (seed + int (Suc k) - 1) * 104729 + 1 < 2 ^ 31"
    using Suc.prems(1) by (simp_all only: seeds_fit_def)
  have "tid * 7919 + seed * 104729 + 1 < 2 ^ 31" using room by simp
  then have state: "int_value (tid * 7919 + seed * 104729 + 1) = Some z"
    using tid Suc.prems(2) by (simp add: int_value_def z_def)
  obtain w where w: "run_iterations E inject tid n 0 z s st =
      (Normal_Flow (fold (tally inject) (drawn n z) s), st\<lparr>world := w\<rparr>)"
    using run_iterations_tally [OF assms tid Suc.prems(3,4), of 0 inject n z s] by auto
  have "seeds_fit tid (seed + 1 + int k)" using Suc.prems(1) by (simp add: add.assoc)
  then obtain w' where "run_seeds E inject tid n k (seed + 1) (fold (tally inject) (drawn n z) s) (st\<lparr>world := w\<rparr>) =
      (Normal_Flow (fold (tally inject) (thread_draws tid n (seed + 1) k) (fold (tally inject) (drawn n z) s)), st\<lparr>world := w'\<rparr>)"
    using Suc.IH [of "seed + 1" "st\<lparr>world := w\<rparr>"] Suc.prems(2-4) by force
  then show ?case
    by (simp add: state w thread_draws_Suc z_def [symmetric] seq_def [of "run_iterations _ _ _ _ _ _ _"] bind_flow_def del: of_int_add of_int_mult) blast
qed

lemma run_thread_tally:
  assumes "env_ok E" and "seeds_fit tid (int k)"
  shows "\<exists>t. run_thread E inject tid n k thread_start = (Normal_Flow (fold (tally inject) (thread_draws tid n 0 k) no_stats), t)"
proof -
  obtain w where "run_seeds E inject tid n k 0 no_stats thread_start =
      (Normal_Flow (fold (tally inject) (thread_draws tid n 0 k) no_stats), thread_start\<lparr>world := w\<rparr>)"
    using run_seeds_tally [OF assms(1), of tid 0 k thread_start inject n no_stats] assms(2) by (auto simp: thread_start_def)
  moreover have "active (thread_start\<lparr>world := w\<rparr>) = 0" by (simp add: thread_start_def initial_arm_def)
  ultimately show ?thesis by (simp add: run_thread_def seq_def [of "run_seeds _ _ _ _ _ _ _"] bind_flow_def ret_def)
qed

lemma run_threads_tally:
  assumes "env_ok E" and "\<forall>t\<in>set ts. seeds_fit (int t) (int k)"
  shows "run_threads E inject n k ts = Some (map (\<lambda>t. fold (tally inject) (thread_draws (int t) n 0 k) no_stats) ts)"
  using assms(2)
proof (induction ts)
  case (Cons t ts)
  then show ?case using run_thread_tally [OF assms(1), of "int t" k inject n] by auto
qed simp

lemma fold_tally_deepest: "0 \<le> st_deepest s \<Longrightarrow> 0 \<le> st_deepest (fold (tally inject) xs s)"
  by (induction xs arbitrary: s) (auto simp: tally_def split: prod.split)

lemma merge_tally: "0 \<le> st_deepest a \<Longrightarrow> merge_stats a (fold (tally inject) xs no_stats) = fold (tally inject) xs a"
proof (induction xs rule: rev_induct)
  case Nil
  then show ?case by (cases a) (simp add: merge_stats_def no_stats_def)
next
  case (snoc x xs)
  have "merge_stats a (tally inject x b) = tally inject x (merge_stats a b)" for b
    by (auto simp: merge_stats_def tally_def max_def split: prod.split)
  then show ?case using snoc by simp
qed

lemma merge_tallies:
  "0 \<le> st_deepest a \<Longrightarrow>
    fold (\<lambda>s t. merge_stats t s) (map (\<lambda>ds. fold (tally inject) ds no_stats) dss) a = fold (tally inject) (concat dss) a"
  by (induction dss arbitrary: a) (simp_all add: merge_tally fold_tally_deepest)

lemma tally_totals:
  "st_wrong_payload (fold (tally inject) xs s) = st_wrong_payload s"
  "st_leaked_scope (fold (tally inject) xs s) = st_leaked_scope s"
  "st_iterations (fold (tally inject) xs s) = st_iterations s + int (length xs)"
  "st_escapes (fold (tally inject) xs s) + st_successes (fold (tally inject) xs s) =
     st_escapes s + st_successes s + int (length xs)"
  "st_imbalance (fold (tally inject) xs s) = st_imbalance s + int (length (filter (caught inject) xs))"
  "st_constructed (fold (tally inject) xs s) - st_destructed (fold (tally inject) xs s) =
     st_constructed s - st_destructed s + int (length (filter (caught inject) xs))"
  by (induction xs arbitrary: s) (auto simp: tally_def split: prod.split)

lemma length_drawn [simp]: "length (drawn n state) = n"
  by (induction n arbitrary: state) (simp_all split: prod.split)

lemma length_thread_draws [simp]: "length (thread_draws tid n seed k) = k * n"
  by (simp add: thread_draws_def length_concat comp_def sum_list_triv)

definition campaign_draws :: "nat \<Rightarrow> nat \<Rightarrow> nat \<Rightarrow> (nat \<times> bool \<times> nat) list" where
  "campaign_draws n seeds threads = concat (map (\<lambda>t. thread_draws (int t) n 0 seeds) [0..<threads])"

lemma length_campaign_draws: "length (campaign_draws n seeds threads) = threads * seeds * n"
  by (simp add: campaign_draws_def length_concat comp_def sum_list_triv)

text \<open>The first iteration of thread 0 always starts from state 1 and draws depth 8.\<close>

lemma first_draw: "fst (snd (draw 1)) = 8"
  by code_simp

lemma campaign_first: "\<exists>x xs. campaign_draws (Suc n) (Suc k) (Suc t) = x # xs \<and> fst x = 8"
proof -
  have "drawn (Suc n) 1 = snd (draw 1) # drawn n (fst (draw 1))" by (simp split: prod.split)
  moreover have "campaign_draws (Suc n) (Suc k) (Suc t) =
      thread_draws 0 (Suc n) 0 (Suc k) @ concat (map (\<lambda>t. thread_draws (int (Suc t)) (Suc n) 0 (Suc k)) [0..<t])"
    unfolding campaign_draws_def map_upt_Suc_shift by simp
  moreover have "thread_draws 0 (Suc n) 0 (Suc k) = drawn (Suc n) 1 @ thread_draws 0 (Suc n) 1 k"
    unfolding thread_draws_Suc by (simp del: drawn.simps)
  ultimately show ?thesis using first_draw by simp
qed

lemma drawn_depth: "x \<in> set (drawn n state) \<Longrightarrow> fst x < 16"
proof (induction n arbitrary: state)
  case (Suc n)
  have "fst (snd (draw state)) < 16"
    by (simp add: draw_def case_prod_beta unat_mod)
  then show ?case using Suc by (cases "draw state") auto
qed simp

lemma campaign_depths: "x \<in> set (campaign_draws n seeds threads) \<Longrightarrow> fst x < 16"
  unfolding campaign_draws_def thread_draws_def by (auto intro: drawn_depth)

lemma tally_guards:
  assumes "\<forall>x\<in>set xs. fst x < 16" and "0 \<le> st_destructed s" "st_destructed s \<le> st_constructed s"
    "st_constructed s \<le> 16 * st_iterations s"
  shows "0 \<le> st_destructed (fold (tally inject) xs s)"
    "st_destructed (fold (tally inject) xs s) \<le> st_constructed (fold (tally inject) xs s)"
    "st_constructed (fold (tally inject) xs s) \<le> 16 * st_iterations (fold (tally inject) xs s)"
proof -
  have "0 \<le> st_destructed (fold (tally inject) xs s) \<and>
    st_destructed (fold (tally inject) xs s) \<le> st_constructed (fold (tally inject) xs s) \<and>
    st_constructed (fold (tally inject) xs s) \<le> 16 * st_iterations (fold (tally inject) xs s)"
    using assms
  proof (induction xs arbitrary: s)
    case (Cons x xs)
    have "fst x < 16" using Cons.prems(1) by simp
    then have "0 \<le> st_destructed (tally inject x s)" "st_destructed (tally inject x s) \<le> st_constructed (tally inject x s)"
      "st_constructed (tally inject x s) \<le> 16 * st_iterations (tally inject x s)"
      using Cons.prems(2-4) by (auto simp: tally_def split: prod.split)
    then show ?case using Cons.IH Cons.prems(1) by simp
  qed simp
  then show "0 \<le> st_destructed (fold (tally inject) xs s)"
    "st_destructed (fold (tally inject) xs s) \<le> st_constructed (fold (tally inject) xs s)"
    "st_constructed (fold (tally inject) xs s) \<le> 16 * st_iterations (fold (tally inject) xs s)"
    by blast+
qed

lemma campaign_caught:
  assumes "0 < seeds" and "0 < threads"
  shows "filter (caught inject) (campaign_draws n seeds threads) = [] \<longleftrightarrow> \<not> (inject \<and> 0 < n)"
proof (cases "inject \<and> 0 < n")
  case True
  then obtain m k t where "n = Suc m" "seeds = Suc k" "threads = Suc t" using assms by (metis gr0_implies_Suc)
  then obtain x xs where "campaign_draws n seeds threads = x # xs" "fst x = 8" using campaign_first by blast
  then show ?thesis using True by (simp add: caught_def)
next
  case False
  then consider "\<not> inject" | "n = 0" by blast
  then show ?thesis
  proof cases
    case 2
    then have "campaign_draws n seeds threads = []" using length_campaign_draws [of n seeds threads] by simp
    then show ?thesis using 2 by simp
  qed (simp add: caught_def)
qed

lemma per_thread_positive:
  assumes "0 < N"
  shows "0 < (i + N - 1) sdiv N \<longleftrightarrow> 0 < (i :: int)"
proof (cases "0 \<le> i + N - 1")
  case True
  then have "(i + N - 1) sdiv N = (i + N - 1) div N"
    using assms by (cases "i + N - 1 = 0") (simp_all add: signed_divide_int_def sgn_if)
  then show ?thesis using assms True by (simp add: pos_imp_zdiv_pos_iff)
next
  case False
  then have "(i + N - 1) sdiv N = - (- (i + N - 1) div N)" using assms by (simp add: signed_divide_int_def)
  moreover have "0 \<le> - (i + N - 1) div N" using False assms by (simp add: pos_imp_zdiv_nonneg_iff)
  ultimately show ?thesis using False assms by simp
qed

text \<open>
  C20. The randomized campaign over the arm finds nothing: on every target with a backend
  and for every campaign whose seeds stay in the range of \<open>int\<close> and that has fewer than
  2 to the 55 iterations, every iteration comes back, every escape lands with its own
  payload at the innermost of up to three nested scopes, no cleanup is skipped and no
  landing scope stays behind, so the probe exits 0; with the injected imbalance it exits 1
  exactly when a positive number of iterations was asked for.  An iteration constructs at
  most 16 guards, so the counters stay in range.
\<close>

theorem stress_campaign_verdict:
  assumes "env_ok E" and "opts = stress_args args" and "threads = max 1 (o_threads opts)" and "seeds = max 1 (o_seeds opts)"
    and "campaign_fits opts"
    and "n = nat ((o_iterations opts + threads * seeds - 1) sdiv (threads * seeds))"
  shows "\<exists>per page. run_threads E (o_inject opts) n (nat seeds) [0..<nat threads] = Some per \<and>
    (let total = fold (\<lambda>s t. merge_stats t s) per no_stats in
       st_wrong_payload total = 0 \<and> st_leaked_scope total = 0 \<and>
       st_escapes total + st_successes total = st_iterations total \<and> st_iterations total = threads * seeds * int n \<and>
       0 \<le> st_destructed total \<and> st_destructed total \<le> st_constructed total \<and>
       st_constructed total \<le> 16 * st_iterations total \<and>
       (st_imbalance total = 0 \<longleftrightarrow> \<not> (o_inject opts \<and> 0 < o_iterations opts))) \<and>
    probe_unwind_stress E elapsed f args = Some (if o_inject opts \<and> 0 < o_iterations opts then 1 else 0, page)"
proof -
  let ?D = "campaign_draws n (nat seeds) (nat threads)"
  define per where "per = map (\<lambda>ds. fold (tally (o_inject opts)) ds no_stats)
      (map (\<lambda>t. thread_draws (int t) n 0 (nat seeds)) [0..<nat threads])"
  define total where "total = fold (\<lambda>s t. merge_stats t s) per no_stats"
  have pos: "1 \<le> threads" "1 \<le> seeds" using assms(3,4) by simp_all
  note fit = campaign_fitsD [OF assms(5,3,4)]
  have "seeds_fit (int t) (int (nat seeds))" if "t \<in> set [0..<nat threads]" for t
  proof -
    have "int t \<le> threads - 1" using that by auto
    then have "int t * 7919 \<le> (threads - 1) * 7919" "int t \<le> threads - 1" by simp_all
    then show ?thesis using fit(1) pos by (simp add: seeds_fit_def)
  qed
  then have ran: "run_threads E (o_inject opts) n (nat seeds) [0..<nat threads] = Some per"
    using run_threads_tally [OF assms(1)] by (simp add: comp_def per_def)
  have total: "total = fold (tally (o_inject opts)) ?D no_stats"
    unfolding total_def per_def campaign_draws_def by (rule merge_tallies) (simp add: no_stats_def)
  have "0 < threads * seeds" using pos by simp
  then have n: "0 < n \<longleftrightarrow> 0 < o_iterations opts" unfolding assms(6) using per_thread_positive by simp
  have "filter (caught (o_inject opts)) ?D = [] \<longleftrightarrow> \<not> (o_inject opts \<and> 0 < n)" using pos by (intro campaign_caught) simp_all
  then have imb: "st_imbalance total = 0 \<longleftrightarrow> \<not> (o_inject opts \<and> 0 < o_iterations opts)"
    unfolding total tally_totals n by (simp add: no_stats_def)
  have sums: "st_wrong_payload total = 0" "st_leaked_scope total = 0"
    "st_escapes total + st_successes total = st_iterations total" "st_iterations total = threads * seeds * int n"
    unfolding total tally_totals length_campaign_draws using pos by (simp_all add: no_stats_def)
  have guards: "0 \<le> st_destructed total" "st_destructed total \<le> st_constructed total"
    "st_constructed total \<le> 16 * st_iterations total"
    unfolding total using tally_guards [where xs = ?D and inject = "o_inject opts" and s = no_stats] by (simp_all add: campaign_depths no_stats_def)
  have "env_backend E \<noteq> Backend_None" using assms(1) by (simp add: env_ok_def)
  moreover have "(if o_threads opts < 1 then 1 else o_threads opts) = threads" "(if o_seeds opts < 1 then 1 else o_seeds opts) = seeds"
    using assms(3,4) by simp_all
  ultimately have "\<exists>x. probe_unwind_stress E elapsed f args = Some x \<and> fst x = (if st_imbalance total = 0 then 0 else 1)"
    using ran sums(1-3) fit(2-5)
    by (simp add: probe_unwind_stress_def Let_def assms(2) [symmetric] assms(6) [symmetric] total_def [symmetric] report_status fail_if_def)
  then have "\<exists>page. probe_unwind_stress E elapsed f args = Some (if st_imbalance total = 0 then 0 else 1, page)"
    by (metis prod.collapse)
  then have "\<exists>page. probe_unwind_stress E elapsed f args = Some (if o_inject opts \<and> 0 < o_iterations opts then 1 else 0, page)"
    using imb by (cases "st_imbalance total = 0") auto
  with ran sums imb guards show ?thesis unfolding Let_def total_def by blast
qed

theorem stress_campaign_verdict_witness:
  "\<exists>page. probe_unwind_stress hosted_env 17 Json [''--threads'', ''8''] = Some (0, page)"
proof -
  have "decimal ''8'' = 8" by code_simp
  then have "\<lparr>o_iterations = 100000, o_threads = 8, o_seeds = 3, o_inject = False\<rparr> = stress_args [''--threads'', ''8'']"
    by (simp add: stress_args_def)
  from stress_campaign_verdict [OF env_ok_hosted this, of 8 3] show ?thesis
    by (simp add: campaign_fits_def seeds_fit_def) blast
qed

text \<open>The deep escape of the \<open>unwind\<close> probe runs each of its nine cleanups once and delivers its error.\<close>

theorem escape_checks_pass:
  assumes "env_ok E" and "arm_ok s" and "\<not> in_flight s"
  shows "\<exists>ops w. escape_checks E s = (Normal_Flow ops, s\<lparr>world := w\<rparr>) \<and> passing ops \<and>
    c_ctor w = 9 \<and> c_dtor w = 9"
proof -
  let ?s = "s\<lparr>world := (world s)\<lparr>c_ctor := 0, c_dtor := 0\<rparr>\<rparr>"
  let ?w = "(world s)\<lparr>c_ctor := 9, c_dtor := 9\<rparr>"
  have "landing_scope E (cnt_chain E unwind_depth) ?s = (Normal_Flow (Inl (mk_error 7 0)), s\<lparr>world := ?w\<rparr>)"
    using landing_embed [OF assms(1), where s = ?s and x = "(Inl (mk_error 7 0), ?w)" and body = "cnt_chain E unwind_depth"]
      assms(2,3) cnt_chain_embed [OF assms(1)]
    by (simp add: unwind_depth_def)
  then show ?thesis
    by (auto simp: escape_checks_def seq_def [of "landing_scope _ _"] bind_flow_def ret_def fail_if_def mk_error_def
        unwind_depth_def)
qed

theorem escape_checks_pass_witness:
  "\<exists>ops w. escape_checks hosted_env (initial_arm \<lparr>c_ctor = 3, c_dtor = 1\<rparr>) = (Normal_Flow ops, (initial_arm \<lparr>c_ctor = 3, c_dtor = 1\<rparr>)\<lparr>world := w\<rparr>) \<and>
    passing ops \<and> c_ctor w = 9 \<and> c_dtor w = 9"
  by (rule escape_checks_pass) simp_all


subsection \<open>The runtime matrix\<close>

text \<open>The rows: a case and the outcomes that are safe for it; and the recorded unsafe cells.\<close>

definition expectations :: "(string \<times> string) list" where
  "expectations =
     [(''no_handler'', ''landed''),
      (''typed_catch'', ''landed''),
      (''catch_all_rethrow'', ''landed terminated''),
      (''catch_all_swallow'', ''landed terminated''),
      (''forced_unwind_idiom'', ''landed terminated unavailable''),
      (''noexcept_barrier'', ''terminated''),
      (''noexcept_landing'', ''landed''),
      (''cleanup_throws_and_catches'', ''landed terminated''),
      (''nested_escape_in_cleanup'', ''terminated''),
      (''reeject_in_cleanup'', ''terminated'')]"

record known_unsafe =
  ku_runtime :: string
  ku_name :: string
  ku_outcome :: string
  ku_why :: string

definition known_unsafe_cells :: "known_unsafe list" where
  "known_unsafe_cells =
     [\<lparr>ku_runtime = ''libcxxrt'', ku_name = ''catch_all_rethrow'', ku_outcome = ''imbalance'',
       ku_why = ''the catching frame's own destructors do not run, and the escape still reaches its landing with the right payload, so the loss is silent''\<rparr>,
      \<lparr>ku_runtime = ''libcxxrt'', ku_name = ''catch_all_swallow'', ku_outcome = ''imbalance'',
       ku_why = ''the catching frame's own destructors do not run when it consumes the escape''\<rparr>,
      \<lparr>ku_runtime = ''libcxxrt'', ku_name = ''noexcept_barrier'', ku_outcome = ''imbalance'',
       ku_why = ''an empty exception specification on the path does not terminate the forced unwind here; the frame is left without running its destructors''\<rparr>]"

text \<open>Extraction of words from a stream.\<close>

fun tokens :: "string \<Rightarrow> string \<Rightarrow> string list" where
  "tokens acc [] = (if acc = [] then [] else [acc])"
| "tokens acc (c # cs) =
     (if is_space c then (if acc = [] then tokens [] cs else acc # tokens [] cs) else tokens (acc @ [c]) cs)"

definition allows :: "string \<Rightarrow> string \<Rightarrow> bool" where
  "allows allowed outcome \<longleftrightarrow> list_ex (\<lambda>token. token = outcome) (tokens [] allowed)"

definition find_known_unsafe :: "string \<Rightarrow> string \<Rightarrow> known_unsafe option" where
  "find_known_unsafe runtime name =
     find (\<lambda>k. name = ku_name k \<and> find_sub (ku_runtime k) runtime \<noteq> None) known_unsafe_cells"

text \<open>The fixture runs through the shell and leaves its answer in the file \<open>tmp\<close>.\<close>

definition case_command :: "string \<Rightarrow> string \<Rightarrow> bool \<Rightarrow> string \<Rightarrow> string" where
  "case_command fixture name inject tmp =
     ''ulimit -c 0 2>/dev/null; DEBUGINFOD_URLS= '' @ fixture @ '' --case '' @ name @
     (if inject then '' --inject-silent-loss'' else []) @ '' > '' @ tmp @ '' 2>&1''"

definition outcome_of :: "string \<Rightarrow> string" where
  "outcome_of out =
     (case rfind_sub ''outcome='' out of
        None \<Rightarrow> ''terminated''
      | Some at \<Rightarrow> takeWhile (\<lambda>c. c \<noteq> CHR '' '' \<and> c \<noteq> newline) (drop (at + 8) out))"

definition run_case :: "'w shell \<Rightarrow> string \<Rightarrow> string \<Rightarrow> bool \<Rightarrow> string \<Rightarrow> 'w \<Rightarrow> string \<times> 'w" where
  "run_case S fixture name inject tmp w =
     (case sh_system S (case_command fixture name inject tmp) w of (_, w) \<Rightarrow> (outcome_of (sh_read S tmp w), w))"

definition query_command :: "string \<Rightarrow> string \<Rightarrow> string \<Rightarrow> string" where
  "query_command fixture flag tmp = fixture @ '' '' @ flag @ '' > '' @ tmp @ '' 2>/dev/null''"

definition run_query :: "'w shell \<Rightarrow> string \<Rightarrow> string \<Rightarrow> string \<Rightarrow> 'w \<Rightarrow> string \<times> 'w" where
  "run_query S fixture flag tmp w =
     (case sh_system S (query_command fixture flag tmp) w of (_, w) \<Rightarrow> (sh_read S tmp w, w))"

definition run_query_line :: "'w shell \<Rightarrow> string \<Rightarrow> string \<Rightarrow> string \<Rightarrow> 'w \<Rightarrow> string \<times> 'w" where
  "run_query_line S fixture flag tmp w =
     (case run_query S fixture flag tmp w of (out, w) \<Rightarrow> (takeWhile (\<lambda>c. c \<noteq> newline) out, w))"

definition listed_names :: "string \<Rightarrow> string list" where
  "listed_names listed = filter (\<lambda>l. l \<noteq> []) (map trim (getlines listed))"

text \<open>One round of the loop after its case ran: what it reports, and whether it met a recorded unsafe cell.\<close>

definition matrix_row :: "string \<Rightarrow> string option" where
  "matrix_row name = fold (\<lambda>e row. if name = fst e then Some (snd e) else row) expectations None"

definition matrix_case :: "string \<Rightarrow> string \<Rightarrow> string \<Rightarrow> report_op list \<times> nat" where
  "matrix_case runtime name outcome =
     (let shown = R_str (''case.'' @ name) outcome in
      case matrix_row name of
        None \<Rightarrow> ([shown, R_fail (''the fixture ran a case the matrix has no expectation for: '' @ name)], 0)
      | Some allowed \<Rightarrow>
          if allows allowed outcome then ([shown], 0)
          else
            (case find_known_unsafe runtime name of
               Some k \<Rightarrow>
                 if outcome = ku_outcome k then ([shown, R_str (''case.'' @ name @ ''.known_unsafe'') (ku_why k)], 1)
                 else ([shown, R_fail (name @ '': this runtime is recorded as producing '' @ [CHR 0x27] @ ku_outcome k @
                          [CHR 0x27] @ '' and produced '' @ [CHR 0x27] @ outcome @ [CHR 0x27] @ ''; the recorded behavior changed'')], 0)
             | None \<Rightarrow>
                 ([shown, R_fail (name @ '': outcome '' @ [CHR 0x27] @ outcome @ [CHR 0x27] @ '' is outside the safe set ('' @
                     allowed @ '')'')], 0)))"

primrec matrix_cases ::
    "'w shell \<Rightarrow> string \<Rightarrow> bool \<Rightarrow> string \<Rightarrow> string \<Rightarrow> string list \<Rightarrow> 'w \<Rightarrow> (report_op list \<times> nat) \<times> 'w" where
  "matrix_cases S fixture inject tmp runtime [] w = (([], 0), w)"
| "matrix_cases S fixture inject tmp runtime (name # cs) w =
     (case run_case S fixture name inject tmp w of
        (outcome, w) \<Rightarrow>
          (case matrix_cases S fixture inject tmp runtime cs w of
             ((ops, seen), w) \<Rightarrow>
               ((fst (matrix_case runtime name outcome) @ ops, snd (matrix_case runtime name outcome) + seen), w)))"

definition unsafe_known :: "string \<Rightarrow> nat" where
  "unsafe_known runtime = length (filter (\<lambda>k. find_sub (ku_runtime k) runtime \<noteq> None) known_unsafe_cells)"

fun matrix_args :: "string list \<Rightarrow> string \<times> bool \<Rightarrow> string \<times> bool" where
  "matrix_args [] opts = opts"
| "matrix_args [a] (fixture, inject) = (fixture, inject \<or> a = ''--inject-silent-loss'')"
| "matrix_args (a # x # rest) (fixture, inject) =
     (if a = ''--fixture'' then matrix_args rest (x, inject)
      else matrix_args (x # rest) (fixture, inject \<or> a = ''--inject-silent-loss''))"

definition probe_unwind_matrix :: "'w shell \<Rightarrow> fmt \<Rightarrow> string list \<Rightarrow> 'w \<Rightarrow> (int \<times> string) \<times> 'w" where
  "probe_unwind_matrix S f args w =
     (case matrix_args args ([], False) of
        (fixture, inject) \<Rightarrow>
          (let r = report_new f ''unwind-matrix'' in
           if fixture = [] then
             (finish (report_all [R_fail ''unwind-matrix requires --fixture <runtime-matrix binary>''] r), w)
           else
             (let tmp = ''/tmp/jmpxx_unwind_matrix.out'' in
              case run_query_line S fixture ''--runtime'' tmp w of
                (runtime, w) \<Rightarrow>
                  (case run_query S fixture ''--list'' tmp w of
                     (listed, w) \<Rightarrow>
                       (let cs = listed_names listed; known = length expectations in
                        case matrix_cases S fixture inject tmp runtime cs w of
                          ((cases, seen), w) \<Rightarrow>
                            (finish (report_all
                               ([R_str ''runtime'' runtime, R_num ''cases.asked'' (int (length cs)),
                                 R_num ''cases.known'' (int known)] @
                                fail_if (length cs \<noteq> known)
                                  (''the fixture listed '' @ show_nat (length cs) @ '' cases and the matrix expects '' @ show_nat known) @
                                cases @
                                [R_num ''cases.known_unsafe_seen'' (int seen),
                                 R_num ''cases.known_unsafe_recorded'' (int (unsafe_known runtime))] @
                                fail_if (seen \<noteq> unsafe_known runtime)
                                  (''this runtime is recorded as leaving '' @ show_nat (unsafe_known runtime) @
                                   '' cell(s) unsafe and produced '' @ show_nat seen) @
                                [R_note ''each row is this runtime's answer, not a portable guarantee; the reference states the per-runtime contract''] @
                                (if unsafe_known runtime \<noteq> 0
                                 then [R_note ''this runtime leaves recorded cells outside the arm's portable guarantee; see the caveats in the unwind reference before putting a handler or an empty exception specification on an escape path here'']
                                 else []))
                               r), w))))))"

text \<open>The cells of the matrix: what is safe anywhere, and what the one recorded runtime leaves unsafe.\<close>

definition safe_cell :: "string \<Rightarrow> string \<Rightarrow> bool" where
  "safe_cell name outcome \<longleftrightarrow>
     (outcome = ''landed'' \<and>
        name \<in> {''no_handler'', ''typed_catch'', ''catch_all_rethrow'', ''catch_all_swallow'', ''forced_unwind_idiom'',
                ''noexcept_landing'', ''cleanup_throws_and_catches''}) \<or>
     (outcome = ''terminated'' \<and>
        name \<in> {''catch_all_rethrow'', ''catch_all_swallow'', ''forced_unwind_idiom'', ''noexcept_barrier'',
                ''cleanup_throws_and_catches'', ''nested_escape_in_cleanup'', ''reeject_in_cleanup''}) \<or>
     (outcome = ''unavailable'' \<and> name = ''forced_unwind_idiom'')"

definition runs_libcxxrt :: "string \<Rightarrow> bool" where
  "runs_libcxxrt runtime \<longleftrightarrow> find_sub ''libcxxrt'' runtime \<noteq> None"

definition recorded_cell :: "string \<Rightarrow> string \<Rightarrow> string \<Rightarrow> bool" where
  "recorded_cell runtime name outcome \<longleftrightarrow> runs_libcxxrt runtime \<and> outcome = ''imbalance'' \<and>
     name \<in> {''catch_all_rethrow'', ''catch_all_swallow'', ''noexcept_barrier''}"

lemma allowed_words:
  "tokens [] ''landed'' = [''landed'']" "tokens [] ''terminated'' = [''terminated'']"
  "tokens [] ''landed terminated'' = [''landed'', ''terminated'']"
  "tokens [] ''landed terminated unavailable'' = [''landed'', ''terminated'', ''unavailable'']"
  by code_simp+

lemma matrix_rows:
  "matrix_row ''no_handler'' = Some ''landed''"
  "matrix_row ''typed_catch'' = Some ''landed''"
  "matrix_row ''catch_all_rethrow'' = Some ''landed terminated''"
  "matrix_row ''catch_all_swallow'' = Some ''landed terminated''"
  "matrix_row ''forced_unwind_idiom'' = Some ''landed terminated unavailable''"
  "matrix_row ''noexcept_barrier'' = Some ''terminated''"
  "matrix_row ''noexcept_landing'' = Some ''landed''"
  "matrix_row ''cleanup_throws_and_catches'' = Some ''landed terminated''"
  "matrix_row ''nested_escape_in_cleanup'' = Some ''terminated''"
  "matrix_row ''reeject_in_cleanup'' = Some ''terminated''"
  by code_simp+

lemma safe_cells:
  "safe_cell ''no_handler'' x \<longleftrightarrow> x = ''landed''"
  "safe_cell ''typed_catch'' x \<longleftrightarrow> x = ''landed''"
  "safe_cell ''catch_all_rethrow'' x \<longleftrightarrow> x = ''landed'' \<or> x = ''terminated''"
  "safe_cell ''catch_all_swallow'' x \<longleftrightarrow> x = ''landed'' \<or> x = ''terminated''"
  "safe_cell ''forced_unwind_idiom'' x \<longleftrightarrow> x = ''landed'' \<or> x = ''terminated'' \<or> x = ''unavailable''"
  "safe_cell ''noexcept_barrier'' x \<longleftrightarrow> x = ''terminated''"
  "safe_cell ''noexcept_landing'' x \<longleftrightarrow> x = ''landed''"
  "safe_cell ''cleanup_throws_and_catches'' x \<longleftrightarrow> x = ''landed'' \<or> x = ''terminated''"
  "safe_cell ''nested_escape_in_cleanup'' x \<longleftrightarrow> x = ''terminated''"
  "safe_cell ''reeject_in_cleanup'' x \<longleftrightarrow> x = ''terminated''"
  by (simp_all add: safe_cell_def)

lemma allowed_outcomes:
  "allows ''landed'' x \<longleftrightarrow> x = ''landed''"
  "allows ''terminated'' x \<longleftrightarrow> x = ''terminated''"
  "allows ''landed terminated'' x \<longleftrightarrow> x = ''landed'' \<or> x = ''terminated''"
  "allows ''landed terminated unavailable'' x \<longleftrightarrow> x = ''landed'' \<or> x = ''terminated'' \<or> x = ''unavailable''"
  unfolding allows_def allowed_words by auto

lemma safe_cell_row: "(\<exists>allowed. matrix_row name = Some allowed \<and> allows allowed outcome) \<longleftrightarrow> safe_cell name outcome"
proof (cases "name \<in> fst ` set expectations")
  case True
  then show ?thesis
    unfolding expectations_def list.set image_insert image_empty fst_conv
    by (elim insertE emptyE) (simp_all only: matrix_rows safe_cells allowed_outcomes option.inject simp_thms ex_simps)
next
  case False
  have "fold (\<lambda>e row. if name = fst e then Some (snd e) else row) es r = r" if "name \<notin> fst ` set es" for es r
    using that by (induction es arbitrary: r) auto
  then have "matrix_row name = None" using False by (simp add: matrix_row_def)
  moreover have "\<not> safe_cell name outcome" using False by (auto simp: safe_cell_def expectations_def)
  ultimately show ?thesis by simp
qed

lemma recorded_cell_row:
  "recorded_cell runtime name outcome \<longleftrightarrow>
     matrix_row name \<noteq> None \<and> (\<exists>k. find_known_unsafe runtime name = Some k \<and> outcome = ku_outcome k)"
proof (cases "name \<in> {''catch_all_rethrow'', ''catch_all_swallow'', ''noexcept_barrier''}")
  case True
  then have "matrix_row name \<noteq> None" by (elim insertE emptyE) (simp_all add: matrix_row_def expectations_def)
  moreover have "find_known_unsafe runtime name =
      (if runs_libcxxrt runtime then find (\<lambda>k. name = ku_name k) known_unsafe_cells else None)"
    using True by (elim insertE emptyE) (simp_all add: runs_libcxxrt_def find_known_unsafe_def known_unsafe_cells_def)
  moreover have "\<exists>k. find (\<lambda>k. name = ku_name k) known_unsafe_cells = Some k \<and> ku_outcome k = ''imbalance''"
    using True by (elim insertE emptyE) (simp_all add: known_unsafe_cells_def)
  ultimately show ?thesis using True by (auto simp: recorded_cell_def)
next
  case False
  then have "find_known_unsafe runtime name = None"
    by (simp add: find_known_unsafe_def known_unsafe_cells_def)
  then show ?thesis using False by (simp add: recorded_cell_def)
qed

lemma recorded_not_safe: "recorded_cell runtime name outcome \<Longrightarrow> \<not> safe_cell name outcome"
  by (simp add: recorded_cell_def safe_cell_def)

lemma matrix_case_verdict:
  "passing (fst (matrix_case runtime name outcome)) \<longleftrightarrow>
     safe_cell name outcome \<or> recorded_cell runtime name outcome"
  "snd (matrix_case runtime name outcome) = (if recorded_cell runtime name outcome then 1 else 0)"
  using recorded_not_safe [of runtime name outcome]
  by (auto simp: matrix_case_def safe_cell_row [symmetric] recorded_cell_row Let_def split: option.splits if_splits)

text \<open>The outcomes of the listed cases, as they are run one after another.\<close>

primrec outcomes :: "'w shell \<Rightarrow> string \<Rightarrow> bool \<Rightarrow> string \<Rightarrow> string list \<Rightarrow> 'w \<Rightarrow> string list" where
  "outcomes S fixture inject tmp [] w = []"
| "outcomes S fixture inject tmp (name # cs) w =
     (case run_case S fixture name inject tmp w of (outcome, w) \<Rightarrow> outcome # outcomes S fixture inject tmp cs w)"

lemma matrix_cases_verdict:
  assumes "cells = zip cs (outcomes S fixture inject tmp cs w)"
  shows "passing (fst (fst (matrix_cases S fixture inject tmp runtime cs w))) \<longleftrightarrow>
      list_all (\<lambda>(name, outcome). safe_cell name outcome \<or> recorded_cell runtime name outcome) cells"
    and "snd (fst (matrix_cases S fixture inject tmp runtime cs w)) =
      length (filter (\<lambda>(name, outcome). recorded_cell runtime name outcome) cells)"
  unfolding assms by (induction cs arbitrary: w) (simp_all add: matrix_case_verdict case_prod_beta)

definition deviating :: "string set" where
  "deviating = {''catch_all_rethrow'', ''catch_all_swallow'', ''noexcept_barrier''}"

lemma recorded_count:
  assumes "distinct (map fst cells)" and "runs_libcxxrt runtime"
  shows "length (filter (\<lambda>(name, outcome). recorded_cell runtime name outcome) cells) = 3 \<longleftrightarrow>
     (\<forall>name\<in>deviating. (name, ''imbalance'') \<in> set cells)"
proof -
  let ?cells = "filter (\<lambda>(name, outcome). recorded_cell runtime name outcome) cells"
  let ?names = "fst ` set ?cells"
  have three: "finite deviating" "card deviating = 3" by (simp_all add: deviating_def)
  have sub: "?names \<subseteq> deviating" by (auto simp: recorded_cell_def deviating_def)
  have "length ?cells = card ?names"
    using distinct_card [of "map fst ?cells"] distinct_map_filter [OF assms(1)] by simp
  then have "length ?cells = 3 \<longleftrightarrow> ?names = deviating"
    using three sub card_subset_eq [OF three(1) sub] by auto
  moreover have "name \<in> ?names \<longleftrightarrow> (name, ''imbalance'') \<in> set cells" if "name \<in> deviating" for name
    using that assms(2) by (force simp: recorded_cell_def deviating_def)
  ultimately show ?thesis using sub by blast
qed

lemma length_outcomes [simp]: "length (outcomes S fixture inject tmp cs w) = length cs"
  by (induction cs arbitrary: w) (simp_all add: case_prod_beta)

text \<open>
  C26. The matrix probe passes exactly when the fixture lists ten cases, each listed case ends in an
  outcome of its safe set or, on libcxxrt, in the unsafe outcome recorded for it, and the
  number of cases that end in a recorded unsafe outcome is the number of recorded cells:
  three on libcxxrt, none elsewhere.  Names are counted, not compared, so a list that
  repeats a case may pass.  Where the listed names are distinct the count says that each of
  the three recorded deviations occurs.
\<close>

theorem unwind_matrix_verdict:
  assumes "matrix_args args ([], False) = (fixture, inject)" and "fixture \<noteq> []" and "tmp = ''/tmp/jmpxx_unwind_matrix.out''"
    and "run_query_line S fixture ''--runtime'' tmp w = (runtime, w1)" and "run_query S fixture ''--list'' tmp w1 = (listed, w2)"
    and "cs = listed_names listed" and "cells = zip cs (outcomes S fixture inject tmp cs w2)"
  shows "(fst (fst (probe_unwind_matrix S f args w)) = 0 \<longleftrightarrow>
     length cs = 10 \<and>
     list_all (\<lambda>(name, outcome). safe_cell name outcome \<or> recorded_cell runtime name outcome) cells \<and>
     length (filter (\<lambda>(name, outcome). recorded_cell runtime name outcome) cells) = (if runs_libcxxrt runtime then 3 else 0)) \<and>
   (distinct cs \<longrightarrow>
     (fst (fst (probe_unwind_matrix S f args w)) = 0 \<longleftrightarrow>
       length cs = 10 \<and>
       list_all (\<lambda>(name, outcome). safe_cell name outcome \<or> recorded_cell runtime name outcome) cells \<and>
       (runs_libcxxrt runtime \<longrightarrow> (\<forall>name\<in>deviating. (name, ''imbalance'') \<in> set cells))))"
proof -
  obtain cases seen w3 where run: "matrix_cases S fixture inject tmp runtime cs w2 = ((cases, seen), w3)"
    by (metis prod.collapse)
  have known: "unsafe_known runtime = (if runs_libcxxrt runtime then 3 else 0)"
    by (simp add: unsafe_known_def runs_libcxxrt_def known_unsafe_cells_def)
  have "length expectations = 10" by (simp add: expectations_def)
  then have verdict: "fst (fst (probe_unwind_matrix S f args w)) = 0 \<longleftrightarrow>
     length cs = 10 \<and>
     list_all (\<lambda>(name, outcome). safe_cell name outcome \<or> recorded_cell runtime name outcome) cells \<and>
     length (filter (\<lambda>(name, outcome). recorded_cell runtime name outcome) cells) = (if runs_libcxxrt runtime then 3 else 0)"
    using assms(1,2,4-6) run known matrix_cases_verdict [OF assms(7), of runtime]
    by (auto simp: probe_unwind_matrix_def Let_def report_status assms(3))
  have "map fst cells = cs" by (simp add: assms(7))
  then have "length (filter (\<lambda>(name, outcome). recorded_cell runtime name outcome) cells) = (if runs_libcxxrt runtime then 3 else 0) \<longleftrightarrow>
      (runs_libcxxrt runtime \<longrightarrow> (\<forall>name\<in>deviating. (name, ''imbalance'') \<in> set cells))" if "distinct cs"
    using that recorded_count [of cells runtime]
    by (cases "runs_libcxxrt runtime") (simp_all add: recorded_cell_def case_prod_beta)
  with verdict show ?thesis by blast
qed

text \<open>A fixture that lists one case ten times.\<close>

definition repeating_fixture :: "files shell" where
  "repeating_fixture = file_shell (\<lambda>cmd.
     [(''/tmp/jmpxx_unwind_matrix.out'',
       if cmd = query_command ''fx'' ''--runtime'' ''/tmp/jmpxx_unwind_matrix.out'' then ''libsupc++'' @ [newline]
       else if cmd = query_command ''fx'' ''--list'' ''/tmp/jmpxx_unwind_matrix.out'' then concat (replicate 10 (''no_handler'' @ [newline]))
       else ''outcome=landed'' @ [newline])])"

theorem unwind_matrix_verdict_witness:
  "fst (fst (probe_unwind_matrix repeating_fixture Human [''--fixture'', ''fx''] (\<lambda>_. []))) = 0"
proof -
  let ?tmp = "''/tmp/jmpxx_unwind_matrix.out''"
  define w1 where "w1 = snd (run_query_line repeating_fixture ''fx'' ''--runtime'' ?tmp (\<lambda>_. []))"
  define w2 where "w2 = snd (run_query repeating_fixture ''fx'' ''--list'' ?tmp w1)"
  have some: "''fx'' \<noteq> []" by simp
  have args: "matrix_args [''--fixture'', ''fx''] ([], False) = (''fx'', False)" by simp
  have runtime: "run_query_line repeating_fixture ''fx'' ''--runtime'' ?tmp (\<lambda>_. []) = (''libsupc++'', w1)"
    by (simp add: w1_def run_query_line_def run_query_def repeating_fixture_def file_shell_def put_files_def newline_def)
  have listed: "run_query repeating_fixture ''fx'' ''--list'' ?tmp w1 = (concat (replicate 10 (''no_handler'' @ [newline])), w2)"
    by (simp add: w2_def run_query_def repeating_fixture_def file_shell_def put_files_def query_command_def)
  have listing: "replicate 10 ''no_handler'' = listed_names (concat (replicate 10 (''no_handler'' @ [newline])))" by code_simp
  have landed: "outcome_of (''outcome=landed'' @ [newline]) = ''landed''" by code_simp
  have "outcomes repeating_fixture ''fx'' False ?tmp (replicate n ''no_handler'') w = replicate n ''landed''" for n w
  proof (induction n arbitrary: w)
    case (Suc n)
    have "fst (run_case repeating_fixture ''fx'' ''no_handler'' False ?tmp w) = ''landed''"
      using landed
      by (simp add: run_case_def repeating_fixture_def file_shell_def put_files_def case_command_def query_command_def)
    then show ?case using Suc by (simp add: case_prod_beta)
  qed simp
  then have cells: "replicate 10 (''no_handler'', ''landed'') =
      zip (replicate 10 ''no_handler'') (outcomes repeating_fixture ''fx'' False ?tmp (replicate 10 ''no_handler'') w2)"
    by (simp add: zip_replicate)
  have "\<not> runs_libcxxrt ''libsupc++''" by code_simp
  moreover have "safe_cell ''no_handler'' ''landed''" by (simp add: safe_cells)
  ultimately show ?thesis
    unfolding unwind_matrix_verdict [OF args some refl runtime listed listing cells, THEN conjunct1]
    by (simp add: recorded_cell_def list_all_iff)
qed

end
