(* ===== verification/Spec2Isabelle.thy ===== *)
theory Spec2Isabelle
  imports Jmpxx_Prelude Platform_Config Transport Transport_Monadic Propagation Diag_Store Rich_Error
    Erased_Error Policy_Chains Interop_Bridges Bench_Kernels Unwind_Arm Unwind_Backend App_Escape
    App_Resolver App_Manifest App_Store_Check Reflect_Layer App_Scene_Audit App_Config Verify_Harness
    App_Verify_Client App_Unwinder_Hooks Lint_Checks
    Verify_Shell Verify_Codegen Verify_Size Verify_Probes Unwind_Probes
begin

text \<open>
  jmpxx: a verification development of the C++20 error-propagation library under
  \<open>src/include/jmpxx\<close>, its reference applications under \<open>src/reference_app\<close>, its verification
  harness under \<open>src/verify\<close>, its lint tool and parts of its benchmarks.

  \<^bold>\<open>The program.\<close>  A function that may fail returns \<open>result<T, E>\<close>, a union of a value and an
  error with a flag (\<open>core/transport.hpp\<close>).  A caller forwards a failure with \<open>JMPXX_TRY\<close>,
  \<open>JMPXX_TRYX\<close> or \<open>JMPXX_TRYV\<close> (\<open>core/propagation.hpp\<close>), which in a debug build also report the
  propagation site through a hook (\<open>core/diagnostic_hook.hpp\<close>).  The error type is a policy:
  minimal (\<open>core/error.hpp\<close>), rich, with a handle into a per-thread arena of causal chains that
  a landing scope releases (\<open>diagnostics.hpp\<close>, \<open>diagnostic/store.hpp\<close>), or type-erased, with the
  address of a domain descriptor (\<open>erased.hpp\<close>) that the reflection layer can derive from an
  enum (\<open>reflect.hpp\<close>).  Bridges convert to and from \<open>std::expected\<close>, \<open>std::error_code\<close>,
  exceptions and optionals (\<open>interop/\<close>).  The unwind arm (\<open>unwind.hpp\<close>, \<open>unwind/\<close>) instead leaves
  several frames at once: \<open>eject\<close> copies the error into the innermost carrier and drives a
  forced unwind to its \<open>escape_scope\<close>.

  \<^bold>\<open>Theories and sources.\<close>
  \<^item> \<open>Jmpxx_Prelude\<close>: machine integers at their width, the outcomes of an expression (a value,
    fail-fast, an exception, undefined behaviour), rendering of numbers, C strings, searching.
  \<^item> \<open>Platform_Config\<close>: \<open>platform/detect.hpp\<close>, \<open>platform/trap.hpp\<close>, \<open>platform/trace.hpp\<close>, \<open>platform.hpp\<close>
    and \<open>core/config.hpp\<close>; the preprocessor ladders as functions of the defined macros.
  \<^item> \<open>Transport\<close>, \<open>Transport_Monadic\<close>: \<open>core/transport.hpp\<close> and \<open>core/detail/utility.hpp\<close>; the union with
    its flag, every special member statement by statement with the lifetimes of both
    alternatives and payload operations that may throw, access, equality, and all overloads of
    the combinators.  A payload type is a record of its operations and traits.
  \<^item> \<open>Propagation\<close>: the minimal error, the hook and the macros, as branches over the rest of the
    enclosing function; automatic objects and the interface of a scoped resource (locale
    \<open>scoped_resource\<close>).
  \<^item> \<open>Diag_Store\<close>, \<open>Rich_Error\<close>: the arena of sixteen records with its handle counter, the rich error
    in its debug and release form, landing, inspection and printing.
  \<^item> \<open>Erased_Error\<close>: descriptors by address and hardened access.
  \<^item> \<open>Policy_Chains\<close>: what a call site relies on of an error policy (locale \<open>error_policy\<close>, interpreted
    on the four shipped representations), and the chains of \<open>verify/main.cpp\<close>.
  \<^item> \<open>Interop_Bridges\<close>: \<open>interop/expected.hpp\<close>, \<open>error_code.hpp\<close>, \<open>exception.hpp\<close>, \<open>adapt.hpp\<close>.
  \<^item> \<open>Bench_Kernels\<close>: the benchmark kernels that use no third-party library.
  \<^item> \<open>Unwind_Arm\<close>, \<open>Unwind_Backend\<close>: \<open>unwind/escape.hpp\<close>, \<open>unwind/backend.hpp\<close>; carriers, eject and scopes
    for programs of calls, objects, scopes and catch-all handlers, the stop function and the
    bytes of the payload.  What a catch-all does to an escape is the C++ runtime's decision and
    a parameter, with the runtimes the documentation measures as instances.
  \<^item> \<open>App_Escape\<close>: programs on the arm, and the interfaces \<open>landing_service\<close> and \<open>escaping_app\<close> through
    which the three applications below serve sequences of requests.
  \<^item> \<open>App_Resolver\<close>: \<open>resolve.hpp\<close> and \<open>config_resolve.cpp\<close>.  \<open>App_Manifest\<close>: \<open>manifest_ta.cpp\<close>.
    \<open>App_Store_Check\<close>: \<open>store_check.cpp\<close>.
  \<^item> \<open>Reflect_Layer\<close>: \<open>reflect.hpp\<close>, both the signature-slicing fallback and the reflection path.
  \<^item> \<open>App_Scene_Audit\<close>: \<open>scene_audit.cpp\<close>.  \<open>App_Config\<close>: \<open>config_validate.cpp\<close> with its three headers
    (locale \<open>app_policy\<close>, interpreted on the minimal and the rich build), and \<open>config_bench.cpp\<close>.
  \<^item> \<open>App_Verify_Client\<close>: \<open>optee_ta/host/verify_client.c\<close> composed with \<open>App_Manifest\<close>; what it relies on of
    the TEE is the locale \<open>tee_host\<close>, interpreted on the direct connection to the application.
    \<open>App_Unwinder_Hooks\<close>: \<open>optee_ta/ta/unwinder_hooks.c\<close>.
  \<^item> \<open>Lint_Checks\<close>: the callback of \<open>lint/jmpxx_lint.cpp\<close>.
  \<^item> \<open>Verify_Harness\<close>: \<open>verify/reporter.hpp\<close>, \<open>verify/support.hpp\<close>, and the destructor and policy probes of
    \<open>verify/main.cpp\<close>.  \<open>Verify_Probes\<close>: its other probes that run the library, and \<open>main\<close>.
    \<open>Verify_Shell\<close>: processes, files, clock and command lines as the remaining probes use them.
    \<open>Verify_Codegen\<close>: \<open>codegen\<close> and \<open>release-diff\<close> with the normalization of assembly.
    \<open>Verify_Size\<close>: \<open>size-delta\<close>, \<open>compile-cost\<close> and \<open>abi-layout\<close>.
  \<^item> \<open>Unwind_Probes\<close>: \<open>verify/unwind_probes.cpp\<close>, run on \<open>Unwind_Arm\<close>.

  \<^bold>\<open>What is shown.\<close>
  \<^item> Transport: assignment never leaves a result without its alternative, also when a payload
    operation throws; constructions and destructions balance; assignment has value semantics;
    access is checked; the combinators implement their reference on value-or-error.
  \<^item> Propagation and policies: a macro is one branch with one hook call; the arena implements a
    bounded stack of chains, a live handle resolves to its own record and a released one to
    nothing; a rich error's context is its causal chain; a policy-neutral body lands the same
    value, or the same code and domain, under the minimal, rich and release policy, and the
    number they fold to under the erased one; destructors run once.
  \<^item> Bridges, erased errors and reflection: round trips, the equality of the two derivations
    for enums of distinct values in range, and how they differ for aliased enumerators and for
    unsigned bytes beyond the range.
  \<^item> Unwind arm: on every backend and C++ runtime any well-typed program ends as a reference
    semantics of structured escapes says, the forced unwind reaches exactly its landing, and the error arrives unchanged.
  \<^item> Applications: each always lands, decides exactly its specification (expansions of keys, chains
    of verified images, chains of valid records, clean scene trees, the first problem of a
    configuration), never steps into undefined behaviour, and answers every request of a session
    as a fresh instance would.
  \<^item> The trusted application's client: what its builder writes is what the application reads, and
    its conversation ends as it expects.  The hooks find the object that covers an address.
  \<^item> Lint: a report holds exactly the findings of its file, in source order, whatever order the
    matches come in; over several files every report contains the
    earlier ones, with an exact account of what it lists again.
  \<^item> Harness: reports read back; the verdicts of the probes over the modelled library are exact; the
    campaign over the unwind arm finds nothing as long as its arithmetic stays in range; each gate that runs tools passes
    exactly when what it checks holds, as a reference states it: bodies equal up to a renaming of
    labels, growth within a budget, a golden that was reproduced, outcomes that are safe.

  \<^bold>\<open>Bounds and termination.\<close>  Recursion in the code that is bounded by a depth check is a total
  function whose termination is proved: \<open>max_depth\<close> 64 in the resolver, 6 entries in the manifest
  verifier and 8 records in the store checker, where the measure is the room left below the
  limit; the scene audit recurses on the tree, and the searches of the harness advance through
  their text.  The only fuel is that of the reference reader of JSON
  reports, and as many steps as the report has items are shown to be enough.  Arithmetic on
  signed integers that leaves its range is undefined behaviour and a value of the model;
  properties that need it assume sizes below the range (fewer than \<open>2 ^ 31\<close> nodes of a tree, a
  campaign whose seeds fit and that has fewer than \<open>2 ^ 55\<close> iterations, so that its \<open>long long\<close>
  counters, which are integers of the model, cannot overflow).

  \<^bold>\<open>What is a parameter.\<close>  The platform unwinder and its ABI, what the C++ runtime does with a
  catch-all on an escape's path, \<open>backtrace\<close>, what a compiler prints for a template argument, the
  sizes and traits it computes, payload types, SHA-256 and the TEE's operation allocator, the TEE client
  library, \<open>dl_iterate_phdr\<close>, the matches Clang delivers, littlefs,
  parsed TOML tables, glaze and the engine's tree; compilers, tools, files, environment and
  clock of the harness (record \<open>shell\<close>).  Each hypothesis states documented behaviour,
  and each property that has one has a witness on a concrete instance.

  \<^bold>\<open>Not modelled.\<close>  The amalgamated headers are generated from the modelled ones.  Of the
  harness, the \<open>alloc\<close> probe counts calls of \<open>operator new\<close>, which a model of values and states has
  no place for, and the latency distributions of \<open>unwind\<close> and the whole of \<open>unwind-scale\<close> compare
  quotients of measured times in floating point.  The
  lint tool's matcher expressions mean what the LLVM library says, so only the callback they drive
  is modelled.  The kernels and drivers that compare third-party mechanisms, board start-up code
  and the engine's registration glue have no logic of the library.  Concurrency of the
  \<open>std::error_code\<close> category table is modelled by atomic operations; every other state is
  thread-local.
\<close>

end
